(* ===== verification/Prelude.thy ===== *)
theory Prelude
  imports Main "HOL-Library.Word"
begin

text \<open>
  What every component of the development shares: byte strings and machine words, Go's error
  values and panics as a result type, the state-passing composition of operations that may fail
  after having changed the state, the integer and text codecs of Go's standard library that the
  sources call (\<^verbatim>\<open>encoding/binary\<close>, \<^verbatim>\<open>math/big\<close>, \<^verbatim>\<open>encoding/hex\<close>, \<^verbatim>\<open>path\<close>), and the lemmas on
  association lists and sums the components use.
\<close>

section \<open>Types\<close>

type_synonym u8 = "8 word"
type_synonym u16 = "16 word"
type_synonym u32 = "32 word"
type_synonym u64 = "64 word"
type_synonym bytes = "u8 list"

text \<open>A go-ethereum \<^verbatim>\<open>common.Address\<close> is an array of 20 bytes; it is kept as the list of them, so
  that its method \<^verbatim>\<open>Bytes()\<close> is the identity.\<close>

type_synonym address = bytes

text \<open>The lemma collections: reading back what an operation stored, what an operation leaves
  alone, and the unfolding of the result monad.\<close>

named_theorems store_simps
named_theorems frame_simps
named_theorems res_simps

section \<open>Errors, results and panics\<close>

text \<open>The package's error variables are constructors of their own. \<open>Errf\<close> is \<^verbatim>\<open>fmt.Errorf\<close> without
  \<^verbatim>\<open>%w\<close> (its format stands for the message), \<open>Wrapf\<close> is \<^verbatim>\<open>fmt.Errorf\<close> with \<^verbatim>\<open>%w\<close>, which keeps the wrapped
  error visible to \<^verbatim>\<open>errors.Is\<close>.\<close>

datatype err =
    ErrVoteDoesNotExist
  | ErrNotEnoughBalance
  | ErrAccountNonceInvalid
  | ErrProcessNotFound
  | ErrBalanceOverflow
  | ErrAccountNotExist
  | ErrAccountAlreadyExists
  | ErrNilTx
  | ErrorAlreadyExistInCache
  | ErrProcessChildLeafRootUnknown
  | ErrKeyNotFound
  | ErrKeyAlreadyExists
  | ErrHaltVochain
  | Errf string
  | Wrapf string err

fun errors_is :: "err \<Rightarrow> err \<Rightarrow> bool" where
  "errors_is (Wrapf m e) t = (Wrapf m e = t \<or> errors_is e t)"
| "errors_is e t = (e = t)"

text \<open>A call returns a value, an error, or panics (an index out of range, a nil dereference).\<close>

datatype 'a res = Ok 'a | Fail err | Panic string

fun is_ok :: "'a res \<Rightarrow> bool" where
  "is_ok (Ok _) = True"
| "is_ok (Fail _) = False"
| "is_ok (Panic _) = False"

fun rbind :: "'a res \<Rightarrow> ('a \<Rightarrow> 'b res) \<Rightarrow> 'b res" where
  "rbind (Ok a) k = k a"
| "rbind (Fail e) k = Fail e"
| "rbind (Panic m) k = Panic m"

text \<open>\<^verbatim>\<open>if err != nil { return fmt.Errorf("msg: %w", err) }\<close> and its \<^verbatim>\<open>%s\<close> variant.\<close>

fun wrap :: "string \<Rightarrow> 'a res \<Rightarrow> 'a res" where
  "wrap m (Ok a) = Ok a"
| "wrap m (Fail e) = Fail (Wrapf m e)"
| "wrap m (Panic p) = Panic p"

fun hide :: "string \<Rightarrow> 'a res \<Rightarrow> 'a res" where
  "hide m (Ok a) = Ok a"
| "hide m (Fail e) = Fail (Errf m)"
| "hide m (Panic p) = Panic p"

definition of_option :: "err \<Rightarrow> 'a option \<Rightarrow> 'a res" where
  "of_option e x = (case x of None \<Rightarrow> Fail e | Some a \<Rightarrow> Ok a)"

text \<open>Reading a slice at an index: Go panics out of range.\<close>

definition index_at :: "'a list \<Rightarrow> nat \<Rightarrow> 'a res" where
  "index_at xs i = (if i < length xs then Ok (xs ! i) else Panic ''index out of range'')"

text \<open>An operation on a state returns its result and the state it leaves behind: an error does not
  undo what was written before it.\<close>

fun and_then :: "'a res \<times> 's \<Rightarrow> ('a \<Rightarrow> 's \<Rightarrow> 'b res \<times> 's) \<Rightarrow> 'b res \<times> 's" where
  "and_then (Ok a, s) k = k a s"
| "and_then (Fail e, s) k = (Fail e, s)"
| "and_then (Panic m, s) k = (Panic m, s)"

text \<open>The early return of a computation that only reads the state.\<close>

fun with_res :: "'a res \<Rightarrow> 's \<Rightarrow> ('a \<Rightarrow> 'b res \<times> 's) \<Rightarrow> 'b res \<times> 's" where
  "with_res (Ok a) s k = k a"
| "with_res (Fail e) s k = (Fail e, s)"
| "with_res (Panic m) s k = (Panic m, s)"

definition wrap_st :: "string \<Rightarrow> 'a res \<times> 's \<Rightarrow> 'a res \<times> 's" where
  "wrap_st m r = (wrap m (fst r), snd r)"

definition hide_st :: "string \<Rightarrow> 'a res \<times> 's \<Rightarrow> 'a res \<times> 's" where
  "hide_st m r = (hide m (fst r), snd r)"

lemma is_ok_iff: "is_ok r \<longleftrightarrow> (\<exists>a. r = Ok a)"
  by (cases r) auto

lemma rbind_Ok_iff [res_simps]: "rbind r k = Ok b \<longleftrightarrow> (\<exists>a. r = Ok a \<and> k a = Ok b)"
  by (cases r) auto

lemma wrap_Ok_iff [res_simps]: "wrap m r = Ok a \<longleftrightarrow> r = Ok a"
  by (cases r) auto

lemma hide_Ok_iff [res_simps]: "hide m r = Ok a \<longleftrightarrow> r = Ok a"
  by (cases r) auto

lemma of_option_Ok_iff [res_simps]: "of_option e x = Ok a \<longleftrightarrow> x = Some a"
  by (cases x) (auto simp: of_option_def)

lemma index_at_Ok_iff [res_simps]: "index_at xs i = Ok a \<longleftrightarrow> i < length xs \<and> xs ! i = a"
  by (auto simp: index_at_def)

lemma and_then_Ok_iff [res_simps]:
  "and_then r k = (Ok b, s') \<longleftrightarrow> (\<exists>a s. r = (Ok a, s) \<and> k a s = (Ok b, s'))"
  by (cases "(r, k)" rule: and_then.cases) auto

lemma with_res_Ok_iff [res_simps]:
  "with_res r s k = (Ok b, s') \<longleftrightarrow> (\<exists>a. r = Ok a \<and> k a = (Ok b, s'))"
  by (cases r) auto

lemma wrap_st_Ok_iff [res_simps]: "wrap_st m r = (Ok a, s) \<longleftrightarrow> r = (Ok a, s)"
  by (cases r) (auto simp: wrap_st_def wrap_Ok_iff)

lemma hide_st_Ok_iff [res_simps]: "hide_st m r = (Ok a, s) \<longleftrightarrow> r = (Ok a, s)"
  by (cases r) (auto simp: hide_st_def hide_Ok_iff)

lemma snd_wrap_st [simp]: "snd (wrap_st m r) = snd r"
  by (simp add: wrap_st_def)

lemma snd_hide_st [simp]: "snd (hide_st m r) = snd r"
  by (simp add: hide_st_def)

text \<open>What every operation of a sequence keeps of a predicate on states, the sequence keeps.\<close>

lemma and_then_keeps:
  assumes "Q (snd r)" and "\<And>a s. r = (Ok a, s) \<Longrightarrow> Q s \<Longrightarrow> Q (snd (k a s))"
  shows "Q (snd (and_then r k))"
  using assms by (cases "(r, k)" rule: and_then.cases) auto

lemma with_res_keeps:
  assumes "Q s" and "\<And>a. r = Ok a \<Longrightarrow> Q (snd (k a))"
  shows "Q (snd (with_res r s k))"
  using assms by (cases r) auto

section \<open>Integer codecs\<close>

text \<open>Little-endian digits in base 256: \<^verbatim>\<open>encoding/binary\<close> writes a fixed number of them, big-endian
  order is the reverse, and \<^verbatim>\<open>math/big\<close>'s \<^verbatim>\<open>Bytes()\<close> writes as many as the number needs.\<close>

fun put_le :: "nat \<Rightarrow> nat \<Rightarrow> bytes" where
  "put_le 0 x = []"
| "put_le (Suc n) x = of_nat (x mod 256) # put_le n (x div 256)"

fun get_le :: "bytes \<Rightarrow> nat" where
  "get_le [] = 0"
| "get_le (b # bs) = unat b + 256 * get_le bs"

definition PutUint16BE :: "u16 \<Rightarrow> bytes" where "PutUint16BE w = rev (put_le 2 (unat w))"
definition PutUint32BE :: "u32 \<Rightarrow> bytes" where "PutUint32BE w = rev (put_le 4 (unat w))"
definition PutUint32LE :: "u32 \<Rightarrow> bytes" where "PutUint32LE w = put_le 4 (unat w)"
definition PutUint64LE :: "u64 \<Rightarrow> bytes" where "PutUint64LE w = put_le 8 (unat w)"

definition Uint32BE :: "bytes \<Rightarrow> u32 res" where
  "Uint32BE b = (if length b < 4 then Panic ''index out of range''
                 else Ok (of_nat (get_le (rev (take 4 b)))))"

definition Uint64LE :: "bytes \<Rightarrow> u64 res" where
  "Uint64LE b = (if length b < 8 then Panic ''index out of range''
                 else Ok (of_nat (get_le (take 8 b))))"

function big_le :: "nat \<Rightarrow> bytes" where
  "big_le n = (if n = 0 then [] else of_nat (n mod 256) # big_le (n div 256))"
  by pat_completeness auto
termination by (relation "measure id") auto

declare big_le.simps [simp del]

definition big_Bytes :: "nat \<Rightarrow> bytes" where "big_Bytes n = rev (big_le n)"
definition big_SetBytes :: "bytes \<Rightarrow> nat" where "big_SetBytes b = get_le (rev b)"

lemma unat_byte_mod: "unat (of_nat (x mod 256) :: u8) = x mod 256"
  by (simp add: unat_of_nat)

lemma length_put_le [simp]: "length (put_le n x) = n"
  by (induction n arbitrary: x) auto

lemma get_put_le: "get_le (put_le n x) = x mod 256 ^ n"
  by (induction n arbitrary: x) (auto simp: unat_byte_mod mod_mult2_eq)

lemma get_le_less: "get_le bs < 256 ^ length bs"
proof (induction bs)
  case (Cons b bs)
  have "unat b < 256" using unsigned_less [of b, where ?'a = nat] by simp
  with Cons show ?case by simp
qed simp

lemma put_get_le: "put_le (length bs) (get_le bs) = bs"
proof (induction bs)
  case (Cons b bs)
  have "unat b < 256" using unsigned_less [of b, where ?'a = nat] by simp
  then have "(of_nat ((unat b + 256 * get_le bs) mod 256) :: u8) = b"
    and "(unat b + 256 * get_le bs) div 256 = get_le bs"
    by simp_all
  with Cons show ?case by simp
qed simp

lemma put_le_inject: "x < 256 ^ n \<Longrightarrow> y < 256 ^ n \<Longrightarrow> put_le n x = put_le n y \<longleftrightarrow> x = y"
  by (metis get_put_le mod_less)

lemma get_big_le [simp]: "get_le (big_le n) = n"
proof (induction n rule: big_le.induct)
  case (1 n)
  then show ?case by (subst big_le.simps) (auto simp: unat_byte_mod)
qed

lemma big_SetBytes_Bytes [simp]: "big_SetBytes (big_Bytes n) = n"
  by (simp add: big_SetBytes_def big_Bytes_def)

lemma big_Bytes_inject [simp]: "big_Bytes m = big_Bytes n \<longleftrightarrow> m = n"
  by (metis big_SetBytes_Bytes)

lemma Uint64LE_Put [simp]: "Uint64LE (PutUint64LE w) = Ok w"
proof -
  have "unat w mod 256 ^ 8 = unat w" using unsigned_less [of w, where ?'a = nat] by simp
  then show ?thesis by (simp add: Uint64LE_def PutUint64LE_def get_put_le)
qed

lemma Uint32BE_Put [simp]: "Uint32BE (PutUint32BE w) = Ok w"
proof -
  have "unat w mod 256 ^ 4 = unat w" using unsigned_less [of w, where ?'a = nat] by simp
  then show ?thesis by (simp add: Uint32BE_def PutUint32BE_def get_put_le)
qed

lemma length_Puts [simp]:
  "length (PutUint16BE a) = 2" "length (PutUint32BE b) = 4" "length (PutUint32LE b) = 4"
  "length (PutUint64LE c) = 8"
  by (simp_all add: PutUint16BE_def PutUint32BE_def PutUint32LE_def PutUint64LE_def)

section \<open>Text\<close>

text \<open>\<^verbatim>\<open>[]byte("...")\<close>, \<^verbatim>\<open>string(b)\<close> and \<^verbatim>\<open>hex.EncodeToString\<close> (also the verb \<^verbatim>\<open>%x\<close>).\<close>

definition str :: "string \<Rightarrow> bytes" where "str s = map (\<lambda>c. of_nat (of_char c)) s"
definition unstr :: "bytes \<Rightarrow> string" where "unstr b = map (\<lambda>x. char_of (unat x)) b"

definition hex_digit :: "nat \<Rightarrow> char" where
  "hex_digit n = ''0123456789abcdef'' ! n"

definition hex :: "bytes \<Rightarrow> string" where
  "hex b = concat (map (\<lambda>x. [hex_digit (unat x div 16), hex_digit (unat x mod 16)]) b)"

lemma length_str [simp]: "length (str s) = length s"
  by (simp add: str_def)

lemma str_inject [simp]: "str a = str b \<longleftrightarrow> a = b"
proof -
  have "unat (of_nat (of_char c) :: u8) = of_char c" for c :: char
    by (simp add: unat_of_nat)
  then have "inj (\<lambda>c. of_nat (of_char c) :: u8)"
    by (metis injI of_char_eq_iff)
  then show ?thesis by (simp add: str_def inj_map_eq_map)
qed

section \<open>Association lists and sums\<close>

definition put :: "('k \<times> 'v) list \<Rightarrow> 'k \<Rightarrow> 'v \<Rightarrow> ('k \<times> 'v) list" where
  "put t k v = map (\<lambda>(k', v'). if k' = k then (k', v) else (k', v')) t"

lemma map_of_put [simp]:
  "map_of (put t k v) k' = (if k' = k \<and> map_of t k \<noteq> None then Some v else map_of t k')"
  by (induction t) (auto simp: put_def)

lemma keys_put [simp]: "map fst (put t k v) = map fst t"
  by (induction t) (auto simp: put_def)

lemma length_put [simp]: "length (put t k v) = length t"
  by (simp add: put_def)

lemma put_absent: "k \<notin> fst ` set t \<Longrightarrow> put t k v = t"
  by (induction t) (auto simp: put_def)

text \<open>The sum of a measure over the values of a store.\<close>

definition sum_vals :: "('v \<Rightarrow> nat) \<Rightarrow> ('k \<times> 'v) list \<Rightarrow> nat" where
  "sum_vals f t = sum_list (map (f \<circ> snd) t)"

lemma sum_vals_Nil [simp]: "sum_vals f [] = 0"
  by (simp add: sum_vals_def)

lemma sum_vals_Cons [simp]: "sum_vals f (kv # t) = f (snd kv) + sum_vals f t"
  by (simp add: sum_vals_def)

lemma sum_vals_append [simp]: "sum_vals f (t @ u) = sum_vals f t + sum_vals f u"
  by (simp add: sum_vals_def)

lemma sum_vals_put:
  assumes "distinct (map fst t)" and "map_of t k = Some v"
  shows "sum_vals f (put t k w) + f v = sum_vals f t + f w"
  using assms
proof (induction t)
  case (Cons kv t)
  obtain k' v' where kv: "kv = (k', v')" by force
  show ?case
  proof (cases "k' = k")
    case True
    with Cons.prems kv have "put t k w = t" by (auto intro!: put_absent)
    then show ?thesis using True Cons.prems kv by (simp add: put_def)
  next
    case False
    with Cons kv show ?thesis by (simp add: put_def)
  qed
qed simp

lemma sum_vals_ge: "map_of t k = Some v \<Longrightarrow> f v \<le> sum_vals f t"
  by (induction t) (auto split: if_splits)

end
