(* ===== verification/Messages.thy ===== *)
theory Messages
  imports Prelude
begin

text \<open>
  The protobuf messages the sources read and write (package \<^verbatim>\<open>models\<close>), as records with the fields
  the sources use. A \<^verbatim>\<open>bytes\<close> field that some source compares with \<^verbatim>\<open>nil\<close>, and a message or optional
  scalar field, is an \<open>option\<close>; \<^verbatim>\<open>proto.Marshal\<close> followed by \<^verbatim>\<open>proto.Unmarshal\<close> gives the message back,
  so the stores keep messages.
\<close>

section \<open>Enumerations\<close>

text \<open>A protobuf enum is open: a value outside the declared ones is \<open>TX_OTHER\<close>, \<open>STATUS_OTHER\<close>,
  \<open>CENSUS_OTHER\<close>.\<close>

datatype TxType =
    TX_UNKNOWN | NEW_PROCESS | SET_PROCESS_STATUS | SET_PROCESS_CENSUS | SET_PROCESS_QUESTION_INDEX
  | SET_PROCESS_RESULTS | ADD_PROCESS_KEYS | REVEAL_PROCESS_KEYS | ADD_ORACLE | REMOVE_ORACLE
  | ADD_VALIDATOR | REMOVE_VALIDATOR | REGISTER_VOTER_KEY | SET_ACCOUNT_INFO | MINT_TOKENS
  | SEND_TOKENS | SET_TRANSACTION_COSTS | ADD_DELEGATE_FOR_ACCOUNT | DEL_DELEGATE_FOR_ACCOUNT
  | COLLECT_FAUCET | TX_OTHER int

datatype ProcessStatus =
    PROCESS_UNKNOWN | READY | ENDED | CANCELED | PAUSED | RESULTS | STATUS_OTHER int

datatype CensusOrigin =
    CENSUS_UNKNOWN | OFF_CHAIN_TREE | OFF_CHAIN_TREE_WEIGHTED | OFF_CHAIN_CA | ERC20 | MINI_ME
  | CENSUS_OTHER int

section \<open>State messages\<close>

record Treasurer =
  t_Address :: bytes
  t_Nonce :: u32

record Validator =
  val_Address :: bytes
  val_PubKey :: bytes
  val_Power :: u64

record Account =
  Balance :: u64
  Nonce :: u32
  InfoURI :: string
  DelegateAddrs :: "bytes list"
  ProcessIndex :: u32

record EnvelopeType =
  Serial :: bool
  Anonymous :: bool
  EncryptedVotes :: bool
  UniqueValues :: bool
  CostFromWeight :: bool

record ProcessMode =
  AutoStart :: bool
  Interruptible :: bool
  DynamicCensus :: bool
  PreRegister :: bool

record ProcessVoteOptions =
  MaxCount :: u32
  MaxValue :: u32
  MaxVoteOverwrites :: u32
  MaxTotalCost :: u32
  CostExponent :: u32

record ProcessResult =
  pr_Votes :: "bytes list list"
  pr_ProcessId :: bytes
  pr_EntityId :: bytes
  pr_OracleAddress :: "bytes option"
  pr_Signature :: bytes

record Process =
  ProcessId :: "bytes option"
  EntityId :: bytes
  StartBlock :: u32
  BlockCount :: u32
  CensusRoot :: bytes
  CensusURI :: "string option"
  EncryptionPrivateKeys :: "string list"
  EncryptionPublicKeys :: "string list"
  KeyIndex :: "u32 option"
  Status :: ProcessStatus
  EnvelopeTypeOf :: "EnvelopeType option"
  Mode :: "ProcessMode option"
  QuestionIndex :: "u32 option"
  VoteOptions :: "ProcessVoteOptions option"
  CensusOriginOf :: CensusOrigin
  ResultsOf :: "ProcessResult list"
  EthIndexSlot :: "u32 option"
  SourceBlockHeight :: "u64 option"
  MaxCensusSize :: "u64 option"
  RollingCensusRoot :: bytes
  RollingCensusSize :: "u64 option"
  NullifiersRoot :: bytes

record StateDBProcess =
  sp_Process :: Process
  sp_VotesRoot :: bytes

record Vote =
  v_Height :: u32
  v_ProcessId :: bytes
  v_Nullifier :: "bytes option"
  v_VotePackage :: bytes
  v_Weight :: bytes
  v_EncryptionKeyIndexes :: "u32 list"

record StateDBVote =
  sv_VoteHash :: bytes
  sv_ProcessId :: bytes
  sv_Nullifier :: bytes

section \<open>Proofs\<close>

datatype ProofArboType = ARBO_BLAKE2B | ARBO_POSEIDON | ARBO_OTHER int

record ProofArbo =
  pa_Type :: ProofArboType
  pa_Value :: "bytes option"
  pa_Siblings :: bytes

datatype ProofCAType =
  CA_UNKNOWN | ECDSA | ECDSA_PIDSALTED | ECDSA_BLIND | ECDSA_BLIND_PIDSALTED | CA_OTHER int

record CAbundle =
  cb_ProcessId :: bytes
  cb_Address :: bytes

record ProofCA =
  ca_Bundle :: "CAbundle option"
  ca_Type :: ProofCAType
  ca_Signature :: bytes

record StorageProof =
  es_Key :: bytes
  es_Value :: bytes
  es_Siblings :: "bytes list"

record ProofMinime =
  mm_PrevBlock :: "StorageProof option"
  mm_NextBlock :: "StorageProof option"

record ProofZkSNARK =
  zk_CircuitParametersIndex :: "32 word"
  zk_A :: "string list"
  zk_B :: "string list"
  zk_C :: "string list"
  zk_PublicInputs :: "string list"

datatype ProofPayload =
    Proof_None
  | Proof_Graviton
  | Proof_Iden3
  | Proof_EthereumStorage "StorageProof option"
  | Proof_EthereumAccount
  | Proof_Ca "ProofCA option"
  | Proof_Arbo "ProofArbo option"
  | Proof_ZkSnark "ProofZkSNARK option"
  | Proof_MinimeStorage "ProofMinime option"

section \<open>Transactions\<close>

record VoteEnvelope =
  ve_Nonce :: bytes
  ve_ProcessId :: bytes
  ve_Proof :: "ProofPayload option"
  ve_VotePackage :: bytes
  ve_Nullifier :: bytes
  ve_EncryptionKeyIndexes :: "u32 list"

record NewProcessTx =
  np_Txtype :: TxType
  np_Nonce :: u32
  np_Process :: "Process option"

record SetProcessTx =
  spt_Txtype :: TxType
  spt_Nonce :: u32
  spt_ProcessId :: bytes
  spt_Status :: "ProcessStatus option"
  spt_QuestionIndex :: "u32 option"
  spt_CensusRoot :: "bytes option"
  spt_CensusURI :: "string option"
  spt_Results :: "ProcessResult option"

record AdminTx =
  ad_Txtype :: TxType
  ad_ProcessId :: "bytes option"
  ad_Address :: bytes
  ad_EncryptionPrivateKey :: "bytes option"
  ad_EncryptionPublicKey :: "bytes option"
  ad_KeyIndex :: "u32 option"
  ad_Power :: "u64 option"
  ad_PublicKey :: "bytes option"
  ad_Nonce :: u32

record RegisterKeyTx =
  rk_Nonce :: u32
  rk_ProcessId :: bytes
  rk_Proof :: "ProofPayload option"
  rk_NewKey :: "bytes option"
  rk_Weight :: string

record FaucetPayload =
  fp_Identifier :: u64
  fp_To :: bytes
  fp_Amount :: u64

record FaucetPackage =
  fk_Payload :: "FaucetPayload option"
  fk_Signature :: "bytes option"

record SetAccountInfoTx =
  sai_Nonce :: u32
  sai_InfoURI :: string
  sai_Account :: bytes
  sai_FaucetPackage :: "FaucetPackage option"

record SetTransactionCostsTx =
  stc_Txtype :: TxType
  stc_Nonce :: u32
  stc_Value :: u64

record MintTokensTx =
  mt_Nonce :: u32
  mt_To :: bytes
  mt_Value :: u64

record SendTokensTx =
  snd_Nonce :: u32
  snd_From :: "bytes option"
  snd_To :: "bytes option"
  snd_Value :: u64

record SetAccountDelegateTx =
  sad_Txtype :: TxType
  sad_Nonce :: u32
  sad_Delegate :: bytes

record CollectFaucetTx =
  cf_Nonce :: u32
  cf_FaucetPackage :: "FaucetPackage option"

datatype TxPayload =
    Tx_Vote "VoteEnvelope option"
  | Tx_Admin "AdminTx option"
  | Tx_NewProcess "NewProcessTx option"
  | Tx_SetProcess "SetProcessTx option"
  | Tx_RegisterKey "RegisterKeyTx option"
  | Tx_SetAccountInfo "SetAccountInfoTx option"
  | Tx_SetTransactionCosts "SetTransactionCostsTx option"
  | Tx_MintTokens "MintTokensTx option"
  | Tx_SendTokens "SendTokensTx option"
  | Tx_SetAccountDelegateTx "SetAccountDelegateTx option"
  | Tx_CollectFaucet "CollectFaucetTx option"

text \<open>The contents of an optional byte string: a nil slice reads as the empty one.\<close>

definition bz :: "bytes option \<Rightarrow> bytes" where
  "bz b = (case b of None \<Rightarrow> [] | Some x \<Rightarrow> x)"

lemma bz_simps [simp]: "bz None = []" "bz (Some x) = x"
  by (simp_all add: bz_def)

end
