(* ===== verification/Params.thy ===== *)
theory Params
  imports Messages
begin

text \<open>
  The code the program calls and does not contain, as one record of parameters that the
  definitions take: the Arbo Merkle tree library, go-ethereum, the proof libraries, the hash
  functions. Nothing is assumed of them here; a theorem that needs one of their documented
  properties has it as a hypothesis. \<open>params0\<close> is a concrete instance for evaluation.
\<close>

text \<open>The vote cache is keyed by transaction hashes (\<^verbatim>\<open>[32]byte\<close>) and by nullifiers (\<^verbatim>\<open>string\<close>), two
  dynamic types that are never equal as interface values.\<close>

datatype cache_key = CK_tx bytes | CK_nullifier bytes

record params =
  \<comment> \<open>arbo: the order in which a tree iterates over its leaves, the keys a tree of that many
     levels accepts, whether a \<^verbatim>\<open>true\<close> returned at a leaf ends \<^verbatim>\<open>IterateWithStop\<close>\<close>
  arbo_before :: "bytes \<Rightarrow> bytes \<Rightarrow> bool"
  arbo_key_ok :: "nat \<Rightarrow> bytes \<Rightarrow> bool"
  arbo_leaf_stop :: bool
  \<comment> \<open>arbo: whether Poseidon hashes a leaf with that value (a number outside the field is refused)\<close>
  arbo_poseidon_ok :: "bytes \<Rightarrow> bool"
  \<comment> \<open>arbo: roots of trees by their leaves, integer codec, hash functions and proof check\<close>
  arbo_root_votes :: "(bytes \<times> StateDBVote) list \<Rightarrow> bytes"
  arbo_root_sha256 :: "(bytes \<times> bytes) list \<Rightarrow> bytes"
  arbo_root_poseidon :: "(bytes \<times> bytes) list \<Rightarrow> bytes"
  arbo_BytesToBigInt :: "bytes \<Rightarrow> nat"
  arbo_BigIntToBytes :: "nat \<Rightarrow> nat \<Rightarrow> bytes"
  arbo_Hash :: "ProofArboType \<Rightarrow> bytes \<Rightarrow> bytes option"
  arbo_CheckProof :: "ProofArboType \<Rightarrow> bytes \<Rightarrow> bytes \<Rightarrow> bytes \<Rightarrow> bytes \<Rightarrow> bool res"
  \<comment> \<open>hash functions\<close>
  Sha256 :: "bytes \<Rightarrow> bytes"
  Keccak256 :: "bytes \<Rightarrow> bytes"
  poseidon_Hash :: "nat list \<Rightarrow> nat option"
  \<comment> \<open>go-ethereum: addresses and ECDSA keys, a key being its uncompressed form\<close>
  BytesToAddress :: "bytes \<Rightarrow> address"
  SigToPub :: "bytes \<Rightarrow> bytes \<Rightarrow> bytes option"
  CompressPubkey :: "bytes \<Rightarrow> bytes"
  DecompressPubkey :: "bytes \<Rightarrow> bytes option"
  UnmarshalPubkey :: "bytes \<Rightarrow> bytes option"
  PubkeyToAddress :: "bytes \<Rightarrow> address"
  \<comment> \<open>protobuf encodings that are hashed or signed\<close>
  Marshal_FaucetPayload :: "FaucetPayload \<Rightarrow> bytes"
  Marshal_Vote :: "Vote \<Rightarrow> bytes"
  Marshal_CAbundle :: "CAbundle \<Rightarrow> bytes"
  \<comment> \<open>protobuf decodings: the body and the signature of a signed transaction, and the transaction\<close>
  Unmarshal_SignedTx :: "bytes \<Rightarrow> (bytes \<times> bytes option) option"
  Unmarshal_Tx :: "bytes \<Rightarrow> TxPayload option option"
  \<comment> \<open>sums of a key and a multiple of the base point, blind signatures, Ethereum storage proofs, zkSNARK verification, curve25519\<close>
  S256_AddBaseMult :: "bytes \<Rightarrow> bytes \<Rightarrow> bytes"
  blind_NewPublicKeyFromECDSA :: "bytes \<Rightarrow> bytes option"
  blind_NewSignature :: "bytes \<Rightarrow> bytes option"
  blind_AddBaseMult :: "bytes \<Rightarrow> bytes \<Rightarrow> bytes"
  blind_Verify :: "nat \<Rightarrow> bytes \<Rightarrow> bytes \<Rightarrow> bool"
  mapbased_VerifyProof :: "address \<Rightarrow> bytes \<Rightarrow> StorageProof \<Rightarrow> nat \<Rightarrow> nat \<Rightarrow> bool"
  minime_ParseMinimeValue :: "bytes \<Rightarrow> nat option"
  minime_VerifyProof ::
    "address \<Rightarrow> bytes \<Rightarrow> StorageProof \<Rightarrow> StorageProof \<Rightarrow> nat \<Rightarrow> nat \<Rightarrow> nat \<Rightarrow> bool"
  zk_Verify :: "nat \<Rightarrow> ProofZkSNARK \<Rightarrow> nat list \<Rightarrow> bool"
  zk_ProofOk :: "ProofZkSNARK \<Rightarrow> bool"
  box_PublicKey :: "bytes \<Rightarrow> bytes option"
  \<comment> \<open>golang-lru: what the cache holds once an entry has been put in front\<close>
  lru_keep :: "(cache_key \<times> Vote option) list \<Rightarrow> (cache_key \<times> Vote option) list"
  \<comment> \<open>numbers of the \<^verbatim>\<open>CensusOrigin\<close> enum\<close>
  CensusOrigin_number :: "CensusOrigin \<Rightarrow> int"

definition pad20 :: "bytes \<Rightarrow> bytes" where
  "pad20 b = (if 20 \<le> length b then drop (length b - 20) b else replicate (20 - length b) 0 @ b)"

definition params0 :: params where
  "params0 = \<lparr>
     arbo_before = (\<lambda>a b. True), arbo_key_ok = (\<lambda>n k. 8 * length k \<le> n), arbo_leaf_stop = False,
     arbo_poseidon_ok = (\<lambda>b. True),
     arbo_root_votes = (\<lambda>t. replicate 32 (of_nat (length t))),
     arbo_root_sha256 = (\<lambda>t. replicate 32 (of_nat (length t))),
     arbo_root_poseidon = (\<lambda>t. replicate 32 (of_nat (length t))),
     arbo_BytesToBigInt = get_le, arbo_BigIntToBytes = put_le,
     arbo_Hash = (\<lambda>t b. Some b), arbo_CheckProof = (\<lambda>t k v s r. Ok (s = r)),
     Sha256 = (\<lambda>b. drop (length b) (replicate 32 0 @ b)), Keccak256 = (\<lambda>b. take 32 (b @ replicate 32 0)),
     poseidon_Hash = (\<lambda>ns. Some (sum_list ns)),
     BytesToAddress = pad20, SigToPub = (\<lambda>h s. Some (4 # take 64 s)),
     CompressPubkey = (\<lambda>p. 2 # take 32 (drop 1 p)),
     DecompressPubkey = (\<lambda>p. Some (4 # drop 1 p @ replicate 32 0)),
     UnmarshalPubkey = Some, PubkeyToAddress = (\<lambda>p. take 20 (drop 1 p)),
     Marshal_FaucetPayload = (\<lambda>p. PutUint64LE (fp_Identifier p) @ fp_To p @ PutUint64LE (fp_Amount p)),
     Marshal_Vote = (\<lambda>v. v_ProcessId v @ bz (v_Nullifier v) @ v_VotePackage v),
     Marshal_CAbundle = (\<lambda>c. cb_ProcessId c @ cb_Address c),
     Unmarshal_SignedTx = (\<lambda>b. Some (b, None)), Unmarshal_Tx = (\<lambda>b. Some None),
     S256_AddBaseMult = (\<lambda>k s. k), blind_NewPublicKeyFromECDSA = Some,
     blind_NewSignature = Some, blind_AddBaseMult = (\<lambda>k s. k),
     blind_Verify = (\<lambda>h s k. s = k),
     mapbased_VerifyProof = (\<lambda>a r p i b. es_Key p = a), minime_ParseMinimeValue = (\<lambda>b. Some (big_SetBytes b)),
     minime_VerifyProof = (\<lambda>a r p q i b h. es_Key p = a),
     zk_Verify = (\<lambda>i p ns. True), zk_ProofOk = (\<lambda>p. True), box_PublicKey = Some,
     lru_keep = take 100000,
     CensusOrigin_number = (\<lambda>c. case c of CENSUS_UNKNOWN \<Rightarrow> 0 | OFF_CHAIN_TREE \<Rightarrow> 1
        | OFF_CHAIN_TREE_WEIGHTED \<Rightarrow> 2 | OFF_CHAIN_CA \<Rightarrow> 3 | ERC20 \<Rightarrow> 11 | MINI_ME \<Rightarrow> 15
        | CENSUS_OTHER n \<Rightarrow> n) \<rparr>"

lemma params0_sel [simp]:
  "arbo_before params0 = (\<lambda>a b. True)"
  "arbo_key_ok params0 = (\<lambda>n k. 8 * length k \<le> n)"
  "arbo_leaf_stop params0 = False"
  "arbo_poseidon_ok params0 = (\<lambda>b. True)"
  "arbo_root_votes params0 = (\<lambda>t. replicate 32 (of_nat (length t)))"
  "arbo_root_sha256 params0 = (\<lambda>t. replicate 32 (of_nat (length t)))"
  "arbo_root_poseidon params0 = (\<lambda>t. replicate 32 (of_nat (length t)))"
  "arbo_BytesToBigInt params0 = get_le"
  "arbo_BigIntToBytes params0 = put_le"
  "arbo_Hash params0 = (\<lambda>t b. Some b)"
  "arbo_CheckProof params0 = (\<lambda>t k v s r. Ok (s = r))"
  "Sha256 params0 = (\<lambda>b. drop (length b) (replicate 32 0 @ b))"
  "Keccak256 params0 = (\<lambda>b. take 32 (b @ replicate 32 0))"
  "poseidon_Hash params0 = (\<lambda>ns. Some (sum_list ns))"
  "BytesToAddress params0 = pad20"
  "SigToPub params0 = (\<lambda>h s. Some (4 # take 64 s))"
  "CompressPubkey params0 = (\<lambda>p. 2 # take 32 (drop 1 p))"
  "DecompressPubkey params0 = (\<lambda>p. Some (4 # drop 1 p @ replicate 32 0))"
  "UnmarshalPubkey params0 = Some"
  "PubkeyToAddress params0 = (\<lambda>p. take 20 (drop 1 p))"
  "Marshal_FaucetPayload params0 = (\<lambda>p. PutUint64LE (fp_Identifier p) @ fp_To p @ PutUint64LE (fp_Amount p))"
  "Marshal_Vote params0 = (\<lambda>v. v_ProcessId v @ bz (v_Nullifier v) @ v_VotePackage v)"
  "Marshal_CAbundle params0 = (\<lambda>c. cb_ProcessId c @ cb_Address c)"
  "Unmarshal_SignedTx params0 = (\<lambda>b. Some (b, None))"
  "Unmarshal_Tx params0 = (\<lambda>b. Some None)"
  "S256_AddBaseMult params0 = (\<lambda>k s. k)"
  "blind_NewPublicKeyFromECDSA params0 = Some"
  "blind_NewSignature params0 = Some"
  "blind_AddBaseMult params0 = (\<lambda>k s. k)"
  "blind_Verify params0 = (\<lambda>h s k. s = k)"
  "mapbased_VerifyProof params0 = (\<lambda>a r p i b. es_Key p = a)"
  "minime_ParseMinimeValue params0 = (\<lambda>b. Some (big_SetBytes b))"
  "minime_VerifyProof params0 = (\<lambda>a r p q i b h. es_Key p = a)"
  "zk_Verify params0 = (\<lambda>i p ns. True)"
  "zk_ProofOk params0 = (\<lambda>p. True)"
  "box_PublicKey params0 = Some"
  "lru_keep params0 = take 100000"
  "CensusOrigin_number params0 = (\<lambda>c. case c of CENSUS_UNKNOWN \<Rightarrow> 0 | OFF_CHAIN_TREE \<Rightarrow> 1 | OFF_CHAIN_TREE_WEIGHTED \<Rightarrow> 2 | OFF_CHAIN_CA \<Rightarrow> 3 | ERC20 \<Rightarrow> 11 | MINI_ME \<Rightarrow> 15 | CENSUS_OTHER n \<Rightarrow> n)"
  by (simp_all add: params0_def)

lemma pad20_id [simp]: "length b = 20 \<Longrightarrow> pad20 b = b"
  by (simp add: pad20_def)

end
