(* ===== verification/Trees.thy ===== *)
theory Trees
  imports Params
begin

text \<open>
  The trees of the state (\<^verbatim>\<open>src/tree/tree.go\<close> over the Arbo library): a tree is the list of its
  leaves in the order Arbo iterates over them. A leaf is never removed. The locale \<open>leaf_store\<close> is
  the contract the components rely on, with the sum of a measure over the leaves; it is
  interpreted on the operations of \<^verbatim>\<open>Tree\<close>.
\<close>

type_synonym 'v tree = "(bytes \<times> 'v) list"

section \<open>Operations\<close>

text \<open>Where Arbo puts a new leaf: after those it iterates over before it.\<close>

fun leaf_insert :: "(bytes \<Rightarrow> bytes \<Rightarrow> bool) \<Rightarrow> bytes \<Rightarrow> 'v \<Rightarrow> 'v tree \<Rightarrow> 'v tree" where
  "leaf_insert bf k v [] = [(k, v)]"
| "leaf_insert bf k v (x # xs) =
     (if bf (fst x) k then x # leaf_insert bf k v xs else (k, v) # x # xs)"

definition Tree_Get :: "'v tree \<Rightarrow> bytes \<Rightarrow> 'v res" where
  "Tree_Get t k = of_option ErrKeyNotFound (map_of t k)"

definition Tree_Add :: "params \<Rightarrow> nat \<Rightarrow> 'v tree \<Rightarrow> bytes \<Rightarrow> 'v \<Rightarrow> 'v tree res" where
  "Tree_Add P lv t k v =
     (if \<not> arbo_key_ok P lv k then Fail (Errf ''arbo: invalid key'')
      else if map_of t k \<noteq> None then Fail ErrKeyAlreadyExists
      else Ok (leaf_insert (arbo_before P) k v t))"

text \<open>\<^verbatim>\<open>Set\<close> is Arbo's \<^verbatim>\<open>Update\<close>, and \<^verbatim>\<open>Add\<close> when \<^verbatim>\<open>Update\<close> does not find the key.\<close>

definition Tree_Set :: "params \<Rightarrow> nat \<Rightarrow> 'v tree \<Rightarrow> bytes \<Rightarrow> 'v \<Rightarrow> 'v tree res" where
  "Tree_Set P lv t k v =
     (if \<not> arbo_key_ok P lv k then Fail (Errf ''arbo: invalid key'')
      else if map_of t k = None then Tree_Add P lv t k v
      else Ok (put t k v))"

text \<open>The callback folds an accumulator and returns whether it asks to stop.\<close>

fun Tree_IterateLeaves ::
  "params \<Rightarrow> ('a \<Rightarrow> bytes \<Rightarrow> 'v \<Rightarrow> 'a \<times> bool) \<Rightarrow> 'a \<Rightarrow> 'v tree \<Rightarrow> 'a" where
  "Tree_IterateLeaves P f a [] = a"
| "Tree_IterateLeaves P f a ((k, v) # t) =
     (let (a', stop) = f a k v
      in if stop \<and> arbo_leaf_stop P then a' else Tree_IterateLeaves P f a' t)"

section \<open>Lemmas\<close>

lemma map_of_leaf_insert [simp]:
  "map_of t k = None \<Longrightarrow> map_of (leaf_insert bf k v t) = (map_of t)(k \<mapsto> v)"
  by (induction t) (auto simp: fun_upd_twist split: if_splits)

lemma keys_leaf_insert [simp]: "set (map fst (leaf_insert bf k v t)) = insert k (set (map fst t))"
  by (induction t) auto

lemma distinct_leaf_insert [simp]:
  "distinct (map fst (leaf_insert bf k v t)) \<longleftrightarrow> k \<notin> set (map fst t) \<and> distinct (map fst t)"
proof (induction t)
  case (Cons x t)
  have "fst x \<in> set (map fst (leaf_insert bf k v t)) \<longleftrightarrow> fst x = k \<or> fst x \<in> set (map fst t)"
    by (simp only: keys_leaf_insert insert_iff)
  with Cons show ?case by auto
qed simp

lemma length_leaf_insert [simp]: "length (leaf_insert bf k v t) = Suc (length t)"
  by (induction t) auto

lemma sum_vals_leaf_insert [simp]: "sum_vals f (leaf_insert bf k v t) = sum_vals f t + f v"
  by (induction t) auto

lemma map_of_None_keys: "map_of t k = None \<longleftrightarrow> k \<notin> set (map fst t)"
  by (induction t) auto

lemma Tree_Get_Ok [simp]: "Tree_Get t k = Ok v \<longleftrightarrow> map_of t k = Some v"
  by (simp add: Tree_Get_def of_option_Ok_iff)

lemma Tree_Get_Fail: "Tree_Get t k = Fail e \<longleftrightarrow> map_of t k = None \<and> e = ErrKeyNotFound"
  by (auto simp: Tree_Get_def of_option_def split: option.splits)

lemma Tree_Add_Ok:
  "Tree_Add P lv t k v = Ok t' \<longleftrightarrow>
     arbo_key_ok P lv k \<and> map_of t k = None \<and> t' = leaf_insert (arbo_before P) k v t"
  by (auto simp: Tree_Add_def)

lemma Tree_Set_Ok:
  "Tree_Set P lv t k v = Ok t' \<longleftrightarrow> arbo_key_ok P lv k \<and>
     t' = (if map_of t k = None then leaf_insert (arbo_before P) k v t else put t k v)"
  by (auto simp: Tree_Set_def Tree_Add_def)

lemma Tree_Set_lookup:
  "Tree_Set P lv t k v = Ok t' \<Longrightarrow> map_of t' = (map_of t)(k \<mapsto> v)"
  by (auto simp: Tree_Set_Ok fun_eq_iff split: if_splits)

lemma Tree_Set_distinct:
  "Tree_Set P lv t k v = Ok t' \<Longrightarrow> distinct (map fst t) \<Longrightarrow> distinct (map fst t')"
  by (auto simp: Tree_Set_Ok map_of_None_keys split: if_splits)

lemma Tree_Set_succeeds:
  "arbo_key_ok P lv k \<Longrightarrow> \<exists>t'. Tree_Set P lv t k v = Ok t'"
  by (auto simp: Tree_Set_Ok)

lemma Tree_Set_no_panic: "Tree_Set P lv t k v \<noteq> Panic m"
  by (auto simp: Tree_Set_def Tree_Add_def)

section \<open>The contract of a store\<close>

locale leaf_store =
  fixes get :: "'t \<Rightarrow> 'k \<Rightarrow> 'v option"
    and set :: "'t \<Rightarrow> 'k \<Rightarrow> 'v \<Rightarrow> 't res"
    and total :: "('v \<Rightarrow> nat) \<Rightarrow> 't \<Rightarrow> nat"
    and ok :: "'t \<Rightarrow> bool"
  assumes get_set: "set t k v = Ok t' \<Longrightarrow> get t' k' = (if k' = k then Some v else get t k')"
    and ok_set: "ok t \<Longrightarrow> set t k v = Ok t' \<Longrightarrow> ok t'"
    and total_update:
      "ok t \<Longrightarrow> get t k = Some v \<Longrightarrow> set t k w = Ok t' \<Longrightarrow> total f t' + f v = total f t + f w"
    and total_insert:
      "ok t \<Longrightarrow> get t k = None \<Longrightarrow> set t k w = Ok t' \<Longrightarrow> total f t' = total f t + f w"
    and total_ge: "get t k = Some v \<Longrightarrow> f v \<le> total f t"
begin

text \<open>Two writes at different keys that keep the sum of what they overwrite keep the total.\<close>

lemma total_move:
  assumes "ok t" "a \<noteq> b" "get t a = Some x" "get t b = Some y"
    and "set t a x' = Ok t1" "set t1 b y' = Ok t2" and "f x' + f y' = f x + f y"
  shows "total f t2 = total f t"
proof -
  have "total f t1 + f x = total f t + f x'" using assms by (blast intro: total_update)
  moreover have "get t1 b = Some y" using assms get_set by simp
  moreover have "ok t1" using assms ok_set by blast
  ultimately show ?thesis using total_update [of t1 b y y' t2 f] assms by simp
qed

text \<open>Three writes at different keys.\<close>

lemma total_move3:
  assumes "ok t" "a \<noteq> b" "a \<noteq> c" "b \<noteq> c"
    and "get t a = Some x" "get t b = Some y" "get t c = Some z"
    and "set t a x' = Ok t1" "set t1 b y' = Ok t2" "set t2 c z' = Ok t3"
    and "f x' + f y' + f z' = f x + f y + f z"
  shows "total f t3 = total f t"
proof -
  have 1: "total f t1 + f x = total f t + f x'" "ok t1"
    using assms by (blast intro: total_update ok_set)+
  have "get t1 b = Some y" using assms get_set by auto
  with 1 have 2: "total f t2 + f y = total f t1 + f y'" "ok t2"
    using assms by (blast intro: total_update ok_set)+
  have "get t2 c = Some z" using assms get_set by auto
  with 2 have "total f t3 + f z = total f t2 + f z'" using assms total_update by blast
  with 1 2 show ?thesis using assms by simp
qed

end

interpretation leaves: leaf_store map_of "Tree_Set P lv" sum_vals "\<lambda>t. distinct (map fst t)"
  for P lv
proof unfold_locales
  fix t :: "'a tree" and k v t' k'
  assume "Tree_Set P lv t k v = Ok t'"
  then show "map_of t' k' = (if k' = k then Some v else map_of t k')"
    by (simp add: Tree_Set_lookup)
next
  fix t :: "'a tree" and k v t'
  assume "distinct (map fst t)" "Tree_Set P lv t k v = Ok t'"
  then show "distinct (map fst t')" by (rule Tree_Set_distinct [rotated])
next
  fix t :: "'a tree" and k v w t' and f :: "'a \<Rightarrow> nat"
  assume "distinct (map fst t)" "map_of t k = Some v" "Tree_Set P lv t k w = Ok t'"
  then show "sum_vals f t' + f v = sum_vals f t + f w"
    by (simp add: Tree_Set_Ok sum_vals_put)
next
  fix t :: "'a tree" and k w t' and f :: "'a \<Rightarrow> nat"
  assume "map_of t k = None" "Tree_Set P lv t k w = Ok t'"
  then show "sum_vals f t' = sum_vals f t + f w"
    by (simp add: Tree_Set_Ok)
next
  fix t :: "'a tree" and k v and f :: "'a \<Rightarrow> nat"
  assume "map_of t k = Some v"
  then show "f v \<le> sum_vals f t" by (rule sum_vals_ge)
qed

text \<open>An iteration that Arbo does not stop visits every leaf.\<close>

lemma IterateLeaves_all:
  assumes "\<not> arbo_leaf_stop P"
  shows "Tree_IterateLeaves P f a t = fold (\<lambda>(k, v) a. fst (f a k v)) t a"
  using assms by (induction t arbitrary: a) (auto simp: split_def Let_def)

end
