(* ===== verification/Chain_State.thy ===== *)
theory Chain_State
  imports Trees
begin

unbundle bit_operations_syntax

text \<open>
  The state of the chain (\<^verbatim>\<open>src/vochain/state.go\<close>): the trees under the open transaction \<^verbatim>\<open>v.Tx\<close> and
  the last committed ones, the vote cache, the counters, the event listeners and the calls made to
  them. The operations on oracles, the treasurer, transaction costs, faucet identifiers and
  validators are here; accounts, processes, votes and censuses have theories of their own.

  The operations that change the state return it beside their result. A mutex is not modelled:
  the operations of a block run one after another.
\<close>

section \<open>Data\<close>

datatype extra_leaf = XTreasurer Treasurer | XBytes bytes

record trees =
  tr_Extra :: "extra_leaf tree"
  tr_Oracles :: "bytes tree"
  tr_Validators :: "Validator option tree"
  tr_Accounts :: "Account tree"
  tr_Faucet :: "unit tree"
  tr_Processes :: "StateDBProcess tree"
  tr_Votes :: "bytes \<Rightarrow> StateDBVote tree"
  tr_Census :: "bytes \<Rightarrow> bytes tree"
  tr_PreRegister :: "bytes \<Rightarrow> bytes tree"
  ns_voteCount :: "bytes option"
  ns_pids :: "bytes \<Rightarrow> bytes list option"
  ns_censusLen :: "bytes \<Rightarrow> bytes option"

datatype event =
    OnVote Vote bytes u32
  | OnNewTx bytes u32 u32
  | OnProcess bytes bytes string string u32
  | OnProcessStatusChange bytes ProcessStatus u32
  | OnCancel bytes u32
  | OnProcessKeys bytes string u32
  | OnRevealKeys bytes string u32
  | OnProcessResults bytes "ProcessResult option" u32
  | OnProcessesStart "bytes list"
  | OnCommit u32
  | OnRollback

text \<open>The two callbacks of an \<^verbatim>\<open>EventListener\<close> that return an error.\<close>

record listener =
  l_OnProcessResults :: "bytes \<Rightarrow> ProcessResult option \<Rightarrow> u32 \<Rightarrow> err option"
  l_Commit :: "u32 \<Rightarrow> err option"

record state =
  st_Tx :: trees
  st_View :: trees
  st_voteCache :: "(cache_key \<times> Vote option) list"
  st_DisableVoteCache :: bool
  st_txCounter :: u32
  st_listeners :: "listener list"
  st_events :: "event list"
  st_height :: u32
  st_version :: u32
  st_chainID :: string

definition trees0 :: trees where
  "trees0 = \<lparr>tr_Extra = [], tr_Oracles = [], tr_Validators = [], tr_Accounts = [], tr_Faucet = [],
     tr_Processes = [], tr_Votes = (\<lambda>_. []), tr_Census = (\<lambda>_. []), tr_PreRegister = (\<lambda>_. []),
     ns_voteCount = None, ns_pids = (\<lambda>_. None), ns_censusLen = (\<lambda>_. None)\<rparr>"

text \<open>The state \<^verbatim>\<open>NewState\<close> returns over an empty database.\<close>

definition NewState :: "state" where
  "NewState = \<lparr>st_Tx = trees0, st_View = trees0, st_voteCache = [], st_DisableVoteCache = False,
     st_txCounter = 0, st_listeners = [], st_events = [], st_height = 0, st_version = 0, st_chainID = []\<rparr>"

definition EthereumZeroAddress :: address where "EthereumZeroAddress = replicate 20 0"
definition BurnAddress :: address where "BurnAddress = replicate 20 255"

lemma burn_not_zero [simp]: "BurnAddress \<noteq> EthereumZeroAddress"
  by (simp add: BurnAddress_def EthereumZeroAddress_def)

text \<open>A callback of every listener, in the order they were added.\<close>

definition emit :: "event \<Rightarrow> state \<Rightarrow> state" where
  "emit ev s = s\<lparr>st_events := st_events s @ map (\<lambda>_. ev) (st_listeners s)\<rparr>"

definition mainTreeViewer :: "bool \<Rightarrow> state \<Rightarrow> trees" where
  "mainTreeViewer committed s = (if committed then st_View s else st_Tx s)"

text \<open>\<^verbatim>\<open>v.Tx.DeepSet\<close> and \<^verbatim>\<open>v.Tx.DeepAdd\<close> on the subtree a selector names.\<close>

definition DeepSet :: "params \<Rightarrow> nat \<Rightarrow> (trees \<Rightarrow> 'v tree) \<Rightarrow> ('v tree \<Rightarrow> trees \<Rightarrow> trees)
    \<Rightarrow> bytes \<Rightarrow> 'v \<Rightarrow> state \<Rightarrow> unit res \<times> state" where
  "DeepSet P lv sel upd k v s =
     with_res (Tree_Set P lv (sel (st_Tx s)) k v) s (\<lambda>t. (Ok (), s\<lparr>st_Tx := upd t (st_Tx s)\<rparr>))"

definition DeepAdd :: "params \<Rightarrow> nat \<Rightarrow> (trees \<Rightarrow> 'v tree) \<Rightarrow> ('v tree \<Rightarrow> trees \<Rightarrow> trees)
    \<Rightarrow> bytes \<Rightarrow> 'v \<Rightarrow> state \<Rightarrow> unit res \<times> state" where
  "DeepAdd P lv sel upd k v s =
     with_res (Tree_Add P lv (sel (st_Tx s)) k v) s (\<lambda>t. (Ok (), s\<lparr>st_Tx := upd t (st_Tx s)\<rparr>))"

abbreviation set_Extra :: "extra_leaf tree \<Rightarrow> trees \<Rightarrow> trees" where
  "set_Extra t \<equiv> tr_Extra_update (\<lambda>_. t)"
abbreviation set_Oracles :: "bytes tree \<Rightarrow> trees \<Rightarrow> trees" where
  "set_Oracles t \<equiv> tr_Oracles_update (\<lambda>_. t)"
abbreviation set_Validators :: "Validator option tree \<Rightarrow> trees \<Rightarrow> trees" where
  "set_Validators t \<equiv> tr_Validators_update (\<lambda>_. t)"
abbreviation set_Accounts :: "Account tree \<Rightarrow> trees \<Rightarrow> trees" where
  "set_Accounts t \<equiv> tr_Accounts_update (\<lambda>_. t)"
abbreviation set_Faucet :: "unit tree \<Rightarrow> trees \<Rightarrow> trees" where
  "set_Faucet t \<equiv> tr_Faucet_update (\<lambda>_. t)"
abbreviation set_Processes :: "StateDBProcess tree \<Rightarrow> trees \<Rightarrow> trees" where
  "set_Processes t \<equiv> tr_Processes_update (\<lambda>_. t)"

lemma DeepSet_Ok:
  "DeepSet P lv sel upd k v s = (Ok u, s') \<longleftrightarrow>
     (\<exists>t. Tree_Set P lv (sel (st_Tx s)) k v = Ok t \<and> s' = s\<lparr>st_Tx := upd t (st_Tx s)\<rparr>)"
  by (auto simp: DeepSet_def with_res_Ok_iff)

lemma DeepAdd_Ok:
  "DeepAdd P lv sel upd k v s = (Ok u, s') \<longleftrightarrow>
     (\<exists>t. Tree_Add P lv (sel (st_Tx s)) k v = Ok t \<and> s' = s\<lparr>st_Tx := upd t (st_Tx s)\<rparr>)"
  by (auto simp: DeepAdd_def with_res_Ok_iff)

lemma DeepSet_snd:
  "snd (DeepSet P lv sel upd k v s) =
     (case Tree_Set P lv (sel (st_Tx s)) k v of
        Ok t \<Rightarrow> s\<lparr>st_Tx := upd t (st_Tx s)\<rparr> | _ \<Rightarrow> s)"
  by (simp add: DeepSet_def split: res.splits)

lemma DeepAdd_snd:
  "snd (DeepAdd P lv sel upd k v s) =
     (case Tree_Add P lv (sel (st_Tx s)) k v of
        Ok t \<Rightarrow> s\<lparr>st_Tx := upd t (st_Tx s)\<rparr> | _ \<Rightarrow> s)"
  by (simp add: DeepAdd_def split: res.splits)

section \<open>Oracles\<close>

definition AddOracle :: "params \<Rightarrow> address \<Rightarrow> state \<Rightarrow> unit res \<times> state" where
  "AddOracle P a s = DeepSet P 256 tr_Oracles set_Oracles a [1] s"

definition RemoveOracle :: "params \<Rightarrow> address \<Rightarrow> state \<Rightarrow> unit res \<times> state" where
  "RemoveOracle P a s =
     with_res (wrap ''oracle not found'' (Tree_Get (tr_Oracles (st_Tx s)) a)) s
       (\<lambda>_. DeepSet P 256 tr_Oracles set_Oracles a [] s)"

definition Oracles :: "params \<Rightarrow> bool \<Rightarrow> state \<Rightarrow> address list" where
  "Oracles P committed s =
     Tree_IterateLeaves P
       (\<lambda>acc k v. if v = [] then (acc, True) else (acc @ [BytesToAddress P k], True))
       [] (tr_Oracles (mainTreeViewer committed s))"

definition IsOracle :: "params \<Rightarrow> address \<Rightarrow> state \<Rightarrow> bool res" where
  "IsOracle P a s =
     (let os = Oracles P False s
      in if os = [] then Fail (Errf ''cannot check authorization against a nil or empty oracle list'')
         else Ok (a \<in> set os))"

section \<open>Treasurer\<close>

definition treasurerKey :: bytes where "treasurerKey = str ''treasurer''"

definition SetTreasurer :: "params \<Rightarrow> address \<Rightarrow> u32 \<Rightarrow> state \<Rightarrow> unit res \<times> state" where
  "SetTreasurer P a n s =
     DeepSet P 256 tr_Extra set_Extra treasurerKey (XTreasurer \<lparr>t_Address = a, t_Nonce = n\<rparr>) s"

definition Treasurer_get :: "bool \<Rightarrow> state \<Rightarrow> Treasurer res" where
  "Treasurer_get committed s =
     rbind (Tree_Get (tr_Extra (mainTreeViewer committed s)) treasurerKey)
       (\<lambda>x. case x of XTreasurer t \<Rightarrow> Ok t | XBytes b \<Rightarrow> Fail (Errf ''proto: cannot parse''))"

definition IsTreasurer :: "params \<Rightarrow> address \<Rightarrow> state \<Rightarrow> bool res" where
  "IsTreasurer P a s = rbind (Treasurer_get False s) (\<lambda>t. Ok (a = BytesToAddress P (t_Address t)))"

definition IncrementTreasurerNonce :: "params \<Rightarrow> state \<Rightarrow> unit res \<times> state" where
  "IncrementTreasurerNonce P s =
     with_res (wrap ''incrementTreasurerNonce()'' (Treasurer_get False s)) s
       (\<lambda>t. DeepSet P 256 tr_Extra set_Extra treasurerKey (XTreasurer (t\<lparr>t_Nonce := t_Nonce t + 1\<rparr>)) s)"

definition VerifyTreasurer :: "address \<Rightarrow> u32 \<Rightarrow> state \<Rightarrow> unit res" where
  "VerifyTreasurer a txNonce s =
     rbind (hide ''cannot check authorization'' (Treasurer_get False s))
       (\<lambda>t. if a \<noteq> t_Address t
            then Fail (Errf ''not authorized for executing admin transactions'')
            else if t_Nonce t \<noteq> txNonce then Fail ErrAccountNonceInvalid
            else Ok ())"

section \<open>Transaction costs\<close>

definition TxTypeCostToStateKey :: "TxType \<Rightarrow> string option" where
  "TxTypeCostToStateKey ty = (case ty of
       SET_PROCESS_STATUS \<Rightarrow> Some ''c_setProcessStatus''
     | SET_PROCESS_CENSUS \<Rightarrow> Some ''c_setProcessCensus''
     | SET_PROCESS_QUESTION_INDEX \<Rightarrow> Some ''c_setProcessResults''
     | SET_PROCESS_RESULTS \<Rightarrow> Some ''c_setProcessQuestionIndex''
     | REGISTER_VOTER_KEY \<Rightarrow> Some ''c_registerKey''
     | NEW_PROCESS \<Rightarrow> Some ''c_newProcess''
     | SEND_TOKENS \<Rightarrow> Some ''c_sendTokens''
     | SET_ACCOUNT_INFO \<Rightarrow> Some ''c_setAccountInfo''
     | ADD_DELEGATE_FOR_ACCOUNT \<Rightarrow> Some ''c_addDelegateForAccount''
     | DEL_DELEGATE_FOR_ACCOUNT \<Rightarrow> Some ''c_delDelegateForAccount''
     | COLLECT_FAUCET \<Rightarrow> Some ''c_collectFaucet''
     | _ \<Rightarrow> None)"

definition SetTxCost :: "params \<Rightarrow> TxType \<Rightarrow> u64 \<Rightarrow> state \<Rightarrow> unit res \<times> state" where
  "SetTxCost P ty cost s =
     (case TxTypeCostToStateKey ty of
        None \<Rightarrow> (Fail (Errf ''txType %v shouldn't cost anything''), s)
      | Some key \<Rightarrow> DeepSet P 256 tr_Extra set_Extra (str key) (XBytes (PutUint64LE cost)) s)"

definition TxCost :: "TxType \<Rightarrow> bool \<Rightarrow> state \<Rightarrow> u64 res" where
  "TxCost ty committed s =
     (case TxTypeCostToStateKey ty of
        None \<Rightarrow> Fail (Errf ''txType %v shouldn't cost anything'')
      | Some key \<Rightarrow>
          rbind (hide ''tx cost for %s not found''
                   (Tree_Get (tr_Extra (mainTreeViewer committed s)) (str key)))
            (\<lambda>x. case x of XBytes b \<Rightarrow> Uint64LE b | XTreasurer t \<Rightarrow> Panic ''index out of range''))"

section \<open>Faucet identifiers\<close>

definition FaucetNonce :: "params \<Rightarrow> bytes \<Rightarrow> bool \<Rightarrow> state \<Rightarrow> bool" where
  "FaucetNonce P key committed s =
     Tree_IterateLeaves P (\<lambda>found k v. if key = k then (True, True) else (found, True))
       False (tr_Faucet (mainTreeViewer committed s))"

definition SetFaucetNonce :: "params \<Rightarrow> bytes \<Rightarrow> state \<Rightarrow> unit res \<times> state" where
  "SetFaucetNonce P key s = DeepSet P 256 tr_Faucet set_Faucet key () s"

section \<open>Validators\<close>

definition AddValidator :: "params \<Rightarrow> Validator \<Rightarrow> state \<Rightarrow> unit res \<times> state" where
  "AddValidator P v s = DeepSet P 256 tr_Validators set_Validators (val_Address v) (Some v) s"

definition RemoveValidator :: "params \<Rightarrow> bytes \<Rightarrow> state \<Rightarrow> unit res \<times> state" where
  "RemoveValidator P a s =
     with_res (wrap ''validator not found'' (Tree_Get (tr_Validators (st_Tx s)) a)) s
       (\<lambda>_. DeepSet P 256 tr_Validators set_Validators a None s)"

definition Validators :: "params \<Rightarrow> bool \<Rightarrow> state \<Rightarrow> Validator list" where
  "Validators P committed s =
     Tree_IterateLeaves P
       (\<lambda>acc k v. case v of None \<Rightarrow> (acc, True) | Some x \<Rightarrow> (acc @ [x], True))
       [] (tr_Validators (mainTreeViewer committed s))"

section \<open>Lemmas\<close>

lemma fold_collect:
  "set (fold (\<lambda>(k, v) acc. if Q v then acc else acc @ [g k]) t acc) =
     set acc \<union> g ` {k. \<exists>v. (k, v) \<in> set t \<and> \<not> Q v}"
proof (induction t arbitrary: acc)
  case (Cons x t)
  obtain k v where "x = (k, v)" by force
  then show ?case using Cons [of "if Q v then acc else acc @ [g k]"] by auto
qed simp

text \<open>The oracle list is the set of the keys whose value is not empty.\<close>

lemma Oracles_set:
  assumes "\<not> arbo_leaf_stop P" and "distinct (map fst (tr_Oracles (mainTreeViewer c s)))"
  shows "set (Oracles P c s) =
    BytesToAddress P ` {k. \<exists>v. map_of (tr_Oracles (mainTreeViewer c s)) k = Some v \<and> v \<noteq> []}"
proof -
  have "Oracles P c s = fold (\<lambda>(k, v) acc. if v = [] then acc else acc @ [BytesToAddress P k])
      (tr_Oracles (mainTreeViewer c s)) []"
    unfolding Oracles_def IterateLeaves_all [OF assms(1)]
    by (rule fold_cong) (auto split: if_splits)
  then show ?thesis
    using fold_collect [of "\<lambda>v. v = []" "BytesToAddress P" "tr_Oracles (mainTreeViewer c s)" "[]"]
    by (simp add: map_of_eq_Some_iff [OF assms(2)])
qed

lemma Oracles_keys:
  assumes "\<not> arbo_leaf_stop P" and "distinct (map fst (tr_Oracles (mainTreeViewer c s)))"
    and id: "\<And>k v. map_of (tr_Oracles (mainTreeViewer c s)) k = Some v \<Longrightarrow> BytesToAddress P k = k"
  shows "set (Oracles P c s) = {k. \<exists>v. map_of (tr_Oracles (mainTreeViewer c s)) k = Some v \<and> v \<noteq> []}"
proof -
  let ?K = "{k. \<exists>v. map_of (tr_Oracles (mainTreeViewer c s)) k = Some v \<and> v \<noteq> []}"
  have "BytesToAddress P ` ?K = id ` ?K"
    by (rule image_cong) (use id in auto)
  then show ?thesis unfolding Oracles_set [OF assms(1,2)] by simp
qed

lemma FaucetNonce_iff:
  assumes "\<not> arbo_leaf_stop P"
  shows "FaucetNonce P key c s \<longleftrightarrow> map_of (tr_Faucet (mainTreeViewer c s)) key \<noteq> None"
proof -
  have "fold (\<lambda>(k, v) a. fst (if key = k then (True, True) else (a, True))) t a \<longleftrightarrow>
      a \<or> key \<in> fst ` set t" for t :: "unit tree" and a
    by (induction t arbitrary: a) auto
  then show ?thesis
    by (auto simp: FaucetNonce_def IterateLeaves_all [OF assms] map_of_eq_None_iff)
qed

lemma TxTypeCostToStateKey_inj:
  "TxTypeCostToStateKey a = TxTypeCostToStateKey b \<Longrightarrow> TxTypeCostToStateKey b \<noteq> None \<Longrightarrow> a = b"
  by (cases a; cases b) (simp_all add: TxTypeCostToStateKey_def)

lemma cost_key_not_treasurer: "TxTypeCostToStateKey a = Some k \<Longrightarrow> str k \<noteq> treasurerKey"
  by (cases a) (auto simp: TxTypeCostToStateKey_def treasurerKey_def)

text \<open>What a write to one of the small trees means for its readers.\<close>

lemma SetTxCost_cost:
  assumes "SetTxCost P ty c s = (Ok u, s')"
  shows "TxCost ty' False s' = (if ty' = ty then Ok c else TxCost ty' False s)"
proof -
  obtain key where key: "TxTypeCostToStateKey ty = Some key"
    using assms by (cases "TxTypeCostToStateKey ty") (auto simp: SetTxCost_def)
  with assms obtain t where t: "Tree_Set P 256 (tr_Extra (st_Tx s)) (str key) (XBytes (PutUint64LE c)) = Ok t"
    and s': "s' = s\<lparr>st_Tx := set_Extra t (st_Tx s)\<rparr>"
    by (auto simp: SetTxCost_def DeepSet_Ok)
  have get: "map_of t k = (if k = str key then Some (XBytes (PutUint64LE c))
      else map_of (tr_Extra (st_Tx s)) k)" for k
    using leaves.get_set [OF t] .
  show ?thesis
  proof (cases "ty' = ty")
    case True
    then show ?thesis
      by (simp add: TxCost_def key s' mainTreeViewer_def Tree_Get_def get of_option_def)
  next
    case False
    then have "TxTypeCostToStateKey ty' \<noteq> Some key"
      using key TxTypeCostToStateKey_inj [of ty' ty] by auto
    then show ?thesis
      by (auto simp: TxCost_def s' mainTreeViewer_def Tree_Get_def get False split: option.splits)
  qed
qed

lemma SetTxCost_treasurer:
  assumes "SetTxCost P ty c s = (Ok u, s')"
  shows "Treasurer_get False s' = Treasurer_get False s"
proof -
  obtain key where key: "TxTypeCostToStateKey ty = Some key"
    using assms by (cases "TxTypeCostToStateKey ty") (auto simp: SetTxCost_def)
  with assms obtain t where t: "Tree_Set P 256 (tr_Extra (st_Tx s)) (str key) (XBytes (PutUint64LE c)) = Ok t"
    and s': "s' = s\<lparr>st_Tx := set_Extra t (st_Tx s)\<rparr>"
    by (auto simp: SetTxCost_def DeepSet_Ok)
  have "map_of t treasurerKey = map_of (tr_Extra (st_Tx s)) treasurerKey"
    using leaves.get_set [OF t, of treasurerKey] cost_key_not_treasurer [OF key] by simp
  then show ?thesis by (simp add: Treasurer_get_def s' mainTreeViewer_def Tree_Get_def)
qed

lemma IncrementTreasurerNonce_Ok:
  assumes "IncrementTreasurerNonce P s = (Ok u, s')"
  shows "\<exists>t. Treasurer_get False s = Ok t \<and> Treasurer_get False s' = Ok (t\<lparr>t_Nonce := t_Nonce t + 1\<rparr>)"
proof -
  obtain t tr where t: "Treasurer_get False s = Ok t"
    and tr: "Tree_Set P 256 (tr_Extra (st_Tx s)) treasurerKey
      (XTreasurer (t\<lparr>t_Nonce := t_Nonce t + 1\<rparr>)) = Ok tr"
    and s': "s' = s\<lparr>st_Tx := set_Extra tr (st_Tx s)\<rparr>"
    using assms by (auto simp: IncrementTreasurerNonce_def res_simps DeepSet_Ok)
  with leaves.get_set [OF tr, of treasurerKey] show ?thesis
    by (simp add: Treasurer_get_def s' mainTreeViewer_def Tree_Get_def of_option_def)
qed

section \<open>Properties\<close>

text \<open>The oracles are a set: over a tree library that does not stop an iteration at a leaf
  and the identity conversion of 20-byte strings to addresses, adding an oracle inserts exactly
  that address, and removing one takes exactly that address out, whatever was in the tree.\<close>

theorem oracle_set_semantics:
  assumes "\<not> arbo_leaf_stop P"
    and "\<And>b. length b = 20 \<Longrightarrow> BytesToAddress P b = b"
    and "distinct (map fst (tr_Oracles (st_Tx s)))"
    and "\<And>k. k \<in> set (map fst (tr_Oracles (st_Tx s))) \<Longrightarrow> length k = 20"
    and "length a = 20"
    and "AddOracle P a s = (Ok (), s1)" and "RemoveOracle P a s1 = (Ok (), s2)"
  shows "set (Oracles P False s1) = insert a (set (Oracles P False s)) \<and>
         set (Oracles P False s2) = set (Oracles P False s) - {a}"
proof -
  let ?t = "tr_Oracles (st_Tx s)"
  obtain t1 where t1: "Tree_Set P 256 ?t a [1] = Ok t1" and s1: "s1 = s\<lparr>st_Tx := set_Oracles t1 (st_Tx s)\<rparr>"
    using assms(6) by (auto simp: AddOracle_def DeepSet_Ok)
  obtain t2 where t2: "Tree_Set P 256 t1 a [] = Ok t2" and s2: "s2 = s1\<lparr>st_Tx := set_Oracles t2 (st_Tx s1)\<rparr>"
    using assms(7) s1 by (auto simp: RemoveOracle_def res_simps DeepSet_Ok)
  note d1 = Tree_Set_distinct [OF t1 assms(3)]
  note d2 = Tree_Set_distinct [OF t2 d1]
  have keys: "k \<in> set (map fst ?t) \<Longrightarrow> BytesToAddress P k = k" for k
    using assms(2,4) by blast
  have addr: "BytesToAddress P a = a" using assms(2,5) by blast
  have id: "map_of ?t k = Some v \<Longrightarrow> BytesToAddress P k = k" for k v
    using keys [of k] by (metis map_of_None_keys option.distinct(1))
  have "set (Oracles P False s) = {k. \<exists>v. map_of ?t k = Some v \<and> v \<noteq> []}"
    using Oracles_keys [OF assms(1), of False s] assms(3) id by (simp add: mainTreeViewer_def)
  moreover have "set (Oracles P False s1) = {k. \<exists>v. map_of t1 k = Some v \<and> v \<noteq> []}"
    by (subst Oracles_keys [OF assms(1)])
      (use d1 id addr in \<open>auto simp: mainTreeViewer_def s1 Tree_Set_lookup [OF t1] split: if_splits\<close>)
  moreover have "set (Oracles P False s2) = {k. \<exists>v. map_of t2 k = Some v \<and> v \<noteq> []}"
    by (subst Oracles_keys [OF assms(1)])
      (use d2 id addr in \<open>auto simp: mainTreeViewer_def s2 Tree_Set_lookup [OF t1]
         Tree_Set_lookup [OF t2] split: if_splits\<close>)
  moreover have "{k. \<exists>v. map_of t1 k = Some v \<and> v \<noteq> []} = insert a {k. \<exists>v. map_of ?t k = Some v \<and> v \<noteq> []}"
    and "{k. \<exists>v. map_of t2 k = Some v \<and> v \<noteq> []} = {k. \<exists>v. map_of ?t k = Some v \<and> v \<noteq> []} - {a}"
    by (auto simp: Tree_Set_lookup [OF t1] Tree_Set_lookup [OF t2])
  ultimately show ?thesis by simp
qed

theorem oracle_set_semantics_witness:
  "let s1 = snd (AddOracle params0 (replicate 20 7) NewState);
       s2 = snd (RemoveOracle params0 (replicate 20 7) s1)
   in set (Oracles params0 False s1) = {replicate 20 7} \<and> set (Oracles params0 False s2) = {}"
proof -
  let ?a = "replicate 20 (7 :: u8)"
  let ?s1 = "snd (AddOracle params0 ?a NewState)"
  let ?s2 = "snd (RemoveOracle params0 ?a ?s1)"
  have "AddOracle params0 ?a NewState = (Ok (), ?s1)"
    by (simp add: AddOracle_def DeepSet_def Tree_Set_def Tree_Add_def NewState_def trees0_def params0_def)
  moreover have "RemoveOracle params0 ?a ?s1 = (Ok (), ?s2)"
    by (simp add: AddOracle_def RemoveOracle_def DeepSet_def Tree_Set_def Tree_Add_def Tree_Get_def
        NewState_def trees0_def params0_def of_option_def)
  moreover have "Oracles params0 False NewState = []"
    by (simp add: Oracles_def mainTreeViewer_def NewState_def trees0_def)
  ultimately show ?thesis
    using oracle_set_semantics [of params0 NewState ?a ?s1 ?s2]
    by (simp add: Let_def params0_def pad20_def NewState_def trees0_def)
qed

text \<open>Setting the cost of a transaction type makes it the cost of that type, changes the cost
  of no other type, and leaves the treasurer, which lives in the same tree, alone.\<close>

theorem tx_cost_set_get:
  assumes "SetTxCost P ty c s = (Ok (), s')"
  shows "TxCost ty False s' = Ok c \<and> (\<forall>ty'. ty' \<noteq> ty \<longrightarrow> TxCost ty' False s' = TxCost ty' False s)
    \<and> Treasurer_get False s' = Treasurer_get False s"
  using SetTxCost_cost [OF assms] SetTxCost_treasurer [OF assms] by simp

theorem tx_cost_set_get_witness:
  "TxCost SEND_TOKENS False (snd (SetTxCost params0 SEND_TOKENS 10 NewState)) = Ok 10"
proof -
  have "SetTxCost params0 SEND_TOKENS 10 NewState = (Ok (), snd (SetTxCost params0 SEND_TOKENS 10 NewState))"
    by (simp add: SetTxCost_def TxTypeCostToStateKey_def DeepSet_def Tree_Set_def Tree_Add_def
        NewState_def trees0_def params0_def str_def)
  from tx_cost_set_get [OF this] show ?thesis by simp
qed

text \<open>Replay protection of the treasurer: once a treasurer transaction with a nonce has been
  accepted and the nonce incremented, the same address is still the treasurer's but the same nonce
  is refused with \<open>ErrAccountNonceInvalid\<close>, and the next one is accepted.\<close>

theorem treasurer_nonce_once:
  assumes "VerifyTreasurer a n s = Ok ()" and "IncrementTreasurerNonce P s = (Ok (), s')"
  shows "VerifyTreasurer a n s' = Fail ErrAccountNonceInvalid \<and> VerifyTreasurer a (n + 1) s' = Ok ()"
proof -
  obtain t where t: "Treasurer_get False s = Ok t"
    and t': "Treasurer_get False s' = Ok (t\<lparr>t_Nonce := t_Nonce t + 1\<rparr>)"
    using IncrementTreasurerNonce_Ok [OF assms(2)] by blast
  from assms(1) t have "t_Address t = a" "t_Nonce t = n"
    by (auto simp: VerifyTreasurer_def split: if_splits)
  with t' show ?thesis by (simp add: VerifyTreasurer_def)
qed

theorem treasurer_nonce_once_witness:
  "let s = snd (SetTreasurer params0 (replicate 20 9) 4 NewState);
       s' = snd (IncrementTreasurerNonce params0 s)
   in VerifyTreasurer (replicate 20 9) 4 s' = Fail ErrAccountNonceInvalid"
proof -
  let ?s = "snd (SetTreasurer params0 (replicate 20 9) 4 NewState)"
  let ?s' = "snd (IncrementTreasurerNonce params0 ?s)"
  have "VerifyTreasurer (replicate 20 9) 4 ?s = Ok ()"
    by (simp add: VerifyTreasurer_def Treasurer_get_def SetTreasurer_def DeepSet_def Tree_Set_def
        Tree_Add_def Tree_Get_def of_option_def mainTreeViewer_def NewState_def trees0_def params0_def
        treasurerKey_def str_def)
  moreover have "IncrementTreasurerNonce params0 ?s = (Ok (), ?s')"
    by (simp add: IncrementTreasurerNonce_def Treasurer_get_def SetTreasurer_def DeepSet_def
        Tree_Set_def Tree_Add_def Tree_Get_def of_option_def mainTreeViewer_def NewState_def
        trees0_def params0_def treasurerKey_def str_def)
  ultimately show ?thesis
    using treasurer_nonce_once [of "replicate 20 9" 4 ?s params0 ?s'] by (simp add: Let_def)
qed

end
