(* ===== verification/Ethereum.thy ===== *)
theory Ethereum
  imports Params
begin

text \<open>
  Signatures and addresses (\<^verbatim>\<open>src/crypto/ethereum/ethereum.go\<close>) over go-ethereum's primitives, which
  are parameters. \<open>PubKeyFromSignature\<close> rewrites the recovery byte of the slice it is given; a second
  call on the same slice sees the rewritten byte, for which the rewriting is the identity, so the
  functions here take the signature by value.
\<close>

definition PubKeyLengthBytes :: nat where "PubKeyLengthBytes = 33"
definition SignatureLength :: nat where "SignatureLength = 65"

text \<open>\<^verbatim>\<open>%d\<close> of a length.\<close>

function decimal :: "nat \<Rightarrow> string" where
  "decimal n = (if n < 10 then [char_of (48 + n)] else decimal (n div 10) @ [char_of (48 + n mod 10)])"
  by pat_completeness auto
termination by (relation "measure id") auto

declare decimal.simps [simp del]

definition HashRaw :: "params \<Rightarrow> bytes \<Rightarrow> bytes" where "HashRaw P d = Keccak256 P d"

definition SigningPrefix :: bytes where
  "SigningPrefix = [0x19] @ str ''Ethereum Signed Message:'' @ [10]"

definition Hash :: "params \<Rightarrow> bytes \<Rightarrow> bytes" where
  "Hash P d = HashRaw P (SigningPrefix @ str (decimal (length d)) @ d)"

definition BuildVocdoniTransaction :: "params \<Rightarrow> bytes \<Rightarrow> string \<Rightarrow> bytes" where
  "BuildVocdoniTransaction P txData chainID =
     str ''Vocdoni signed transaction:'' @ [10] @ str chainID @ [10] @ str (hex (HashRaw P txData))"

definition DecompressPubKey :: "params \<Rightarrow> bytes \<Rightarrow> bytes res" where
  "DecompressPubKey P pub =
     (if PubKeyLengthBytes < length pub then Ok pub
      else of_option (Errf ''decompress pubKey'') (DecompressPubkey P pub))"

definition AddrFromPublicKey :: "params \<Rightarrow> bytes \<Rightarrow> address res" where
  "AddrFromPublicKey P pub =
     rbind (if length pub \<le> PubKeyLengthBytes then DecompressPubKey P pub else Ok pub)
       (\<lambda>pub'. rbind (of_option (Errf ''invalid secp256k1 public key'') (UnmarshalPubkey P pub'))
          (\<lambda>k. Ok (PubkeyToAddress P k)))"

text \<open>The recovery byte: values above 1 have 27 taken off, on 8 bits.\<close>

definition normalise_v :: "bytes \<Rightarrow> bytes" where
  "normalise_v sig = (if 1 < sig ! 64 then sig[64 := sig ! 64 - 27] else sig)"

definition PubKeyFromSignature :: "params \<Rightarrow> bytes \<Rightarrow> bytes \<Rightarrow> bytes res" where
  "PubKeyFromSignature P message signature =
     (if length signature < SignatureLength \<or> SignatureLength + 12 < length signature
      then Fail (Errf ''signature length not correct (%d)'')
      else let sig = normalise_v signature
        in if 1 < sig ! 64 then Fail (Errf ''bad recover ID byte'')
        else rbind (of_option (Errf ''sigToPub'') (SigToPub P (Hash P message) sig))
               (\<lambda>k. Ok (CompressPubkey P k)))"

definition AddrFromSignature :: "params \<Rightarrow> bytes \<Rightarrow> bytes \<Rightarrow> address res" where
  "AddrFromSignature P message signature =
     rbind (PubKeyFromSignature P message signature) (AddrFromPublicKey P)"

lemma normalise_v_idem:
  assumes "PubKeyFromSignature P m sig = Ok k"
  shows "normalise_v (normalise_v sig) = normalise_v sig"
  using assms by (auto simp: PubKeyFromSignature_def normalise_v_def Let_def split: if_splits)

text \<open>A second recovery from the rewritten slice gives the same key.\<close>

lemma PubKeyFromSignature_again:
  assumes "PubKeyFromSignature P m sig = Ok k"
  shows "PubKeyFromSignature P m (normalise_v sig) = Ok k"
proof -
  have "length (normalise_v sig) = length sig" by (simp add: normalise_v_def)
  then show ?thesis
    using assms normalise_v_idem [OF assms]
    by (auto simp: PubKeyFromSignature_def Let_def split: if_splits)
qed

end
