(* ===== verification/Accounts.thy ===== *)
theory Accounts
  imports Chain_State Ethereum
begin

text \<open>
  Accounts and tokens (\<^verbatim>\<open>src/vochain/account.go\<close>): the methods of \<^verbatim>\<open>Account\<close>, the operations of \<^verbatim>\<open>State\<close>
  that move, mint and burn tokens, and the sum of all balances as the quantity they conserve. The
  transaction checks of the same file are in the theory \<open>Account_Checks\<close>.
\<close>

section \<open>Methods of an account\<close>

text \<open>\<open>a.Transfer(dest, amount)\<close> returns both accounts as it leaves them.\<close>

definition Transfer :: "Account \<Rightarrow> Account option \<Rightarrow> u64 \<Rightarrow> (Account \<times> Account) res" where
  "Transfer a dest amount =
     (if amount = 0 then Fail (Errf ''cannot transfer zero amount'')
      else case dest of
        None \<Rightarrow> Fail (Errf ''destination account nil'')
      | Some d \<Rightarrow>
          if Balance a < amount then Fail ErrNotEnoughBalance
          else if Balance d + amount \<le> Balance d then Fail ErrBalanceOverflow
          else Ok (a\<lparr>Balance := Balance a - amount\<rparr>, d\<lparr>Balance := Balance d + amount\<rparr>))"

fun is_delegate_in :: "address \<Rightarrow> bytes list \<Rightarrow> bool" where
  "is_delegate_in addr [] = False"
| "is_delegate_in addr (d # ds) = (if addr = d then True else is_delegate_in addr ds)"

definition IsDelegate :: "Account \<Rightarrow> address \<Rightarrow> bool" where
  "IsDelegate a addr = is_delegate_in addr (DelegateAddrs a)"

definition AddDelegate :: "Account \<Rightarrow> address \<Rightarrow> Account res" where
  "AddDelegate a addr =
     (if IsDelegate a addr then Fail (Errf ''address %s is already a delegate'')
      else Ok (a\<lparr>DelegateAddrs := DelegateAddrs a @ [addr]\<rparr>))"

text \<open>The loop of \<open>DelDelegate\<close> ranges over the slice as it was at the start, whose array it
  overwrites and whose length \<open>a.DelegateAddrs\<close> it shortens: \<open>arr\<close> is the array, \<open>len\<close> the length of
  the shortened slice, \<open>todo\<close> the indices left. An index beyond the shortened slice panics.\<close>

fun del_loop :: "address \<Rightarrow> nat list \<Rightarrow> bytes list \<Rightarrow> nat \<Rightarrow> (bytes list \<times> nat) res" where
  "del_loop addr [] arr len = Ok (arr, len)"
| "del_loop addr (i # todo) arr len =
     (if arr ! i = addr
      then if i < len then del_loop addr todo (arr[i := arr ! (len - 1)]) (len - 1)
           else Panic ''index out of range''
      else del_loop addr todo arr len)"

definition DelDelegate :: "Account \<Rightarrow> address \<Rightarrow> Account res" where
  "DelDelegate a addr =
     rbind (del_loop addr [0..<length (DelegateAddrs a)] (DelegateAddrs a) (length (DelegateAddrs a)))
       (\<lambda>(arr, len). Ok (a\<lparr>DelegateAddrs := take len arr\<rparr>))"

section \<open>Reading and writing accounts\<close>

text \<open>The nil account of a missing key is \<open>None\<close>.\<close>

definition GetAccount :: "address \<Rightarrow> bool \<Rightarrow> state \<Rightarrow> Account option" where
  "GetAccount a committed s = map_of (tr_Accounts (mainTreeViewer committed s)) a"

definition SetAccount :: "params \<Rightarrow> address \<Rightarrow> Account \<Rightarrow> state \<Rightarrow> unit res \<times> state" where
  "SetAccount P a acc s = DeepSet P 256 tr_Accounts set_Accounts a acc s"

definition AccountFromSignature ::
  "params \<Rightarrow> bytes \<Rightarrow> bytes \<Rightarrow> state \<Rightarrow> (address \<times> Account) res" where
  "AccountFromSignature P message signature s =
     rbind (wrap ''cannot extract public key from signature'' (PubKeyFromSignature P message signature))
       (\<lambda>pub. rbind (wrap ''cannot extract address from public key'' (AddrFromPublicKey P pub))
         (\<lambda>address.
            if address = EthereumZeroAddress then Fail (Errf ''invalid address'')
            else case GetAccount address False s of
                   None \<Rightarrow> Fail ErrAccountNotExist
                 | Some acc \<Rightarrow> Ok (address, acc)))"

section \<open>Operations on the accounts of the state\<close>

definition TransferBalance :: "params \<Rightarrow> address \<Rightarrow> address \<Rightarrow> u64 \<Rightarrow> state \<Rightarrow> unit res \<times> state" where
  "TransferBalance P from to amount s =
     (case GetAccount from False s of
        None \<Rightarrow> (Fail ErrAccountNotExist, s)
      | Some accFrom \<Rightarrow>
          (case GetAccount to False s of
             None \<Rightarrow> (Fail ErrAccountNotExist, s)
           | Some accTo \<Rightarrow>
               with_res (Transfer accFrom (Some accTo) amount) s
                 (\<lambda>(accFrom, accTo).
                    and_then (SetAccount P from accFrom s) (\<lambda>_ s. SetAccount P to accTo s))))"

definition MintBalance :: "params \<Rightarrow> address \<Rightarrow> u64 \<Rightarrow> state \<Rightarrow> unit res \<times> state" where
  "MintBalance P a amount s =
     (if amount = 0 then (Fail (Errf ''cannot mint a zero amount balance''), s)
      else case GetAccount a False s of
             None \<Rightarrow> (Fail ErrAccountNotExist, s)
           | Some acc \<Rightarrow>
               if Balance acc + amount \<le> Balance acc then (Fail ErrBalanceOverflow, s)
               else SetAccount P a (acc\<lparr>Balance := Balance acc + amount\<rparr>) s)"

definition SetAccountInfoURI :: "params \<Rightarrow> address \<Rightarrow> string \<Rightarrow> state \<Rightarrow> unit res \<times> state" where
  "SetAccountInfoURI P a uri s =
     (case GetAccount a False s of
        None \<Rightarrow> (Fail ErrAccountNotExist, s)
      | Some acc \<Rightarrow> SetAccount P a (acc\<lparr>InfoURI := uri\<rparr>) s)"

definition IncrementAccountProcessIndex :: "params \<Rightarrow> address \<Rightarrow> state \<Rightarrow> unit res \<times> state" where
  "IncrementAccountProcessIndex P a s =
     (case GetAccount a False s of
        None \<Rightarrow> (Fail ErrAccountNotExist, s)
      | Some acc \<Rightarrow>
          let i = (if 4194304 < ProcessIndex acc then 0 else ProcessIndex acc)
          in SetAccount P a (acc\<lparr>ProcessIndex := i + 1\<rparr>) s)"

text \<open>The delegates of a new account: \<^verbatim>\<open>make\<close> gives as many nil entries as there are delegates, and
  \<^verbatim>\<open>append\<close> puts the delegates after them.\<close>

definition CreateAccount ::
  "params \<Rightarrow> address \<Rightarrow> string \<Rightarrow> address list \<Rightarrow> u64 \<Rightarrow> state \<Rightarrow> unit res \<times> state" where
  "CreateAccount P a infoURI delegates initBalance s =
     (if a = EthereumZeroAddress then (Fail (Errf ''invalid address''), s)
      else case GetAccount a False s of
             Some _ \<Rightarrow> (Fail ErrAccountAlreadyExists, s)
           | None \<Rightarrow>
               SetAccount P a
                 \<lparr>Balance = initBalance, Nonce = 0, InfoURI = infoURI,
                  DelegateAddrs = (if 0 < length delegates
                    then replicate (length delegates) [] @ filter (\<lambda>d. d \<noteq> EthereumZeroAddress) delegates
                    else []),
                  ProcessIndex = 0\<rparr> s)"

definition faucet_key :: "params \<Rightarrow> address \<Rightarrow> u64 \<Rightarrow> bytes" where
  "faucet_key P from identifier = Sha256 P (from @ PutUint64LE identifier)"

definition ConsumeFaucetPayload ::
  "params \<Rightarrow> address \<Rightarrow> FaucetPayload option \<Rightarrow> TxType \<Rightarrow> state \<Rightarrow> unit res \<times> state" where
  "ConsumeFaucetPayload P from payload txType s =
     (case payload of
        None \<Rightarrow> (Fail (Errf ''faucet payload is nil''), s)
      | Some fp \<Rightarrow>
     if from = EthereumZeroAddress then (Fail (Errf ''invalid from account''), s)
     else case GetAccount from False s of
        None \<Rightarrow> (Fail ErrAccountNotExist, s)
      | Some accFrom \<Rightarrow>
     let accToAddr = BytesToAddress P (fp_To fp)
     in case GetAccount accToAddr False s of
        None \<Rightarrow> (Fail ErrAccountNotExist, s)
      | Some accTo \<Rightarrow>
     (case GetAccount BurnAddress False s of
        None \<Rightarrow> (Fail ErrAccountNotExist, s)
      | Some burnAcc \<Rightarrow>
     with_res (wrap ''cannot transfer balance to burn account'' (Transfer accFrom (Some accTo) (fp_Amount fp))) s
       (\<lambda>(accFrom, accTo).
     with_res
       (if txType = SET_ACCOUNT_INFO
        then rbind (TxCost COLLECT_FAUCET False s)
               (\<lambda>cost. rbind (wrap ''cannot transfer balance to burn account''
                                (Transfer accFrom (Some burnAcc) cost))
                  (\<lambda>(accFrom, burnAcc). Ok (accFrom, accTo, burnAcc)))
        else Ok (accFrom, accTo\<lparr>Nonce := Nonce accTo + 1\<rparr>, burnAcc)) s
       (\<lambda>(accFrom, accTo, burnAcc).
     and_then (SetFaucetNonce P (faucet_key P from (fp_Identifier fp)) s) (\<lambda>_ s.
     and_then (SetAccount P from accFrom s) (\<lambda>_ s.
     and_then (SetAccount P accToAddr accTo s) (\<lambda>_ s.
       SetAccount P BurnAddress burnAcc s)))))))"

definition SubtractCostIncrementNonce :: "params \<Rightarrow> address \<Rightarrow> TxType \<Rightarrow> state \<Rightarrow> unit res \<times> state" where
  "SubtractCostIncrementNonce P a txType s =
     (case GetAccount a False s of
        None \<Rightarrow> (Fail ErrAccountNotExist, s)
      | Some acc \<Rightarrow>
     with_res (wrap ''subtractCostIncrementNonce'' (TxCost txType False s)) s (\<lambda>cost.
     let acc = (if txType \<noteq> COLLECT_FAUCET then acc\<lparr>Nonce := Nonce acc + 1\<rparr> else acc)
     in if cost \<noteq> 0
        then (case GetAccount BurnAddress False s of
                None \<Rightarrow> (Fail (Errf ''subtractCostIncrementNonce: burn account does not exist''), s)
              | Some burnAcc \<Rightarrow>
                  with_res (wrap ''subtractCostIncrementNonce'' (Transfer acc (Some burnAcc) cost)) s
                    (\<lambda>(acc, burnAcc).
                       and_then (wrap_st ''subtractCostIncrementNonce'' (SetAccount P BurnAddress burnAcc s))
                         (\<lambda>_ s. wrap_st ''subtractCostIncrementNonce'' (SetAccount P a acc s))))
        else wrap_st ''subtractCostIncrementNonce'' (SetAccount P a acc s)))"

definition SetAccountDelegate ::
  "params \<Rightarrow> address \<Rightarrow> address \<Rightarrow> TxType \<Rightarrow> state \<Rightarrow> unit res \<times> state" where
  "SetAccountDelegate P a delegate txType s =
     (case GetAccount a False s of
        None \<Rightarrow> (Fail ErrAccountNotExist, s)
      | Some acc \<Rightarrow>
          if txType = ADD_DELEGATE_FOR_ACCOUNT
          then with_res (wrap ''cannot add delegate, AddDelegate'' (AddDelegate acc delegate)) s
                 (\<lambda>acc. SetAccount P a acc s)
          else if txType = DEL_DELEGATE_FOR_ACCOUNT
          then with_res (DelDelegate acc delegate) s (\<lambda>acc. SetAccount P a acc s)
          else (Fail (Errf ''invalid setDelegate tx type''), s))"

section \<open>The supply\<close>

text \<open>The sum of all balances, the measure the token operations are about, and the shape of the
  accounts tree every operation keeps.\<close>

abbreviation tokens :: "Account \<Rightarrow> nat" where "tokens a \<equiv> unat (Balance a)"

definition token_supply :: "state \<Rightarrow> nat" where
  "token_supply s = sum_vals tokens (tr_Accounts (st_Tx s))"

definition accounts_wf :: "params \<Rightarrow> state \<Rightarrow> bool" where
  "accounts_wf P s \<longleftrightarrow> distinct (map fst (tr_Accounts (st_Tx s))) \<and>
     (\<forall>k \<in> set (map fst (tr_Accounts (st_Tx s))). arbo_key_ok P 256 k)"

lemma SetAccount_Ok:
  "SetAccount P a acc s = (Ok u, s') \<longleftrightarrow>
     (\<exists>t. Tree_Set P 256 (tr_Accounts (st_Tx s)) a acc = Ok t \<and>
          s' = s\<lparr>st_Tx := set_Accounts t (st_Tx s)\<rparr>)"
  by (simp add: SetAccount_def DeepSet_Ok)

lemma SetAccount_not_Ok: "SetAccount P a acc s = (r, s') \<Longrightarrow> r \<noteq> Ok () \<Longrightarrow> s' = s"
  by (cases "Tree_Set P 256 (tr_Accounts (st_Tx s)) a acc") (auto simp: SetAccount_def DeepSet_def)

lemma SetAccount_existing:
  assumes "accounts_wf P s" and "GetAccount a False s = Some x"
  shows "\<exists>s'. SetAccount P a acc s = (Ok (), s')"
proof -
  have "a \<in> set (map fst (tr_Accounts (st_Tx s)))"
    using assms(2) by (auto simp: GetAccount_def mainTreeViewer_def map_of_None_keys
        dest: map_of_SomeD intro: rev_image_eqI)
  then have "arbo_key_ok P 256 a" using assms(1) by (auto simp: accounts_wf_def)
  then show ?thesis by (simp add: SetAccount_Ok Tree_Set_Ok)
qed

lemma SetAccount_get:
  assumes "SetAccount P a acc s = (Ok u, s')"
  shows "GetAccount b False s' = (if b = a then Some acc else GetAccount b False s)"
  using assms by (auto simp: SetAccount_Ok GetAccount_def mainTreeViewer_def Tree_Set_lookup)

lemma SetAccount_wf:
  assumes "accounts_wf P s"
  shows "accounts_wf P (snd (SetAccount P a acc s))"
proof (cases "Tree_Set P 256 (tr_Accounts (st_Tx s)) a acc")
  case (Ok t)
  have "distinct (map fst t)"
    using Tree_Set_distinct [OF Ok] assms by (simp add: accounts_wf_def)
  moreover have "set (map fst t) \<subseteq> insert a (set (map fst (tr_Accounts (st_Tx s))))" and "arbo_key_ok P 256 a"
    using Ok by (auto simp: Tree_Set_Ok keys_leaf_insert simp del: set_map split: if_splits)
  ultimately show ?thesis
    using assms Ok by (auto simp: accounts_wf_def SetAccount_def DeepSet_snd simp del: set_map)
qed (use assms in \<open>simp_all add: SetAccount_def DeepSet_snd\<close>)

lemma SetAccount_wf_Ok: "SetAccount P a acc s = (r, s') \<Longrightarrow> accounts_wf P s \<Longrightarrow> accounts_wf P s'"
  using SetAccount_wf [of P s a acc] by simp

text \<open>What a write leaves alone.\<close>

lemma SetAccount_frame [frame_simps]:
  "SetAccount P a acc s = (r, s') \<Longrightarrow>
     tr_Extra (st_Tx s') = tr_Extra (st_Tx s) \<and> tr_Oracles (st_Tx s') = tr_Oracles (st_Tx s) \<and>
     tr_Processes (st_Tx s') = tr_Processes (st_Tx s) \<and> tr_Votes (st_Tx s') = tr_Votes (st_Tx s) \<and>
     tr_Faucet (st_Tx s') = tr_Faucet (st_Tx s) \<and> st_View s' = st_View s \<and> st_height s' = st_height s"
  by (cases "Tree_Set P 256 (tr_Accounts (st_Tx s)) a acc") (auto simp: SetAccount_def DeepSet_def)

lemma supply_Set_existing:
  assumes "accounts_wf P s" and "GetAccount a False s = Some x" and "SetAccount P a acc s = (Ok u, s')"
  shows "token_supply s' + tokens x = token_supply s + tokens acc"
  using assms leaves.total_update [where f = tokens]
  by (auto simp: SetAccount_Ok token_supply_def accounts_wf_def GetAccount_def mainTreeViewer_def)

lemma supply_Set_new:
  assumes "accounts_wf P s" and "GetAccount a False s = None" and "SetAccount P a acc s = (Ok u, s')"
  shows "token_supply s' = token_supply s + tokens acc"
  using assms leaves.total_insert [where f = tokens]
  by (auto simp: SetAccount_Ok token_supply_def accounts_wf_def GetAccount_def mainTreeViewer_def)

lemma supply_move:
  assumes "accounts_wf P s" "a \<noteq> b" "GetAccount a False s = Some x" "GetAccount b False s = Some y"
    and "SetAccount P a x' s = (Ok u, s1)" "SetAccount P b y' s1 = (Ok w, s2)"
    and "tokens x' + tokens y' = tokens x + tokens y"
  shows "token_supply s2 = token_supply s"
proof -
  obtain t1 t2 where "Tree_Set P 256 (tr_Accounts (st_Tx s)) a x' = Ok t1"
    and "Tree_Set P 256 t1 b y' = Ok t2" and "tr_Accounts (st_Tx s2) = t2"
    using assms(5,6) by (auto simp: SetAccount_Ok)
  then show ?thesis
    using leaves.total_move [where f = tokens] assms(1-4,7)
    by (simp add: token_supply_def accounts_wf_def GetAccount_def mainTreeViewer_def)
qed

lemma supply_move3:
  assumes "accounts_wf P s" "a \<noteq> b" "a \<noteq> c" "b \<noteq> c"
    and "GetAccount a False s = Some x" "GetAccount b False s = Some y" "GetAccount c False s = Some z"
    and "SetAccount P a x' s = (Ok u, s1)" "SetAccount P b y' s1 = (Ok v, s2)" "SetAccount P c z' s2 = (Ok w, s3)"
    and "tokens x' + tokens y' + tokens z' = tokens x + tokens y + tokens z"
  shows "token_supply s3 = token_supply s"
proof -
  obtain t1 t2 t3 where "Tree_Set P 256 (tr_Accounts (st_Tx s)) a x' = Ok t1"
    and "Tree_Set P 256 t1 b y' = Ok t2" and "Tree_Set P 256 t2 c z' = Ok t3"
    and "tr_Accounts (st_Tx s3) = t3"
    using assms(8-10) by (auto simp: SetAccount_Ok)
  then show ?thesis
    using leaves.total_move3 [where f = tokens] assms(1-7,11)
    by (simp add: token_supply_def accounts_wf_def GetAccount_def mainTreeViewer_def)
qed

section \<open>The methods of an account\<close>

text \<open>The test \<open>x + y \<le> x\<close> for a positive \<open>y\<close> is an overflow of 64 bits.\<close>

lemma add_overflow_iff:
  fixes x y :: u64
  assumes "y \<noteq> 0"
  shows "x + y \<le> x \<longleftrightarrow> 2 ^ 64 \<le> unat x + unat y"
proof -
  have y: "0 < unat y" using assms by (simp add: unat_gt_0)
  have lt: "unat x < 2 ^ 64" "unat y < 2 ^ 64"
    using unsigned_less [of x, where ?'a = nat] unsigned_less [of y, where ?'a = nat] by simp_all
  have e: "unat (x + y) = (unat x + unat y) mod 2 ^ 64"
    by (simp add: unat_word_ariths)
  show ?thesis
  proof (cases "2 ^ 64 \<le> unat x + unat y")
    case True
    then have "unat (x + y) = unat x + unat y - 2 ^ 64"
      unfolding e using lt by (simp add: mod_if)
    with True lt show ?thesis by (simp add: word_le_nat_alt)
  next
    case False
    then have "unat (x + y) = unat x + unat y" unfolding e by simp
    with False y show ?thesis by (simp add: word_le_nat_alt)
  qed
qed

lemma unat_add_fits: "unat x + unat y < 2 ^ 64 \<Longrightarrow> unat (x + y) = unat x + unat y" for x y :: u64
  by (simp add: unat_word_ariths)

lemma Transfer_Ok_iff:
  "Transfer a (Some d) n = Ok (a', d') \<longleftrightarrow>
     n \<noteq> 0 \<and> n \<le> Balance a \<and> tokens d + unat n < 2 ^ 64 \<and>
     a' = a\<lparr>Balance := Balance a - n\<rparr> \<and> d' = d\<lparr>Balance := Balance d + n\<rparr>"
  using add_overflow_iff [of n "Balance d"] by (auto simp: Transfer_def not_less not_le)

lemma Transfer_tokens:
  assumes "Transfer a (Some d) n = Ok (a', d')"
  shows "tokens a' + unat n = tokens a" and "tokens d' = tokens d + unat n"
  using assms by (auto simp: Transfer_Ok_iff unat_sub unat_add_fits word_le_nat_alt)

lemma is_delegate_in_iff: "is_delegate_in a ds \<longleftrightarrow> a \<in> set ds"
  by (induction ds) auto

lemma IsDelegate_iff: "IsDelegate a addr \<longleftrightarrow> addr \<in> set (DelegateAddrs a)"
  by (simp add: IsDelegate_def is_delegate_in_iff)

lemma del_loop_skip:
  "(\<And>i. i \<in> set todo \<Longrightarrow> arr ! i \<noteq> addr) \<Longrightarrow> del_loop addr todo arr len = Ok (arr, len)"
  by (induction todo) auto

lemma del_loop_append:
  "del_loop addr (xs @ ys) arr len =
     rbind (del_loop addr xs arr len) (\<lambda>(arr, len). del_loop addr ys arr len)"
  by (induction xs arbitrary: arr len) auto

lemma DelDelegate_absent:
  assumes "addr \<notin> set (DelegateAddrs a)"
  shows "DelDelegate a addr = Ok a"
proof -
  have "del_loop addr [0..<length (DelegateAddrs a)] (DelegateAddrs a) (length (DelegateAddrs a)) =
      Ok (DelegateAddrs a, length (DelegateAddrs a))"
    using assms by (intro del_loop_skip) auto
  then show ?thesis by (simp add: DelDelegate_def)
qed

text \<open>In a list without repetitions the loop puts the last entry in the place of the deleted one.\<close>

lemma del_loop_distinct:
  assumes "distinct (xs @ addr # ys)"
  shows "del_loop addr [0..<length (xs @ addr # ys)] (xs @ addr # ys) (length (xs @ addr # ys)) =
     Ok ((xs @ addr # ys)[length xs := (xs @ addr # ys) ! (length xs + length ys)], length xs + length ys)"
proof -
  let ?ds = "xs @ addr # ys" and ?i = "length xs"
  let ?l = "?ds ! (?i + length ys)"
  have split: "[0..<length ?ds] = [0..<?i] @ ?i # [Suc ?i..<length ?ds]"
    using upt_add_eq_append [of 0 ?i "Suc (length ys)"] upt_conv_Cons [of ?i "?i + Suc (length ys)"]
    by (simp del: upt_Suc)
  have before: "del_loop addr [0..<?i] ?ds (length ?ds) = Ok (?ds, length ?ds)"
    using assms by (intro del_loop_skip) (auto simp: nth_append)
  have after: "del_loop addr [Suc ?i..<length ?ds] (?ds[?i := ?l]) (?i + length ys) =
      Ok (?ds[?i := ?l], ?i + length ys)"
  proof (rule del_loop_skip)
    fix i
    assume "i \<in> set [Suc ?i..<length ?ds]"
    then have i: "Suc ?i \<le> i" "i < length ?ds" by auto
    then have "?ds[?i := ?l] ! i = ys ! (i - Suc ?i)" and "i - Suc ?i < length ys"
      by (auto simp: nth_append nth_Cons')
    then show "?ds[?i := ?l] ! i \<noteq> addr" using assms nth_mem by fastforce
  qed
  show ?thesis unfolding split del_loop_append before using after by simp
qed

lemma DelDelegate_present:
  assumes "distinct (xs @ addr # ys)" and "DelegateAddrs a = xs @ addr # ys"
  shows "DelDelegate a addr =
     Ok (a\<lparr>DelegateAddrs := (if ys = [] then xs else xs @ last ys # butlast ys)\<rparr>)"
proof (cases ys rule: rev_cases)
  case Nil
  then show ?thesis using assms del_loop_distinct [OF assms(1)] by (simp add: DelDelegate_def)
next
  case (snoc zs z)
  then have "(xs @ addr # ys) ! (length xs + length ys) = z"
    and "take (length xs + length ys) ((xs @ addr # ys)[length xs := z]) = xs @ z # zs"
    by (simp_all add: nth_append list_update_append)
  then show ?thesis using assms snoc del_loop_distinct [OF assms(1)] by (simp add: DelDelegate_def)
qed

section \<open>What the operations do\<close>

text \<open>A transfer between two accounts of the state either leaves the state as it was or succeeds.\<close>

lemma TransferBalance_cases:
  assumes "accounts_wf P s" and "TransferBalance P from to n s = (r, s')"
  shows "s' = s \<and> r \<noteq> Ok () \<or>
    (\<exists>x y x' y' s1. GetAccount from False s = Some x \<and> GetAccount to False s = Some y \<and>
       Transfer x (Some y) n = Ok (x', y') \<and> SetAccount P from x' s = (Ok (), s1) \<and>
       SetAccount P to y' s1 = (Ok (), s') \<and> r = Ok ())"
proof -
  consider "GetAccount from False s = None \<or> GetAccount to False s = None"
    | x y where "GetAccount from False s = Some x" "GetAccount to False s = Some y"
    by (cases "GetAccount from False s"; cases "GetAccount to False s") auto
  then show ?thesis
  proof cases
    case 1
    then show ?thesis using assms(2) by (auto simp: TransferBalance_def split: option.splits)
  next
    case 2
    show ?thesis
    proof (cases "Transfer x (Some y) n")
      case (Ok p)
      obtain x' y' where p: "p = (x', y')" by force
      obtain s1 where s1: "SetAccount P from x' s = (Ok (), s1)"
        using SetAccount_existing [OF assms(1) 2(1)] by blast
      have "accounts_wf P s1" using SetAccount_wf_Ok [OF s1 assms(1)] .
      moreover have "\<exists>z. GetAccount to False s1 = Some z"
        using SetAccount_get [OF s1, of to] 2(2) by auto
      ultimately obtain s2 where "SetAccount P to y' s1 = (Ok (), s2)"
        using SetAccount_existing by blast
      then show ?thesis using assms(2) 2 Ok p s1 by (auto simp: TransferBalance_def)
    qed (use assms(2) 2 in \<open>auto simp: TransferBalance_def\<close>)
  qed
qed

lemma TransferBalance_wf:
  assumes "accounts_wf P s" and "TransferBalance P from to n s = (r, s')"
  shows "accounts_wf P s'"
  using TransferBalance_cases [OF assms] assms(1) SetAccount_wf_Ok by blast

lemma TransferBalance_supply:
  assumes "accounts_wf P s" and "from \<noteq> to" and "TransferBalance P from to n s = (r, s')"
  shows "token_supply s' = token_supply s"
  using TransferBalance_cases [OF assms(1,3)]
proof (elim disjE exE conjE)
  fix x y x' y' s1
  assume a: "GetAccount from False s = Some x" "GetAccount to False s = Some y"
    "SetAccount P from x' s = (Ok (), s1)" "SetAccount P to y' s1 = (Ok (), s')"
    and t: "Transfer x (Some y) n = Ok (x', y')"
  show ?thesis
    using supply_move [OF assms(1,2) a] Transfer_tokens [OF t] by simp
qed simp

lemma SubtractCost_cases:
  assumes wf: "accounts_wf P s" and run: "SubtractCostIncrementNonce P a ty s = (r, s')"
  defines "bump \<equiv> (\<lambda>acc. if ty \<noteq> COLLECT_FAUCET then acc\<lparr>Nonce := Nonce acc + 1\<rparr> else acc)"
  shows "s' = s \<and> r \<noteq> Ok () \<or>
    (\<exists>acc. GetAccount a False s = Some acc \<and> TxCost ty False s = Ok 0 \<and> r = Ok () \<and>
       SetAccount P a (bump acc) s = (Ok (), s')) \<or>
    (\<exists>acc cost burn acc' burn' s1. GetAccount a False s = Some acc \<and> TxCost ty False s = Ok cost \<and>
       cost \<noteq> 0 \<and> r = Ok () \<and> GetAccount BurnAddress False s = Some burn \<and>
       Transfer (bump acc) (Some burn) cost = Ok (acc', burn') \<and>
       SetAccount P BurnAddress burn' s = (Ok (), s1) \<and> SetAccount P a acc' s1 = (Ok (), s'))"
proof (cases "GetAccount a False s")
  case None
  then show ?thesis using run by (auto simp: SubtractCostIncrementNonce_def)
next
  case (Some acc)
  note acc = Some
  show ?thesis
  proof (cases "TxCost ty False s")
    case (Ok cost)
    note cost = Ok
    show ?thesis
    proof (cases "cost = 0")
      case True
      obtain s1 where s1: "SetAccount P a (bump acc) s = (Ok (), s1)"
        using SetAccount_existing [OF wf acc] by blast
      then show ?thesis
        using run acc cost True by (auto simp: SubtractCostIncrementNonce_def wrap_st_def bump_def)
    next
      case False
      show ?thesis
      proof (cases "GetAccount BurnAddress False s")
        case None
        then show ?thesis using run acc cost False by (auto simp: SubtractCostIncrementNonce_def)
      next
        case (Some burn)
        show ?thesis
        proof (cases "Transfer (bump acc) (Some burn) cost")
          case (Ok p)
          obtain acc' burn' where p: "p = (acc', burn')" by force
          obtain s1 where s1: "SetAccount P BurnAddress burn' s = (Ok (), s1)"
            using SetAccount_existing [OF wf Some] by blast
          have "\<exists>z. GetAccount a False s1 = Some z" using SetAccount_get [OF s1, of a] acc by auto
          then obtain s2 where "SetAccount P a acc' s1 = (Ok (), s2)"
            using SetAccount_existing SetAccount_wf_Ok [OF s1 wf] by blast
          then show ?thesis
            using run acc cost False Some Ok p s1
            by (auto simp: SubtractCostIncrementNonce_def wrap_st_def bump_def Let_def)
        qed (use run acc cost False Some in
            \<open>auto simp: SubtractCostIncrementNonce_def bump_def Let_def\<close>)
      qed
    qed
  qed (use run acc in \<open>auto simp: SubtractCostIncrementNonce_def\<close>)
qed

lemma SubtractCost_conserves:
  assumes "accounts_wf P s" and "a \<noteq> BurnAddress" and "SubtractCostIncrementNonce P a ty s = (r, s')"
  shows "token_supply s' = token_supply s"
  using SubtractCost_cases [OF assms(1,3)]
proof (elim disjE exE conjE)
  fix acc
  assume acc: "GetAccount a False s = Some acc"
    and set: "SetAccount P a (if ty \<noteq> COLLECT_FAUCET then acc\<lparr>Nonce := Nonce acc + 1\<rparr> else acc) s = (Ok (), s')"
  show ?thesis using supply_Set_existing [OF assms(1) acc set] by (simp split: if_splits)
next
  fix acc cost burn acc' burn' s1
  assume a: "GetAccount a False s = Some acc" and b: "GetAccount BurnAddress False s = Some burn"
    and t: "Transfer (if ty \<noteq> COLLECT_FAUCET then acc\<lparr>Nonce := Nonce acc + 1\<rparr> else acc) (Some burn) cost = Ok (acc', burn')"
    and s: "SetAccount P BurnAddress burn' s = (Ok (), s1)" "SetAccount P a acc' s1 = (Ok (), s')"
  have "tokens burn' + tokens acc' = tokens burn + tokens acc"
    using Transfer_tokens [OF t] by (auto split: if_splits)
  then show ?thesis using supply_move [OF assms(1) _ b a s] assms(2) by auto
qed simp

text \<open>The state shape and the supply under the remaining operations.\<close>

lemma MintBalance_supply:
  assumes "accounts_wf P s" and "MintBalance P a n s = (r, s')"
  shows "r = Ok () \<and> token_supply s' = token_supply s + unat n \<or> r \<noteq> Ok () \<and> s' = s"
proof (cases "GetAccount a False s")
  case (Some acc)
  obtain s1 where s1: "SetAccount P a (acc\<lparr>Balance := Balance acc + n\<rparr>) s = (Ok (), s1)"
    using SetAccount_existing [OF assms(1) Some] by blast
  show ?thesis
  proof (cases "n = 0 \<or> Balance acc + n \<le> Balance acc")
    case True
    then show ?thesis using assms(2) Some by (auto simp: MintBalance_def split: if_splits)
  next
    case False
    then have "tokens (acc\<lparr>Balance := Balance acc + n\<rparr>) = tokens acc + unat n"
      using add_overflow_iff [of n "Balance acc"] by (simp add: unat_add_fits)
    then show ?thesis
      using assms(2) Some s1 False supply_Set_existing [OF assms(1) Some s1]
      by (auto simp: MintBalance_def)
  qed
qed (use assms(2) in \<open>auto simp: MintBalance_def split: if_splits\<close>)

lemma CreateAccount_supply:
  assumes "accounts_wf P s" and "CreateAccount P a uri ds n s = (r, s')"
  shows "r = Ok () \<and> GetAccount a False s = None \<and> token_supply s' = token_supply s + unat n \<or> r \<noteq> Ok () \<and> s' = s"
proof (cases "a = EthereumZeroAddress \<or> GetAccount a False s \<noteq> None")
  case True
  then show ?thesis using assms(2) by (auto simp: CreateAccount_def split: if_splits)
next
  case False
  then obtain acc where acc: "SetAccount P a acc s = (r, s')" "tokens acc = unat n"
    using assms(2) by (auto simp: CreateAccount_def)
  show ?thesis
  proof (cases "r = Ok ()")
    case True
    then show ?thesis using supply_Set_new [OF assms(1), of a acc "()" s'] acc False by auto
  next
    case False
    then show ?thesis using SetAccount_not_Ok [OF acc(1)] by auto
  qed
qed

lemma SetAccountInfoURI_supply:
  assumes "accounts_wf P s" and "SetAccountInfoURI P a uri s = (r, s')"
  shows "token_supply s' = token_supply s"
proof (cases "GetAccount a False s")
  case (Some acc)
  then obtain s1 where s1: "SetAccount P a (acc\<lparr>InfoURI := uri\<rparr>) s = (Ok (), s1)"
    using SetAccount_existing [OF assms(1)] by blast
  then show ?thesis
    using assms(2) Some supply_Set_existing [OF assms(1) Some s1] by (auto simp: SetAccountInfoURI_def)
qed (use assms(2) in \<open>auto simp: SetAccountInfoURI_def\<close>)

lemma IncrementAccountProcessIndex_supply:
  assumes "accounts_wf P s" and "IncrementAccountProcessIndex P a s = (r, s')"
  shows "token_supply s' = token_supply s"
proof (cases "GetAccount a False s")
  case (Some acc)
  let ?i = "if 4194304 < ProcessIndex acc then 0 else ProcessIndex acc"
  obtain s1 where s1: "SetAccount P a (acc\<lparr>ProcessIndex := ?i + 1\<rparr>) s = (Ok (), s1)"
    using SetAccount_existing [OF assms(1) Some] by blast
  then show ?thesis
    using assms(2) Some supply_Set_existing [OF assms(1) Some s1]
    by (auto simp: IncrementAccountProcessIndex_def Let_def)
qed (use assms(2) in \<open>auto simp: IncrementAccountProcessIndex_def\<close>)

lemma SetAccountDelegate_supply:
  assumes "accounts_wf P s" and "SetAccountDelegate P a d ty s = (r, s')"
  shows "token_supply s' = token_supply s"
proof -
  have keep: "token_supply s2 = token_supply s"
    if "SetAccount P a acc' s = (r2, s2)" "GetAccount a False s = Some acc" "tokens acc' = tokens acc"
    for acc acc' r2 s2
    using that SetAccount_existing [OF assms(1) that(2), of acc'] supply_Set_existing [OF assms(1) that(2)]
    by fastforce
  have "tokens acc' = tokens acc" if "AddDelegate acc d = Ok acc' \<or> DelDelegate acc d = Ok acc'" for acc acc'
    using that by (auto simp: AddDelegate_def DelDelegate_def res_simps split: if_splits)
  then show ?thesis
    using assms(2) keep
    by (cases "GetAccount a False s"; cases "AddDelegate (the (GetAccount a False s)) d";
        cases "DelDelegate (the (GetAccount a False s)) d")
      (auto simp: SetAccountDelegate_def split: if_splits)
qed

lemma SetFaucetNonce_frame [frame_simps]:
  "SetFaucetNonce P k s = (r, s') \<Longrightarrow>
     tr_Accounts (st_Tx s') = tr_Accounts (st_Tx s) \<and> tr_Extra (st_Tx s') = tr_Extra (st_Tx s) \<and>
     (r \<noteq> Ok () \<longrightarrow> s' = s)"
  by (cases "Tree_Set P 256 (tr_Faucet (st_Tx s)) k ()") (auto simp: SetFaucetNonce_def DeepSet_def)

lemma SetFaucetNonce_used:
  assumes "SetFaucetNonce P k s = (Ok (), s')" and "\<not> arbo_leaf_stop P"
  shows "FaucetNonce P k' False s' \<longleftrightarrow> k' = k \<or> FaucetNonce P k' False s"
  using assms
  by (auto simp: SetFaucetNonce_def DeepSet_Ok FaucetNonce_iff mainTreeViewer_def Tree_Set_lookup
      split: if_splits)

text \<open>The three accounts a consumed faucet payload touches, as it leaves them.\<close>

definition faucet_result ::
  "Account \<Rightarrow> Account \<Rightarrow> Account \<Rightarrow> u64 \<Rightarrow> TxType \<Rightarrow> state \<Rightarrow> (Account \<times> Account \<times> Account) res" where
  "faucet_result x y z amount txType s =
     rbind (Transfer x (Some y) amount) (\<lambda>(x, y).
       if txType = SET_ACCOUNT_INFO
       then rbind (TxCost COLLECT_FAUCET False s)
              (\<lambda>cost. rbind (Transfer x (Some z) cost) (\<lambda>(x, z). Ok (x, y, z)))
       else Ok (x, y\<lparr>Nonce := Nonce y + 1\<rparr>, z))"

lemma faucet_result_tokens:
  assumes "faucet_result x y z n ty s = Ok (x', y', z')"
  shows "tokens x' + tokens y' + tokens z' = tokens x + tokens y + tokens z"
proof -
  obtain x1 y1 where t: "Transfer x (Some y) n = Ok (x1, y1)"
    using assms by (auto simp: faucet_result_def res_simps)
  show ?thesis
  proof (cases "ty = SET_ACCOUNT_INFO")
    case True
    then obtain c where "Transfer x1 (Some z) c = Ok (x', z')" and "y' = y1"
      using assms t by (auto simp: faucet_result_def res_simps split: prod.splits)
    then show ?thesis using Transfer_tokens [OF t] Transfer_tokens [of x1 z c x' z'] by simp
  next
    case False
    then show ?thesis using assms Transfer_tokens [OF t] t by (auto simp: faucet_result_def)
  qed
qed

lemma ConsumeFaucetPayload_Ok:
  assumes "ConsumeFaucetPayload P from (Some fp) ty s = (Ok (), s')"
  shows "\<exists>x y z x' y' z' s0 s1 s2.
     GetAccount from False s = Some x \<and> GetAccount (BytesToAddress P (fp_To fp)) False s = Some y \<and>
     GetAccount BurnAddress False s = Some z \<and> faucet_result x y z (fp_Amount fp) ty s = Ok (x', y', z') \<and>
     SetFaucetNonce P (faucet_key P from (fp_Identifier fp)) s = (Ok (), s0) \<and>
     SetAccount P from x' s0 = (Ok (), s1) \<and>
     SetAccount P (BytesToAddress P (fp_To fp)) y' s1 = (Ok (), s2) \<and>
     SetAccount P BurnAddress z' s2 = (Ok (), s')"
proof -
  obtain x y z where acc: "GetAccount from False s = Some x"
      "GetAccount (BytesToAddress P (fp_To fp)) False s = Some y" "GetAccount BurnAddress False s = Some z"
    and nz: "from \<noteq> EthereumZeroAddress"
    using assms by (auto simp: ConsumeFaucetPayload_def Let_def split: if_splits option.splits)
  obtain x1 y1 where t: "Transfer x (Some y) (fp_Amount fp) = Ok (x1, y1)"
    using assms acc nz
    by (auto simp: ConsumeFaucetPayload_def Let_def res_simps)
  then obtain x' y' z' where "faucet_result x y z (fp_Amount fp) ty s = Ok (x', y', z')"
    and "and_then (SetFaucetNonce P (faucet_key P from (fp_Identifier fp)) s) (\<lambda>_ s.
         and_then (SetAccount P from x' s) (\<lambda>_ s.
         and_then (SetAccount P (BytesToAddress P (fp_To fp)) y' s) (\<lambda>_ s.
           SetAccount P BurnAddress z' s))) = (Ok (), s')"
    using assms acc nz
    by (auto simp: ConsumeFaucetPayload_def Let_def res_simps faucet_result_def split: if_splits prod.splits)
  then show ?thesis using acc by (auto simp: res_simps)
qed

text \<open>Reading an account after a write to the faucet tree.\<close>

lemma GetAccount_frame:
  "tr_Accounts (st_Tx s') = tr_Accounts (st_Tx s) \<Longrightarrow> GetAccount a False s' = GetAccount a False s"
  by (simp add: GetAccount_def mainTreeViewer_def)

lemma accounts_wf_frame:
  "tr_Accounts (st_Tx s') = tr_Accounts (st_Tx s) \<Longrightarrow> accounts_wf P s' = accounts_wf P s"
  by (simp add: accounts_wf_def)

lemma supply_frame:
  "tr_Accounts (st_Tx s') = tr_Accounts (st_Tx s) \<Longrightarrow> token_supply s' = token_supply s"
  by (simp add: token_supply_def)

lemma ConsumeFaucetPayload_supply:
  assumes wf: "accounts_wf P s" and run: "ConsumeFaucetPayload P from (Some fp) ty s = (Ok (), s')"
    and ne: "from \<noteq> BytesToAddress P (fp_To fp)" "from \<noteq> BurnAddress"
      "BytesToAddress P (fp_To fp) \<noteq> BurnAddress"
  shows "token_supply s' = token_supply s"
proof -
  obtain x y z x' y' z' s0 s1 s2 where g: "GetAccount from False s = Some x"
      "GetAccount (BytesToAddress P (fp_To fp)) False s = Some y" "GetAccount BurnAddress False s = Some z"
    and f: "faucet_result x y z (fp_Amount fp) ty s = Ok (x', y', z')"
    and n: "SetFaucetNonce P (faucet_key P from (fp_Identifier fp)) s = (Ok (), s0)"
    and w: "SetAccount P from x' s0 = (Ok (), s1)"
      "SetAccount P (BytesToAddress P (fp_To fp)) y' s1 = (Ok (), s2)"
      "SetAccount P BurnAddress z' s2 = (Ok (), s')"
    using ConsumeFaucetPayload_Ok [OF run] by blast
  have eq: "tr_Accounts (st_Tx s0) = tr_Accounts (st_Tx s)" using SetFaucetNonce_frame [OF n] by simp
  have "accounts_wf P s0" "GetAccount from False s0 = Some x"
      "GetAccount (BytesToAddress P (fp_To fp)) False s0 = Some y" "GetAccount BurnAddress False s0 = Some z"
    using wf g by (simp_all add: accounts_wf_frame [OF eq] GetAccount_frame [OF eq])
  then have "token_supply s' = token_supply s0"
    using supply_move3 [of P s0] ne w faucet_result_tokens [OF f] by blast
  then show ?thesis using supply_frame [OF eq] by simp
qed

lemma SetAccount_faucet: "SetAccount P a acc s = (r, s') \<Longrightarrow> FaucetNonce P k False s' = FaucetNonce P k False s"
  using SetAccount_frame by (simp add: FaucetNonce_def mainTreeViewer_def)

lemma ConsumeFaucetPayload_used:
  assumes "ConsumeFaucetPayload P from (Some fp) ty s = (Ok (), s')" and "\<not> arbo_leaf_stop P"
  shows "FaucetNonce P (faucet_key P from (fp_Identifier fp)) False s'"
proof -
  obtain x' y' z' s0 s1 s2 where n: "SetFaucetNonce P (faucet_key P from (fp_Identifier fp)) s = (Ok (), s0)"
    and w: "SetAccount P from x' s0 = (Ok (), s1)"
      "SetAccount P (BytesToAddress P (fp_To fp)) y' s1 = (Ok (), s2)"
      "SetAccount P BurnAddress z' s2 = (Ok (), s')"
    using ConsumeFaucetPayload_Ok [OF assms(1)] by blast
  then show ?thesis using SetFaucetNonce_used [OF n assms(2)] by (simp add: SetAccount_faucet)
qed

section \<open>The shape of the accounts tree is kept\<close>

lemma SetFaucetNonce_wf: "accounts_wf P s \<Longrightarrow> accounts_wf P (snd (SetFaucetNonce P k s))"
proof (cases "SetFaucetNonce P k s")
  case (Pair r s')
  then show "accounts_wf P s \<Longrightarrow> ?thesis"
    using SetFaucetNonce_frame [OF Pair] accounts_wf_frame [of s' s P] by simp
qed

lemma account_operations_wf:
  assumes "accounts_wf P s"
  shows "accounts_wf P (snd (TransferBalance P a b n s))"
    and "accounts_wf P (snd (MintBalance P a n s))"
    and "accounts_wf P (snd (SetAccountInfoURI P a uri s))"
    and "accounts_wf P (snd (IncrementAccountProcessIndex P a s))"
    and "accounts_wf P (snd (CreateAccount P a uri ds n s))"
    and "accounts_wf P (snd (SubtractCostIncrementNonce P a ty s))"
    and "accounts_wf P (snd (SetAccountDelegate P a d ty s))"
    and "accounts_wf P (snd (ConsumeFaucetPayload P a fp ty s))"
proof -
  note rules = with_res_keeps [where Q = "accounts_wf P"] and_then_keeps [where Q = "accounts_wf P"]
    SetAccount_wf SetFaucetNonce_wf assms
  show "accounts_wf P (snd (TransferBalance P a b n s))"
    unfolding TransferBalance_def by (auto split: option.split prod.split intro!: rules)
  show "accounts_wf P (snd (MintBalance P a n s))"
    unfolding MintBalance_def by (auto split: option.split intro!: rules)
  show "accounts_wf P (snd (SetAccountInfoURI P a uri s))"
    unfolding SetAccountInfoURI_def by (auto split: option.split intro!: rules)
  show "accounts_wf P (snd (IncrementAccountProcessIndex P a s))"
    unfolding IncrementAccountProcessIndex_def Let_def by (auto split: option.split intro!: rules)
  show "accounts_wf P (snd (CreateAccount P a uri ds n s))"
    unfolding CreateAccount_def by (auto split: option.split intro!: rules)
  show "accounts_wf P (snd (SubtractCostIncrementNonce P a ty s))"
    unfolding SubtractCostIncrementNonce_def Let_def
    by (auto split: option.split prod.split intro!: rules)
  show "accounts_wf P (snd (SetAccountDelegate P a d ty s))"
    unfolding SetAccountDelegate_def by (auto split: option.split intro!: rules)
  show "accounts_wf P (snd (ConsumeFaucetPayload P a fp ty s))"
    unfolding ConsumeFaucetPayload_def Let_def by (auto split: option.split prod.split intro!: rules)
qed

section \<open>Properties\<close>

text \<open>Two accounts, the burn account and the costs of two transaction types, for evaluation.\<close>

definition alice :: address where "alice = replicate 20 1"
definition bob :: address where "bob = replicate 20 2"

definition acc0 :: "u64 \<Rightarrow> Account" where
  "acc0 b = \<lparr>Balance = b, Nonce = 0, InfoURI = ''ipfs://x'', DelegateAddrs = [], ProcessIndex = 0\<rparr>"

definition ex_state :: state where
  "ex_state = NewState\<lparr>st_Tx := trees0\<lparr>
     tr_Accounts := [(alice, acc0 100), (bob, acc0 50), (BurnAddress, acc0 0)],
     tr_Extra := [(str ''c_sendTokens'', XBytes (PutUint64LE 10)),
                  (str ''c_collectFaucet'', XBytes (PutUint64LE 3))]\<rparr>\<rparr>"

lemmas ex_defs = ex_state_def acc0_def alice_def bob_def BurnAddress_def NewState_def trees0_def
  mainTreeViewer_def GetAccount_def

lemma ex_distinct [simp]: "alice \<noteq> bob" "bob \<noteq> alice" "alice \<noteq> BurnAddress" "bob \<noteq> BurnAddress"
  "BurnAddress \<noteq> alice" "BurnAddress \<noteq> bob" "alice \<noteq> EthereumZeroAddress" "bob \<noteq> EthereumZeroAddress"
  "length alice = 20" "length bob = 20" "length BurnAddress = 20"
  by (simp_all add: alice_def bob_def BurnAddress_def EthereumZeroAddress_def)

lemma ex_get [simp]: "GetAccount alice False ex_state = Some (acc0 100)"
  "GetAccount bob False ex_state = Some (acc0 50)" "GetAccount BurnAddress False ex_state = Some (acc0 0)"
  by (simp_all add: GetAccount_def ex_state_def mainTreeViewer_def)

lemma ex_wf [simp]: "accounts_wf params0 ex_state"
  by (simp add: accounts_wf_def ex_state_def params0_def)

lemma ex_supply: "token_supply ex_state = 150"
  by (simp add: token_supply_def ex_state_def acc0_def)

text \<open>A transfer between two accounts succeeds exactly when the amount is positive, the sender
  has it and the receiver's balance does not pass 64 bits; then the amount leaves one balance and
  enters the other, as integers, and nothing else changes.\<close>

theorem transfer_exact:
  "Transfer a (Some d) n = Ok (a', d') \<longleftrightarrow>
     0 < unat n \<and> unat n \<le> tokens a \<and> tokens d + unat n < 2 ^ 64 \<and>
     tokens a' = tokens a - unat n \<and> tokens d' = tokens d + unat n \<and>
     a' = a\<lparr>Balance := Balance a'\<rparr> \<and> d' = d\<lparr>Balance := Balance d'\<rparr>"
  (is "?L \<longleftrightarrow> ?R")
proof
  assume ?L
  then show ?R using Transfer_tokens [of a d n a' d']
    by (auto simp: Transfer_Ok_iff word_le_nat_alt unat_gt_0)
next
  assume R: ?R
  then have "Balance a' = Balance a - n" "Balance d' = Balance d + n"
    by (auto simp: word_unat_eq_iff unat_add_fits unat_sub word_le_nat_alt)
  with R show ?L by (auto simp: Transfer_Ok_iff word_le_nat_alt unat_gt_0)
qed

text \<open>Moving tokens between two different accounts conserves the sum of all balances and the
  shape of the tree, whatever the outcome; a refused transfer leaves the state as it was.\<close>

theorem transfer_balance_conserves:
  assumes "accounts_wf P s" and "from \<noteq> to" and "TransferBalance P from to n s = (r, s')"
  shows "token_supply s' = token_supply s \<and> accounts_wf P s' \<and> (r \<noteq> Ok () \<longrightarrow> s' = s)"
  using TransferBalance_supply [OF assms] TransferBalance_wf [OF assms(1,3)]
    TransferBalance_cases [OF assms(1,3)] by blast

theorem transfer_balance_conserves_witness:
  "token_supply (snd (TransferBalance params0 alice bob 30 ex_state)) = 150"
  using transfer_balance_conserves [OF ex_wf, of alice bob 30
      "fst (TransferBalance params0 alice bob 30 ex_state)"
      "snd (TransferBalance params0 alice bob 30 ex_state)"] ex_supply
  by simp

text \<open>A transfer from an account to itself creates tokens: the state writes the account it
  subtracted from, then the copy it added to, over it. The sum of balances grows by the amount.\<close>

theorem self_transfer_creates_tokens:
  assumes "accounts_wf P s" and "GetAccount a False s = Some x"
    and "n \<noteq> 0" and "n \<le> Balance x" and "tokens x + unat n < 2 ^ 64"
  shows "fst (TransferBalance P a a n s) = Ok () \<and>
    token_supply (snd (TransferBalance P a a n s)) = token_supply s + unat n"
proof -
  let ?x1 = "x\<lparr>Balance := Balance x - n\<rparr>" and ?x2 = "x\<lparr>Balance := Balance x + n\<rparr>"
  have t: "Transfer x (Some x) n = Ok (?x1, ?x2)"
    using assms(3-5) by (simp add: Transfer_Ok_iff)
  obtain s1 where s1: "SetAccount P a ?x1 s = (Ok (), s1)"
    using SetAccount_existing [OF assms(1,2)] by blast
  have g: "GetAccount a False s1 = Some ?x1" using SetAccount_get [OF s1] by simp
  have wf1: "accounts_wf P s1" using SetAccount_wf_Ok [OF s1 assms(1)] .
  obtain s2 where s2: "SetAccount P a ?x2 s1 = (Ok (), s2)"
    using SetAccount_existing [OF wf1 g] by blast
  have "TransferBalance P a a n s = (Ok (), s2)"
    using assms(2) t s1 s2 by (simp add: TransferBalance_def)
  moreover have "token_supply s2 = token_supply s + unat n"
    using supply_Set_existing [OF assms(1,2) s1] supply_Set_existing [OF wf1 g s2]
      Transfer_tokens [OF t] by simp
  ultimately show ?thesis by simp
qed

theorem self_transfer_creates_tokens_witness:
  "token_supply (snd (TransferBalance params0 alice alice 30 ex_state)) = 180"
  using self_transfer_creates_tokens [OF ex_wf ex_get(1), of 30] ex_supply
  by (simp add: acc0_def)

text \<open>The fee of a transaction: on success the sender has paid exactly the cost of the type to
  the burn account and, except for faucet collections, its nonce has grown by one; no other account
  changes and the sum of all balances is conserved.\<close>

theorem fee_effect:
  assumes "accounts_wf P s" and "a \<noteq> BurnAddress"
    and "SubtractCostIncrementNonce P a ty s = (Ok (), s')"
  shows "(\<exists>acc acc' cost. GetAccount a False s = Some acc \<and> TxCost ty False s = Ok cost \<and>
      GetAccount a False s' = Some acc' \<and> tokens acc' + unat cost = tokens acc \<and>
      Nonce acc' = (if ty = COLLECT_FAUCET then Nonce acc else Nonce acc + 1) \<and>
      DelegateAddrs acc' = DelegateAddrs acc \<and>
      (\<forall>b. b \<noteq> a \<and> b \<noteq> BurnAddress \<longrightarrow> GetAccount b False s' = GetAccount b False s))
    \<and> token_supply s' = token_supply s"
proof (rule conjI)
  show "token_supply s' = token_supply s" by (rule SubtractCost_conserves [OF assms])
  show "\<exists>acc acc' cost. GetAccount a False s = Some acc \<and> TxCost ty False s = Ok cost \<and>
      GetAccount a False s' = Some acc' \<and> tokens acc' + unat cost = tokens acc \<and>
      Nonce acc' = (if ty = COLLECT_FAUCET then Nonce acc else Nonce acc + 1) \<and>
      DelegateAddrs acc' = DelegateAddrs acc \<and>
      (\<forall>b. b \<noteq> a \<and> b \<noteq> BurnAddress \<longrightarrow> GetAccount b False s' = GetAccount b False s)"
    using SubtractCost_cases [OF assms(1,3)]
  proof (elim disjE exE conjE)
    fix acc
    assume g: "GetAccount a False s = Some acc" and c: "TxCost ty False s = Ok 0"
      and w: "SetAccount P a (if ty \<noteq> COLLECT_FAUCET then acc\<lparr>Nonce := Nonce acc + 1\<rparr> else acc) s = (Ok (), s')"
    show ?thesis using g c by (simp add: SetAccount_get [OF w])
  next
    fix acc cost burn acc' burn' s1
    assume g: "GetAccount a False s = Some acc" and c: "TxCost ty False s = Ok cost"
      and t: "Transfer (if ty \<noteq> COLLECT_FAUCET then acc\<lparr>Nonce := Nonce acc + 1\<rparr> else acc) (Some burn) cost = Ok (acc', burn')"
      and w: "SetAccount P BurnAddress burn' s = (Ok (), s1)" "SetAccount P a acc' s1 = (Ok (), s')"
    show ?thesis
      using g c t assms(2) Transfer_tokens [OF t]
      by (auto simp: SetAccount_get [OF w(1)] SetAccount_get [OF w(2)] Transfer_Ok_iff)
  qed simp
qed

lemma ex_costs [simp]: "TxCost SEND_TOKENS c ex_state = (if c then Fail (Errf ''tx cost for %s not found'') else Ok 10)"
  "TxCost COLLECT_FAUCET c ex_state = (if c then Fail (Errf ''tx cost for %s not found'') else Ok 3)"
  by (simp_all add: TxCost_def TxTypeCostToStateKey_def ex_state_def mainTreeViewer_def Tree_Get_def
      of_option_def NewState_def trees0_def)

lemma SetAccount_ex [simp]:
  "length a = 20 \<Longrightarrow> fst (SetAccount params0 a acc s) = Ok ()"
  by (simp add: SetAccount_def DeepSet_def Tree_Set_def Tree_Add_def params0_def)

theorem fee_effect_witness:
  "let s' = snd (SubtractCostIncrementNonce params0 alice SEND_TOKENS ex_state)
   in \<exists>acc'. GetAccount alice False s' = Some acc' \<and> tokens acc' = 90 \<and> Nonce acc' = 1 \<and>
        token_supply s' = 150"
proof -
  let ?r = "SubtractCostIncrementNonce params0 alice SEND_TOKENS ex_state"
  have "fst ?r = Ok ()"
    using SubtractCost_cases [OF ex_wf, of alice SEND_TOKENS "fst ?r" "snd ?r"]
    by (simp add: SubtractCostIncrementNonce_def acc0_def Transfer_def wrap_st_def)
  then have "?r = (Ok (), snd ?r)" by (cases ?r) simp
  from fee_effect [OF ex_wf _ this] show ?thesis by (auto simp: ex_supply acc0_def Let_def)
qed

text \<open>Minting adds exactly the amount to the sum of all balances, or is refused and changes
  nothing.\<close>

theorem mint_exact:
  assumes "accounts_wf P s" and "MintBalance P a n s = (r, s')"
  shows "(r = Ok () \<and> token_supply s' = token_supply s + unat n \<and> accounts_wf P s') \<or> (r \<noteq> Ok () \<and> s' = s)"
  using MintBalance_supply [OF assms] account_operations_wf(2) [OF assms(1), of a n] assms(2) by auto

theorem mint_exact_witness:
  "token_supply (snd (MintBalance params0 bob 7 ex_state)) = 157"
proof -
  let ?r = "MintBalance params0 bob 7 ex_state"
  have "fst ?r = Ok ()" by (simp add: MintBalance_def acc0_def)
  then have "?r = (Ok (), snd ?r)" by (cases ?r) simp
  from mint_exact [OF ex_wf this] show ?thesis by (simp add: ex_supply)
qed


definition ex_faucet :: "address \<Rightarrow> FaucetPayload" where
  "ex_faucet to = \<lparr>fp_Identifier = 77, fp_To = to, fp_Amount = 20\<rparr>"

lemma ex_address [simp]: "BytesToAddress params0 alice = alice" "BytesToAddress params0 bob = bob"
  by (simp_all add: params0_def pad20_def)

lemma SetFaucetNonce_ex [simp]: "fst (SetFaucetNonce params0 (faucet_key params0 a i) s) = Ok ()"
proof -
  have "arbo_key_ok params0 256 (faucet_key params0 a i)"
    by (simp add: params0_def faucet_key_def min_def)
  then show ?thesis by (simp add: SetFaucetNonce_def DeepSet_def Tree_Set_def Tree_Add_def)
qed

lemma and_then_Ok_fst: "fst r = Ok a \<Longrightarrow> and_then r k = k a (snd r)"
  by (cases r) simp

lemma ex_faucet_runs:
  "fst (ConsumeFaucetPayload params0 alice (Some (ex_faucet b)) COLLECT_FAUCET ex_state) = Ok ()"
  if "b = alice \<or> b = bob"
  using that by (auto simp: ConsumeFaucetPayload_def ex_faucet_def Transfer_def acc0_def and_then_Ok_fst)


text \<open>A faucet payload that its signer addresses to itself creates its amount: the account is
  written once with the amount taken off and then with the amount added.\<close>

theorem faucet_to_self_creates_tokens:
  assumes "accounts_wf P s" and "ConsumeFaucetPayload P a (Some fp) ty s = (Ok (), s')"
    and "BytesToAddress P (fp_To fp) = a" and "a \<noteq> BurnAddress" and "ty \<noteq> SET_ACCOUNT_INFO"
  shows "token_supply s' = token_supply s + unat (fp_Amount fp)"
proof -
  obtain x z x' y' z' s0 s1 s2 where g: "GetAccount a False s = Some x" "GetAccount BurnAddress False s = Some z"
    and f: "faucet_result x x z (fp_Amount fp) ty s = Ok (x', y', z')"
    and n: "SetFaucetNonce P (faucet_key P a (fp_Identifier fp)) s = (Ok (), s0)"
    and w: "SetAccount P a x' s0 = (Ok (), s1)" "SetAccount P a y' s1 = (Ok (), s2)"
      "SetAccount P BurnAddress z' s2 = (Ok (), s')"
    using ConsumeFaucetPayload_Ok [OF assms(2)] assms(3) by auto
  have eq: "tr_Accounts (st_Tx s0) = tr_Accounts (st_Tx s)" using SetFaucetNonce_frame [OF n] by simp
  have wf0: "accounts_wf P s0" and g0: "GetAccount a False s0 = Some x" "GetAccount BurnAddress False s0 = Some z"
    using assms(1) g by (simp_all add: accounts_wf_frame [OF eq] GetAccount_frame [OF eq])
  have y': "tokens y' = tokens x + unat (fp_Amount fp)" and z': "z' = z"
    using f assms(5) Transfer_tokens(2) [of x x "fp_Amount fp"] by (auto simp: faucet_result_def res_simps)
  have wf1: "accounts_wf P s1" using SetAccount_wf_Ok [OF w(1) wf0] .
  have wf2: "accounts_wf P s2" using SetAccount_wf_Ok [OF w(2) wf1] .
  have "GetAccount a False s1 = Some x'" "GetAccount BurnAddress False s2 = Some z"
    using g0 assms(4) by (simp_all add: SetAccount_get [OF w(1)] SetAccount_get [OF w(2)])
  then have "token_supply s' = token_supply s0 + unat (fp_Amount fp)"
    using supply_Set_existing [OF wf0 g0(1) w(1)] supply_Set_existing [OF wf1 _ w(2)]
      supply_Set_existing [OF wf2 _ w(3)] y' z' by auto
  then show ?thesis using supply_frame [OF eq] by simp
qed

theorem faucet_to_self_creates_tokens_witness:
  "token_supply (snd (ConsumeFaucetPayload params0 alice (Some (ex_faucet alice)) COLLECT_FAUCET ex_state)) = 170"
proof -
  let ?r = "ConsumeFaucetPayload params0 alice (Some (ex_faucet alice)) COLLECT_FAUCET ex_state"
  have "?r = (Ok (), snd ?r)" using ex_faucet_runs [of alice] by (cases ?r) simp
  then show ?thesis
    using faucet_to_self_creates_tokens [OF ex_wf, of alice "ex_faucet alice" COLLECT_FAUCET "snd ?r"]
    by (simp add: ex_supply ex_faucet_def)
qed

text \<open>Over a list of delegates without repetitions, which adding keeps, the delegates are a set:
  adding inserts an address that was not there and refuses one that was, removing takes it out, and
  removing never panics.\<close>

theorem delegates_set_semantics:
  assumes "distinct (DelegateAddrs a)"
  shows "(case AddDelegate a d of
            Ok a' \<Rightarrow> d \<notin> set (DelegateAddrs a) \<and> distinct (DelegateAddrs a') \<and>
                     set (DelegateAddrs a') = insert d (set (DelegateAddrs a))
          | Fail _ \<Rightarrow> d \<in> set (DelegateAddrs a)
          | Panic _ \<Rightarrow> False) \<and>
         (\<exists>a'. DelDelegate a d = Ok a' \<and> distinct (DelegateAddrs a') \<and>
               set (DelegateAddrs a') = set (DelegateAddrs a) - {d} \<and> Balance a' = Balance a)"
proof (rule conjI)
  show "case AddDelegate a d of
            Ok a' \<Rightarrow> d \<notin> set (DelegateAddrs a) \<and> distinct (DelegateAddrs a') \<and>
                     set (DelegateAddrs a') = insert d (set (DelegateAddrs a))
          | Fail _ \<Rightarrow> d \<in> set (DelegateAddrs a)
          | Panic _ \<Rightarrow> False"
    using assms by (simp add: AddDelegate_def IsDelegate_iff)
  show "\<exists>a'. DelDelegate a d = Ok a' \<and> distinct (DelegateAddrs a') \<and>
               set (DelegateAddrs a') = set (DelegateAddrs a) - {d} \<and> Balance a' = Balance a"
  proof (cases "d \<in> set (DelegateAddrs a)")
    case True
    then obtain xs ys where ds: "DelegateAddrs a = xs @ d # ys" by (meson split_list)
    with assms have dist: "distinct (xs @ d # ys)" by simp
    show ?thesis
      using DelDelegate_present [OF dist ds] dist ds
      by (cases ys rule: rev_cases) (auto split: if_splits)
  next
    case False
    then show ?thesis using assms by (simp add: DelDelegate_absent)
  qed
qed

theorem delegates_set_semantics_witness:
  "\<exists>a'. DelDelegate ((acc0 5)\<lparr>DelegateAddrs := [alice, bob, BurnAddress]\<rparr>) alice = Ok a' \<and>
        set (DelegateAddrs a') = {bob, BurnAddress}"
  using delegates_set_semantics [of "(acc0 5)\<lparr>DelegateAddrs := [alice, bob, BurnAddress]\<rparr>" alice]
  by (auto simp: acc0_def)

text \<open>With a repeated entry the removal panics: the loop runs over the length the list had at
  the start and writes beyond the shortened slice.\<close>

theorem del_delegate_repeated_panics:
  assumes "DelegateAddrs a = d # ds @ [d]" and "d \<notin> set ds"
  shows "DelDelegate a d = Panic ''index out of range''"
proof -
  let ?l = "d # ds @ [d]"
  have split: "[0..<length ?l] = 0 # [1..<Suc (length ds)] @ [Suc (length ds)]"
    using upt_conv_Cons [of 0 "Suc (Suc (length ds))"] by (simp add: upt_Suc_append del: upt_Suc)
  have upd: "?l[0 := ?l ! (length ?l - 1)] = ?l" by (simp add: nth_append)
  have mid: "del_loop d [1..<Suc (length ds)] ?l (length ?l - 1) = Ok (?l, length ?l - 1)"
    using assms(2) by (intro del_loop_skip) (auto simp: nth_Cons' nth_append)
  have "del_loop d [0..<length ?l] ?l (length ?l) = Panic ''index out of range''"
    unfolding split using upd mid by (simp add: del_loop_append nth_append del: upt_Suc)
  then show ?thesis unfolding DelDelegate_def assms(1) by simp
qed

theorem del_delegate_repeated_panics_witness:
  "DelDelegate ((acc0 5)\<lparr>DelegateAddrs := [alice, bob, alice]\<rparr>) alice = Panic ''index out of range''"
  using del_delegate_repeated_panics [of "(acc0 5)\<lparr>DelegateAddrs := [alice, bob, alice]\<rparr>" alice "[bob]"]
  by simp

text \<open>The process index of an account never reaches the overflow it guards against: after an
  increment it is between 1 and \<open>2 ^ 22 + 1\<close>, it has grown by one while it was at most \<open>2 ^ 22\<close>, and
  only the index changes.\<close>

theorem process_index_bounded:
  assumes "IncrementAccountProcessIndex P a s = (Ok (), s')"
  shows "\<exists>acc acc'. GetAccount a False s = Some acc \<and> GetAccount a False s' = Some acc' \<and>
     1 \<le> unat (ProcessIndex acc') \<and> unat (ProcessIndex acc') \<le> 2 ^ 22 + 1 \<and>
     (unat (ProcessIndex acc) \<le> 2 ^ 22 \<longrightarrow> unat (ProcessIndex acc') = unat (ProcessIndex acc) + 1) \<and>
     acc' = acc\<lparr>ProcessIndex := ProcessIndex acc'\<rparr>"
proof -
  obtain acc where g: "GetAccount a False s = Some acc"
    using assms by (cases "GetAccount a False s") (auto simp: IncrementAccountProcessIndex_def)
  let ?i = "if 4194304 < ProcessIndex acc then 0 else ProcessIndex acc"
  have w: "SetAccount P a (acc\<lparr>ProcessIndex := ?i + 1\<rparr>) s = (Ok (), s')"
    using assms g by (simp add: IncrementAccountProcessIndex_def Let_def)
  have i: "unat ?i \<le> 4194304" by (simp add: word_less_nat_alt)
  then have "unat (?i + 1) = unat ?i + 1" by (simp add: unat_word_ariths)
  then show ?thesis
    using g i SetAccount_get [OF w, of a] by (auto simp: word_less_nat_alt split: if_splits)
qed

theorem process_index_bounded_witness:
  "\<exists>acc'. GetAccount alice False (snd (IncrementAccountProcessIndex params0 alice ex_state)) = Some acc' \<and>
     unat (ProcessIndex acc') = 1"
proof -
  let ?r = "IncrementAccountProcessIndex params0 alice ex_state"
  have "fst ?r = Ok ()" by (simp add: IncrementAccountProcessIndex_def acc0_def)
  then have "?r = (Ok (), snd ?r)" by (cases ?r) simp
  from process_index_bounded [OF this] show ?thesis by (auto simp: acc0_def)
qed

text \<open>A new account that is given delegates starts with as many empty entries before them: the
  code makes a slice of that length and appends to it.\<close>

theorem create_account_empty_delegates:
  assumes "CreateAccount P a uri ds n s = (Ok (), s')" and "EthereumZeroAddress \<notin> set ds"
  shows "\<exists>acc. GetAccount a False s' = Some acc \<and> DelegateAddrs acc = replicate (length ds) [] @ ds"
proof -
  have f: "filter (\<lambda>d. d \<noteq> EthereumZeroAddress) ds = ds"
    using assms(2) by (simp add: filter_id_conv) blast
  obtain acc where "SetAccount P a acc s = (Ok (), s')"
    and "DelegateAddrs acc = replicate (length ds) [] @ ds"
    using assms(1) f by (cases "ds = []") (auto simp: CreateAccount_def split: if_splits option.splits)
  then show ?thesis using SetAccount_get by auto
qed

theorem create_account_empty_delegates_witness:
  "\<exists>acc. GetAccount (replicate 20 3) False (snd (CreateAccount params0 (replicate 20 3) ''ipfs://y'' [bob] 0 ex_state)) = Some acc
     \<and> DelegateAddrs acc = [[], bob]"
proof -
  let ?r = "CreateAccount params0 (replicate 20 3) ''ipfs://y'' [bob] 0 ex_state"
  have "GetAccount (replicate 20 3) False ex_state = None"
    by (simp add: GetAccount_def ex_state_def mainTreeViewer_def alice_def bob_def BurnAddress_def)
  then have "fst ?r = Ok ()" by (simp add: CreateAccount_def EthereumZeroAddress_def)
  then have "?r = (Ok (), snd ?r)" by (cases ?r) simp
  moreover have "EthereumZeroAddress \<notin> set [bob]" using ex_distinct(8) [symmetric] by simp
  ultimately show ?thesis using create_account_empty_delegates by fastforce
qed

end
