(* ===== verification/Process_Id.thy ===== *)
theory Process_Id
  imports Accounts
begin

unbundle bit_operations_syntax

text \<open>
  Process identifiers (\<^verbatim>\<open>src/vochain/process_id.go\<close>): the 32 bytes an identifier is encoded to and
  read from, the bits of the envelope type, and the identifier the application builds for a new
  process from the organization's account.
\<close>

record ProcessID =
  pid_chainID :: string
  pid_organizationAddr :: address
  pid_censusOrigin :: u8
  pid_envType :: u8
  pid_nonce :: u32

definition PID_Marshal :: "params \<Rightarrow> ProcessID \<Rightarrow> bytes" where
  "PID_Marshal P p =
     (let chainID = HashRaw P (str (pid_chainID p));
          nonce = PutUint32BE (pid_nonce p);
          proofType = PutUint16BE (ucast (pid_censusOrigin p));
          envType = PutUint16BE (ucast (pid_envType p))
      in take 6 chainID @ take 20 (pid_organizationAddr p) @ drop 1 proofType @ drop 1 envType @ take 4 nonce)"

definition slice :: "nat \<Rightarrow> nat \<Rightarrow> 'a list \<Rightarrow> 'a list" where
  "slice i j xs = take (j - i) (drop i xs)"

definition ProcessesContractMaxEnvelopeType :: u8 where "ProcessesContractMaxEnvelopeType = 31"

text \<open>\<open>Unmarshal\<close> returns the fields it sets. A one-byte slice behind a zero byte is read as a
  big-endian \<^verbatim>\<open>uint16\<close> and narrowed.\<close>

definition read_byte :: "bytes \<Rightarrow> u8" where
  "read_byte b = (ucast (of_nat (get_le (rev (take 2 (0 # b)))) :: u16) :: u8)"

definition PID_Unmarshal :: "params \<Rightarrow> bytes \<Rightarrow> ProcessID res" where
  "PID_Unmarshal P pid =
     (if length pid \<noteq> 32 then Fail (Errf ''processID lenght not correct'')
      else let co = read_byte (slice 26 27 pid)
      in if co = 0 then Fail (Errf ''cannot unmarshal processID: census origin is invalid'')
      else let et = read_byte (slice 27 28 pid)
      in if ProcessesContractMaxEnvelopeType < et
      then Fail (Errf ''cannot unmarshal processID: overflow on envelope type %d'')
      else rbind (Uint32BE (slice 28 32 pid)) (\<lambda>nonce.
        Ok \<lparr>pid_chainID = hex (take 4 pid), pid_organizationAddr = BytesToAddress P (slice 6 26 pid),
            pid_censusOrigin = co, pid_envType = et, pid_nonce = nonce\<rparr>))"

definition SetCensusOrigin :: "params \<Rightarrow> CensusOrigin \<Rightarrow> ProcessID \<Rightarrow> ProcessID res" where
  "SetCensusOrigin P co p =
     (let n = CensusOrigin_number P co
      in if n = 0 \<or> 255 < n then Fail (Errf ''cannot set census origin for processID: invalid value'')
         else Ok (p\<lparr>pid_censusOrigin := of_int n\<rparr>))"

definition SetEnvelopeType :: "EnvelopeType option \<Rightarrow> ProcessID \<Rightarrow> ProcessID res" where
  "SetEnvelopeType et p =
     (case et of
        None \<Rightarrow> Fail (Errf ''invalid envelope type: (%s)'')
      | Some e \<Rightarrow>
          let v = 0;
              v = (if Serial e then v OR 1 else v);
              v = (if Anonymous e then v OR 2 else v);
              v = (if EncryptedVotes e then v OR 4 else v);
              v = (if UniqueValues e then v OR 8 else v);
              v = (if CostFromWeight e then v OR 16 else v)
          in Ok (p\<lparr>pid_envType := v\<rparr>))"

definition PID_EnvelopeType :: "ProcessID \<Rightarrow> EnvelopeType" where
  "PID_EnvelopeType p =
     \<lparr>Serial = pid_envType p AND 1 > 0, Anonymous = pid_envType p AND 2 > 0,
      EncryptedVotes = pid_envType p AND 4 > 0, UniqueValues = pid_envType p AND 8 > 0,
      CostFromWeight = pid_envType p AND 16 > 0\<rparr>"

definition SetAddr :: "params \<Rightarrow> address \<Rightarrow> ProcessID \<Rightarrow> ProcessID" where
  "SetAddr P a p = p\<lparr>pid_organizationAddr := BytesToAddress P a\<rparr>"

text \<open>An account that does not exist is a nil pointer whose embedded message is dereferenced.\<close>

definition BuildProcessID :: "params \<Rightarrow> string \<Rightarrow> Process \<Rightarrow> state \<Rightarrow> ProcessID res" where
  "BuildProcessID P chainID proc s =
     (let pid = \<lparr>pid_chainID = chainID, pid_organizationAddr = EthereumZeroAddress,
                 pid_censusOrigin = 0, pid_envType = 0, pid_nonce = 0\<rparr>
      in rbind (SetEnvelopeType (EnvelopeTypeOf proc) pid) (\<lambda>pid.
         rbind (SetCensusOrigin P (CensusOriginOf proc) pid) (\<lambda>pid.
           let addr = BytesToAddress P (EntityId proc)
           in case GetAccount addr False s of
                None \<Rightarrow> Panic ''nil pointer dereference''
              | Some acc \<Rightarrow> Ok ((SetAddr P addr pid)\<lparr>pid_nonce := ProcessIndex acc\<rparr>))))"

section \<open>Lemmas\<close>

lemma one_byte: "drop 1 (PutUint16BE (ucast b)) = [b]" for b :: u8
proof -
  have "unat b < 256" using unsigned_less [of b, where ?'a = nat] by simp
  moreover from this have "unat (ucast b :: u16) = unat b"
    by (simp add: unsigned_ucast_eq take_bit_eq_mod)
  ultimately show ?thesis by (simp add: PutUint16BE_def numeral_2_eq_2)
qed

lemma read_one_byte [simp]: "read_byte [b] = b"
proof -
  have "(ucast (ucast b :: u16) :: u8) = b"
    by (rule bit_word_eqI) (simp add: bit_simps)
  then show ?thesis by (simp add: read_byte_def)
qed

lemma PID_Marshal_bytes:
  assumes "length (pid_organizationAddr p) = 20" and "6 \<le> length (HashRaw P (str (pid_chainID p)))"
  shows "PID_Marshal P p = take 6 (HashRaw P (str (pid_chainID p))) @ pid_organizationAddr p @
      [pid_censusOrigin p, pid_envType p] @ PutUint32BE (pid_nonce p)"
  using assms by (simp add: PID_Marshal_def Let_def one_byte [simplified])

lemma PID_Unmarshal_bytes:
  assumes "length c = 6" and "length a = 20" and "length n = 4"
  shows "PID_Unmarshal P (c @ a @ [co, et] @ n) =
    (if co = 0 then Fail (Errf ''cannot unmarshal processID: census origin is invalid'')
     else if 31 < et then Fail (Errf ''cannot unmarshal processID: overflow on envelope type %d'')
     else rbind (Uint32BE n) (\<lambda>nonce.
        Ok \<lparr>pid_chainID = hex (take 4 c), pid_organizationAddr = BytesToAddress P a,
            pid_censusOrigin = co, pid_envType = et, pid_nonce = nonce\<rparr>))"
proof -
  have "slice 26 27 (c @ a @ [co, et] @ n) = [co]" "slice 27 28 (c @ a @ [co, et] @ n) = [et]"
    "slice 28 32 (c @ a @ [co, et] @ n) = n" "slice 6 26 (c @ a @ [co, et] @ n) = a"
    using assms by (simp_all add: slice_def)
  then show ?thesis
    using assms by (simp add: PID_Unmarshal_def Let_def ProcessesContractMaxEnvelopeType_def)
qed

section \<open>Properties\<close>


definition ex_pid :: ProcessID where
  "ex_pid = \<lparr>pid_chainID = ''vocdoni'', pid_organizationAddr = alice, pid_censusOrigin = 2,
     pid_envType = 5, pid_nonce = 7\<rparr>"


text \<open>Two identifiers with the same bytes agree on organization, census origin, envelope type
  and nonce.\<close>

theorem process_id_injective:
  assumes "length (Keccak256 P (str (pid_chainID p))) = 32" "length (Keccak256 P (str (pid_chainID q))) = 32"
    and "length (pid_organizationAddr p) = 20" "length (pid_organizationAddr q) = 20"
    and "PID_Marshal P p = PID_Marshal P q"
  shows "pid_organizationAddr p = pid_organizationAddr q \<and> pid_censusOrigin p = pid_censusOrigin q \<and>
    pid_envType p = pid_envType q \<and> pid_nonce p = pid_nonce q"
proof -
  have "take 6 (HashRaw P (str (pid_chainID p))) @ pid_organizationAddr p @
      [pid_censusOrigin p, pid_envType p] @ PutUint32BE (pid_nonce p) =
    take 6 (HashRaw P (str (pid_chainID q))) @ pid_organizationAddr q @
      [pid_censusOrigin q, pid_envType q] @ PutUint32BE (pid_nonce q)"
    using assms(5) PID_Marshal_bytes [of p P] PID_Marshal_bytes [of q P] assms(1-4)
    by (simp add: HashRaw_def)
  then have e: "pid_organizationAddr p = pid_organizationAddr q" "pid_censusOrigin p = pid_censusOrigin q"
      "pid_envType p = pid_envType q" "PutUint32BE (pid_nonce p) = PutUint32BE (pid_nonce q)"
    using assms(1-4) by (simp_all add: HashRaw_def append_eq_append_conv)
  from e(4) have "Uint32BE (PutUint32BE (pid_nonce p)) = Uint32BE (PutUint32BE (pid_nonce q))" by simp
  then have "pid_nonce p = pid_nonce q" by (simp only: Uint32BE_Put res.inject)
  then show ?thesis using e by simp
qed

theorem process_id_injective_witness:
  "PID_Marshal params0 ex_pid \<noteq> PID_Marshal params0 (ex_pid\<lparr>pid_nonce := 8\<rparr>)"
  using process_id_injective [of params0 ex_pid "ex_pid\<lparr>pid_nonce := 8\<rparr>"]
  by (auto simp: ex_pid_def str_def)

text \<open>The envelope type survives its encoding into five bits, which never exceed the maximum
  that \<open>Unmarshal\<close> accepts.\<close>

theorem envelope_type_roundtrip:
  "\<exists>p'. SetEnvelopeType (Some e) p = Ok p' \<and> PID_EnvelopeType p' = e \<and>
        pid_envType p' \<le> ProcessesContractMaxEnvelopeType"
  by (cases e; cases "Serial e"; cases "Anonymous e"; cases "EncryptedVotes e";
      cases "UniqueValues e"; cases "CostFromWeight e")
    (simp_all add: SetEnvelopeType_def PID_EnvelopeType_def ProcessesContractMaxEnvelopeType_def Let_def)

end
