(* ===== verification/Go_Path.thy ===== *)
theory Go_Path
  imports Prelude
begin

text \<open>
  \<^verbatim>\<open>path.Clean\<close> and \<^verbatim>\<open>path.Join\<close> of Go's standard library on byte strings, which the state uses to make
  database keys (\<^verbatim>\<open>src/vochain/state.go\<close>, \<^verbatim>\<open>src/statedb/treeupdate.go\<close>): empty and \<^verbatim>\<open>.\<close> elements are dropped, a \<^verbatim>\<open>..\<close>
  takes away the element before it, and a trailing slash disappears.
\<close>

definition slash :: u8 where "slash = 47"
definition dot :: u8 where "dot = 46"

fun split_slash :: "bytes \<Rightarrow> bytes list" where
  "split_slash [] = [[]]"
| "split_slash (c # cs) =
     (if c = slash then [] # split_slash cs
      else case split_slash cs of [] \<Rightarrow> [[c]] | (w # ws) \<Rightarrow> (c # w) # ws)"

text \<open>The elements kept so far are on a stack.\<close>

fun clean_elems :: "bool \<Rightarrow> bytes list \<Rightarrow> bytes list \<Rightarrow> bytes list" where
  "clean_elems rooted stack [] = rev stack"
| "clean_elems rooted stack (e # es) =
     (if e = [] \<or> e = [dot] then clean_elems rooted stack es
      else if e = [dot, dot] then
        (case stack of
           [] \<Rightarrow> if rooted then clean_elems rooted [] es else clean_elems rooted [e] es
         | (t # ts) \<Rightarrow> if t = [dot, dot] then clean_elems rooted (e # t # ts) es
                       else clean_elems rooted ts es)
      else clean_elems rooted (e # stack) es)"

fun join_slash :: "bytes list \<Rightarrow> bytes" where
  "join_slash [] = []"
| "join_slash [e] = e"
| "join_slash (e # es) = e @ [slash] @ join_slash es"

definition path_Clean :: "bytes \<Rightarrow> bytes" where
  "path_Clean p =
     (if p = [] then [dot]
      else let rooted = (hd p = slash);
               body = join_slash (clean_elems rooted [] (split_slash p))
           in if rooted then slash # body else if body = [] then [dot] else body)"

definition path_Join :: "bytes list \<Rightarrow> bytes" where
  "path_Join es =
     (let es' = dropWhile (\<lambda>e. e = []) es
      in if es' = [] then [] else path_Clean (join_slash es'))"

end
