(* ===== verification/Account_Checks.thy ===== *)
theory Account_Checks
  imports Accounts
begin

text \<open>
  The checks of the account transactions (\<^verbatim>\<open>src/vochain/account.go\<close>, and \<open>SetTransactionCostsTxCheck\<close> of
  \<^verbatim>\<open>src/vochain/transaction.go\<close>): functions that read the state and return the values the execution
  uses or an error, every guard in the order of the source. A transaction message is the optional
  payload it carries; a pointer to one is an option of it.
\<close>

type_synonym Tx = "TxPayload option"

definition GetSetAccountInfo :: "Tx option \<Rightarrow> SetAccountInfoTx option" where
  "GetSetAccountInfo vtx = (case vtx of Some (Some (Tx_SetAccountInfo t)) \<Rightarrow> t | _ \<Rightarrow> None)"
definition GetMintTokens :: "Tx option \<Rightarrow> MintTokensTx option" where
  "GetMintTokens vtx = (case vtx of Some (Some (Tx_MintTokens t)) \<Rightarrow> t | _ \<Rightarrow> None)"
definition GetSendTokens :: "Tx option \<Rightarrow> SendTokensTx option" where
  "GetSendTokens vtx = (case vtx of Some (Some (Tx_SendTokens t)) \<Rightarrow> t | _ \<Rightarrow> None)"
definition GetSetAccountDelegateTx :: "Tx option \<Rightarrow> SetAccountDelegateTx option" where
  "GetSetAccountDelegateTx vtx = (case vtx of Some (Some (Tx_SetAccountDelegateTx t)) \<Rightarrow> t | _ \<Rightarrow> None)"
definition GetCollectFaucet :: "Tx option \<Rightarrow> CollectFaucetTx option" where
  "GetCollectFaucet vtx = (case vtx of Some (Some (Tx_CollectFaucet t)) \<Rightarrow> t | _ \<Rightarrow> None)"
definition GetSetTransactionCosts :: "Tx option \<Rightarrow> SetTransactionCostsTx option" where
  "GetSetTransactionCosts vtx = (case vtx of Some (Some (Tx_SetTransactionCosts t)) \<Rightarrow> t | _ \<Rightarrow> None)"

text \<open>The sender of a signed transaction: the public key of the signature and its address.\<close>

definition tx_sender :: "params \<Rightarrow> bytes \<Rightarrow> bytes \<Rightarrow> address res" where
  "tx_sender P txBytes signature =
     rbind (wrap ''cannot extract public key from signature'' (PubKeyFromSignature P txBytes signature))
       (\<lambda>pub. wrap ''cannot extract address from public key'' (AddrFromPublicKey P pub))"

record setAccountInfoTxCheckValues =
  sv_Account :: address
  sv_TxSender :: address
  sv_FaucetPayloadSigner :: address
  sv_CreateAccount :: bool
  sv_CreateAccountWithFaucet :: bool

text \<open>The part of the two faucet checks they share: the issuer has not used the identifier, exists
  and has the amount and the fee (a 64-bit sum).\<close>

definition faucet_issuer_check :: "params \<Rightarrow> string \<Rightarrow> address \<Rightarrow> FaucetPayload \<Rightarrow> state \<Rightarrow> unit res" where
  "faucet_issuer_check P used_msg issuer fp s =
     (if FaucetNonce P (faucet_key P issuer (fp_Identifier fp)) False s then Fail (Errf used_msg)
      else case GetAccount issuer False s of
        None \<Rightarrow> Fail (Errf ''the account signing the faucet payload does not exist'')
      | Some issuerAcc \<Rightarrow>
          rbind (wrap ''cannot get %s tx cost'' (TxCost COLLECT_FAUCET False s)) (\<lambda>cost.
            if Balance issuerAcc < fp_Amount fp + cost
            then Fail (Errf ''faucet does not have enough balance %d < %d'')
            else Ok ()))"

definition SetAccountInfoTxCheck ::
  "params \<Rightarrow> Tx option \<Rightarrow> bytes option \<Rightarrow> bytes option \<Rightarrow> state \<Rightarrow> setAccountInfoTxCheckValues res" where
  "SetAccountInfoTxCheck P vtx txBytes signature s =
     (if vtx = None then Fail ErrNilTx
      else case GetSetAccountInfo vtx of
        None \<Rightarrow> Fail (Errf ''missing signature and/or transaction'')
      | Some tx \<Rightarrow>
     if signature = None \<or> txBytes = None then Fail (Errf ''missing signature and/or transaction'')
     else if sai_InfoURI tx = [] then Fail (Errf ''invalid URI, cannot be empty'')
     else rbind (tx_sender P (bz txBytes) (bz signature)) (\<lambda>sender.
       let txSender = GetAccount sender False s;
           acc = GetAccount (BytesToAddress P (sai_Account tx)) False s;
           account = (if acc = None then sender else BytesToAddress P (sai_Account tx));
           vals = \<lparr>sv_Account = account, sv_TxSender = sender, sv_FaucetPayloadSigner = EthereumZeroAddress,
                   sv_CreateAccount = False, sv_CreateAccountWithFaucet = False\<rparr>
       in case txSender of
            None \<Rightarrow>
              (case sai_FaucetPackage tx of
                 None \<Rightarrow> Ok (vals\<lparr>sv_CreateAccount := True\<rparr>)
               | Some pkg \<Rightarrow>
                   (case fk_Payload pkg of
                      None \<Rightarrow> Fail (Errf ''faucet payload is nil'')
                    | Some fp \<Rightarrow>
                        if fp_To fp \<noteq> sender then Fail (Errf ''payload to and tx sender missmatch'')
                        else rbind (AddrFromSignature P (Marshal_FaucetPayload P fp) (bz (fk_Signature pkg)))
                          (\<lambda>issuer. rbind (faucet_issuer_check P
                                 ''faucet package identifier %d already used'' issuer fp s)
                            (\<lambda>_. Ok (vals\<lparr>sv_CreateAccount := True, sv_CreateAccountWithFaucet := True,
                                       sv_FaucetPayloadSigner := issuer\<rparr>)))))
          | Some senderAcc \<Rightarrow>
              if sender \<noteq> account \<and> (case acc of None \<Rightarrow> False | Some a \<Rightarrow> \<not> IsDelegate a sender)
              then Fail (Errf ''tx sender is not a delegate'')
              else if sai_Nonce tx \<noteq> Nonce senderAcc then Fail (Errf ''invalid nonce, expected %d got %d'')
              else rbind (TxCost SET_ACCOUNT_INFO False s) (\<lambda>cost.
                if Balance senderAcc < cost then Fail (Errf ''unauthorized: not enough balance to transfer'')
                else Ok vals)))"

definition MintTokensTxCheck ::
  "params \<Rightarrow> Tx option \<Rightarrow> bytes option \<Rightarrow> bytes option \<Rightarrow> state \<Rightarrow> (address \<times> u64) res" where
  "MintTokensTxCheck P vtx txBytes signature s =
     (case GetMintTokens vtx of
        None \<Rightarrow> Fail (Errf ''missing signature and/or transaction'')
      | Some tx \<Rightarrow>
     if signature = None \<or> txBytes = None then Fail (Errf ''missing signature and/or transaction'')
     else if mt_Value tx = 0 then Fail (Errf ''invalid value'')
     else if length (mt_To tx) \<noteq> 20 \<or> mt_To tx = EthereumZeroAddress then Fail (Errf ''invalid To address'')
     else rbind (Treasurer_get False s) (\<lambda>treasurer.
       if mt_Nonce tx \<noteq> t_Nonce treasurer then Fail (Errf ''invalid nonce %d, expected: %d'')
       else let toAddr = BytesToAddress P (mt_To tx)
         in if GetAccount toAddr False s = None then Fail (Wrapf ''MintTokensTxCheck'' ErrAccountNotExist)
            else rbind (tx_sender P (bz txBytes) (bz signature)) (\<lambda>sigAddress.
              if BytesToAddress P (t_Address treasurer) \<noteq> sigAddress
              then Fail (Errf ''address recovered not treasurer: expected %s got %s'')
              else Ok (toAddr, mt_Value tx))))"

record sendTokensTxCheckValues =
  st_From :: address
  st_To :: address
  st_Value :: u64
  st_Nonce :: u32

definition SendTokensTxCheck ::
  "params \<Rightarrow> Tx option \<Rightarrow> bytes option \<Rightarrow> bytes option \<Rightarrow> state \<Rightarrow> sendTokensTxCheckValues res" where
  "SendTokensTxCheck P vtx txBytes signature s =
     (if vtx = None then Fail ErrNilTx
      else case GetSendTokens vtx of
        None \<Rightarrow> Fail (Errf ''missing signature and/or transaction'')
      | Some tx \<Rightarrow>
     if signature = None \<or> txBytes = None then Fail (Errf ''missing signature and/or transaction'')
     else if snd_Value tx = 0 then Fail (Errf ''invalid value'')
     else if snd_From tx = None then Fail (Errf ''from field not found'')
     else if bz (snd_From tx) = EthereumZeroAddress then Fail (Errf ''invalid from address'')
     else if snd_To tx = None then Fail (Errf ''to field not found'')
     else if bz (snd_To tx) = EthereumZeroAddress then Fail (Errf ''invalid to address'')
     else rbind (tx_sender P (bz txBytes) (bz signature)) (\<lambda>sigAddress.
       if BytesToAddress P (bz (snd_From tx)) \<noteq> sigAddress
       then Fail (Errf ''from (%s) field and extracted signature (%s) mismatch'')
       else let txTo = BytesToAddress P (bz (snd_To tx))
         in if GetAccount txTo False s = None then Fail ErrAccountNotExist
            else case GetAccount sigAddress False s of
              None \<Rightarrow> Fail ErrAccountNotExist
            | Some acc \<Rightarrow>
                if snd_Nonce tx \<noteq> Nonce acc then Fail (Errf ''invalid nonce, expected %d got %d'')
                else rbind (TxCost SEND_TOKENS False s) (\<lambda>cost.
                  if snd_Value tx + cost > Balance acc then Fail ErrNotEnoughBalance
                  else Ok \<lparr>st_From = sigAddress, st_To = txTo, st_Value = snd_Value tx,
                           st_Nonce = snd_Nonce tx\<rparr>)))"

text \<open>The loop of the removal case compares with the delegates converted to addresses.\<close>

fun find_delegate :: "params \<Rightarrow> address \<Rightarrow> bytes list \<Rightarrow> bool" where
  "find_delegate P a [] = False"
| "find_delegate P a (d # ds) = (if BytesToAddress P d = a then True else find_delegate P a ds)"

definition SetAccountDelegateTxCheck ::
  "params \<Rightarrow> Tx option \<Rightarrow> bytes option \<Rightarrow> bytes option \<Rightarrow> state \<Rightarrow> (address \<times> address) res" where
  "SetAccountDelegateTxCheck P vtx txBytes signature s =
     (if vtx = None then Fail (Errf ''transaction is nil'')
      else case GetSetAccountDelegateTx vtx of
        None \<Rightarrow> Fail (Errf ''missing signature and/or transaction'')
      | Some tx \<Rightarrow>
     if signature = None \<or> txBytes = None then Fail (Errf ''missing signature and/or transaction'')
     else let delAcc = BytesToAddress P (sad_Delegate tx)
     in if delAcc = EthereumZeroAddress then Fail (Errf ''invalid delegate address'')
     else rbind (AccountFromSignature P (bz txBytes) (bz signature) s) (\<lambda>(sigAddress, acc).
       if delAcc = sigAddress then Fail (Errf ''cannot add self to delegates list'')
       else if sad_Nonce tx \<noteq> Nonce acc then Fail (Errf ''invalid nonce, expected %d got %d'')
       else rbind (TxCost (sad_Txtype tx) False s) (\<lambda>cost.
         if Balance acc < cost then Fail ErrNotEnoughBalance
         else if sad_Txtype tx = ADD_DELEGATE_FOR_ACCOUNT
         then (if IsDelegate acc delAcc then Fail (Errf ''already added'') else Ok (sigAddress, delAcc))
         else if sad_Txtype tx = DEL_DELEGATE_FOR_ACCOUNT
         then (if find_delegate P delAcc (DelegateAddrs acc) then Ok (sigAddress, delAcc)
               else Fail (Errf ''cannot remove a non existent delegate''))
         else Fail (Errf ''unsupported SetAccountDelegate operation''))))"

definition CollectFaucetTxCheck ::
  "params \<Rightarrow> Tx option \<Rightarrow> bytes option \<Rightarrow> bytes option \<Rightarrow> state \<Rightarrow> address res" where
  "CollectFaucetTxCheck P vtx txBytes signature s =
     (if vtx = None then Fail ErrNilTx
      else case GetCollectFaucet vtx of
        None \<Rightarrow> Fail (Errf ''missing signature and/or transaction'')
      | Some tx \<Rightarrow>
     if signature = None \<or> txBytes = None then Fail (Errf ''missing signature and/or transaction'')
     else case cf_FaucetPackage tx of
        None \<Rightarrow> Fail (Errf ''nil faucet package'')
      | Some pkg \<Rightarrow>
     if fk_Signature pkg = None then Fail (Errf ''invalid faucet package signature'')
     else (case fk_Payload pkg of
        None \<Rightarrow> Fail (Errf ''invalid faucet package payload'')
      | Some fp \<Rightarrow>
     if fp_Amount fp = 0 then Fail (Errf ''invalid faucet package payload amount'')
     else rbind (tx_sender P (bz txBytes) (bz signature)) (\<lambda>toAddr.
       rbind (AddrFromSignature P (Marshal_FaucetPayload P fp) (bz (fk_Signature pkg))) (\<lambda>fromAddr.
       rbind (faucet_issuer_check P ''nonce %d already used'' fromAddr fp s) (\<lambda>_.
         if toAddr \<noteq> fp_To fp then Fail (Errf ''txSender %x and faucet payload To %x mismatch'')
         else case GetAccount toAddr False s of
           None \<Rightarrow> Fail ErrAccountNotExist
         | Some txSender \<Rightarrow>
             if Nonce txSender \<noteq> cf_Nonce tx then Fail (Errf ''invalid nonce'') else Ok fromAddr)))))"

definition SetTransactionCostsTxCheck ::
  "params \<Rightarrow> Tx option \<Rightarrow> bytes option \<Rightarrow> bytes option \<Rightarrow> state \<Rightarrow> u64 res" where
  "SetTransactionCostsTxCheck P vtx txBytes signature s =
     (if vtx = None then Fail ErrNilTx
      else case GetSetTransactionCosts vtx of
        None \<Rightarrow> Fail (Errf ''missing signature and/or transaction'')
      | Some tx \<Rightarrow>
     if signature = None \<or> txBytes = None then Fail (Errf ''missing signature and/or transaction'')
     else rbind (Treasurer_get False s) (\<lambda>treasurer.
       if stc_Nonce tx \<noteq> t_Nonce treasurer then Fail (Errf ''invalid nonce %d, expected: %d'')
       else if TxTypeCostToStateKey (stc_Txtype tx) = None then Fail (Errf ''tx type not supported'')
       else rbind (tx_sender P (bz txBytes) (bz signature)) (\<lambda>sigAddress.
         if BytesToAddress P (t_Address treasurer) \<noteq> sigAddress
         then Fail (Errf ''address recovered not treasurer: expected %s got %s'')
         else Ok (stc_Value tx))))"

end
