(* ===== verification/Processes.thy ===== *)
theory Processes
  imports Process_Id Go_Path Account_Checks
begin

text \<open>
  Voting processes (\<^verbatim>\<open>src/vochain/process.go\<close>, the process leaves and the start-block index of
  \<^verbatim>\<open>src/vochain/state.go\<close>): adding a process, its status machine, results and census, and the keys of an
  encrypted process. The checks of the process transactions are in \<open>Process_Checks\<close>.
\<close>

section \<open>Process leaves and their subtrees\<close>

definition defaultHashLen :: nat where "defaultHashLen = 32"

definition empty_root :: bytes where "empty_root = replicate 32 0"

definition processGetVotesRoot :: "StateDBProcess \<Rightarrow> bytes res" where
  "processGetVotesRoot sp =
     (if length (sp_VotesRoot sp) \<noteq> defaultHashLen
      then Fail (Wrapf ''len(sdbProc.VotesRoot) != %v'' ErrProcessChildLeafRootUnknown)
      else Ok (sp_VotesRoot sp))"

definition processSetVotesRoot :: "StateDBProcess \<Rightarrow> bytes \<Rightarrow> StateDBProcess" where
  "processSetVotesRoot sp root = sp\<lparr>sp_VotesRoot := root\<rparr>"

definition processGetCensusRoot :: "StateDBProcess \<Rightarrow> bytes res" where
  "processGetCensusRoot sp =
     (if length (RollingCensusRoot (sp_Process sp)) \<noteq> defaultHashLen
      then Fail (Wrapf ''len(sdbProc.Process.RollingCensusRoot) != %v'' ErrProcessChildLeafRootUnknown)
      else Ok (RollingCensusRoot (sp_Process sp)))"

definition processSetCensusRoot :: "StateDBProcess \<Rightarrow> bytes \<Rightarrow> StateDBProcess" where
  "processSetCensusRoot sp root = sp\<lparr>sp_Process := (sp_Process sp)\<lparr>RollingCensusRoot := root\<rparr>\<rparr>"

definition processGetPreRegisterNullifiersRoot :: "StateDBProcess \<Rightarrow> bytes res" where
  "processGetPreRegisterNullifiersRoot sp =
     (if length (NullifiersRoot (sp_Process sp)) \<noteq> defaultHashLen
      then Fail (Wrapf ''len(sdbProc.Process.NullifiersRoot) != %v'' ErrProcessChildLeafRootUnknown)
      else Ok (NullifiersRoot (sp_Process sp)))"

definition processSetPreRegisterNullifiersRoot :: "StateDBProcess \<Rightarrow> bytes \<Rightarrow> StateDBProcess" where
  "processSetPreRegisterNullifiersRoot sp root =
     sp\<lparr>sp_Process := (sp_Process sp)\<lparr>NullifiersRoot := root\<rparr>\<rparr>"

text \<open>Opening a subtree of a process: the leaf must exist and hold a root of the right size.\<close>

definition open_votes :: "trees \<Rightarrow> bytes \<Rightarrow> StateDBVote tree res" where
  "open_votes T pid =
     rbind (Tree_Get (tr_Processes T) pid) (\<lambda>leaf. rbind (processGetVotesRoot leaf) (\<lambda>_. Ok (tr_Votes T pid)))"

definition open_census :: "trees \<Rightarrow> bytes \<Rightarrow> bytes tree res" where
  "open_census T pid =
     rbind (Tree_Get (tr_Processes T) pid) (\<lambda>leaf. rbind (processGetCensusRoot leaf) (\<lambda>_. Ok (tr_Census T pid)))"

definition open_preregister :: "trees \<Rightarrow> bytes \<Rightarrow> bytes tree res" where
  "open_preregister T pid =
     rbind (Tree_Get (tr_Processes T) pid)
       (\<lambda>leaf. rbind (processGetPreRegisterNullifiersRoot leaf) (\<lambda>_. Ok (tr_PreRegister T pid)))"

section \<open>The index of processes by start block\<close>

definition keyProcessIDsByStartBlock :: "u32 \<Rightarrow> bytes" where
  "keyProcessIDsByStartBlock startBlock = path_Join [str ''pidByStartBlock'', PutUint32LE startBlock]"

definition processIDsByStartBlock :: "u32 \<Rightarrow> state \<Rightarrow> bytes list" where
  "processIDsByStartBlock startBlock s =
     (case ns_pids (st_Tx s) (keyProcessIDsByStartBlock startBlock) of None \<Rightarrow> [] | Some pids \<Rightarrow> pids)"

definition setProcessIDByStartBlock :: "bytes \<Rightarrow> u32 \<Rightarrow> state \<Rightarrow> state" where
  "setProcessIDByStartBlock pid startBlock s =
     (let key = keyProcessIDsByStartBlock startBlock;
          pids = (case ns_pids (st_Tx s) key of None \<Rightarrow> [] | Some pids \<Rightarrow> pids)
      in s\<lparr>st_Tx := (st_Tx s)\<lparr>ns_pids := (ns_pids (st_Tx s))(key \<mapsto> pids @ [pid])\<rparr>\<rparr>)"

section \<open>Adding, reading and updating processes\<close>

definition set_censusLen :: "bytes \<Rightarrow> u64 \<Rightarrow> state \<Rightarrow> state" where
  "set_censusLen pid n s =
     s\<lparr>st_Tx := (st_Tx s)\<lparr>ns_censusLen := (ns_censusLen (st_Tx s))(pid \<mapsto> PutUint64LE n)\<rparr>\<rparr>"

definition has_preRegister :: "Process \<Rightarrow> bool" where
  "has_preRegister p = (case Mode p of None \<Rightarrow> False | Some m \<Rightarrow> PreRegister m)"

definition has_anonymous :: "Process \<Rightarrow> bool" where
  "has_anonymous p = (case EnvelopeTypeOf p of None \<Rightarrow> False | Some e \<Rightarrow> Anonymous e)"

text \<open>Opening the census tree of a new anonymous process sets its size to zero.\<close>

definition create_rolling_census :: "bytes \<Rightarrow> state \<Rightarrow> unit res \<times> state" where
  "create_rolling_census pid s =
     with_res (open_census (st_Tx s) pid) s (\<lambda>_.
       let s = set_censusLen pid 0 s
       in with_res (open_preregister (st_Tx s) pid) s (\<lambda>_. (Ok (), s)))"

definition AddProcess :: "params \<Rightarrow> Process \<Rightarrow> state \<Rightarrow> unit res \<times> state" where
  "AddProcess P p s =
     (let preRegister = has_preRegister p;
          anonymous = has_anonymous p;
          p = (if preRegister then p\<lparr>RollingCensusRoot := empty_root, NullifiersRoot := empty_root\<rparr> else p);
          pid = bz (ProcessId p)
      in and_then (DeepAdd P 256 tr_Processes set_Processes pid
                     \<lparr>sp_Process = p, sp_VotesRoot = empty_root\<rparr> s) (\<lambda>_ s.
         and_then (if preRegister \<and> anonymous then create_rolling_census pid s else (Ok (), s)) (\<lambda>_ s.
         let s = setProcessIDByStartBlock pid (StartBlock p) s;
             censusURI = (case CensusURI p of None \<Rightarrow> [] | Some u \<Rightarrow> u)
         in (Ok (), emit (OnProcess pid (EntityId p) (hex (CensusRoot p)) censusURI (st_txCounter s)) s))))"

definition getProcess :: "trees \<Rightarrow> bytes \<Rightarrow> Process res" where
  "getProcess T pid =
     (case map_of (tr_Processes T) pid of None \<Rightarrow> Fail ErrProcessNotFound | Some sp \<Rightarrow> Ok (sp_Process sp))"

definition Process_get :: "bytes \<Rightarrow> bool \<Rightarrow> state \<Rightarrow> Process res" where
  "Process_get pid committed s = getProcess (mainTreeViewer committed s) pid"

definition CountProcesses :: "params \<Rightarrow> bool \<Rightarrow> state \<Rightarrow> u64" where
  "CountProcesses P committed s =
     Tree_IterateLeaves P (\<lambda>count k v. (count + 1, False)) 0 (tr_Processes (mainTreeViewer committed s))"

definition ListProcessIDs :: "params \<Rightarrow> bool \<Rightarrow> state \<Rightarrow> bytes list" where
  "ListProcessIDs P committed s =
     Tree_IterateLeaves P (\<lambda>pids k v. (pids @ [k], False)) [] (tr_Processes (mainTreeViewer committed s))"

definition update_leaf :: "params \<Rightarrow> Process \<Rightarrow> bytes \<Rightarrow> state \<Rightarrow> unit res \<times> state" where
  "update_leaf P p pid s =
     (case map_of (tr_Processes (st_Tx s)) pid of
        None \<Rightarrow> (Fail ErrProcessNotFound, s)
      | Some sp \<Rightarrow>
          DeepSet P 256 tr_Processes set_Processes pid
            \<lparr>sp_Process = p, sp_VotesRoot = sp_VotesRoot sp\<rparr> s)"

definition updateProcess :: "params \<Rightarrow> Process \<Rightarrow> bytes \<Rightarrow> state \<Rightarrow> unit res \<times> state" where
  "updateProcess P p pid s =
     (if length (bz (ProcessId p)) \<noteq> 32 then (Fail ErrProcessNotFound, s) else update_leaf P p pid s)"

section \<open>Status, results and census of a process\<close>

text \<open>\<^verbatim>\<open>process.Mode.Interruptible\<close> with a nil mode dereferences it.\<close>

definition interruptible :: "Process \<Rightarrow> bool res" where
  "interruptible p = (case Mode p of None \<Rightarrow> Panic ''nil pointer dereference'' | Some m \<Rightarrow> Ok (Interruptible m))"

text \<open>The switch of \<open>SetProcessStatus\<close>: whether a process may go to a status at a height.\<close>

definition status_check :: "Process \<Rightarrow> u32 \<Rightarrow> ProcessStatus \<Rightarrow> unit res" where
  "status_check p height newstatus =
     (let cur = Status p in
      case newstatus of
        READY \<Rightarrow>
          if cur \<noteq> PAUSED then Fail (Errf ''cannot set process status from %s to ready'')
          else if cur = READY then Fail (Errf ''process %x already in ready state'')
          else Ok ()
      | ENDED \<Rightarrow>
          if cur \<noteq> READY then Fail (Errf ''process %x can only be ended from ready status'')
          else rbind (interruptible p) (\<lambda>i.
            if \<not> i \<and> height \<le> BlockCount p + StartBlock p
            then Fail (Errf ''process %x is not interruptible, cannot change state to %s'')
            else Ok ())
      | CANCELED \<Rightarrow>
          if cur = CANCELED then Fail (Errf ''process %x already in canceled state'')
          else if cur = ENDED \<or> cur = RESULTS then Fail (Errf ''cannot set state to canceled from ended or results'')
          else if cur = PAUSED then Ok ()
          else rbind (interruptible p) (\<lambda>i.
            if \<not> i then Fail (Errf ''process %x is not interruptible, cannot change state to %s'') else Ok ())
      | PAUSED \<Rightarrow>
          if cur \<noteq> READY then Fail (Errf ''cannot set process status from %s to paused'')
          else if cur = PAUSED then Fail (Errf ''process %x already in paused state'')
          else rbind (interruptible p) (\<lambda>i.
            if \<not> i then Fail (Errf ''cannot pause process %x, it is not interruptible '') else Ok ())
      | RESULTS \<Rightarrow>
          if cur = RESULTS then Fail (Errf ''process %x already in results state'')
          else if cur \<noteq> ENDED \<and> cur \<noteq> READY then Fail (Errf ''cannot set state to results from %s'')
          else if cur = READY \<and> StartBlock p + BlockCount p \<le> height
          then Fail (Errf ''cannot set state to results from %s, process is still alive'')
          else Ok ()
      | _ \<Rightarrow> Fail (Errf ''process status %s unknown''))"

definition SetProcessStatus :: "params \<Rightarrow> bytes \<Rightarrow> ProcessStatus \<Rightarrow> bool \<Rightarrow> state \<Rightarrow> unit res \<times> state" where
  "SetProcessStatus P pid newstatus commit s =
     with_res (Process_get pid False s) s (\<lambda>process.
     with_res (status_check process (st_height s) newstatus) s (\<lambda>_.
       if commit
       then and_then (updateProcess P (process\<lparr>Status := newstatus\<rparr>) (bz (ProcessId process)) s) (\<lambda>_ s.
              (Ok (), emit (OnProcessStatusChange (bz (ProcessId process)) newstatus (st_txCounter s)) s))
       else (Ok (), s)))"

definition empty_result :: ProcessResult where
  "empty_result = \<lparr>pr_Votes = [], pr_ProcessId = [], pr_EntityId = [], pr_OracleAddress = None, pr_Signature = []\<rparr>"

definition SetProcessResults :: "params \<Rightarrow> bytes \<Rightarrow> ProcessResult \<Rightarrow> bool \<Rightarrow> state \<Rightarrow> unit res \<times> state" where
  "SetProcessResults P pid result commit s =
     with_res (Process_get pid False s) s (\<lambda>process.
     if Status process \<noteq> ENDED \<and> Status process \<noteq> READY \<and> Status process \<noteq> RESULTS
     then (Fail (Errf ''cannot set results, invalid status: %s''), s)
     else if Status process = READY \<and> StartBlock process + BlockCount process > st_height s
     then (Fail (Errf ''cannot set state to results, process is still alive''), s)
     else if pr_ProcessId result \<noteq> bz (ProcessId process)
     then (Fail (Errf ''invalid process id on result provided, expected: %x got: %x''), s)
     else if pr_EntityId result \<noteq> EntityId process
     then (Fail (Errf ''invalid entity id on result provided, expected: %x got: %x''), s)
     else if pr_OracleAddress result = None
     then (Fail (Errf ''cannot set results, oracle address is nil''), s)
     else if commit
     then (let results = (if ResultsOf process = []
                          then replicate (length (Oracles P False s) * 2) empty_result
                          else ResultsOf process)
           in if \<exists>pr \<in> set results. bz (pr_OracleAddress pr) = bz (pr_OracleAddress result)
              then (Fail (Errf ''results already set for this oracle address''), s)
              else and_then (wrap_st ''cannot set results''
                     (updateProcess P (process\<lparr>ResultsOf := results @ [result], Status := RESULTS\<rparr>)
                        (bz (ProcessId process)) s)) (\<lambda>_ s.
                   (Ok (), emit (OnProcessResults (bz (ProcessId process)) (Some result) (st_txCounter s)) s)))
     else (Ok (), s))"

definition GetFriendlyResults :: "bytes list list \<Rightarrow> string list list" where
  "GetFriendlyResults results = map (map (\<lambda>b. decimal (big_SetBytes b))) results"

definition GetProcessResults :: "bytes \<Rightarrow> state \<Rightarrow> string list list res" where
  "GetProcessResults pid s =
     rbind (Process_get pid True s) (\<lambda>process.
       if 0 < length (ResultsOf process) then Ok (GetFriendlyResults (pr_Votes (ResultsOf process ! 0)))
       else Fail (Errf ''no results for process %x''))"

record CensusProperties =
  AllowCensusUpdate :: bool
  NeedsDownload :: bool
  NeedsIndexSlot :: bool
  NeedsURI :: bool
  WeightedSupport :: bool

definition CensusOrigins :: "CensusOrigin \<Rightarrow> CensusProperties" where
  "CensusOrigins co = (case co of
       OFF_CHAIN_TREE \<Rightarrow> \<lparr>AllowCensusUpdate = True, NeedsDownload = True, NeedsIndexSlot = False,
                         NeedsURI = True, WeightedSupport = False\<rparr>
     | OFF_CHAIN_TREE_WEIGHTED \<Rightarrow> \<lparr>AllowCensusUpdate = True, NeedsDownload = True,
                         NeedsIndexSlot = False, NeedsURI = True, WeightedSupport = True\<rparr>
     | ERC20 \<Rightarrow> \<lparr>AllowCensusUpdate = False, NeedsDownload = True, NeedsIndexSlot = True,
                         NeedsURI = False, WeightedSupport = True\<rparr>
     | OFF_CHAIN_CA \<Rightarrow> \<lparr>AllowCensusUpdate = True, NeedsDownload = False, NeedsIndexSlot = False,
                         NeedsURI = True, WeightedSupport = True\<rparr>
     | _ \<Rightarrow> \<lparr>AllowCensusUpdate = False, NeedsDownload = False, NeedsIndexSlot = False,
                         NeedsURI = False, WeightedSupport = False\<rparr>)"

definition SetProcessCensus ::
  "params \<Rightarrow> bytes \<Rightarrow> bytes \<Rightarrow> string \<Rightarrow> bool \<Rightarrow> state \<Rightarrow> unit res \<times> state" where
  "SetProcessCensus P pid censusRoot censusURI commit s =
     with_res (Process_get pid False s) s (\<lambda>process.
     case Mode process of
       None \<Rightarrow> (Panic ''nil pointer dereference'', s)
     | Some mode \<Rightarrow>
     if \<not> DynamicCensus mode
     then (Fail (Errf ''cannot update census, only processes with dynamic census can update their census''), s)
     else if \<not> AllowCensusUpdate (CensusOrigins (CensusOriginOf process))
     then (Fail (Errf ''cannot update census, invalid census origin: %s''), s)
     else if Status process \<noteq> READY \<and> Status process \<noteq> PAUSED
     then (Fail (Errf ''cannot update census, process status must be READY or PAUSED and is: %s''), s)
     else if censusRoot = CensusRoot process
     then (Fail (Errf ''cannot update census, same censusRoot''), s)
     else if NeedsURI (CensusOrigins (CensusOriginOf process)) \<and> censusURI = []
     then (Fail (Errf ''process requires URI but an empty one was provided''), s)
     else if commit
     then updateProcess P (process\<lparr>CensusRoot := censusRoot, CensusURI := Some censusURI\<rparr>)
            (bz (ProcessId process)) s
     else (Ok (), s))"

section \<open>Encryption keys of a process\<close>

text \<open>Writing a slice at an index: Go panics out of range.\<close>

definition write_at :: "'a list \<Rightarrow> nat \<Rightarrow> 'a \<Rightarrow> 'a list res" where
  "write_at xs i x = (if i < length xs then Ok (xs[i := x]) else Panic ''index out of range'')"

definition AddProcessKeys :: "params \<Rightarrow> AdminTx \<Rightarrow> state \<Rightarrow> unit res \<times> state" where
  "AddProcessKeys P tx s =
     (case (ad_ProcessId tx, ad_KeyIndex tx) of
        (Some pid, Some ki) \<Rightarrow>
          with_res (Process_get pid False s) s (\<lambda>process.
          with_res (case ad_EncryptionPublicKey tx of
                      None \<Rightarrow> Ok process
                    | Some k \<Rightarrow> rbind (write_at (EncryptionPublicKeys process) (unat ki) (hex k))
                        (\<lambda>ks. Ok (process\<lparr>EncryptionPublicKeys := ks\<rparr>))) s (\<lambda>process.
          let n = (case KeyIndex process of None \<Rightarrow> 0 | Some n \<Rightarrow> n)
          in and_then (updateProcess P (process\<lparr>KeyIndex := Some (n + 1)\<rparr>) pid s) (\<lambda>_ s.
               (Ok (), emit (OnProcessKeys pid (hex (bz (ad_EncryptionPublicKey tx))) (st_txCounter s)) s))))
      | _ \<Rightarrow> (Fail (Errf ''no processId or keyIndex provided on AddProcessKeys''), s))"

definition RevealProcessKeys :: "params \<Rightarrow> AdminTx \<Rightarrow> state \<Rightarrow> unit res \<times> state" where
  "RevealProcessKeys P tx s =
     (case (ad_ProcessId tx, ad_KeyIndex tx) of
        (Some pid, Some ki) \<Rightarrow>
          with_res (Process_get pid False s) s (\<lambda>process.
          case KeyIndex process of
            None \<Rightarrow> (Fail (Errf ''no keys to reveal, keyIndex is < 1''), s)
          | Some n \<Rightarrow>
          if n < 1 then (Fail (Errf ''no keys to reveal, keyIndex is < 1''), s)
          else with_res (case ad_EncryptionPrivateKey tx of
                      None \<Rightarrow> Ok (process, [])
                    | Some k \<Rightarrow> rbind (write_at (EncryptionPrivateKeys process) (unat ki) (hex k))
                        (\<lambda>ks. Ok (process\<lparr>EncryptionPrivateKeys := ks\<rparr>, hex k))) s (\<lambda>(process, ekey).
          and_then (updateProcess P (process\<lparr>KeyIndex := Some (n - 1)\<rparr>) pid s) (\<lambda>_ s.
            (Ok (), emit (OnRevealKeys pid ekey (st_txCounter s)) s))))
      | _ \<Rightarrow> (Fail (Errf ''no processId or keyIndex provided on AddProcessKeys''), s))"

section \<open>Reading back what an update wrote\<close>

lemma DeepSet_not_Ok: "DeepSet P lv sel upd k v s = (r, s') \<Longrightarrow> r \<noteq> Ok () \<Longrightarrow> s' = s"
  by (cases "Tree_Set P lv (sel (st_Tx s)) k v") (auto simp: DeepSet_def)

lemma DeepAdd_not_Ok: "DeepAdd P lv sel upd k v s = (r, s') \<Longrightarrow> r \<noteq> Ok () \<Longrightarrow> s' = s"
  by (cases "Tree_Add P lv (sel (st_Tx s)) k v") (auto simp: DeepAdd_def)

text \<open>The shape of the process tree: its keys are distinct and accepted by the tree, a leaf holds
  the identifier it is stored under, a mode and an envelope type, and a votes root of the right
  size.\<close>

definition leaf_wf :: "params \<Rightarrow> bytes \<Rightarrow> StateDBProcess \<Rightarrow> bool" where
  "leaf_wf P k sp \<longleftrightarrow> arbo_key_ok P 256 k \<and> ProcessId (sp_Process sp) = Some k \<and>
     Mode (sp_Process sp) \<noteq> None \<and> EnvelopeTypeOf (sp_Process sp) \<noteq> None \<and> length (sp_VotesRoot sp) = 32"

definition processes_wf :: "params \<Rightarrow> state \<Rightarrow> bool" where
  "processes_wf P s \<longleftrightarrow> distinct (map fst (tr_Processes (st_Tx s))) \<and>
     (\<forall>k sp. map_of (tr_Processes (st_Tx s)) k = Some sp \<longrightarrow> leaf_wf P k sp)"

lemma Process_get_Ok:
  "Process_get pid False s = Ok p \<longleftrightarrow> (\<exists>sp. map_of (tr_Processes (st_Tx s)) pid = Some sp \<and> sp_Process sp = p)"
  by (auto simp: Process_get_def getProcess_def mainTreeViewer_def split: option.splits)

lemma Process_get_no_panic: "Process_get pid c s \<noteq> Panic m"
  by (auto simp: Process_get_def getProcess_def split: option.splits)

lemma update_leaf_Ok:
  "update_leaf P p pid s = (Ok u, s') \<longleftrightarrow>
     (\<exists>sp t. map_of (tr_Processes (st_Tx s)) pid = Some sp \<and>
        Tree_Set P 256 (tr_Processes (st_Tx s)) pid \<lparr>sp_Process = p, sp_VotesRoot = sp_VotesRoot sp\<rparr> = Ok t \<and>
        s' = s\<lparr>st_Tx := set_Processes t (st_Tx s)\<rparr>)"
  by (auto simp: update_leaf_def DeepSet_Ok split: option.splits)

lemma updateProcess_Ok:
  "updateProcess P p pid s = (Ok u, s') \<longleftrightarrow>
     length (bz (ProcessId p)) = 32 \<and> update_leaf P p pid s = (Ok u, s')"
  by (auto simp: updateProcess_def)

lemma updateProcess_not_Ok: "updateProcess P p pid s = (r, s') \<Longrightarrow> r \<noteq> Ok () \<Longrightarrow> s' = s"
  by (cases "map_of (tr_Processes (st_Tx s)) pid")
    (auto simp: updateProcess_def update_leaf_def dest: DeepSet_not_Ok split: if_splits)

lemma updateProcess_succeeds:
  assumes "processes_wf P s" and "Process_get pid False s = Ok p0" and "length (bz (ProcessId p)) = 32"
  shows "\<exists>s'. updateProcess P p pid s = (Ok (), s')"
proof -
  obtain sp where sp: "map_of (tr_Processes (st_Tx s)) pid = Some sp" using assms(2) by (auto simp: Process_get_Ok)
  then have "arbo_key_ok P 256 pid" using assms(1) by (auto simp: processes_wf_def leaf_wf_def)
  then show ?thesis using sp assms(3) by (simp add: updateProcess_Ok update_leaf_Ok Tree_Set_Ok)
qed

lemma update_leaf_get:
  assumes "update_leaf P p pid s = (Ok u, s')"
  shows "Process_get pid' False s' = (if pid' = pid then Ok p else Process_get pid' False s)"
  using assms by (auto simp: update_leaf_Ok Process_get_def getProcess_def mainTreeViewer_def Tree_Set_lookup)

lemma updateProcess_get:
  "updateProcess P p pid s = (Ok u, s') \<Longrightarrow>
     Process_get pid' False s' = (if pid' = pid then Ok p else Process_get pid' False s)"
  by (rule update_leaf_get [of P]) (simp add: updateProcess_Ok)

lemma update_leaf_wf:
  assumes "update_leaf P p pid s = (Ok u, s')" and "processes_wf P s"
    and "ProcessId p = Some pid" and "Mode p \<noteq> None" and "EnvelopeTypeOf p \<noteq> None"
  shows "processes_wf P s'"
proof -
  obtain sp t where sp: "map_of (tr_Processes (st_Tx s)) pid = Some sp"
    and t: "Tree_Set P 256 (tr_Processes (st_Tx s)) pid \<lparr>sp_Process = p, sp_VotesRoot = sp_VotesRoot sp\<rparr> = Ok t"
    and s': "s' = s\<lparr>st_Tx := set_Processes t (st_Tx s)\<rparr>"
    using assms(1) by (auto simp: update_leaf_Ok)
  have "leaf_wf P pid sp" using sp assms(2) by (simp add: processes_wf_def)
  then show ?thesis
    using assms Tree_Set_distinct [OF t]
    by (auto simp: processes_wf_def s' Tree_Set_lookup [OF t] leaf_wf_def)
qed

lemma updateProcess_wf:
  assumes "updateProcess P p pid s = (r, s')" and "processes_wf P s"
    and "ProcessId p = Some pid" and "Mode p \<noteq> None" and "EnvelopeTypeOf p \<noteq> None"
  shows "processes_wf P s'"
proof (cases "r = Ok ()")
  case True
  then show ?thesis using assms update_leaf_wf by (auto simp: updateProcess_Ok)
next
  case False
  then show ?thesis using assms(1,2) updateProcess_not_Ok by blast
qed

text \<open>A callback changes the event log only.\<close>

lemma emit_sel [simp]:
  "st_Tx (emit ev s) = st_Tx s" "st_View (emit ev s) = st_View s" "st_height (emit ev s) = st_height s"
  "st_listeners (emit ev s) = st_listeners s" "st_txCounter (emit ev s) = st_txCounter s"
  "st_voteCache (emit ev s) = st_voteCache s" "st_DisableVoteCache (emit ev s) = st_DisableVoteCache s"
  by (simp_all add: emit_def)

lemma emit_Process_get [simp]: "Process_get pid c (emit ev s) = Process_get pid c s"
  by (simp add: Process_get_def mainTreeViewer_def)

lemma emit_wf [simp]: "processes_wf P (emit ev s) = processes_wf P s"
  by (simp add: processes_wf_def)

section \<open>The status machine\<close>

text \<open>The transitions \<open>SetProcessStatus\<close> allows for a process at a height, as a relation on statuses.\<close>

definition is_interruptible :: "Process \<Rightarrow> bool" where
  "is_interruptible p = (case Mode p of None \<Rightarrow> False | Some m \<Rightarrow> Interruptible m)"

inductive status_step :: "Process \<Rightarrow> u32 \<Rightarrow> ProcessStatus \<Rightarrow> ProcessStatus \<Rightarrow> bool" for p h where
  resume: "status_step p h PAUSED READY"
| pause: "is_interruptible p \<Longrightarrow> status_step p h READY PAUSED"
| end_early: "is_interruptible p \<Longrightarrow> status_step p h READY ENDED"
| end_late: "BlockCount p + StartBlock p < h \<Longrightarrow> status_step p h READY ENDED"
| cancel_paused: "status_step p h PAUSED CANCELED"
| cancel_running: "is_interruptible p \<Longrightarrow> st \<notin> {CANCELED, ENDED, RESULTS, PAUSED} \<Longrightarrow> status_step p h st CANCELED"
| results_ended: "status_step p h ENDED RESULTS"
| results_ready: "h < StartBlock p + BlockCount p \<Longrightarrow> status_step p h READY RESULTS"

inductive_cases status_step_from: "status_step p h st st'"

inductive_simps status_step_to:
  "status_step p h st READY" "status_step p h st PAUSED" "status_step p h st ENDED"
  "status_step p h st CANCELED" "status_step p h st RESULTS"
  "status_step p h st PROCESS_UNKNOWN" "status_step p h st (STATUS_OTHER n)"

lemma interruptible_Ok: "Mode p \<noteq> None \<Longrightarrow> interruptible p = Ok (is_interruptible p)"
  by (auto simp: interruptible_def is_interruptible_def)

lemma status_check_iff:
  assumes "Mode p \<noteq> None"
  shows "status_check p h st = Ok () \<longleftrightarrow> status_step p h (Status p) st"
  using interruptible_Ok [OF assms]
  by (cases st) (auto simp: status_check_def Let_def status_step_to not_le not_less)

lemma status_check_no_panic: "Mode p \<noteq> None \<Longrightarrow> status_check p h st \<noteq> Panic m"
  using interruptible_Ok [of p] by (cases st) (auto simp: status_check_def Let_def)

lemma SetProcessStatus_Ok:
  assumes "SetProcessStatus P pid st True s = (Ok (), s')"
  shows "\<exists>p s1. Process_get pid False s = Ok p \<and> status_check p (st_height s) st = Ok () \<and>
     updateProcess P (p\<lparr>Status := st\<rparr>) (bz (ProcessId p)) s = (Ok (), s1) \<and>
     s' = emit (OnProcessStatusChange (bz (ProcessId p)) st (st_txCounter s1)) s1"
  using assms by (auto simp: SetProcessStatus_def res_simps)

lemma SetProcessStatus_not_Ok:
  assumes "SetProcessStatus P pid st c s = (r, s')" and "r \<noteq> Ok ()"
  shows "s' = s"
proof (cases "Process_get pid False s")
  case (Ok p)
  show ?thesis
  proof (cases "status_check p (st_height s) st")
    case Ok2: (Ok u)
    show ?thesis
      using assms Ok Ok2 updateProcess_not_Ok
      by (cases "updateProcess P (p\<lparr>Status := st\<rparr>) (bz (ProcessId p)) s";
          cases "fst (updateProcess P (p\<lparr>Status := st\<rparr>) (bz (ProcessId p)) s)")
        (auto simp: SetProcessStatus_def split: if_splits)
  qed (use assms Ok in \<open>auto simp: SetProcessStatus_def\<close>)
qed (use assms in \<open>auto simp: SetProcessStatus_def\<close>)

lemma wf_Process:
  assumes "processes_wf P s" and "Process_get pid False s = Ok p"
  shows "ProcessId p = Some pid" and "Mode p \<noteq> None" and "EnvelopeTypeOf p \<noteq> None" and "arbo_key_ok P 256 pid"
  using assms by (auto simp: Process_get_Ok processes_wf_def leaf_wf_def)

text \<open>What an addition writes.\<close>

definition added_process :: "Process \<Rightarrow> Process" where
  "added_process p =
     (if has_preRegister p then p\<lparr>RollingCensusRoot := empty_root, NullifiersRoot := empty_root\<rparr> else p)"

lemma added_process_sel [simp]:
  "ProcessId (added_process p) = ProcessId p" "Mode (added_process p) = Mode p"
  "EnvelopeTypeOf (added_process p) = EnvelopeTypeOf p" "EntityId (added_process p) = EntityId p"
  "StartBlock (added_process p) = StartBlock p" "Status (added_process p) = Status p"
  by (simp_all add: added_process_def)

lemma create_rolling_census_frame:
  "create_rolling_census pid s = (r, s') \<Longrightarrow> tr_Processes (st_Tx s') = tr_Processes (st_Tx s) \<and>
     tr_Accounts (st_Tx s') = tr_Accounts (st_Tx s)"
  by (cases "open_census (st_Tx s) pid"; cases "open_preregister (st_Tx (set_censusLen pid 0 s)) pid")
    (auto simp: create_rolling_census_def set_censusLen_def)

lemma AddProcess_Ok:
  assumes "AddProcess P p s = (Ok (), s')"
  shows "\<exists>s1 s2. DeepAdd P 256 tr_Processes set_Processes (bz (ProcessId p))
           \<lparr>sp_Process = added_process p, sp_VotesRoot = empty_root\<rparr> s = (Ok (), s1) \<and>
     (if has_preRegister p \<and> has_anonymous p then create_rolling_census (bz (ProcessId p)) s1 else (Ok (), s1))
       = (Ok (), s2) \<and>
     st_Tx s' = st_Tx (setProcessIDByStartBlock (bz (ProcessId p)) (StartBlock p) s2)"
proof -
  have "and_then (DeepAdd P 256 tr_Processes set_Processes (bz (ProcessId p))
           \<lparr>sp_Process = added_process p, sp_VotesRoot = empty_root\<rparr> s) (\<lambda>_ s.
         and_then (if has_preRegister p \<and> has_anonymous p then create_rolling_census (bz (ProcessId p)) s
                   else (Ok (), s)) (\<lambda>_ s.
         let s = setProcessIDByStartBlock (bz (ProcessId p)) (StartBlock p) s
         in (Ok (), emit (OnProcess (bz (ProcessId p)) (EntityId p) (hex (CensusRoot (added_process p)))
               (case CensusURI (added_process p) of None \<Rightarrow> [] | Some u \<Rightarrow> u) (st_txCounter s)) s))) = (Ok (), s')"
    using assms unfolding AddProcess_def Let_def added_process_def [symmetric] added_process_sel .
  then show ?thesis unfolding and_then_Ok_iff Let_def by fastforce
qed

section \<open>Properties\<close>

text \<open>A process for evaluation.\<close>

definition pid0 :: bytes where "pid0 = replicate 32 9"

definition proc0 :: Process where
  "proc0 = \<lparr>ProcessId = Some pid0, EntityId = alice, StartBlock = 10, BlockCount = 20, CensusRoot = [1, 2, 3],
     CensusURI = Some ''ipfs://c'', EncryptionPrivateKeys = [], EncryptionPublicKeys = [], KeyIndex = None,
     Status = READY,
     EnvelopeTypeOf = Some \<lparr>Serial = False, Anonymous = False, EncryptedVotes = False, UniqueValues = False, CostFromWeight = False\<rparr>,
     Mode = Some \<lparr>AutoStart = True, Interruptible = True, DynamicCensus = True, PreRegister = False\<rparr>,
     QuestionIndex = None,
     VoteOptions = Some \<lparr>MaxCount = 2, MaxValue = 3, MaxVoteOverwrites = 0, MaxTotalCost = 0, CostExponent = 1\<rparr>,
     CensusOriginOf = OFF_CHAIN_TREE, ResultsOf = [], EthIndexSlot = None, SourceBlockHeight = None,
     MaxCensusSize = None, RollingCensusRoot = [], RollingCensusSize = None, NullifiersRoot = []\<rparr>"

lemma proc0_sel [simp]:
  "ProcessId proc0 = Some pid0" "EntityId proc0 = alice" "StartBlock proc0 = 10" "BlockCount proc0 = 20"
  "Status proc0 = READY" "ResultsOf proc0 = []" "is_interruptible proc0" "\<exists>y. Mode proc0 = Some y"
  "\<exists>y. EnvelopeTypeOf proc0 = Some y" "\<not> has_preRegister proc0" "\<not> has_anonymous proc0"
  by (simp_all add: proc0_def is_interruptible_def has_preRegister_def has_anonymous_def)

definition proc_state :: state where
  "proc_state = ex_state\<lparr>st_height := 15, st_Tx := (st_Tx ex_state)\<lparr>
     tr_Processes := [(pid0, \<lparr>sp_Process = proc0, sp_VotesRoot = empty_root\<rparr>)],
     tr_Oracles := [(bob, [1])]\<rparr>\<rparr>"

lemma pid0_length [simp]: "length pid0 = 32"
  by (simp add: pid0_def)

lemma proc_state_get [simp]: "Process_get pid0 False proc_state = Ok proc0"
  by (simp add: Process_get_Ok proc_state_def)

lemma proc_state_wf [simp]: "processes_wf params0 proc_state"
  by (simp add: processes_wf_def proc_state_def leaf_wf_def empty_root_def)



text \<open>The two ways to reach the results status disagree on a running process: while its blocks
  last, \<open>SetProcessStatus\<close> accepts the results status of a ready process and \<open>SetProcessResults\<close> refuses
  it as still alive; once they are over it is the other way round.\<close>

theorem results_guard_inverted:
  assumes "processes_wf P s" and "Process_get pid False s = Ok p" and "Status p = READY"
    and "pr_ProcessId res = pid" and "pr_EntityId res = EntityId p" and "pr_OracleAddress res \<noteq> None"
  shows "(is_ok (fst (SetProcessStatus P pid RESULTS False s)) \<longleftrightarrow> st_height s < StartBlock p + BlockCount p) \<and>
    (is_ok (fst (SetProcessResults P pid res False s)) \<longleftrightarrow> \<not> st_height s < StartBlock p + BlockCount p)"
  using assms wf_Process(1) [OF assms(1,2)]
  by (auto simp: SetProcessStatus_def SetProcessResults_def status_check_def Let_def not_le not_less)

definition result0 :: ProcessResult where
  "result0 = \<lparr>pr_Votes = [[[5], [7]]], pr_ProcessId = pid0, pr_EntityId = alice, pr_OracleAddress = Some bob,
     pr_Signature = []\<rparr>"

theorem results_guard_inverted_witness:
  "is_ok (fst (SetProcessStatus params0 pid0 RESULTS False proc_state)) \<and>
   \<not> is_ok (fst (SetProcessResults params0 pid0 result0 False proc_state))"
  using results_guard_inverted [OF proc_state_wf proc_state_get, of result0]
  by (simp add: result0_def proc_state_def)

text \<open>A process is added once: after a successful addition it reads back as given (with empty
  census roots when it pre-registers), no other process has changed, and adding any process under
  the same identifier is refused without changing the state.\<close>

theorem add_process_once:
  assumes "AddProcess P p s = (Ok (), s')"
  shows "Process_get (bz (ProcessId p)) False s' = Ok (added_process p) \<and>
    (\<forall>pid. pid \<noteq> bz (ProcessId p) \<longrightarrow> Process_get pid False s' = Process_get pid False s) \<and>
    (\<forall>q. bz (ProcessId q) = bz (ProcessId p) \<longrightarrow> AddProcess P q s' = (Fail ErrKeyAlreadyExists, s'))"
proof -
  let ?pid = "bz (ProcessId p)"
  let ?sp = "\<lparr>sp_Process = added_process p, sp_VotesRoot = empty_root\<rparr>"
  obtain s1 where s1: "DeepAdd P 256 tr_Processes set_Processes ?pid ?sp s = (Ok (), s1)"
    and tr: "tr_Processes (st_Tx s') = tr_Processes (st_Tx s1)"
    using AddProcess_Ok [OF assms] create_rolling_census_frame
    by (fastforce simp: setProcessIDByStartBlock_def Let_def split: if_splits)
  then have ok: "arbo_key_ok P 256 ?pid" and none: "map_of (tr_Processes (st_Tx s)) ?pid = None"
    and t: "tr_Processes (st_Tx s') = leaf_insert (arbo_before P) ?pid ?sp (tr_Processes (st_Tx s))"
    by (auto simp: DeepAdd_Ok Tree_Add_Ok)
  have look: "map_of (tr_Processes (st_Tx s')) = (map_of (tr_Processes (st_Tx s)))(?pid \<mapsto> ?sp)"
    unfolding t by (rule map_of_leaf_insert [OF none])
  have "AddProcess P q s' = (Fail ErrKeyAlreadyExists, s')" if "bz (ProcessId q) = ?pid" for q
    using that ok look by (simp add: AddProcess_def Let_def DeepAdd_def Tree_Add_def)
  then show ?thesis
    using look by (auto simp: Process_get_def getProcess_def mainTreeViewer_def)
qed

theorem add_process_once_witness:
  "AddProcess params0 proc0 (snd (AddProcess params0 proc0 ex_state)) =
     (Fail ErrKeyAlreadyExists, snd (AddProcess params0 proc0 ex_state))"
proof -
  let ?r = "AddProcess params0 proc0 ex_state"
  have "fst ?r = Ok ()"
    by (simp add: AddProcess_def DeepAdd_def Tree_Add_def ex_state_def Let_def NewState_def trees0_def)
  then have "?r = (Ok (), snd ?r)" by (cases ?r) simp
  from add_process_once [OF this] show ?thesis by simp
qed

text \<open>C28. The results an oracle publishes cannot be read back: the slice is made with two empty
  entries per oracle and the result appended after them, and \<open>GetProcessResults\<close> reads the first
  entry, so it answers the empty list of questions whatever the result is.\<close>

theorem published_results_unreadable:
  assumes "processes_wf P s" and "Process_get pid False s = Ok p" and "ResultsOf p = []"
    and "Oracles P False s \<noteq> []" and "SetProcessResults P pid res True s = (Ok (), s')"
  shows "GetProcessResults pid (s'\<lparr>st_View := st_Tx s'\<rparr>) = Ok []"
proof -
  let ?p = "p\<lparr>ResultsOf := replicate (length (Oracles P False s) * 2) empty_result @ [res], Status := RESULTS\<rparr>"
  have pid: "ProcessId p = Some pid" using wf_Process(1) [OF assms(1,2)] .
  obtain s1 where "updateProcess P ?p pid s = (Ok (), s1)" and "st_Tx s' = st_Tx s1"
    using assms(2,3,5) pid
    by (auto simp: SetProcessResults_def Let_def res_simps split: if_splits)
  then have "Process_get pid True (s'\<lparr>st_View := st_Tx s'\<rparr>) = Ok ?p"
    using updateProcess_get [of P ?p pid s "()" s1 pid] by (simp add: Process_get_def mainTreeViewer_def)
  moreover have "ResultsOf ?p ! 0 = empty_result"
    using assms(4) by (simp add: nth_append)
  ultimately show ?thesis
    by (simp add: GetProcessResults_def GetFriendlyResults_def empty_result_def)
qed

theorem published_results_unreadable_witness:
  "let s = proc_state\<lparr>st_height := 40\<rparr>;
       s' = snd (SetProcessResults params0 pid0 result0 True s)
   in GetProcessResults pid0 (s'\<lparr>st_View := st_Tx s'\<rparr>) = Ok []"
proof -
  let ?s = "proc_state\<lparr>st_height := 40\<rparr>"
  let ?r = "SetProcessResults params0 pid0 result0 True ?s"
  have wf: "processes_wf params0 ?s" using proc_state_wf by (simp add: processes_wf_def)
  have g: "Process_get pid0 False ?s = Ok proc0"
    using proc_state_get by (simp add: Process_get_def mainTreeViewer_def)
  have os: "Oracles params0 False ?s = [bob]"
    by (simp add: Oracles_def mainTreeViewer_def proc_state_def)
  have "\<exists>s1. updateProcess params0 (proc0\<lparr>ResultsOf := [empty_result, empty_result, result0], Status := RESULTS\<rparr>) pid0 ?s = (Ok (), s1)"
    by (rule updateProcess_succeeds [OF wf g]) simp
  moreover have "replicate (length (Oracles params0 False ?s) * 2) empty_result = [empty_result, empty_result]"
    by (simp add: os numeral_2_eq_2)
  moreover have "bob \<noteq> []" by (simp add: bob_def)
  ultimately have "fst ?r = Ok ()"
    using g by (auto simp: SetProcessResults_def Let_def result0_def empty_result_def wrap_st_def)
  then have "?r = (Ok (), snd ?r)" by (cases ?r) simp
  from published_results_unreadable [OF wf g _ _ this] os show ?thesis by simp
qed

section \<open>Histories of a process\<close>

text \<open>What may happen to a stored process: its identity, schedule and rules stay, a canceled
  process stays canceled, results stay published and an ended process can only get results.\<close>

definition evolves :: "Process \<Rightarrow> Process \<Rightarrow> bool" where
  "evolves p q \<longleftrightarrow>
     ProcessId q = ProcessId p \<and> EntityId q = EntityId p \<and> StartBlock q = StartBlock p \<and>
     BlockCount q = BlockCount p \<and> EnvelopeTypeOf q = EnvelopeTypeOf p \<and> Mode q = Mode p \<and>
     VoteOptions q = VoteOptions p \<and> CensusOriginOf q = CensusOriginOf p \<and> MaxCensusSize q = MaxCensusSize p \<and>
     (length (RollingCensusRoot p) = 32 \<longrightarrow> length (RollingCensusRoot q) = 32) \<and>
     (Status p = CANCELED \<longrightarrow> Status q = CANCELED) \<and> (Status p = RESULTS \<longrightarrow> Status q = RESULTS) \<and>
     (Status p = ENDED \<longrightarrow> Status q \<in> {ENDED, RESULTS})"

lemma evolves_refl [simp]: "evolves p p"
  by (simp add: evolves_def)

lemma evolves_trans: "evolves p q \<Longrightarrow> evolves q r \<Longrightarrow> evolves p r"
  by (auto simp: evolves_def)

definition kept :: "params \<Rightarrow> state \<Rightarrow> state \<Rightarrow> bool" where
  "kept P s s' \<longleftrightarrow> processes_wf P s' \<and>
     (\<forall>pid p. Process_get pid False s = Ok p \<longrightarrow> (\<exists>q. Process_get pid False s' = Ok q \<and> evolves p q))"

lemma kept_refl: "processes_wf P s \<Longrightarrow> kept P s s"
  by (auto simp: kept_def)

lemma kept_trans: "kept P s1 s2 \<Longrightarrow> kept P s2 s3 \<Longrightarrow> kept P s1 s3"
  unfolding kept_def using evolves_trans by blast

lemma kept_emit [simp]: "kept P s (emit ev s') = kept P s s'"
  by (simp add: kept_def)

lemma updateProcess_kept:
  assumes "processes_wf P s" and "Process_get pid False s = Ok p" and "evolves p q"
    and "updateProcess P q pid s = (r, s')"
  shows "kept P s s'"
proof (cases "r = Ok ()")
  case True
  then have u: "updateProcess P q pid s = (Ok (), s')" using assms(4) by simp
  have "processes_wf P s'"
    using updateProcess_wf [OF u assms(1)] wf_Process [OF assms(1,2)] assms(3) by (simp add: evolves_def)
  then show ?thesis using assms(2,3) updateProcess_get [OF u] by (auto simp: kept_def)
next
  case False
  then show ?thesis using updateProcess_not_Ok [OF assms(4)] kept_refl [OF assms(1)] by simp
qed

text \<open>The same for an update followed by a callback.\<close>

lemma updateProcess_emit_kept:
  assumes "processes_wf P s" and "Process_get pid False s = Ok p" and "evolves p q"
  shows "kept P s (snd (and_then (updateProcess P q pid s) (\<lambda>_ s. (Ok (), emit (ev s) s))))"
    and "kept P s (snd (and_then (wrap_st m (updateProcess P q pid s)) (\<lambda>_ s. (Ok (), emit (ev s) s))))"
  using updateProcess_kept [OF assms]
  by (cases "updateProcess P q pid s"; cases "fst (updateProcess P q pid s)"; simp add: wrap_st_def)+

lemma status_step_evolves: "status_step p h (Status p) st \<Longrightarrow> evolves p (p\<lparr>Status := st\<rparr>)"
  by (erule status_step.cases) (auto simp: evolves_def)

lemma SetProcessStatus_kept:
  assumes "processes_wf P s"
  shows "kept P s (snd (SetProcessStatus P pid st c s))"
  unfolding SetProcessStatus_def
proof (intro with_res_keeps [where Q = "kept P s"])
  show "kept P s s" by (rule kept_refl [OF assms])
  then show "kept P s s" .
  fix p u
  assume p: "Process_get pid False s = Ok p" and chk: "status_check p (st_height s) st = Ok u"
  note wf = wf_Process [OF assms p]
  have "evolves p (p\<lparr>Status := st\<rparr>)"
    using status_step_evolves status_check_iff [OF wf(2)] chk by simp
  then show "kept P s (snd (if c
       then and_then (updateProcess P (p\<lparr>Status := st\<rparr>) (bz (ProcessId p)) s) (\<lambda>_ s.
              (Ok (), emit (OnProcessStatusChange (bz (ProcessId p)) st (st_txCounter s)) s))
       else (Ok (), s)))"
    using updateProcess_emit_kept(1) [OF assms p] kept_refl [OF assms] wf(1) by simp
qed

lemma SetProcessResults_kept:
  assumes "processes_wf P s"
  shows "kept P s (snd (SetProcessResults P pid res c s))"
proof (cases "Process_get pid False s")
  case (Ok p)
  have "evolves p (p\<lparr>ResultsOf := rs, Status := RESULTS\<rparr>)" if "Status p \<noteq> CANCELED" for rs
    using that by (simp add: evolves_def)
  then show ?thesis
    using updateProcess_emit_kept(2) [OF assms Ok] kept_refl [OF assms] wf_Process(1) [OF assms Ok]
    by (simp add: SetProcessResults_def Ok Let_def)
qed (use kept_refl [OF assms] in \<open>simp_all add: SetProcessResults_def\<close>)

lemma SetProcessCensus_kept:
  assumes "processes_wf P s"
  shows "kept P s (snd (SetProcessCensus P pid root uri c s))"
proof (cases "Process_get pid False s")
  case (Ok p)
  have "kept P s (snd (updateProcess P (p\<lparr>CensusRoot := root, CensusURI := Some uri\<rparr>) pid s))"
    using updateProcess_kept [OF assms Ok, of "p\<lparr>CensusRoot := root, CensusURI := Some uri\<rparr>"]
    by (cases "updateProcess P (p\<lparr>CensusRoot := root, CensusURI := Some uri\<rparr>) pid s") (simp add: evolves_def)
  then show ?thesis
    using kept_refl [OF assms] wf_Process(1) [OF assms Ok]
    by (simp add: SetProcessCensus_def Ok split: option.split)
qed (use kept_refl [OF assms] in \<open>simp_all add: SetProcessCensus_def\<close>)

lemma AddProcessKeys_kept:
  assumes "processes_wf P s"
  shows "kept P s (snd (AddProcessKeys P tx s))"
proof -
  have "kept P s (snd (and_then (updateProcess P (q\<lparr>KeyIndex := n\<rparr>) pid s) (\<lambda>_ s. (Ok (), emit (ev s) s))))"
    if "Process_get pid False s = Ok p"
      and "(case ad_EncryptionPublicKey tx of None \<Rightarrow> Ok p
            | Some k \<Rightarrow> rbind (write_at (EncryptionPublicKeys p) ki (hex k)) (\<lambda>ks. Ok (p\<lparr>EncryptionPublicKeys := ks\<rparr>))) = Ok q"
    for pid p q n ki ev
    by (rule updateProcess_emit_kept(1) [OF assms that(1)])
      (use that(2) in \<open>auto simp: evolves_def res_simps split: option.splits\<close>)
  then show ?thesis
    using kept_refl [OF assms]
    by (auto simp: AddProcessKeys_def Let_def split: option.split intro!: with_res_keeps [where Q = "kept P s"])
qed

lemma RevealProcessKeys_kept:
  assumes "processes_wf P s"
  shows "kept P s (snd (RevealProcessKeys P tx s))"
proof -
  have "kept P s (snd (and_then (updateProcess P (q\<lparr>KeyIndex := n\<rparr>) pid s) (\<lambda>_ s. (Ok (), emit (ev s) s))))"
    if "Process_get pid False s = Ok p"
      and "(case ad_EncryptionPrivateKey tx of None \<Rightarrow> Ok (p, [])
            | Some k \<Rightarrow> rbind (write_at (EncryptionPrivateKeys p) ki (hex k))
                (\<lambda>ks. Ok (p\<lparr>EncryptionPrivateKeys := ks\<rparr>, hex k))) = Ok (q, e)"
    for pid p q n ki ev e
    by (rule updateProcess_emit_kept(1) [OF assms that(1)])
      (use that(2) in \<open>auto simp: evolves_def res_simps split: option.splits\<close>)
  then show ?thesis
    using kept_refl [OF assms]
    by (auto simp: RevealProcessKeys_def Let_def split: option.split intro!: with_res_keeps [where Q = "kept P s"])
qed

lemma AddProcess_kept:
  assumes "processes_wf P s" and "ProcessId p = Some k" and "Mode p \<noteq> None" and "EnvelopeTypeOf p \<noteq> None"
    and "AddProcess P p s = (Ok (), s')"
  shows "kept P s s'"
proof -
  let ?sp = "\<lparr>sp_Process = added_process p, sp_VotesRoot = empty_root\<rparr>"
  obtain s1 s2 where s1: "DeepAdd P 256 tr_Processes set_Processes k ?sp s = (Ok (), s1)"
    and s2: "(if has_preRegister p \<and> has_anonymous p then create_rolling_census k s1 else (Ok (), s1)) = (Ok (), s2)"
    and s': "st_Tx s' = st_Tx (setProcessIDByStartBlock k (StartBlock p) s2)"
    using AddProcess_Ok [OF assms(5), unfolded assms(2) bz_simps] by blast
  have tr: "tr_Processes (st_Tx s') = tr_Processes (st_Tx s1)"
    using s2 s' create_rolling_census_frame [of k s1 "Ok ()" s2]
    by (auto simp: setProcessIDByStartBlock_def Let_def split: if_splits)
  have ok: "arbo_key_ok P 256 k" and none: "map_of (tr_Processes (st_Tx s)) k = None"
    and t: "tr_Processes (st_Tx s') = leaf_insert (arbo_before P) k ?sp (tr_Processes (st_Tx s))"
    using s1 tr by (auto simp: DeepAdd_Ok Tree_Add_Ok)
  have look: "map_of (tr_Processes (st_Tx s')) = (map_of (tr_Processes (st_Tx s)))(k \<mapsto> ?sp)"
    unfolding t by (rule map_of_leaf_insert [OF none])
  have "distinct (map fst (tr_Processes (st_Tx s')))"
    unfolding t distinct_leaf_insert using assms(1) none by (simp add: processes_wf_def map_of_None_keys)
  then have "processes_wf P s'"
    using assms look ok by (auto simp: processes_wf_def leaf_wf_def empty_root_def)
  then show ?thesis
    using look none by (auto simp: kept_def Process_get_Ok)
qed

text \<open>The operations on processes and the passing of blocks, as steps.\<close>

inductive process_step :: "params \<Rightarrow> state \<Rightarrow> state \<Rightarrow> bool" for P where
  step_add: "AddProcess P p s = (Ok (), s') \<Longrightarrow> ProcessId p = Some k \<Longrightarrow> Mode p \<noteq> None \<Longrightarrow>
    EnvelopeTypeOf p \<noteq> None \<Longrightarrow> process_step P s s'"
| step_status: "process_step P s (snd (SetProcessStatus P pid st c s))"
| step_results: "process_step P s (snd (SetProcessResults P pid res c s))"
| step_census: "process_step P s (snd (SetProcessCensus P pid root uri c s))"
| step_add_keys: "process_step P s (snd (AddProcessKeys P tx s))"
| step_reveal_keys: "process_step P s (snd (RevealProcessKeys P tx s))"
| step_height: "process_step P s (s\<lparr>st_height := h\<rparr>)"

lemma process_step_kept: "process_step P s s' \<Longrightarrow> processes_wf P s \<Longrightarrow> kept P s s'"
proof (induction rule: process_step.induct)
  case (step_height s h)
  then show ?case by (simp add: kept_def processes_wf_def Process_get_def mainTreeViewer_def)
qed (auto intro: AddProcess_kept SetProcessStatus_kept SetProcessResults_kept SetProcessCensus_kept
      AddProcessKeys_kept RevealProcessKeys_kept)

text \<open>C25. Over any sequence of additions, status changes, results, census updates, key operations
  and new blocks, a process is never removed; its owner, schedule, envelope and mode never change; a
  canceled process stays canceled, one with results keeps them, and an ended one can only get
  results.\<close>

theorem process_history:
  assumes "(process_step P)\<^sup>*\<^sup>* s s'" and "processes_wf P s" and "Process_get pid False s = Ok p"
  shows "processes_wf P s' \<and> (\<exists>q. Process_get pid False s' = Ok q \<and> evolves p q)"
proof -
  have "kept P s s'"
    using assms(1)
  proof (induction rule: rtranclp_induct)
    case base
    then show ?case by (rule kept_refl [OF assms(2)])
  next
    case (step s1 s2)
    then have "processes_wf P s1" by (simp add: kept_def)
    then show ?case using step process_step_kept kept_trans by blast
  qed
  then show ?thesis using assms(3) by (auto simp: kept_def)
qed

theorem process_history_witness:
  "\<exists>q. Process_get pid0 False (snd (SetProcessStatus params0 pid0 CANCELED True proc_state)) = Ok q \<and> evolves proc0 q"
proof -
  have "(process_step params0)\<^sup>*\<^sup>* proc_state (snd (SetProcessStatus params0 pid0 CANCELED True proc_state))"
    by (rule r_into_rtranclp, rule step_status)
  from process_history [OF this proc_state_wf proc_state_get] show ?thesis by blast
qed

lemma put_le_4: "put_le 4 x = [of_nat (x mod 256), of_nat (x div 256 mod 256),
   of_nat (x div 65536 mod 256), of_nat (x div 16777216 mod 256)]"
proof -
  have "put_le (Suc (Suc (Suc (Suc 0)))) x = [of_nat (x mod 256), of_nat (x div 256 mod 256),
     of_nat (x div 65536 mod 256), of_nat (x div 16777216 mod 256)]"
    by (simp add: div_mult2_eq [symmetric])
  moreover have "4 = Suc (Suc (Suc (Suc 0)))" by simp
  ultimately show ?thesis by (simp only:)
qed

text \<open>The index of processes by start block confuses blocks: the four bytes of the block number
  go through \<^verbatim>\<open>path.Join\<close>, which drops slashes and dots, so a process that starts at block 12078 is
  listed among those that start at block 12079.\<close>

theorem start_block_index_collision:
  "keyProcessIDsByStartBlock 12078 = keyProcessIDsByStartBlock 12079 \<and>
   pid \<in> set (processIDsByStartBlock 12079 (setProcessIDByStartBlock pid 12078 s))"
proof -
  have "keyProcessIDsByStartBlock 12078 = keyProcessIDsByStartBlock 12079"
    by (simp add: keyProcessIDsByStartBlock_def PutUint32LE_def path_Join_def path_Clean_def str_def
        put_le_4 slash_def dot_def)
  then show ?thesis
    by (simp add: processIDsByStartBlock_def setProcessIDByStartBlock_def Let_def)
qed

text \<open>An encryption key is published at its index or the node panics: a key whose index is not
  below the length of the key list writes out of range; one whose index is goes there, raises the
  key counter by one and changes no other key.\<close>

theorem process_key_index:
  assumes "processes_wf P s" and "Process_get pid False s = Ok p" and "length pid = 32"
    and "ad_ProcessId tx = Some pid" and "ad_KeyIndex tx = Some i" and "ad_EncryptionPublicKey tx = Some k"
  shows "(length (EncryptionPublicKeys p) \<le> unat i \<longrightarrow>
            AddProcessKeys P tx s = (Panic ''index out of range'', s)) \<and>
    (unat i < length (EncryptionPublicKeys p) \<longrightarrow>
       (\<exists>s'. AddProcessKeys P tx s = (Ok (), s') \<and>
          Process_get pid False s' = Ok (p\<lparr>EncryptionPublicKeys := (EncryptionPublicKeys p)[unat i := hex k],
             KeyIndex := Some ((case KeyIndex p of None \<Rightarrow> 0 | Some n \<Rightarrow> n) + 1)\<rparr>)))"
proof -
  let ?q = "p\<lparr>EncryptionPublicKeys := (EncryptionPublicKeys p)[unat i := hex k],
      KeyIndex := Some ((case KeyIndex p of None \<Rightarrow> 0 | Some n \<Rightarrow> n) + 1)\<rparr>"
  obtain s1 where s1: "updateProcess P ?q pid s = (Ok (), s1)"
    using updateProcess_succeeds [OF assms(1,2), of ?q] wf_Process(1) [OF assms(1,2)] assms(3) by auto
  have "Process_get pid False s1 = Ok ?q" using updateProcess_get [OF s1] by simp
  with s1 assms show ?thesis by (simp add: AddProcessKeys_def write_at_def Let_def)
qed

theorem process_key_index_witness:
  "AddProcessKeys params0 \<lparr>ad_Txtype = ADD_PROCESS_KEYS, ad_ProcessId = Some pid0, ad_Address = [],
      ad_EncryptionPrivateKey = None, ad_EncryptionPublicKey = Some [1], ad_KeyIndex = Some 16,
      ad_Power = None, ad_PublicKey = None, ad_Nonce = 0\<rparr> proc_state = (Panic ''index out of range'', proc_state)"
  using process_key_index [OF proc_state_wf proc_state_get pid0_length,
      of "\<lparr>ad_Txtype = ADD_PROCESS_KEYS, ad_ProcessId = Some pid0, ad_Address = [],
      ad_EncryptionPrivateKey = None, ad_EncryptionPublicKey = Some [1], ad_KeyIndex = Some 16,
      ad_Power = None, ad_PublicKey = None, ad_Nonce = 0\<rparr>" 16 "[1]"]
  by (simp add: proc0_def)

end
