(* ===== verification/Votes.thy ===== *)
theory Votes
  imports Processes
begin

text \<open>
  Votes (\<^verbatim>\<open>src/vochain/state.go\<close>, \<^verbatim>\<open>src/vochain/cache.go\<close>): storing a vote under the hash of its process
  and nullifier, the queries on stored votes, the global vote count and the vote cache.
\<close>

definition ProcessIDsize :: nat where "ProcessIDsize = 32"
definition VoteNullifierSize :: nat where "VoteNullifierSize = 32"

definition GenerateNullifier :: "params \<Rightarrow> address \<Rightarrow> bytes \<Rightarrow> bytes" where
  "GenerateNullifier P a pid = HashRaw P (a @ pid)"

section \<open>Storing votes\<close>

definition voteID :: "params \<Rightarrow> bytes \<Rightarrow> bytes \<Rightarrow> bytes res" where
  "voteID P pid nullifier =
     (if length pid \<noteq> ProcessIDsize then Fail (Errf ''wrong processID size %d'')
      else if length nullifier \<noteq> VoteNullifierSize then Fail (Errf ''wrong nullifier size %d'')
      else Ok (Sha256 P (pid @ nullifier)))"

definition VoteCount :: "bool \<Rightarrow> state \<Rightarrow> u64 res" where
  "VoteCount committed s =
     (case ns_voteCount (mainTreeViewer committed s) of None \<Rightarrow> Ok 0 | Some b \<Rightarrow> Uint64LE b)"

definition voteCountInc :: "state \<Rightarrow> unit res \<times> state" where
  "voteCountInc s =
     (let b = (case ns_voteCount (st_Tx s) of None \<Rightarrow> replicate 8 0 | Some b \<Rightarrow> b)
      in with_res (Uint64LE b) s (\<lambda>n.
           (Ok (), s\<lparr>st_Tx := (st_Tx s)\<lparr>ns_voteCount := Some (PutUint64LE (n + 1))\<rparr>\<rparr>)))"

definition set_votes :: "bytes \<Rightarrow> StateDBVote tree \<Rightarrow> state \<Rightarrow> state" where
  "set_votes pid t s = s\<lparr>st_Tx := (st_Tx s)\<lparr>tr_Votes := (tr_Votes (st_Tx s))(pid := t)\<rparr>\<rparr>"

definition sdb_vote :: "params \<Rightarrow> Vote \<Rightarrow> StateDBVote" where
  "sdb_vote P vote = \<lparr>sv_VoteHash = HashRaw P (Marshal_Vote P vote), sv_ProcessId = v_ProcessId vote,
     sv_Nullifier = bz (v_Nullifier vote)\<rparr>"

definition AddVote :: "params \<Rightarrow> Vote \<Rightarrow> bytes \<Rightarrow> state \<Rightarrow> unit res \<times> state" where
  "AddVote P vote voterID s =
     with_res (voteID P (v_ProcessId vote) (bz (v_Nullifier vote))) s (\<lambda>vid.
     let vote = vote\<lparr>v_Height := st_height s\<rparr>
     in with_res (open_votes (st_Tx s) (v_ProcessId vote)) s (\<lambda>tree.
        with_res (Tree_Add P 256 tree vid (sdb_vote P vote)) s (\<lambda>tree.
        and_then (voteCountInc (set_votes (v_ProcessId vote) tree s)) (\<lambda>_ s.
          (Ok (), emit (OnVote vote voterID (st_txCounter s)) s)))))"

section \<open>Queries\<close>

definition Envelope :: "params \<Rightarrow> bytes \<Rightarrow> bytes \<Rightarrow> bool \<Rightarrow> state \<Rightarrow> bytes res" where
  "Envelope P pid nullifier committed s =
     rbind (voteID P pid nullifier) (\<lambda>vid.
     case open_votes (mainTreeViewer committed s) pid of
       Fail e \<Rightarrow> Fail (if errors_is e ErrKeyNotFound then ErrProcessNotFound else e)
     | Panic m \<Rightarrow> Panic m
     | Ok votesTree \<Rightarrow>
         (case map_of votesTree vid of
            None \<Rightarrow> Fail ErrVoteDoesNotExist
          | Some v \<Rightarrow> Ok (sv_VoteHash v)))"

definition EnvelopeExists :: "params \<Rightarrow> bytes \<Rightarrow> bytes \<Rightarrow> bool \<Rightarrow> state \<Rightarrow> bool res" where
  "EnvelopeExists P pid nullifier committed s =
     (case Envelope P pid nullifier committed s of
        Ok _ \<Rightarrow> Ok True
      | Panic m \<Rightarrow> Panic m
      | Fail e \<Rightarrow> if errors_is e ErrProcessNotFound \<or> errors_is e ErrVoteDoesNotExist then Ok False else Fail e)"

definition iterateVotes ::
  "params \<Rightarrow> bytes \<Rightarrow> ('a \<Rightarrow> bytes \<Rightarrow> StateDBVote \<Rightarrow> 'a \<times> bool) \<Rightarrow> 'a \<Rightarrow> bool \<Rightarrow> state \<Rightarrow> 'a res" where
  "iterateVotes P pid fn a committed s =
     rbind (open_votes (mainTreeViewer committed s) pid) (\<lambda>t. Ok (Tree_IterateLeaves P fn a t))"

definition CountVotes :: "params \<Rightarrow> bytes \<Rightarrow> bool \<Rightarrow> state \<Rightarrow> u32" where
  "CountVotes P pid committed s =
     (case iterateVotes P pid (\<lambda>count _ _. (count + 1, False)) 0 committed s of Ok n \<Rightarrow> n | _ \<Rightarrow> 0)"

definition EnvelopeList :: "params \<Rightarrow> bytes \<Rightarrow> int \<Rightarrow> int \<Rightarrow> bool \<Rightarrow> state \<Rightarrow> bytes list" where
  "EnvelopeList P pid from listSize committed s =
     (case iterateVotes P pid
             (\<lambda>(idx, ns) _ v.
                if from + listSize \<le> idx then ((idx, ns), True)
                else ((idx + 1, if from \<le> idx then ns @ [sv_Nullifier v] else ns), False))
             (0, []) committed s of
        Ok (_, ns) \<Rightarrow> ns | _ \<Rightarrow> [])"

section \<open>The vote cache\<close>

definition cache_put :: "params \<Rightarrow> cache_key \<Rightarrow> Vote option \<Rightarrow> state \<Rightarrow> state" where
  "cache_put P k v s = s\<lparr>st_voteCache := lru_keep P ((k, v) # filter (\<lambda>e. fst e \<noteq> k) (st_voteCache s))\<rparr>"

definition cache_remove :: "cache_key \<Rightarrow> state \<Rightarrow> state" where
  "cache_remove k s = s\<lparr>st_voteCache := filter (\<lambda>e. fst e \<noteq> k) (st_voteCache s)\<rparr>"

definition CacheAdd :: "params \<Rightarrow> bytes \<Rightarrow> Vote option \<Rightarrow> state \<Rightarrow> state" where
  "CacheAdd P txid vote s =
     (if st_DisableVoteCache s then s
      else case vote of
        None \<Rightarrow> s
      | Some v \<Rightarrow>
          (case v_Nullifier v of
             None \<Rightarrow> s
           | Some n \<Rightarrow> cache_put P (CK_nullifier n) None (cache_put P (CK_tx txid) (Some v) s)))"

definition CacheGet :: "bytes \<Rightarrow> state \<Rightarrow> Vote option" where
  "CacheGet txid s =
     (if st_DisableVoteCache s then None
      else case map_of (st_voteCache s) (CK_tx txid) of Some (Some v) \<Rightarrow> Some v | _ \<Rightarrow> None)"

definition CacheGetCopy :: "bytes \<Rightarrow> state \<Rightarrow> Vote option" where
  "CacheGetCopy txid s = (if st_DisableVoteCache s then None else CacheGet txid s)"

definition CacheDel :: "bytes \<Rightarrow> state \<Rightarrow> state" where
  "CacheDel txid s =
     (if st_DisableVoteCache s then s
      else let s' = (case CacheGet txid s of
                       None \<Rightarrow> s
                     | Some v \<Rightarrow> cache_remove (CK_nullifier (bz (v_Nullifier v))) s)
           in cache_remove (CK_tx txid) s')"

definition CacheHasNullifier :: "bytes \<Rightarrow> state \<Rightarrow> bool" where
  "CacheHasNullifier n s =
     (if st_DisableVoteCache s then False else map_of (st_voteCache s) (CK_nullifier n) \<noteq> None)"

definition voteCachePurgeThreshold :: u32 where "voteCachePurgeThreshold = 180"

fun purge_loop :: "u32 \<Rightarrow> cache_key list \<Rightarrow> state \<Rightarrow> bytes list \<Rightarrow> state \<times> bytes list" where
  "purge_loop height [] s removed = (s, removed)"
| "purge_loop height (key # ids) s removed =
     (case (map_of (st_voteCache s) key, key) of
        (Some (Some vote), CK_tx vid) \<Rightarrow>
          if v_Height vote + voteCachePurgeThreshold \<le> height
          then purge_loop height ids
                 (cache_remove (CK_tx vid) (cache_remove (CK_nullifier (bz (v_Nullifier vote))) s)) (removed @ [vid])
          else purge_loop height ids s removed
      | _ \<Rightarrow> purge_loop height ids s removed)"

text \<open>The second result is the list of transactions taken off the mempool.\<close>

definition CachePurge :: "u32 \<Rightarrow> state \<Rightarrow> state \<times> bytes list" where
  "CachePurge height s =
     (if st_DisableVoteCache s then (s, [])
      else if height mod 18 \<noteq> 0 then (s, [])
      else purge_loop height (map fst (st_voteCache s)) s [])"

definition CacheSize :: "state \<Rightarrow> nat" where
  "CacheSize s = (if st_DisableVoteCache s then 0 else length (st_voteCache s))"

section \<open>Lemmas\<close>

lemma open_votes_Ok:
  "open_votes T pid = Ok t \<longleftrightarrow>
     t = tr_Votes T pid \<and> (\<exists>sp. map_of (tr_Processes T) pid = Some sp \<and> length (sp_VotesRoot sp) = 32)"
  by (auto simp: open_votes_def processGetVotesRoot_def defaultHashLen_def res_simps Tree_Get_def split: if_splits)

lemma voteID_Ok:
  "voteID P pid n = Ok k \<longleftrightarrow> length pid = 32 \<and> length n = 32 \<and> k = Sha256 P (pid @ n)"
  by (auto simp: voteID_def ProcessIDsize_def VoteNullifierSize_def)

lemma replicate_8_zero: "Uint64LE (replicate 8 0) = Ok 0"
  by (simp add: Uint64LE_def numeral_eq_Suc)

lemma voteCountInc_Ok:
  "voteCountInc s = (Ok (), s') \<longleftrightarrow>
     (\<exists>n. VoteCount False s = Ok n \<and> s' = s\<lparr>st_Tx := (st_Tx s)\<lparr>ns_voteCount := Some (PutUint64LE (n + 1))\<rparr>\<rparr>)"
  using replicate_8_zero
  by (auto simp: voteCountInc_def VoteCount_def mainTreeViewer_def res_simps split: option.splits)

text \<open>The trees a stored vote leaves behind.\<close>

lemma AddVote_Ok:
  assumes "AddVote P v w s = (Ok (), s')"
  shows "\<exists>n. length (v_ProcessId v) = 32 \<and> length (bz (v_Nullifier v)) = 32 \<and> VoteCount False s = Ok n \<and>
     open_votes (st_Tx s) (v_ProcessId v) = Ok (tr_Votes (st_Tx s) (v_ProcessId v)) \<and>
     arbo_key_ok P 256 (Sha256 P (v_ProcessId v @ bz (v_Nullifier v))) \<and>
     map_of (tr_Votes (st_Tx s) (v_ProcessId v)) (Sha256 P (v_ProcessId v @ bz (v_Nullifier v))) = None \<and>
     st_Tx s' = (st_Tx s)\<lparr>
       tr_Votes := (tr_Votes (st_Tx s))(v_ProcessId v :=
         leaf_insert (arbo_before P) (Sha256 P (v_ProcessId v @ bz (v_Nullifier v)))
           (sdb_vote P (v\<lparr>v_Height := st_height s\<rparr>)) (tr_Votes (st_Tx s) (v_ProcessId v))),
       ns_voteCount := Some (PutUint64LE (n + 1))\<rparr> \<and> st_View s' = st_View s \<and> st_height s' = st_height s"
proof -
  let ?v = "v\<lparr>v_Height := st_height s\<rparr>"
  obtain vid t s1 where "voteID P (v_ProcessId v) (bz (v_Nullifier v)) = Ok vid"
    and o: "open_votes (st_Tx s) (v_ProcessId v) = Ok (tr_Votes (st_Tx s) (v_ProcessId v))"
    and "Tree_Add P 256 (tr_Votes (st_Tx s) (v_ProcessId v)) vid (sdb_vote P ?v) = Ok t"
    and "voteCountInc (set_votes (v_ProcessId v) t s) = (Ok (), s1)"
    and "s' = emit (OnVote ?v w (st_txCounter s1)) s1"
    using assms by (auto simp: AddVote_def Let_def res_simps open_votes_Ok)
  then show ?thesis
    by (auto simp: voteID_Ok Tree_Add_Ok voteCountInc_Ok set_votes_def VoteCount_def mainTreeViewer_def)
qed

lemma AddVote_not_Ok: "AddVote P v w s = (r, s') \<Longrightarrow> VoteCount False s = Ok n \<Longrightarrow> r \<noteq> Ok () \<Longrightarrow> s' = s"
  using replicate_8_zero
  by (cases "voteID P (v_ProcessId v) (bz (v_Nullifier v))"; cases "open_votes (st_Tx s) (v_ProcessId v)";
      cases "Tree_Add P 256 (tr_Votes (st_Tx s) (v_ProcessId v)) (Sha256 P (v_ProcessId v @ bz (v_Nullifier v)))
        (sdb_vote P (v\<lparr>v_Height := st_height s\<rparr>))")
    (auto simp: AddVote_def Let_def open_votes_Ok voteID_Ok voteCountInc_def set_votes_def VoteCount_def
      mainTreeViewer_def split: option.splits)

lemma IterateLeaves_no_stop:
  assumes "\<And>a k v. \<not> snd (f a k v)"
  shows "Tree_IterateLeaves P f a t = fold (\<lambda>(k, v) a. fst (f a k v)) t a"
  using assms by (induction t arbitrary: a) (auto simp: split_def Let_def)

lemma fold_count: "fold (\<lambda>(k, v) n. n + 1) t (n :: 'a::len word) = n + of_nat (length t)"
  by (induction t arbitrary: n) (auto simp: algebra_simps)

lemma CountVotes_eq:
  "CountVotes P pid c s = (case open_votes (mainTreeViewer c s) pid of Ok t \<Rightarrow> of_nat (length t) | _ \<Rightarrow> 0)"
proof -
  have "Tree_IterateLeaves P (\<lambda>count _ _. (count + 1, False)) 0 t = (of_nat (length t) :: u32)"
    for t :: "StateDBVote tree"
    by (subst IterateLeaves_no_stop) (simp_all add: fold_count)
  then show ?thesis
    by (cases "open_votes (mainTreeViewer c s) pid") (simp_all add: CountVotes_def iterateVotes_def)
qed

section \<open>Properties\<close>

definition vote0 :: Vote where
  "vote0 = \<lparr>v_Height = 0, v_ProcessId = pid0, v_Nullifier = Some (replicate 32 4), v_VotePackage = [1],
     v_Weight = [1], v_EncryptionKeyIndexes = []\<rparr>"

lemma vote0_runs: "AddVote params0 vote0 [] proc_state = (Ok (), snd (AddVote params0 vote0 [] proc_state))"
proof -
  have "open_votes (st_Tx proc_state) pid0 = Ok (tr_Votes (st_Tx proc_state) pid0)"
    by (simp add: open_votes_Ok proc_state_def empty_root_def)
  moreover have "tr_Votes (st_Tx proc_state) pid0 = []" "ns_voteCount (st_Tx proc_state) = None"
    by (simp_all add: proc_state_def ex_state_def trees0_def)
  ultimately have "fst (AddVote params0 vote0 [] proc_state) = Ok ()"
    using replicate_8_zero
    by (simp add: AddVote_def vote0_def voteID_def ProcessIDsize_def VoteNullifierSize_def Let_def
        Tree_Add_def voteCountInc_def set_votes_def)
  then show ?thesis by (cases "AddVote params0 vote0 [] proc_state") simp
qed

text \<open>A stored vote is found and is stored once: its envelope exists and is the hash of the vote
  at the current height; any later vote of the same process with the same nullifier is refused and
  changes nothing.\<close>

theorem vote_stored_once:
  assumes "AddVote P v w s = (Ok (), s')"
  shows "Envelope P (v_ProcessId v) (bz (v_Nullifier v)) False s' =
           Ok (HashRaw P (Marshal_Vote P (v\<lparr>v_Height := st_height s\<rparr>))) \<and>
    EnvelopeExists P (v_ProcessId v) (bz (v_Nullifier v)) False s' = Ok True \<and>
    (\<forall>v2 w2. v_ProcessId v2 = v_ProcessId v \<and> bz (v_Nullifier v2) = bz (v_Nullifier v) \<longrightarrow>
       AddVote P v2 w2 s' = (Fail ErrKeyAlreadyExists, s'))"
proof -
  let ?vid = "Sha256 P (v_ProcessId v @ bz (v_Nullifier v))"
  obtain n where len: "length (v_ProcessId v) = 32" "length (bz (v_Nullifier v)) = 32"
    and op: "open_votes (st_Tx s) (v_ProcessId v) = Ok (tr_Votes (st_Tx s) (v_ProcessId v))"
    and key: "arbo_key_ok P 256 ?vid" and none: "map_of (tr_Votes (st_Tx s) (v_ProcessId v)) ?vid = None"
    and tx: "st_Tx s' = (st_Tx s)\<lparr>
       tr_Votes := (tr_Votes (st_Tx s))(v_ProcessId v :=
         leaf_insert (arbo_before P) ?vid (sdb_vote P (v\<lparr>v_Height := st_height s\<rparr>)) (tr_Votes (st_Tx s) (v_ProcessId v))),
       ns_voteCount := Some (PutUint64LE (n + 1))\<rparr>"
    using AddVote_Ok [OF assms] by blast
  have op': "open_votes (st_Tx s') (v_ProcessId v) = Ok (tr_Votes (st_Tx s') (v_ProcessId v))"
    using op tx by (simp add: open_votes_Ok)
  have look: "map_of (tr_Votes (st_Tx s') (v_ProcessId v)) ?vid = Some (sdb_vote P (v\<lparr>v_Height := st_height s\<rparr>))"
    using none tx by simp
  have id: "voteID P (v_ProcessId v) (bz (v_Nullifier v)) = Ok ?vid" using len by (simp add: voteID_Ok)
  have env: "Envelope P (v_ProcessId v) (bz (v_Nullifier v)) False s' =
      Ok (HashRaw P (Marshal_Vote P (v\<lparr>v_Height := st_height s\<rparr>)))"
    using op' look id by (simp add: Envelope_def mainTreeViewer_def sdb_vote_def)
  have "AddVote P v2 w2 s' = (Fail ErrKeyAlreadyExists, s')"
    if "v_ProcessId v2 = v_ProcessId v" "bz (v_Nullifier v2) = bz (v_Nullifier v)" for v2 w2
    using that id op' look key by (simp add: AddVote_def Let_def Tree_Add_def)
  then show ?thesis using env by (simp add: EnvelopeExists_def)
qed

theorem vote_stored_once_witness:
  "EnvelopeExists params0 pid0 (replicate 32 4) False (snd (AddVote params0 vote0 [] proc_state)) = Ok True"
  using vote_stored_once [OF vote0_runs] by (simp add: vote0_def)

text \<open>A stored vote raises the count of its process and the global count by one, modulo their
  widths, and no other process's count.\<close>

theorem vote_counted:
  assumes "AddVote P v w s = (Ok (), s')"
  shows "CountVotes P (v_ProcessId v) False s' = CountVotes P (v_ProcessId v) False s + 1 \<and>
    (\<exists>n. VoteCount False s = Ok n \<and> VoteCount False s' = Ok (n + 1)) \<and>
    (\<forall>pid. pid \<noteq> v_ProcessId v \<longrightarrow> CountVotes P pid False s' = CountVotes P pid False s)"
proof -
  let ?vid = "Sha256 P (v_ProcessId v @ bz (v_Nullifier v))"
  obtain n where n: "VoteCount False s = Ok n"
    and op: "open_votes (st_Tx s) (v_ProcessId v) = Ok (tr_Votes (st_Tx s) (v_ProcessId v))"
    and tx: "st_Tx s' = (st_Tx s)\<lparr>
       tr_Votes := (tr_Votes (st_Tx s))(v_ProcessId v :=
         leaf_insert (arbo_before P) ?vid (sdb_vote P (v\<lparr>v_Height := st_height s\<rparr>)) (tr_Votes (st_Tx s) (v_ProcessId v))),
       ns_voteCount := Some (PutUint64LE (n + 1))\<rparr>"
    using AddVote_Ok [OF assms] by blast
  have "open_votes (st_Tx s') pid =
      (if pid = v_ProcessId v then Ok (tr_Votes (st_Tx s') pid) else open_votes (st_Tx s) pid)" for pid
    using op tx by (auto simp: open_votes_def res_simps)
  then show ?thesis
    using n op tx by (simp add: CountVotes_eq VoteCount_def mainTreeViewer_def algebra_simps)
qed

theorem vote_counted_witness:
  "CountVotes params0 pid0 False (snd (AddVote params0 vote0 [] proc_state)) = 1"
proof -
  have "CountVotes params0 pid0 False proc_state = 0"
    by (simp add: CountVotes_eq mainTreeViewer_def open_votes_def Tree_Get_def of_option_def
        processGetVotesRoot_def defaultHashLen_def proc_state_def empty_root_def ex_state_def trees0_def)
  then show ?thesis using vote_counted [OF vote0_runs] by (simp add: vote0_def)
qed

section \<open>The global count\<close>

definition stored_votes :: "trees \<Rightarrow> nat" where
  "stored_votes T = sum_list (map (\<lambda>k. length (tr_Votes T k)) (map fst (tr_Processes T)))"

definition votes_counted :: "state \<Rightarrow> bool" where
  "votes_counted s \<longleftrightarrow> (\<exists>n. VoteCount False s = Ok n \<and> unat n = stored_votes (st_Tx s) mod 2 ^ 64) \<and>
     (\<forall>k. k \<notin> set (map fst (tr_Processes (st_Tx s))) \<longrightarrow> tr_Votes (st_Tx s) k = [])"

lemma sum_list_add_one:
  "distinct ks \<Longrightarrow> k \<in> set ks \<Longrightarrow>
     sum_list (map (\<lambda>x. if x = k then Suc (g x) else g x) ks) = Suc (sum_list (map g ks))" for g :: "'a \<Rightarrow> nat"
proof (induction ks)
  case (Cons a ks)
  show ?case
  proof (cases "a = k")
    case True
    then have "map (\<lambda>x. if x = k then Suc (g x) else g x) ks = map g ks" using Cons.prems by auto
    then show ?thesis using True by (simp del: map_eq_conv)
  next
    case False
    then show ?thesis using Cons by simp
  qed
qed simp

lemma unat_Suc_mod: "unat n = m mod 2 ^ 64 \<Longrightarrow> unat (n + 1) = Suc m mod 2 ^ 64" for n :: u64
  by (simp add: unat_word_ariths mod_Suc_eq)

lemma AddVote_votes_counted:
  assumes "AddVote P v w s = (Ok (), s')" and "votes_counted s" and "processes_wf P s"
  shows "votes_counted s'"
proof -
  let ?vid = "Sha256 P (v_ProcessId v @ bz (v_Nullifier v))"
  let ?ks = "map fst (tr_Processes (st_Tx s))"
  obtain n where n: "VoteCount False s = Ok n"
    and op: "open_votes (st_Tx s) (v_ProcessId v) = Ok (tr_Votes (st_Tx s) (v_ProcessId v))"
    and tx: "st_Tx s' = (st_Tx s)\<lparr>
       tr_Votes := (tr_Votes (st_Tx s))(v_ProcessId v :=
         leaf_insert (arbo_before P) ?vid (sdb_vote P (v\<lparr>v_Height := st_height s\<rparr>)) (tr_Votes (st_Tx s) (v_ProcessId v))),
       ns_voteCount := Some (PutUint64LE (n + 1))\<rparr>"
    using AddVote_Ok [OF assms(1)] by blast
  have "map_of (tr_Processes (st_Tx s)) (v_ProcessId v) \<noteq> None" using op by (auto simp: open_votes_Ok)
  then have mem: "v_ProcessId v \<in> set ?ks" unfolding map_of_None_keys by blast
  have "(\<lambda>k. length (tr_Votes (st_Tx s') k)) =
      (\<lambda>k. if k = v_ProcessId v then Suc (length (tr_Votes (st_Tx s) k)) else length (tr_Votes (st_Tx s) k))"
    using tx by auto
  then have "stored_votes (st_Tx s') = Suc (stored_votes (st_Tx s))"
    using sum_list_add_one [of ?ks "v_ProcessId v" "\<lambda>k. length (tr_Votes (st_Tx s) k)"] mem assms(3) tx
    by (simp only: stored_votes_def processes_wf_def) simp
  moreover have "VoteCount False s' = Ok (n + 1)" using tx by (simp add: VoteCount_def mainTreeViewer_def)
  ultimately show ?thesis
    using assms(2) n tx mem unat_Suc_mod by (auto simp: votes_counted_def simp del: set_map)
qed

text \<open>Updating a process leaves the votes and the keys of the process tree alone.\<close>

definition same_votes :: "state \<Rightarrow> state \<Rightarrow> bool" where
  "same_votes s s' \<longleftrightarrow> tr_Votes (st_Tx s') = tr_Votes (st_Tx s) \<and> ns_voteCount (st_Tx s') = ns_voteCount (st_Tx s) \<and>
     map fst (tr_Processes (st_Tx s')) = map fst (tr_Processes (st_Tx s))"

lemma same_votes_refl [simp]: "same_votes s s"
  by (simp add: same_votes_def)

lemma same_votes_emit [simp]: "same_votes s (emit ev s') = same_votes s s'"
  by (simp add: same_votes_def)

lemma same_votes_trans: "same_votes a b \<Longrightarrow> same_votes b c \<Longrightarrow> same_votes a c"
  by (simp add: same_votes_def)

lemma updateProcess_same_votes: "same_votes s (snd (updateProcess P q pid s))"
proof (cases "updateProcess P q pid s")
  case (Pair r s')
  then show ?thesis
  proof (cases "r = Ok ()")
    case True
    then have "same_votes s s'"
      using Pair by (auto simp: updateProcess_Ok update_leaf_Ok Tree_Set_Ok same_votes_def)
    then show ?thesis using Pair by simp
  next
    case False
    then show ?thesis using updateProcess_not_Ok [OF Pair] Pair by simp
  qed
qed

lemma process_operations_same_votes:
  "same_votes s (snd (SetProcessStatus P pid st c s))"
  "same_votes s (snd (SetProcessResults P pid res c s))"
  "same_votes s (snd (SetProcessCensus P pid root uri c s))"
  "same_votes s (snd (AddProcessKeys P tx s))"
  "same_votes s (snd (RevealProcessKeys P tx s))"
proof -
  note rules = with_res_keeps [where Q = "same_votes s"] and_then_keeps [where Q = "same_votes s"]
    updateProcess_same_votes
  show "same_votes s (snd (SetProcessStatus P pid st c s))"
    unfolding SetProcessStatus_def by (auto intro!: rules)
  show "same_votes s (snd (SetProcessResults P pid res c s))"
    unfolding SetProcessResults_def Let_def by (auto intro!: rules)
  show "same_votes s (snd (SetProcessCensus P pid root uri c s))"
    unfolding SetProcessCensus_def by (auto split: option.split intro!: rules)
  show "same_votes s (snd (AddProcessKeys P tx s))"
    unfolding AddProcessKeys_def Let_def by (auto split: option.split intro!: rules)
  show "same_votes s (snd (RevealProcessKeys P tx s))"
    unfolding RevealProcessKeys_def by (auto split: option.split prod.split intro!: rules)
qed

lemma same_votes_counted: "same_votes s s' \<Longrightarrow> votes_counted s \<Longrightarrow> votes_counted s'"
  by (simp only: votes_counted_def same_votes_def stored_votes_def VoteCount_def mainTreeViewer_def if_False)
    blast

lemma AddProcess_votes_counted:
  assumes "AddProcess P p s = (Ok (), s')" and "votes_counted s"
  shows "votes_counted s'"
proof -
  let ?k = "bz (ProcessId p)"
  obtain s1 s2 where s1: "DeepAdd P 256 tr_Processes set_Processes ?k
        \<lparr>sp_Process = added_process p, sp_VotesRoot = empty_root\<rparr> s = (Ok (), s1)"
    and s2: "(if has_preRegister p \<and> has_anonymous p then create_rolling_census ?k s1 else (Ok (), s1)) = (Ok (), s2)"
    and s': "st_Tx s' = st_Tx (setProcessIDByStartBlock ?k (StartBlock p) s2)"
    using AddProcess_Ok [OF assms(1)] by blast
  have "same_votes s1 (set_censusLen ?k 0 s1)" by (simp add: same_votes_def set_censusLen_def)
  then have "same_votes s1 (snd (create_rolling_census ?k s1))"
    unfolding create_rolling_census_def Let_def by (auto intro!: with_res_keeps [where Q = "same_votes s1"])
  then have "same_votes s1 s2" using s2 by (auto split: if_splits)
  then have "same_votes s1 s'"
    using s' by (simp add: same_votes_def setProcessIDByStartBlock_def Let_def)
  moreover have "votes_counted s1"
  proof -
    have none: "?k \<notin> set (map fst (tr_Processes (st_Tx s)))"
      and tx: "st_Tx s1 = (st_Tx s)\<lparr>tr_Processes := leaf_insert (arbo_before P) ?k
        \<lparr>sp_Process = added_process p, sp_VotesRoot = empty_root\<rparr> (tr_Processes (st_Tx s))\<rparr>"
      using s1 by (auto simp: DeepAdd_Ok Tree_Add_Ok map_of_None_keys)
    have tr: "tr_Processes (st_Tx s1) = leaf_insert (arbo_before P) ?k
        \<lparr>sp_Process = added_process p, sp_VotesRoot = empty_root\<rparr> (tr_Processes (st_Tx s))"
      and vt: "tr_Votes (st_Tx s1) = tr_Votes (st_Tx s)"
      using tx by simp_all
    have fresh: "tr_Votes (st_Tx s) ?k = []" using assms(2) none by (simp add: votes_counted_def)
    have "sum_list (map (\<lambda>k. length (g k)) (map fst (leaf_insert bf ?k x t))) =
        length (g ?k) + sum_list (map (\<lambda>k. length (g k)) (map fst t))"
      for g :: "bytes \<Rightarrow> StateDBVote tree" and bf x and t :: "StateDBProcess tree"
      by (induction t) auto
    then have "stored_votes (st_Tx s1) = stored_votes (st_Tx s)"
      using fresh by (simp only: stored_votes_def tr vt) simp
    moreover have "set (map fst (tr_Processes (st_Tx s1))) = insert ?k (set (map fst (tr_Processes (st_Tx s))))"
      by (simp only: tr keys_leaf_insert)
    ultimately show ?thesis
      using assms(2) tx by (auto simp: votes_counted_def VoteCount_def mainTreeViewer_def simp del: set_map)
  qed
  ultimately show ?thesis by (rule same_votes_counted)
qed

text \<open>Votes, operations on processes and new blocks, as steps.\<close>

inductive vote_step :: "params \<Rightarrow> state \<Rightarrow> state \<Rightarrow> bool" for P where
  cast: "vote_step P s (snd (AddVote P v w s))"
| on_process: "process_step P s s' \<Longrightarrow> vote_step P s s'"

lemma process_step_counted: "process_step P s s' \<Longrightarrow> votes_counted s \<Longrightarrow> votes_counted s'"
proof (induction rule: process_step.induct)
  case (step_height s h)
  then show ?case by (simp add: votes_counted_def VoteCount_def mainTreeViewer_def)
qed (auto intro: AddProcess_votes_counted same_votes_counted process_operations_same_votes)

lemma vote_step_inv:
  assumes "vote_step P s s'" and "processes_wf P s" and "votes_counted s"
  shows "processes_wf P s' \<and> votes_counted s'"
  using assms(1)
proof cases
  case (cast v w)
  obtain r where r: "AddVote P v w s = (r, s')" using cast by (cases "AddVote P v w s") auto
  show ?thesis
  proof (cases "r = Ok ()")
    case True
    then have a: "AddVote P v w s = (Ok (), s')" using r by simp
    then have "tr_Processes (st_Tx s') = tr_Processes (st_Tx s)" using AddVote_Ok [OF a] by auto
    then show ?thesis using AddVote_votes_counted [OF a assms(3,2)] assms(2) by (simp add: processes_wf_def)
  next
    case False
    then show ?thesis using AddVote_not_Ok [OF r] assms by (auto simp: votes_counted_def)
  qed
next
  case on_process
  then show ?thesis using process_step_kept process_step_counted assms by (auto simp: kept_def)
qed

text \<open>C24. In every state reached from the empty one by votes, operations on processes and new
  blocks, the global vote count is the number of votes stored under all processes, modulo 64
  bits.\<close>

theorem vote_count_reachable:
  assumes "(vote_step P)\<^sup>*\<^sup>* NewState s"
  shows "\<exists>n. VoteCount False s = Ok n \<and> unat n = stored_votes (st_Tx s) mod 2 ^ 64"
proof -
  have "processes_wf P s \<and> votes_counted s"
    using assms
  proof (induction rule: rtranclp_induct)
    case base
    then show ?case
      by (simp add: processes_wf_def votes_counted_def VoteCount_def mainTreeViewer_def stored_votes_def
          NewState_def trees0_def)
  next
    case (step s1 s2)
    then show ?case using vote_step_inv by blast
  qed
  then show ?thesis by (simp add: votes_counted_def)
qed

theorem vote_count_reachable_witness:
  "let s = snd (AddVote params0 vote0 [] (snd (AddProcess params0 proc0 NewState)))
   in \<exists>n. VoteCount False s = Ok n \<and> unat n = stored_votes (st_Tx s) mod 2 ^ 64"
proof -
  let ?s1 = "snd (AddProcess params0 proc0 NewState)"
  have "fst (AddProcess params0 proc0 NewState) = Ok ()"
    by (simp add: AddProcess_def DeepAdd_def Tree_Add_def Let_def NewState_def trees0_def)
  then have "AddProcess params0 proc0 NewState = (Ok (), ?s1)" by (cases "AddProcess params0 proc0 NewState") simp
  then have "process_step params0 NewState ?s1" by (rule step_add) auto
  then have "(vote_step params0)\<^sup>*\<^sup>* NewState ?s1" by (intro r_into_rtranclp on_process)
  then have "(vote_step params0)\<^sup>*\<^sup>* NewState (snd (AddVote params0 vote0 [] ?s1))"
    by (rule rtranclp.rtrancl_into_rtrancl) (rule cast)
  from vote_count_reachable [OF this] show ?thesis by (simp add: Let_def)
qed

section \<open>The cache\<close>

lemma map_of_filter_key: "map_of (filter (\<lambda>e. fst e \<noteq> k) c) k' = (if k' = k then None else map_of c k')"
  by (induction c) auto

lemma cache_remove_get:
  "map_of (st_voteCache (cache_remove k s)) k' = (if k' = k then None else map_of (st_voteCache s) k')"
  by (simp add: cache_remove_def map_of_filter_key)

definition expired :: "u32 \<Rightarrow> state \<Rightarrow> bytes \<Rightarrow> bool" where
  "expired height s t \<longleftrightarrow>
     (\<exists>v. map_of (st_voteCache s) (CK_tx t) = Some (Some v) \<and> v_Height v + voteCachePurgeThreshold \<le> height)"

lemma purge_loop_effect:
  assumes "purge_loop h ids s rem = (s', rem')"
  shows "map_of (st_voteCache s') (CK_tx t) =
      (if CK_tx t \<in> set ids \<and> expired h s t then None else map_of (st_voteCache s) (CK_tx t)) \<and>
    (t \<in> set rem' \<longleftrightarrow> t \<in> set rem \<or> CK_tx t \<in> set ids \<and> expired h s t) \<and>
    st_DisableVoteCache s' = st_DisableVoteCache s"
  using assms
proof (induction ids arbitrary: s rem)
  case Nil
  then show ?case by simp
next
  case (Cons key ids)
  show ?case
  proof (cases "\<exists>vid. key = CK_tx vid \<and> expired h s vid")
    case True
    then obtain vid v where k: "key = CK_tx vid" "map_of (st_voteCache s) (CK_tx vid) = Some (Some v)"
        "v_Height v + voteCachePurgeThreshold \<le> h"
      by (auto simp: expired_def)
    let ?s1 = "cache_remove (CK_tx vid) (cache_remove (CK_nullifier (bz (v_Nullifier v))) s)"
    have "purge_loop h ids ?s1 (rem @ [vid]) = (s', rem')" using Cons.prems k by simp
    note ih = Cons.IH [OF this]
    have "expired h ?s1 t \<longleftrightarrow> t \<noteq> vid \<and> expired h s t" and "expired h s vid"
      using k by (auto simp: expired_def cache_remove_get)
    moreover have "st_DisableVoteCache ?s1 = st_DisableVoteCache s" by (simp add: cache_remove_def)
    ultimately show ?thesis
      using ih k by (auto simp: cache_remove_get)
  next
    case False
    then have "purge_loop h (key # ids) s rem = purge_loop h ids s rem"
      by (auto simp: expired_def split: option.splits cache_key.splits)
    then have "purge_loop h ids s rem = (s', rem')" using Cons.prems by simp
    from Cons.IH [OF this] show ?thesis using False by auto
  qed
qed

text \<open>A purge, every eighteenth block, takes exactly the votes out of the cache that are at
  least 180 blocks old, and reports exactly their transactions for removal from the mempool.\<close>

theorem cache_purge_exact:
  assumes "\<not> st_DisableVoteCache s" and "h mod 18 = 0" and "CachePurge h s = (s', removed)"
  shows "(CacheGet t s' = (case CacheGet t s of
             None \<Rightarrow> None
           | Some v \<Rightarrow> if v_Height v + 180 \<le> h then None else Some v)) \<and>
    (t \<in> set removed \<longleftrightarrow> (\<exists>v. CacheGet t s = Some v \<and> v_Height v + 180 \<le> h))"
proof -
  have p: "purge_loop h (map fst (st_voteCache s)) s [] = (s', removed)"
    using assms by (simp add: CachePurge_def)
  have mem: "CK_tx t \<in> set (map fst (st_voteCache s)) \<longleftrightarrow> map_of (st_voteCache s) (CK_tx t) \<noteq> None"
    by (simp add: map_of_eq_None_iff)
  show ?thesis
    using purge_loop_effect [OF p, of t] assms(1) unfolding mem
    by (auto simp: CacheGet_def expired_def voteCachePurgeThreshold_def split: option.splits if_splits)
qed

definition cache_state :: state where
  "cache_state = proc_state\<lparr>st_voteCache := [(CK_tx [1], Some vote0), (CK_tx [2], Some (vote0\<lparr>v_Height := 100\<rparr>)),
     (CK_nullifier (replicate 32 4), None)]\<rparr>"

theorem cache_purge_exact_witness:
  "let s' = fst (CachePurge 180 cache_state)
   in CacheGet [1] s' = None \<and> CacheGet [2] s' = Some (vote0\<lparr>v_Height := 100\<rparr>)"
proof -
  have d: "\<not> st_DisableVoteCache cache_state"
    by (simp add: cache_state_def proc_state_def ex_state_def NewState_def)
  have "CacheGet [1] cache_state = Some vote0" "CacheGet [2] cache_state = Some (vote0\<lparr>v_Height := 100\<rparr>)"
    using d by (simp_all add: CacheGet_def cache_state_def)
  then show ?thesis
    using cache_purge_exact [OF d, of 180 "fst (CachePurge 180 cache_state)" "snd (CachePurge 180 cache_state)" "[1]"]
      cache_purge_exact [OF d, of 180 "fst (CachePurge 180 cache_state)" "snd (CachePurge 180 cache_state)" "[2]"]
    by (simp add: Let_def vote0_def)
qed

end
