(* ===== verification/Proofs.thy ===== *)
theory Proofs
  imports Ethereum
begin

text \<open>
  Census proofs (\<^verbatim>\<open>src/vochain/proof.go\<close>, \<^verbatim>\<open>src/crypto/saltedkey/saltedkey.go\<close>, the proof check of
  \<^verbatim>\<open>src/tree/tree.go\<close>): whether a key or an address belongs to the census of a process and with which
  weight. The hash functions, the Merkle and storage proof checks and the curve operations are
  parameters. A proof is its payload; the callers never pass a nil proof.
\<close>

section \<open>Salted keys\<close>

definition SaltSize :: nat where "SaltSize = 20"

definition SaltBlindPubKey :: "params \<Rightarrow> bytes \<Rightarrow> bytes \<Rightarrow> bytes res" where
  "SaltBlindPubKey P pubKey salt =
     (if length salt < SaltSize then Fail (Errf ''provided salt is not large enough (need %d bytes)'')
      else Ok (blind_AddBaseMult P pubKey (take SaltSize salt)))"

definition SaltECDSAPubKey :: "params \<Rightarrow> bytes \<Rightarrow> bytes \<Rightarrow> bytes res" where
  "SaltECDSAPubKey P pubKey salt =
     (if length salt < SaltSize then Fail (Errf ''provided salt is not large enough (need %d bytes)'')
      else Ok (S256_AddBaseMult P pubKey (take SaltSize salt)))"

section \<open>The verification functions\<close>

definition tree_VerifyProof ::
  "params \<Rightarrow> ProofArboType \<Rightarrow> bytes \<Rightarrow> bytes \<Rightarrow> bytes \<Rightarrow> bytes \<Rightarrow> bool res" where
  "tree_VerifyProof P hashFunc key val prf root = arbo_CheckProof P hashFunc key val prf root"

definition GetArbo :: "ProofPayload \<Rightarrow> ProofArbo option" where
  "GetArbo prf = (case prf of Proof_Arbo p \<Rightarrow> p | _ \<Rightarrow> None)"
definition GetCa :: "ProofPayload \<Rightarrow> ProofCA option" where
  "GetCa prf = (case prf of Proof_Ca p \<Rightarrow> p | _ \<Rightarrow> None)"
definition GetEthereumStorage :: "ProofPayload \<Rightarrow> StorageProof option" where
  "GetEthereumStorage prf = (case prf of Proof_EthereumStorage p \<Rightarrow> p | _ \<Rightarrow> None)"
definition GetMinimeStorage :: "ProofPayload \<Rightarrow> ProofMinime option" where
  "GetMinimeStorage prf = (case prf of Proof_MinimeStorage p \<Rightarrow> p | _ \<Rightarrow> None)"
definition GetZkSnark :: "ProofPayload \<Rightarrow> ProofZkSNARK option" where
  "GetZkSnark prf = (case prf of Proof_ZkSnark p \<Rightarrow> p | _ \<Rightarrow> None)"

definition VerifyProofOffChainTree ::
  "params \<Rightarrow> Process \<Rightarrow> ProofPayload \<Rightarrow> bytes \<Rightarrow> bytes \<Rightarrow> bytes \<Rightarrow> address \<Rightarrow> (bool \<times> nat) res" where
  "VerifyProofOffChainTree P process prf censusRoot processID pubKey addr =
     (case prf of
        Proof_Graviton \<Rightarrow> Fail (Errf ''graviton proof no longer supported'')
      | Proof_Iden3 \<Rightarrow> Fail (Errf ''iden3 proof not implemented'')
      | Proof_Arbo _ \<Rightarrow>
         (case GetArbo prf of
            None \<Rightarrow> Fail (Errf ''arbo proof is empty'')
          | Some p \<Rightarrow>
              (case pa_Type p of
                 ARBO_OTHER _ \<Rightarrow> Fail (Errf ''not recognized ProofArbo type: %s'')
               | hashFunc \<Rightarrow>
                  rbind (of_option (Errf ''cannot hash proof key: %w'') (arbo_Hash P hashFunc pubKey)) (\<lambda>hashedKey.
                  rbind (tree_VerifyProof P hashFunc hashedKey (bz (pa_Value p)) (pa_Siblings p) censusRoot) (\<lambda>valid.
                    case pa_Value p of
                      None \<Rightarrow> Ok (valid, 1)
                    | Some v \<Rightarrow> Ok (valid, arbo_BytesToBigInt P v)))))
      | _ \<Rightarrow> Fail (Errf ''unexpected proof.Payload type: %T''))"

text \<open>The two signature schemes of a CSP, each with its salted variant: the key the census root
  must be, and the blind verification.\<close>

definition csp_ecdsa :: "params \<Rightarrow> bool \<Rightarrow> bytes \<Rightarrow> bytes \<Rightarrow> bytes \<Rightarrow> bytes \<Rightarrow> (bool \<times> nat) res" where
  "csp_ecdsa P salted cspBundle signature censusRoot processID =
     rbind (wrap ''cannot fetch CSP public key from signature'' (PubKeyFromSignature P cspBundle signature)) (\<lambda>bundlePub.
     rbind (if salted
            then rbind (wrap ''cannot decompress CSP public key'' (DecompressPubKey P censusRoot)) (\<lambda>rootPub.
                 rbind (of_option (Errf ''cannot unmarshal ECDSA CSP public key: %w'') (UnmarshalPubkey P rootPub)) (\<lambda>k.
                 rbind (wrap ''cannot salt ECDSA public key'' (SaltECDSAPubKey P k processID)) (\<lambda>root.
                 rbind (wrap ''unable to decompress proof pub key'' (DecompressPubKey P bundlePub)) (\<lambda>pub.
                   Ok (pub, root)))))
            else Ok (bundlePub, censusRoot)) (\<lambda>(pub, root).
     if pub \<noteq> root then Fail (Errf ''csp bundle signature does not match'') else Ok (True, 1)))"

definition csp_blind :: "params \<Rightarrow> bool \<Rightarrow> bytes \<Rightarrow> bytes \<Rightarrow> bytes \<Rightarrow> bytes \<Rightarrow> (bool \<times> nat) res" where
  "csp_blind P salted cspBundle signature censusRoot processID =
     rbind (wrap ''cannot decompress CSP public key'' (DecompressPubKey P censusRoot)) (\<lambda>rootPubdesc.
     rbind (of_option (Errf ''cannot compute blind CSP public key: %w'') (blind_NewPublicKeyFromECDSA P rootPubdesc)) (\<lambda>rootPub.
     rbind (of_option (Errf ''cannot compute blind CSP signature: %w'') (blind_NewSignature P signature)) (\<lambda>sig.
     rbind (if salted then wrap ''cannot salt blind pubkey'' (SaltBlindPubKey P rootPub processID) else Ok rootPub) (\<lambda>rootPub.
     if blind_Verify P (big_SetBytes (HashRaw P cspBundle)) sig rootPub then Ok (True, 1)
     else Fail (Errf ''blind CSP verification failed for pid %x with CSP key %x'')))))"

definition VerifyProofOffChainCSP ::
  "params \<Rightarrow> Process \<Rightarrow> ProofPayload \<Rightarrow> bytes \<Rightarrow> bytes \<Rightarrow> bytes \<Rightarrow> address \<Rightarrow> (bool \<times> nat) res" where
  "VerifyProofOffChainCSP P process prf censusRoot processID pubKey addr =
     (case GetCa prf of
        None \<Rightarrow> Panic ''nil pointer dereference''
      | Some p \<Rightarrow>
     (case ca_Bundle p of
        None \<Rightarrow> Panic ''nil pointer dereference''
      | Some bundle \<Rightarrow>
     if cb_Address bundle \<noteq> addr then Fail (Errf ''CSP bundle address and key do not match: %x != %x'')
     else if cb_ProcessId bundle \<noteq> processID then Fail (Errf ''CSP bundle processID does not match'')
     else (case ca_Type p of
        ECDSA \<Rightarrow> csp_ecdsa P False (Marshal_CAbundle P bundle) (ca_Signature p) censusRoot processID
      | ECDSA_PIDSALTED \<Rightarrow> csp_ecdsa P True (Marshal_CAbundle P bundle) (ca_Signature p) censusRoot processID
      | ECDSA_BLIND \<Rightarrow> csp_blind P False (Marshal_CAbundle P bundle) (ca_Signature p) censusRoot processID
      | ECDSA_BLIND_PIDSALTED \<Rightarrow> csp_blind P True (Marshal_CAbundle P bundle) (ca_Signature p) censusRoot processID
      | _ \<Rightarrow> Fail (Errf ''csp proof %s type not supported''))))"

definition VerifyProofERC20 ::
  "params \<Rightarrow> Process \<Rightarrow> ProofPayload \<Rightarrow> bytes \<Rightarrow> bytes \<Rightarrow> bytes \<Rightarrow> address \<Rightarrow> (bool \<times> nat) res" where
  "VerifyProofERC20 P process prf censusRoot processID pubKey addr =
     (case EthIndexSlot process of
        None \<Rightarrow> Fail (Errf ''index slot not found for process %x'')
      | Some slot \<Rightarrow>
     (case GetEthereumStorage prf of
        None \<Rightarrow> Fail (Errf ''ethereum proof is empty'')
      | Some p \<Rightarrow>
     let balance = big_SetBytes (es_Value p)
     in if balance = 0 then Fail (Errf ''balance at proof is 0'')
        else if mapbased_VerifyProof P addr censusRoot p (unat slot) balance then Ok (True, balance)
        else Fail (Errf ''mapbased.VerifyProof'')))"

definition VerifyProofMiniMe ::
  "params \<Rightarrow> Process \<Rightarrow> ProofPayload \<Rightarrow> bytes \<Rightarrow> bytes \<Rightarrow> bytes \<Rightarrow> address \<Rightarrow> (bool \<times> nat) res" where
  "VerifyProofMiniMe P process prf censusRoot processID pubKey addr =
     (case EthIndexSlot process of
        None \<Rightarrow> Fail (Errf ''index slot not found for process %x'')
      | Some slot \<Rightarrow>
     (case SourceBlockHeight process of
        None \<Rightarrow> Fail (Errf ''source block height not found for process %x'')
      | Some height \<Rightarrow>
     (case GetMinimeStorage prf of
        None \<Rightarrow> Fail (Errf ''minime proof is empty'')
      | Some p \<Rightarrow>
     (case mm_PrevBlock p of
        None \<Rightarrow> Panic ''nil pointer dereference''
      | Some prev \<Rightarrow>
     (case minime_ParseMinimeValue P (es_Value prev) of
        None \<Rightarrow> Panic ''nil pointer dereference''
      | Some balance \<Rightarrow>
     if balance = 0 then Fail (Errf ''balance at proofPrevBlock is 0'')
     else (case mm_NextBlock p of
        None \<Rightarrow> Panic ''nil pointer dereference''
      | Some nxt \<Rightarrow>
     if minime_VerifyProof P addr censusRoot prev nxt (unat slot) balance (unat height)
     then Ok (True, balance) else Fail (Errf ''minime.VerifyProof'')))))))"

definition VerifyProof ::
  "params \<Rightarrow> Process \<Rightarrow> ProofPayload \<Rightarrow> bytes \<Rightarrow> address \<Rightarrow> (bool \<times> nat) res" where
  "VerifyProof P process prf pubKey addr =
     (let check = (\<lambda>f. wrap ''proof not valid''
            (f P process prf (CensusRoot process) (bz (ProcessId process)) pubKey addr))
      in case CensusOriginOf process of
        OFF_CHAIN_TREE \<Rightarrow> check VerifyProofOffChainTree
      | OFF_CHAIN_TREE_WEIGHTED \<Rightarrow> check VerifyProofOffChainTree
      | OFF_CHAIN_CA \<Rightarrow> check VerifyProofOffChainCSP
      | ERC20 \<Rightarrow> check VerifyProofERC20
      | MINI_ME \<Rightarrow> check VerifyProofMiniMe
      | _ \<Rightarrow> Fail (Errf ''census origin not compatible''))"

end
