(* ===== verification/Census.thy ===== *)
theory Census
  imports Votes Proofs
begin

text \<open>
  The rolling census of an anonymous process (\<^verbatim>\<open>src/vochain/census.go\<close>): the keys voters register
  before the process starts, stored under consecutive indexes, the weight an address has used, and
  the check of a key registration.
\<close>

section \<open>The census tree\<close>

definition set_census :: "bytes \<Rightarrow> bytes tree \<Rightarrow> state \<Rightarrow> state" where
  "set_census pid t s = s\<lparr>st_Tx := (st_Tx s)\<lparr>tr_Census := (tr_Census (st_Tx s))(pid := t)\<rparr>\<rparr>"

definition GetUint64 :: "bytes option \<Rightarrow> u64 res" where
  "GetUint64 b = rbind (of_option ErrKeyNotFound b) Uint64LE"

definition census_Add :: "params \<Rightarrow> bytes tree \<Rightarrow> bytes \<Rightarrow> bytes \<Rightarrow> bytes tree res" where
  "census_Add P t k v =
     (if \<not> arbo_poseidon_ok P v then Fail (Errf ''inputs values not inside Finite Field'')
      else Tree_Add P 64 t k v)"

definition AddToRollingCensus :: "params \<Rightarrow> bytes \<Rightarrow> bytes \<Rightarrow> int \<Rightarrow> state \<Rightarrow> unit res \<times> state" where
  "AddToRollingCensus P pid key weight s =
     with_res (wrap ''cannot open process with pid %x'' (getProcess (st_Tx s) pid)) s (\<lambda>process.
     with_res (wrap ''cannot open rolling census with pid %x'' (open_census (st_Tx s) pid)) s (\<lambda>census.
     with_res (wrap ''cannot get ceneusLen'' (GetUint64 (ns_censusLen (st_Tx s) pid))) s (\<lambda>censusLen.
     case MaxCensusSize process of
       None \<Rightarrow> (Panic ''nil pointer dereference'', s)
     | Some maxSize \<Rightarrow>
     if maxSize \<le> censusLen then (Fail (Errf ''maxCensusSize already reached''), s)
     else with_res (wrap ''cannot add (%x) to rolling census''
                      (census_Add P census (PutUint64LE censusLen) key)) s (\<lambda>t.
       (Ok (), set_censusLen pid (censusLen + 1) (set_census pid t s))))))"

definition getRollingCensusSize :: "trees \<Rightarrow> bytes \<Rightarrow> u64 res" where
  "getRollingCensusSize T pid =
     rbind (wrap ''cannot open rolling census with pid %x'' (open_census T pid)) (\<lambda>_.
       wrap ''cannot get ceneusLen'' (GetUint64 (ns_censusLen T pid)))"

definition GetRollingCensusSize :: "bytes \<Rightarrow> bool \<Rightarrow> state \<Rightarrow> u64 res" where
  "GetRollingCensusSize pid committed s = getRollingCensusSize (mainTreeViewer committed s) pid"

definition PurgeRollingCensus :: "bytes \<Rightarrow> state \<Rightarrow> unit res" where
  "PurgeRollingCensus pid s = Fail (Errf ''TODO'')"

definition GetRollingCensusRoot :: "params \<Rightarrow> bytes \<Rightarrow> bool \<Rightarrow> state \<Rightarrow> bytes res" where
  "GetRollingCensusRoot P pid committed s =
     rbind (wrap ''cannot open rolling census with pid %x'' (open_census (mainTreeViewer committed s) pid))
       (\<lambda>census. Ok (arbo_root_poseidon P census))"

text \<open>A dump is the list of the leaves; its encoding is Arbo's.\<close>

record RollingCensus =
  CensusID :: string
  DumpData :: "bytes tree"
  DumpRoot :: bytes

definition DumpRollingCensus :: "params \<Rightarrow> bytes \<Rightarrow> state \<Rightarrow> RollingCensus res" where
  "DumpRollingCensus P pid s =
     rbind (wrap ''cannot access rolling census with pid %x'' (open_census (st_View s) pid)) (\<lambda>census.
       let dumpRoot = arbo_root_poseidon P census
       in Ok \<lparr>CensusID = hex dumpRoot, DumpData = census, DumpRoot = dumpRoot\<rparr>)"

section \<open>Registering a key\<close>

text \<open>\<^verbatim>\<open>new(big.Int).SetString(s, 10)\<close>: an optional sign and at least one decimal digit.\<close>

definition digit_value :: "char \<Rightarrow> int option" where
  "digit_value c = (let n = (of_char c :: int) in if 48 \<le> n \<and> n \<le> 57 then Some (n - 48) else None)"

fun digits_value :: "int \<Rightarrow> string \<Rightarrow> int option" where
  "digits_value n [] = Some n"
| "digits_value n (c # cs) = (case digit_value c of None \<Rightarrow> None | Some d \<Rightarrow> digits_value (10 * n + d) cs)"

definition SetString :: "string \<Rightarrow> int option" where
  "SetString w =
     (case w of
        [] \<Rightarrow> None
      | c # cs \<Rightarrow>
          let neg = (c = CHR ''-'');
              digits = (if c = CHR ''-'' \<or> c = CHR ''+'' then cs else w)
          in if digits = [] then None
             else map_option (\<lambda>n. if neg then - n else n) (digits_value 0 digits))"

definition GetRegisterKey :: "Tx option \<Rightarrow> RegisterKeyTx option" where
  "GetRegisterKey vtx = (case vtx of Some (Some (Tx_RegisterKey t)) \<Rightarrow> t | _ \<Rightarrow> None)"

definition GetPreRegisterAddrUsedWeight :: "params \<Rightarrow> bytes \<Rightarrow> address \<Rightarrow> state \<Rightarrow> nat res" where
  "GetPreRegisterAddrUsedWeight P pid addr s =
     (case rbind (open_preregister (st_Tx s) pid) (\<lambda>t. Tree_Get t (GenerateNullifier P addr pid)) of
        Ok weightBytes \<Rightarrow> Ok (big_SetBytes weightBytes)
      | Fail e \<Rightarrow> if errors_is e ErrKeyNotFound then Ok 0 else Fail e
      | Panic m \<Rightarrow> Panic m)"

definition setPreRegisterAddrUsedWeight ::
  "params \<Rightarrow> bytes \<Rightarrow> address \<Rightarrow> int \<Rightarrow> state \<Rightarrow> unit res \<times> state" where
  "setPreRegisterAddrUsedWeight P pid addr weight s =
     with_res (open_preregister (st_Tx s) pid) s (\<lambda>t.
     with_res (Tree_Set P 256 t (GenerateNullifier P addr pid) (big_Bytes (nat \<bar>weight\<bar>))) s (\<lambda>t.
       (Ok (), s\<lparr>st_Tx := (st_Tx s)\<lparr>tr_PreRegister := (tr_PreRegister (st_Tx s))(pid := t)\<rparr>\<rparr>)))"

text \<open>The guards that only look at the transaction and the process.\<close>

definition register_guards :: "RegisterKeyTx \<Rightarrow> bytes option \<Rightarrow> state \<Rightarrow> Process res" where
  "register_guards tx signature s =
     rbind (wrap ''cannot fetch processId'' (Process_get (rk_ProcessId tx) False s)) (\<lambda>process.
     case (EnvelopeTypeOf process, Mode process) of
       (Some envelopeType, Some mode) \<Rightarrow>
         if StartBlock process \<le> st_height s then Fail (Errf ''process %x already started'')
         else if \<not> (PreRegister mode \<and> Anonymous envelopeType)
         then Fail (Errf ''RegisterKeyTx only supported with Mode.PreRegister and EnvelopeType.Anonymous'')
         else if Status process \<noteq> READY then Fail (Errf ''process %x not in READY state'')
         else if rk_Proof tx = None then Fail (Errf ''proof missing on registerKeyTx'')
         else if signature = None then Fail (Errf ''signature missing on voteTx'')
         else if length (bz (rk_NewKey tx)) \<noteq> 32 then Fail (Errf ''newKey wrong size'')
         else rbind (GetRollingCensusSize (rk_ProcessId tx) False s) (\<lambda>censusSize.
           case MaxCensusSize process of
             None \<Rightarrow> Panic ''nil pointer dereference''
           | Some maxSize \<Rightarrow>
               if maxSize \<le> censusSize then Fail (Errf ''maxCensusSize already reached'') else Ok process)
     | _ \<Rightarrow> Fail (Errf ''process %x malformed''))"

text \<open>The guards on the weight; the result is the weight the address has used with this key.\<close>

definition register_weight :: "params \<Rightarrow> RegisterKeyTx \<Rightarrow> Process \<Rightarrow> address \<Rightarrow> nat \<Rightarrow> state \<Rightarrow> int res" where
  "register_weight P tx process addr weight s =
     rbind (wrap ''cannot get nullifeir used weight''
              (GetPreRegisterAddrUsedWeight P (bz (ProcessId process)) addr s)) (\<lambda>used.
     rbind (of_option (Errf ''cannot parse tx weight %s'') (SetString (rk_Weight tx))) (\<lambda>txWeight.
       let usedWeight = int used + txWeight
       in if usedWeight \<noteq> 1 then Fail (Errf ''weight != 1 is not yet supported, received %s'')
          else if int weight < usedWeight then Fail (Errf ''cannot register more keys: %v > proof weight (%v)'')
          else Ok usedWeight))"

definition RegisterKeyTxCheck ::
  "params \<Rightarrow> Tx option \<Rightarrow> bytes \<Rightarrow> bytes option \<Rightarrow> bool \<Rightarrow> state \<Rightarrow> unit res \<times> state" where
  "RegisterKeyTxCheck P vtx txBytes signature forCommit s =
     (case GetRegisterKey vtx of
        None \<Rightarrow> (Fail (Errf ''register key transaction is nil''), s)
      | Some tx \<Rightarrow>
     with_res (register_guards tx signature s) s (\<lambda>process.
     with_res (wrap ''cannot extract public key from signature''
                 (PubKeyFromSignature P txBytes (bz signature))) s (\<lambda>pubKey.
     with_res (wrap ''cannot extract address from public key'' (AddrFromPublicKey P pubKey)) s (\<lambda>addr.
     with_res (wrap ''proof not valid'' (VerifyProof P process (the (rk_Proof tx)) pubKey addr)) s (\<lambda>(valid, weight).
     if \<not> valid then (Fail (Errf ''proof not valid''), s)
     else with_res (register_weight P tx process addr weight s) s (\<lambda>usedWeight.
       if forCommit
       then (Ok (), snd (setPreRegisterAddrUsedWeight P (bz (ProcessId process)) addr usedWeight s))
       else (Ok (), s)))))))"

section \<open>The census holds consecutive indexes\<close>

lemma PutUint64LE_inject [simp]: "PutUint64LE a = PutUint64LE b \<longleftrightarrow> a = b"
  using Uint64LE_Put [of a] Uint64LE_Put [of b] by (metis res.inject(1))

lemma unat_add_one: "n < m \<Longrightarrow> unat (n + 1) = Suc (unat n)" for n m :: u64
  using unsigned_less [of m, where ?'a = nat] by (simp add: unat_word_ariths word_less_nat_alt)

lemma less_add_one: "n < m \<Longrightarrow> i < n + 1 \<longleftrightarrow> i = n \<or> i < n" for n m i :: u64
  by (auto simp: word_less_nat_alt unat_add_one word_unat_eq_iff less_Suc_eq)

lemma open_census_Ok:
  "open_census T pid = Ok t \<longleftrightarrow> t = tr_Census T pid \<and>
     (\<exists>sp. map_of (tr_Processes T) pid = Some sp \<and> length (RollingCensusRoot (sp_Process sp)) = 32)"
  by (auto simp: open_census_def processGetCensusRoot_def defaultHashLen_def res_simps split: if_splits)

lemma GetRollingCensusSize_Ok:
  "GetRollingCensusSize pid False s = Ok n \<longleftrightarrow>
     open_census (st_Tx s) pid = Ok (tr_Census (st_Tx s) pid) \<and> GetUint64 (ns_censusLen (st_Tx s) pid) = Ok n"
  by (auto simp: GetRollingCensusSize_def getRollingCensusSize_def mainTreeViewer_def res_simps open_census_Ok)

text \<open>The size is a counter within the bound of the process, and the keys of the census tree are the
  numbers below it.\<close>

definition census_wf :: "bytes \<Rightarrow> state \<Rightarrow> bool" where
  "census_wf pid s \<longleftrightarrow> (\<exists>n p m. GetRollingCensusSize pid False s = Ok n \<and> Process_get pid False s = Ok p \<and>
     MaxCensusSize p = Some m \<and> n \<le> m \<and>
     fst ` set (tr_Census (st_Tx s) pid) = PutUint64LE ` {i. i < n})"

lemma census_index_free: "census_wf pid s \<Longrightarrow> GetRollingCensusSize pid False s = Ok n \<Longrightarrow>
    map_of (tr_Census (st_Tx s) pid) (PutUint64LE n) = None"
proof -
  assume "census_wf pid s" and "GetRollingCensusSize pid False s = Ok n"
  then have "fst ` set (tr_Census (st_Tx s) pid) = PutUint64LE ` {i. i < n}" by (auto simp: census_wf_def)
  moreover have "PutUint64LE n \<notin> PutUint64LE ` {i. i < n}" by auto
  ultimately show ?thesis unfolding map_of_eq_None_iff by (rule ssubst)
qed

lemma AddToRollingCensus_Ok:
  assumes "AddToRollingCensus P pid key w s = (Ok (), s')"
  shows "\<exists>n p m t. GetRollingCensusSize pid False s = Ok n \<and> Process_get pid False s = Ok p \<and>
     MaxCensusSize p = Some m \<and> n < m \<and> census_Add P (tr_Census (st_Tx s) pid) (PutUint64LE n) key = Ok t \<and>
     s' = set_censusLen pid (n + 1) (set_census pid t s)"
  using assms
  by (auto simp: AddToRollingCensus_def res_simps GetRollingCensusSize_Ok open_census_Ok Process_get_def
      mainTreeViewer_def not_le split: option.splits if_splits)

text \<open>C23. A key registered in the rolling census of a process goes under the next free index and the
  size grows by one, as long as the size is below the bound the process declares; at the bound the
  operation fails and changes nothing. The invariant, that the indexes in use are exactly the numbers
  below the size, which is within the bound, is kept. The hypotheses on the tree library are that a
  tree of 64 levels accepts keys of 8 bytes and that Poseidon accepts the registered key.\<close>

theorem rolling_census_indexed:
  assumes "census_wf pid s" and "\<forall>k. length k = 8 \<longrightarrow> arbo_key_ok P 64 k" and "arbo_poseidon_ok P key"
    and "GetRollingCensusSize pid False s = Ok n" and "Process_get pid False s = Ok p" and "MaxCensusSize p = Some m"
    and "AddToRollingCensus P pid key w s = (r, s')"
  shows "census_wf pid s' \<and>
     (if n < m
      then r = Ok () \<and> GetRollingCensusSize pid False s' = Ok (n + 1) \<and>
           map_of (tr_Census (st_Tx s') pid) = (map_of (tr_Census (st_Tx s) pid))(PutUint64LE n \<mapsto> key)
      else r = Fail (Errf ''maxCensusSize already reached'') \<and> s' = s)"
proof (cases "n < m")
  case True
  let ?k = "PutUint64LE n" and ?t = "tr_Census (st_Tx s) pid"
  have none: "map_of ?t ?k = None" using assms(1,4) by (rule census_index_free)
  let ?t' = "leaf_insert (arbo_before P) ?k key ?t"
  have add: "census_Add P ?t ?k key = Ok ?t'"
    using none assms(2,3) by (simp add: census_Add_def Tree_Add_Ok)
  have op: "open_census (st_Tx s) pid = Ok ?t" and len: "GetUint64 (ns_censusLen (st_Tx s) pid) = Ok n"
    using assms(4) by (simp_all add: GetRollingCensusSize_Ok)
  have r: "r = Ok ()" and s': "s' = set_censusLen pid (n + 1) (set_census pid ?t' s)"
    using assms(5-7) True op len add
    by (auto simp: AddToRollingCensus_def Process_get_def mainTreeViewer_def not_le [symmetric])
  have size: "GetRollingCensusSize pid False s' = Ok (n + 1)"
    using op by (simp add: s' GetRollingCensusSize_Ok open_census_Ok set_censusLen_def set_census_def
        GetUint64_def of_option_def)
  have tree: "tr_Census (st_Tx s') pid = ?t'" by (simp add: s' set_censusLen_def set_census_def)
  have "Process_get pid False s' = Ok p"
    using assms(5) by (simp add: s' Process_get_def getProcess_def mainTreeViewer_def set_censusLen_def set_census_def)
  moreover have "n + 1 \<le> m" using True by (simp add: word_le_nat_alt unat_add_one word_less_nat_alt)
  moreover have "fst ` set ?t = PutUint64LE ` {i. i < n}"
    using assms(1,4) by (auto simp: census_wf_def)
  then have "fst ` set ?t' = PutUint64LE ` {i. i < n + 1}"
    using keys_leaf_insert [of "arbo_before P" ?k key ?t] less_add_one [OF True] by (auto simp: image_iff)
  ultimately have "census_wf pid s'" using size assms(6) tree by (auto simp: census_wf_def)
  with r size tree True none show ?thesis by simp
next
  case False
  then have "r = Fail (Errf ''maxCensusSize already reached'')" and "s' = s"
    using assms(4-7) by (auto simp: AddToRollingCensus_def Process_get_def mainTreeViewer_def
        GetRollingCensusSize_Ok not_less)
  with False assms(1) show ?thesis by simp
qed

definition anon0 :: Process where
  "anon0 = proc0\<lparr>StartBlock := 20, Mode := Some \<lparr>AutoStart = True, Interruptible = True, DynamicCensus = False, PreRegister = True\<rparr>,
     EnvelopeTypeOf := Some \<lparr>Serial = False, Anonymous = True, EncryptedVotes = False, UniqueValues = False, CostFromWeight = False\<rparr>,
     MaxCensusSize := Some 5, RollingCensusRoot := empty_root, NullifiersRoot := empty_root\<rparr>"

definition anon_state :: state where
  "anon_state = proc_state\<lparr>st_Tx := (st_Tx proc_state)\<lparr>
     tr_Processes := [(pid0, \<lparr>sp_Process = anon0, sp_VotesRoot = empty_root\<rparr>)],
     ns_censusLen := [pid0 \<mapsto> PutUint64LE 0]\<rparr>\<rparr>"

lemma anon_state_sel [simp]:
  "Process_get pid0 False anon_state = Ok anon0" "GetRollingCensusSize pid0 False anon_state = Ok 0"
  "MaxCensusSize anon0 = Some 5" "tr_Census (st_Tx anon_state) pid0 = []"
  by (simp_all add: Process_get_Ok GetRollingCensusSize_Ok open_census_Ok anon_state_def anon0_def
      empty_root_def GetUint64_def of_option_def proc_state_def ex_state_def NewState_def trees0_def)

lemma anon_state_wf [simp]: "census_wf pid0 anon_state"
  by (simp add: census_wf_def)

theorem rolling_census_indexed_witness:
  "fst (AddToRollingCensus params0 pid0 (replicate 32 1) 1 anon_state) = Ok ()"
proof -
  have "\<forall>k. length k = 8 \<longrightarrow> arbo_key_ok params0 64 k" and "arbo_poseidon_ok params0 (replicate 32 1)" by simp_all
  note rolling_census_indexed [OF anon_state_wf this anon_state_sel(2,1,3),
      of 1 "fst (AddToRollingCensus params0 pid0 (replicate 32 1) 1 anon_state)"
         "snd (AddToRollingCensus params0 pid0 (replicate 32 1) 1 anon_state)"]
  then show ?thesis by simp
qed

section \<open>Registering keys\<close>

lemma RegisterKeyTxCheck_Ok:
  "RegisterKeyTxCheck P vtx b sig c s = (Ok (), s') \<longleftrightarrow>
     (\<exists>tx process pub addr weight used. GetRegisterKey vtx = Some tx \<and> register_guards tx sig s = Ok process \<and>
        PubKeyFromSignature P b (bz sig) = Ok pub \<and> AddrFromPublicKey P pub = Ok addr \<and>
        VerifyProof P process (the (rk_Proof tx)) pub addr = Ok (True, weight) \<and>
        register_weight P tx process addr weight s = Ok used \<and>
        s' = (if c then snd (setPreRegisterAddrUsedWeight P (bz (ProcessId process)) addr used s) else s))"
  by (auto simp: RegisterKeyTxCheck_def res_simps split: option.splits if_splits) blast+

lemma register_weight_Ok:
  "register_weight P tx process addr weight s = Ok used \<longleftrightarrow>
     used = 1 \<and> 1 \<le> weight \<and>
     (\<exists>u w. GetPreRegisterAddrUsedWeight P (bz (ProcessId process)) addr s = Ok u \<and>
        SetString (rk_Weight tx) = Some w \<and> int u + w = 1)"
  by (auto simp: register_weight_def res_simps Let_def split: if_splits)

lemma open_preregister_Ok:
  "open_preregister T pid = Ok t \<longleftrightarrow> t = tr_PreRegister T pid \<and>
     (\<exists>sp. map_of (tr_Processes T) pid = Some sp \<and> length (NullifiersRoot (sp_Process sp)) = 32)"
  by (auto simp: open_preregister_def processGetPreRegisterNullifiersRoot_def defaultHashLen_def res_simps
      split: if_splits)

lemma SetString_zero: "SetString ''0'' = Some 0"
  by (simp add: SetString_def digit_value_def Let_def)

text \<open>Once a process is found, the weight an address has used can only be read from an open tree.\<close>

lemma GetPreRegister_open:
  assumes "Process_get pid False s = Ok p" and "GetPreRegisterAddrUsedWeight P pid addr s = Ok u"
  shows "open_preregister (st_Tx s) pid = Ok (tr_PreRegister (st_Tx s) pid)"
  using assms
  by (auto simp: GetPreRegisterAddrUsedWeight_def open_preregister_def Process_get_Ok Tree_Get_def
      processGetPreRegisterNullifiersRoot_def defaultHashLen_def of_option_def split: if_splits)

lemma setPreRegister_get:
  assumes "open_preregister (st_Tx s) pid = Ok (tr_PreRegister (st_Tx s) pid)"
    and "arbo_key_ok P 256 (GenerateNullifier P addr pid)"
    and "s1 = snd (setPreRegisterAddrUsedWeight P pid addr (int w) s)"
  shows "GetPreRegisterAddrUsedWeight P pid addr s1 = Ok w \<and>
     (\<exists>f. s1 = s\<lparr>st_Tx := (st_Tx s)\<lparr>tr_PreRegister := f\<rparr>\<rparr>)"
proof -
  let ?t = "tr_PreRegister (st_Tx s) pid" and ?k = "GenerateNullifier P addr pid"
  obtain t where t: "Tree_Set P 256 ?t ?k (big_Bytes w) = Ok t"
    using Tree_Set_succeeds [OF assms(2), of ?t "big_Bytes w"] by blast
  then have s1: "s1 = s\<lparr>st_Tx := (st_Tx s)\<lparr>tr_PreRegister := (tr_PreRegister (st_Tx s))(pid := t)\<rparr>\<rparr>"
    using assms(1,3) by (simp add: setPreRegisterAddrUsedWeight_def)
  have "open_preregister (st_Tx s1) pid = Ok t" using assms(1) by (simp add: s1 open_preregister_Ok)
  moreover have "map_of t ?k = Some (big_Bytes w)" using Tree_Set_lookup [OF t] by simp
  ultimately show ?thesis using s1 by (auto simp: GetPreRegisterAddrUsedWeight_def Tree_Get_def of_option_def)
qed

lemma register_guards_Ok:
  "register_guards tx sig s = Ok p \<longleftrightarrow> Process_get (rk_ProcessId tx) False s = Ok p \<and>
     (\<exists>e md n mx. EnvelopeTypeOf p = Some e \<and> Mode p = Some md \<and> st_height s < StartBlock p \<and> PreRegister md \<and>
       Anonymous e \<and> Status p = READY \<and> rk_Proof tx \<noteq> None \<and> sig \<noteq> None \<and> length (bz (rk_NewKey tx)) = 32 \<and>
       GetRollingCensusSize (rk_ProcessId tx) False s = Ok n \<and> MaxCensusSize p = Some mx \<and> n < mx)"
proof (cases "Process_get (rk_ProcessId tx) False s")
  case (Ok q)
  then show ?thesis
    by (cases "EnvelopeTypeOf q"; cases "Mode q"; cases "GetRollingCensusSize (rk_ProcessId tx) False s";
        cases "MaxCensusSize q") (auto simp: register_guards_def not_le)
qed (auto simp: register_guards_def)

text \<open>The registration check does not limit an address to one key: after a registration has been
  accepted and stored, another one by the same signer with the same proof, any new key of 32 bytes
  and the weight \<^verbatim>\<open>"0"\<close> is accepted too, as long as the census is not full. The weight the address has
  used stays one, which is all the check asks for. The hypothesis on the tree library is that a tree of
  256 levels accepts the hashes used as keys.\<close>

theorem zero_weight_registers_again:
  assumes "RegisterKeyTxCheck P (Some (Some (Tx_RegisterKey (Some tx)))) b (Some sig) True s = (Ok (), s1)"
    and "AddToRollingCensus P (rk_ProcessId tx) (bz (rk_NewKey tx)) w s1 = (Ok (), s2)"
    and "processes_wf P s" and "\<forall>x. arbo_key_ok P 256 (Keccak256 P x)"
    and "PubKeyFromSignature P b2 sig2 = PubKeyFromSignature P b sig" and "length k = 32"
    and "GetRollingCensusSize (rk_ProcessId tx) False s2 = Ok n"
    and "Process_get (rk_ProcessId tx) False s = Ok p" and "MaxCensusSize p = Some m" and "n < m"
  shows "fst (RegisterKeyTxCheck P (Some (Some (Tx_RegisterKey (Some
           (tx\<lparr>rk_NewKey := Some k, rk_Weight := ''0''\<rparr>))))) b2 (Some sig2) True s2) = Ok ()"
proof -
  let ?pid = "rk_ProcessId tx" and ?tx = "tx\<lparr>rk_NewKey := Some k, rk_Weight := ''0''\<rparr>"
  obtain pub addr weight where g: "register_guards tx (Some sig) s = Ok p"
    and pub: "PubKeyFromSignature P b sig = Ok pub" "AddrFromPublicKey P pub = Ok addr"
    and vp: "VerifyProof P p (the (rk_Proof tx)) pub addr = Ok (True, weight)"
    and wt: "register_weight P tx p addr weight s = Ok 1"
    and s1: "s1 = snd (setPreRegisterAddrUsedWeight P (bz (ProcessId p)) addr 1 s)"
    using assms(1,8) by (auto simp: RegisterKeyTxCheck_Ok GetRegisterKey_def register_guards_Ok register_weight_Ok)
  have pid: "ProcessId p = Some ?pid" using wf_Process [OF assms(3,8)] by simp
  obtain u where "GetPreRegisterAddrUsedWeight P ?pid addr s = Ok u"
    using wt pid by (auto simp: register_weight_Ok)
  then have op: "open_preregister (st_Tx s) ?pid = Ok (tr_PreRegister (st_Tx s) ?pid)"
    using GetPreRegister_open [OF assms(8)] by simp
  have "arbo_key_ok P 256 (GenerateNullifier P addr ?pid)"
    using assms(4) by (simp add: GenerateNullifier_def HashRaw_def)
  then obtain f where used: "GetPreRegisterAddrUsedWeight P ?pid addr s1 = Ok 1"
    and s1f: "s1 = s\<lparr>st_Tx := (st_Tx s)\<lparr>tr_PreRegister := f\<rparr>\<rparr>"
    using setPreRegister_get [OF op, of P addr s1 1] s1 pid by auto
  obtain j t where s2: "s2 = set_censusLen ?pid j (set_census ?pid t s1)"
    using AddToRollingCensus_Ok [OF assms(2)] by blast
  have "GetPreRegisterAddrUsedWeight P ?pid addr s2 = Ok 1"
    using used by (simp add: s2 set_censusLen_def set_census_def GetPreRegisterAddrUsedWeight_def open_preregister_def)
  then have "register_weight P ?tx p addr weight s2 = Ok 1"
    using wt pid by (simp add: register_weight_Ok SetString_zero)
  moreover have "register_guards ?tx (Some sig2) s2 = Ok p"
    using g assms(6-10) by (auto simp: register_guards_Ok s2 s1f set_censusLen_def set_census_def Process_get_Ok)
  ultimately show ?thesis
    using pub vp assms(5) by (simp add: RegisterKeyTxCheck_def GetRegisterKey_def)
qed

definition register0 :: RegisterKeyTx where
  "register0 = \<lparr>rk_Nonce = 0, rk_ProcessId = pid0,
     rk_Proof = Some (Proof_Arbo (Some \<lparr>pa_Type = ARBO_BLAKE2B, pa_Value = None, pa_Siblings = [1, 2, 3]\<rparr>)),
     rk_NewKey = Some (replicate 32 1), rk_Weight = ''1''\<rparr>"

lemma sig0_key:
  "PubKeyFromSignature params0 m (replicate 65 0) = Ok (2 # replicate 32 0)"
  "AddrFromPublicKey params0 (2 # replicate 32 0) = Ok (replicate 20 0)"
  by (simp_all add: PubKeyFromSignature_def normalise_v_def SignatureLength_def AddrFromPublicKey_def Let_def
      DecompressPubKey_def PubKeyLengthBytes_def of_option_def take_replicate)

lemma SetString_one: "SetString ''1'' = Some 1"
  by (simp add: SetString_def digit_value_def Let_def)

lemma anon0_proof: "VerifyProof params0 anon0 (the (rk_Proof register0)) pub addr = Ok (True, 1)"
  by (simp add: VerifyProof_def anon0_def proc0_def register0_def VerifyProofOffChainTree_def GetArbo_def
      of_option_def tree_VerifyProof_def)

lemma anon_state_process: "map_of (tr_Processes (st_Tx anon_state)) pid0 = Some \<lparr>sp_Process = anon0, sp_VotesRoot = empty_root\<rparr>"
  "tr_PreRegister (st_Tx anon_state) pid0 = []" "NullifiersRoot anon0 = replicate 32 0"
  by (simp_all add: anon_state_def anon0_def empty_root_def proc_state_def ex_state_def NewState_def trees0_def)

lemma anon_state_unused: "GetPreRegisterAddrUsedWeight params0 pid0 a anon_state = Ok 0"
  by (simp add: GetPreRegisterAddrUsedWeight_def open_preregister_def processGetPreRegisterNullifiersRoot_def
      defaultHashLen_def Tree_Get_def anon_state_process of_option_def)

lemma register0_accepted:
  "RegisterKeyTxCheck params0 (Some (Some (Tx_RegisterKey (Some register0)))) [] (Some (replicate 65 0)) True anon_state =
     (Ok (), snd (setPreRegisterAddrUsedWeight params0 pid0 (replicate 20 0) 1 anon_state))"
proof -
  have "register_guards register0 (Some (replicate 65 0)) anon_state = Ok anon0"
    by (simp add: register_guards_Ok register0_def) (simp add: anon0_def anon_state_def proc_state_def)
  moreover have "ProcessId anon0 = Some pid0" by (simp add: anon0_def)
  moreover have "register_weight params0 register0 anon0 (replicate 20 0) 1 anon_state = Ok 1"
    using anon_state_unused \<open>ProcessId anon0 = Some pid0\<close> by (simp add: register_weight_Ok register0_def SetString_one)
  ultimately show ?thesis
    using anon0_proof by (simp add: RegisterKeyTxCheck_def GetRegisterKey_def sig0_key)
qed

lemma anon_state_add:
  "AddToRollingCensus params0 pid0 key w (anon_state\<lparr>st_Tx := (st_Tx anon_state)\<lparr>tr_PreRegister := f\<rparr>\<rparr>) =
     (Ok (), set_censusLen pid0 1 (set_census pid0 [(PutUint64LE 0, key)]
        (anon_state\<lparr>st_Tx := (st_Tx anon_state)\<lparr>tr_PreRegister := f\<rparr>\<rparr>)))"
proof -
  have "length (RollingCensusRoot anon0) = 32" by (simp add: anon0_def empty_root_def)
  moreover have "ns_censusLen (st_Tx anon_state) pid0 = Some (PutUint64LE 0)" by (simp add: anon_state_def)
  ultimately show ?thesis
    by (simp add: AddToRollingCensus_def getProcess_def open_census_def processGetCensusRoot_def defaultHashLen_def
        Tree_Get_def anon_state_process of_option_def GetUint64_def census_Add_def Tree_Add_def)
qed

lemma anon_state_processes_wf: "processes_wf params0 anon_state"
  by (simp add: processes_wf_def leaf_wf_def anon_state_def anon0_def empty_root_def)

theorem zero_weight_registers_again_witness:
  "\<exists>s2. fst (RegisterKeyTxCheck params0 (Some (Some (Tx_RegisterKey (Some
       (register0\<lparr>rk_NewKey := Some (replicate 32 2), rk_Weight := ''0''\<rparr>))))) [7] (Some (replicate 65 0)) True s2) = Ok () \<and>
     map_of (tr_Census (st_Tx s2) pid0) (PutUint64LE 0) = Some (replicate 32 1)"
proof -
  let ?s1 = "snd (setPreRegisterAddrUsedWeight params0 pid0 (replicate 20 0) 1 anon_state)"
  have op: "open_preregister (st_Tx anon_state) pid0 = Ok (tr_PreRegister (st_Tx anon_state) pid0)"
    by (simp add: open_preregister_Ok anon_state_process)
  obtain f where s1: "?s1 = anon_state\<lparr>st_Tx := (st_Tx anon_state)\<lparr>tr_PreRegister := f\<rparr>\<rparr>"
    using setPreRegister_get [OF op, of params0 "replicate 20 0" ?s1 1]
    by (auto simp: GenerateNullifier_def HashRaw_def)
  let ?s2 = "set_censusLen pid0 1 (set_census pid0 [(PutUint64LE 0, replicate 32 1)]
        (anon_state\<lparr>st_Tx := (st_Tx anon_state)\<lparr>tr_PreRegister := f\<rparr>\<rparr>))"
  have add: "AddToRollingCensus params0 (rk_ProcessId register0) (bz (rk_NewKey register0)) 1 ?s1 = (Ok (), ?s2)"
    unfolding s1 by (simp add: register0_def anon_state_add)
  have size: "GetRollingCensusSize (rk_ProcessId register0) False ?s2 = Ok 1"
    by (simp add: GetRollingCensusSize_Ok open_census_Ok set_censusLen_def set_census_def register0_def
        anon_state_process GetUint64_def of_option_def) (simp add: anon0_def empty_root_def)
  have get: "Process_get (rk_ProcessId register0) False anon_state = Ok anon0" by (simp add: register0_def)
  have hash: "\<forall>x. arbo_key_ok params0 256 (Keccak256 params0 x)" by (simp add: min_def)
  have key: "PubKeyFromSignature params0 [7] (replicate 65 0) = PubKeyFromSignature params0 [] (replicate 65 0)"
    by (simp add: sig0_key)
  have "length (replicate 32 2 :: bytes) = 32" and "1 < (5 :: u64)" by simp_all
  from zero_weight_registers_again [OF register0_accepted add anon_state_processes_wf hash key this(1) size get
      anon_state_sel(3) this(2)]
  have "fst (RegisterKeyTxCheck params0 (Some (Some (Tx_RegisterKey (Some
       (register0\<lparr>rk_NewKey := Some (replicate 32 2), rk_Weight := ''0''\<rparr>))))) [7] (Some (replicate 65 0)) True ?s2) = Ok ()" .
  moreover have "map_of (tr_Census (st_Tx ?s2) pid0) (PutUint64LE 0) = Some (replicate 32 1)"
    by (simp add: set_censusLen_def set_census_def)
  ultimately show ?thesis by blast
qed

end
