(* ===== verification/Process_Checks.thy ===== *)
theory Process_Checks
  imports Census
begin

text \<open>
  The checks of the process and admin transactions (\<^verbatim>\<open>NewProcessTxCheck\<close> and \<^verbatim>\<open>SetProcessTxCheck\<close> of
  \<^verbatim>\<open>src/vochain/process.go\<close>, \<^verbatim>\<open>AdminTxCheck\<close> and the checks of key transactions of
  \<^verbatim>\<open>src/vochain/transaction.go\<close>), every guard in the order of the source.
\<close>

definition GetNewProcess :: "Tx option \<Rightarrow> NewProcessTx option" where
  "GetNewProcess vtx = (case vtx of Some (Some (Tx_NewProcess t)) \<Rightarrow> t | _ \<Rightarrow> None)"
definition GetSetProcess :: "Tx option \<Rightarrow> SetProcessTx option" where
  "GetSetProcess vtx = (case vtx of Some (Some (Tx_SetProcess t)) \<Rightarrow> t | _ \<Rightarrow> None)"
definition GetAdmin :: "Tx option \<Rightarrow> AdminTx option" where
  "GetAdmin vtx = (case vtx of Some (Some (Tx_Admin t)) \<Rightarrow> t | _ \<Rightarrow> None)"

section \<open>New processes\<close>

text \<open>The parameters of the circuits a chain is configured with, the smallest circuit first; a chain
  that is not in the table has those of \<^verbatim>\<open>dev\<close>.\<close>

definition Genesis_circuits :: "string \<Rightarrow> u64 list list" where
  "Genesis_circuits chainID =
     (case map_of [(''azeno'', [[1024], [65536]]), (''dev'', [[1024], [65536]]),
                   (''stage'', [[8], [16], [1024]])] chainID of
        Some circuits \<Rightarrow> circuits
      | None \<Rightarrow> [[1024], [65536]])"

definition KeyKeeperMaxKeyIndex :: nat where "KeyKeeperMaxKeyIndex = 16"

text \<open>A start block of zero or one means the next block.\<close>

definition start_block :: "Process \<Rightarrow> state \<Rightarrow> Process res" where
  "start_block p s =
     (if StartBlock p = 0 \<or> StartBlock p = 1 then Ok (p\<lparr>StartBlock := st_height s + 1\<rparr>)
      else if StartBlock p < st_height s
      then Fail (Errf ''cannot add process with start block lower than or equal to the current height'')
      else Ok p)"

text \<open>A process of an account, or of an oracle that names none, has its identifier built; for an
  oracle it is built with the oracle's address.\<close>

definition assign_process_id :: "params \<Rightarrow> string \<Rightarrow> bool \<Rightarrow> address \<Rightarrow> Process \<Rightarrow> state \<Rightarrow> Process res" where
  "assign_process_id P chainID isOracle addr p s =
     (if \<not> isOracle \<or> ProcessId p = None
      then rbind (wrap ''cannot build processID''
                   (BuildProcessID P chainID (if isOracle then p\<lparr>EntityId := addr\<rparr> else p) s))
             (\<lambda>pid. Ok (p\<lparr>ProcessId := Some (PID_Marshal P pid)\<rparr>))
      else Ok p)"

text \<open>The checks of the process types that are implemented.\<close>

definition implemented_types :: "string \<Rightarrow> ProcessMode \<Rightarrow> EnvelopeType \<Rightarrow> Process \<Rightarrow> unit res" where
  "implemented_types chainID mode et p =
     (if PreRegister mode \<noteq> Anonymous et
      then Fail (Errf ''pre-register mode only supported with anonymous envelope type and viceversa'')
      else if PreRegister mode \<and> (case MaxCensusSize p of None \<Rightarrow> True | Some m \<Rightarrow> m \<le> 0)
      then Fail (Errf ''pre-register mode requires setting maxCensusSize to be > 0'')
      else rbind (if PreRegister mode \<and> Anonymous et
             then let circuits = Genesis_circuits chainID
               in if circuits = [] then Fail (Errf ''no circuit configs in the %v genesis'')
                  else (case MaxCensusSize p of
                     None \<Rightarrow> Fail (Errf ''maxCensusSize is not provided'')
                   | Some m \<Rightarrow> rbind (index_at (last circuits) 0) (\<lambda>biggest.
                       if biggest < m
                       then Fail (Errf ''maxCensusSize for anonymous envelope cannot be bigger than the parameter for the biggest circuit (%v)'')
                       else Ok ()))
             else Ok ()) (\<lambda>_.
        if Serial et then Fail (Errf ''serial process not yet implemented'') else Ok ()))"

definition NewProcessTxCheck ::
  "params \<Rightarrow> string \<Rightarrow> Tx option \<Rightarrow> bytes option \<Rightarrow> bytes option \<Rightarrow> state \<Rightarrow> (Process \<times> address) res" where
  "NewProcessTxCheck P chainID vtx txBytes signature s =
     (case GetNewProcess vtx of
        None \<Rightarrow> Panic ''nil pointer dereference''
      | Some tx \<Rightarrow>
     (case np_Process tx of
        None \<Rightarrow> Fail (Errf ''process data is empty'')
      | Some p \<Rightarrow>
     (case (VoteOptions p, EnvelopeTypeOf p, Mode p) of
        (Some vo, Some et, Some mode) \<Rightarrow>
          if MaxCount vo = 0 then Fail (Errf ''missing vote maxCount parameter'')
          else if signature = None \<or> txBytes = None
          then Fail (Errf ''missing signature or new process transaction'')
          else rbind (start_block p s) (\<lambda>p.
          if BlockCount p = 0
          then Fail (Errf ''cannot add process with duration lower than or equal to the current height'')
          else rbind (wrap ''cannot get NewProcessTx transaction cost'' (TxCost NEW_PROCESS False s)) (\<lambda>cost.
          rbind (AccountFromSignature P (bz txBytes) (bz signature) s) (\<lambda>(addr, acc).
          if Balance acc < cost then Fail ErrNotEnoughBalance
          else if Nonce acc \<noteq> np_Nonce tx then Fail ErrAccountNonceInvalid
          else rbind (IsOracle P addr s) (\<lambda>isOracle.
          if EntityId p \<noteq> addr \<and> \<not> isOracle
          then Fail (Errf ''unauthorized to create a new process, recovered addr is %s'')
          else rbind (assign_process_id P chainID isOracle addr p s) (\<lambda>p.
          if is_ok (Process_get (bz (ProcessId p)) False s) then Fail (Errf ''process with id (%x) already exists'')
          else rbind (implemented_types chainID mode et p) (\<lambda>_.
            Ok (if EncryptedVotes et \<or> Anonymous et
                then p\<lparr>EncryptionPublicKeys := replicate KeyKeeperMaxKeyIndex [],
                       EncryptionPrivateKeys := replicate KeyKeeperMaxKeyIndex []\<rparr>
                else p, addr)))))))
      | _ \<Rightarrow> Fail (Errf ''missing required fields (voteOptions, envelopeType or processMode)''))))"

section \<open>Changes of a process\<close>

definition SetProcessTxCheck ::
  "params \<Rightarrow> Tx option \<Rightarrow> bytes option \<Rightarrow> bytes option \<Rightarrow> state \<Rightarrow> address res" where
  "SetProcessTxCheck P vtx txBytes signature s =
     (case GetSetProcess vtx of
        None \<Rightarrow> Fail (Errf ''missing signature on setProcess transaction'')
      | Some tx \<Rightarrow>
     if signature = None \<or> txBytes = None then Fail (Errf ''missing signature on setProcess transaction'')
     else rbind (wrap ''cannot get %s transaction cost'' (TxCost (spt_Txtype tx) False s)) (\<lambda>cost.
     rbind (AccountFromSignature P (bz txBytes) (bz signature) s) (\<lambda>(addr, acc).
     if Balance acc < cost then Fail ErrNotEnoughBalance
     else if Nonce acc \<noteq> spt_Nonce tx then Fail ErrAccountNonceInvalid
     else rbind (wrap ''cannot get process %x'' (Process_get (spt_ProcessId tx) False s)) (\<lambda>process.
     rbind (if EntityId process \<noteq> addr then IsOracle P addr s else Ok False) (\<lambda>isOracle.
     if EntityId process \<noteq> addr \<and> \<not> isOracle
     then Fail (Errf ''unauthorized to set process status, recovered addr is %s'')
     else let pid = bz (ProcessId process)
     in case spt_Txtype tx of
       SET_PROCESS_RESULTS \<Rightarrow>
         if \<not> isOracle then Fail (Errf ''only oracles can execute set process results transaction'')
         else (case spt_Results tx of
            None \<Rightarrow> Panic ''nil pointer dereference''
          | Some results \<Rightarrow>
              if bz (pr_OracleAddress results) \<noteq> addr
              then Fail (Errf ''cannot set results, oracle address provided in results does not match'')
              else rbind (fst (SetProcessResults P pid results False s)) (\<lambda>_. Ok addr))
     | SET_PROCESS_STATUS \<Rightarrow>
         let status = (case spt_Status tx of None \<Rightarrow> PROCESS_UNKNOWN | Some st \<Rightarrow> st)
         in rbind (fst (SetProcessStatus P pid status False s)) (\<lambda>_. Ok addr)
     | SET_PROCESS_CENSUS \<Rightarrow>
         let uri = (case spt_CensusURI tx of None \<Rightarrow> [] | Some u \<Rightarrow> u)
         in rbind (fst (SetProcessCensus P pid (bz (spt_CensusRoot tx)) uri False s)) (\<lambda>_. Ok addr)
     | _ \<Rightarrow> Fail (Errf ''unknown setProcess tx type: %s''))))))"

section \<open>Admin transactions\<close>

text \<open>\<^verbatim>\<open>nacl.DecodePrivate\<close> of the hexadecimal form of a key, and the public key it derives.\<close>

definition nacl_KeyLength :: nat where "nacl_KeyLength = 32"

definition DecodePrivate_Public :: "params \<Rightarrow> bytes \<Rightarrow> bytes res" where
  "DecodePrivate_Public P key =
     (if length key \<noteq> nacl_KeyLength then Fail (Errf ''key length must be %d, not %d'')
      else of_option (Errf ''curve25519'') (box_PublicKey P key))"

definition checkAddProcessKeys :: "AdminTx \<Rightarrow> Process \<Rightarrow> unit res" where
  "checkAddProcessKeys tx process =
     (case ad_KeyIndex tx of
        None \<Rightarrow> Fail (Errf ''key index is nil'')
      | Some ki \<Rightarrow>
     if ad_EncryptionPublicKey tx = None \<or> unat ki < 1 \<or> KeyKeeperMaxKeyIndex < unat ki
     then Fail (Errf ''no keys provided or invalid key index'')
     else rbind (index_at (EncryptionPublicKeys process) (unat ki)) (\<lambda>k.
       if 0 < length k then Fail (Errf ''key index %d already exists'') else Ok ()))"

definition checkRevealProcessKeys :: "params \<Rightarrow> AdminTx \<Rightarrow> Process \<Rightarrow> unit res" where
  "checkRevealProcessKeys P tx process =
     (case ad_KeyIndex tx of
        None \<Rightarrow> Fail (Errf ''key index is nil'')
      | Some ki \<Rightarrow>
     (case ad_EncryptionPrivateKey tx of
        None \<Rightarrow> Fail (Errf ''no keys provided or invalid key index'')
      | Some priv \<Rightarrow>
     if unat ki < 1 \<or> KeyKeeperMaxKeyIndex < unat ki
     then Fail (Errf ''no keys provided or invalid key index'')
     else rbind (index_at (EncryptionPublicKeys process) (unat ki)) (\<lambda>k.
       if length k < 1 then Fail (Errf ''key index %d does not exist'')
       else rbind (DecodePrivate_Public P priv) (\<lambda>pub.
         if hex pub \<noteq> k
         then Fail (Errf ''the provided private key does not match with the stored public key for index %d'')
         else Ok ()))))"

definition verifySignatureAgainstOracles ::
  "params \<Rightarrow> address list \<Rightarrow> bytes \<Rightarrow> bytes \<Rightarrow> (bool \<times> address) res" where
  "verifySignatureAgainstOracles P oracles message signature =
     rbind (AddrFromSignature P message signature) (\<lambda>addr. Ok (addr \<in> set oracles, addr))"

text \<open>The guards of the two key transactions.\<close>

definition key_tx_check :: "params \<Rightarrow> AdminTx \<Rightarrow> bytes \<Rightarrow> bytes \<Rightarrow> state \<Rightarrow> unit res" where
  "key_tx_check P tx txBytes signature s =
     (case ad_ProcessId tx of
        None \<Rightarrow> Fail (Errf ''missing processId on AdminTxCheck'')
      | Some pid \<Rightarrow>
     rbind (Process_get pid False s) (\<lambda>process.
     case EnvelopeTypeOf process of
       None \<Rightarrow> Panic ''nil pointer dereference''
     | Some et \<Rightarrow>
     if \<not> EncryptedVotes et \<and> \<not> Anonymous et then Fail (Errf ''process does not require keys'')
     else if Oracles P False s = []
     then Fail (Errf ''cannot check authorization against a nil or empty oracle list'')
     else rbind (verifySignatureAgainstOracles P (Oracles P False s) txBytes signature) (\<lambda>(authorized, addr).
     if \<not> authorized then Fail (Errf ''unauthorized to perform an adminTx, address: %s'')
     else if GetAccount addr False s = None then Fail ErrAccountNotExist
     else if ad_Txtype tx = ADD_PROCESS_KEYS
     then (case ad_KeyIndex tx of
        None \<Rightarrow> Fail (Errf ''missing keyIndex on AdminTxCheck'')
      | Some ki \<Rightarrow>
          if StartBlock process < st_height s
          then Fail (Errf ''cannot add process keys to a process that has started or finished status (%s)'')
          else if Status process = CANCELED \<or> Status process = ENDED \<or> Status process = RESULTS
          then Fail (Errf ''cannot add process keys to a %s process'')
          else rbind (index_at (EncryptionPublicKeys process) (unat ki)) (\<lambda>k.
            if 0 < length k then Fail (Errf ''keys for process %x already revealed'')
            else checkAddProcessKeys tx process))
     else (case ad_KeyIndex tx of
        None \<Rightarrow> Fail (Errf ''missing keyIndex on AdminTxCheck'')
      | Some ki \<Rightarrow>
          if st_height s < StartBlock process + BlockCount process \<and> \<not> (Status process = ENDED \<or> Status process = CANCELED)
          then Fail (Errf ''cannot reveal keys before the process is finished'')
          else rbind (index_at (EncryptionPrivateKeys process) (unat ki)) (\<lambda>k.
            if 0 < length k then Fail (Errf ''keys for process %x already revealed'')
            else checkRevealProcessKeys P tx process)))))"

definition AdminTxCheck :: "params \<Rightarrow> Tx option \<Rightarrow> bytes option \<Rightarrow> bytes option \<Rightarrow> state \<Rightarrow> address res" where
  "AdminTxCheck P vtx txBytes signature s =
     (if vtx = None then Fail ErrNilTx
      else case GetAdmin vtx of
        None \<Rightarrow> Fail (Errf ''missing signature and/or admin transaction'')
      | Some tx \<Rightarrow>
     if signature = None \<or> txBytes = None then Fail (Errf ''missing signature and/or admin transaction'')
     else rbind (tx_sender P (bz txBytes) (bz signature)) (\<lambda>addr.
     let oracle = BytesToAddress P (ad_Address tx);
         bad_address = (ad_Address tx = [] \<or> length (ad_Address tx) \<noteq> 20 \<or> ad_Address tx = EthereumZeroAddress)
     in if ad_Txtype tx = ADD_PROCESS_KEYS \<or> ad_Txtype tx = REVEAL_PROCESS_KEYS
     then rbind (key_tx_check P tx (bz txBytes) (bz signature) s) (\<lambda>_. Ok addr)
     else if ad_Txtype tx = ADD_ORACLE
     then rbind (wrap ''tx sender not authorized'' (VerifyTreasurer addr (ad_Nonce tx) s)) (\<lambda>_.
       if bad_address then Fail (Errf ''invalid oracle address: %x'')
       else if oracle \<in> set (Oracles P False s)
       then Fail (Errf ''oracle already added to oracle list at position %d'')
       else Ok addr)
     else if ad_Txtype tx = REMOVE_ORACLE
     then rbind (wrap ''tx sender not authorized'' (VerifyTreasurer addr (ad_Nonce tx) s)) (\<lambda>_.
       if bad_address then Fail (Errf ''invalid oracle address: %x'')
       else if oracle \<notin> set (Oracles P False s) then Fail (Errf ''cannot remove oracle, not found'')
       else Ok addr)
     else Fail (Errf ''tx not supported'')))"

end
