(* ===== verification/Vote_Check.thy ===== *)
theory Vote_Check
  imports Census
begin

text \<open>
  The check of a vote (\<^verbatim>\<open>VoteEnvelopeCheck\<close> of \<^verbatim>\<open>src/vochain/transaction.go\<close>, with
  \<^verbatim>\<open>ProtobufZKProofToCircomProof\<close> of \<^verbatim>\<open>src/crypto/zk/utils.go\<close>): the window and status of the process, the
  lazy check of a vote the cache holds, and the full check of an anonymous vote (a zkSNARK proof) or
  of a signed one (a census proof). It changes nothing but the vote cache.
\<close>

definition VoterIDTypeECDSA :: u8 where "VoterIDTypeECDSA = 1"

definition ProtobufZKProofToCircomProof :: "params \<Rightarrow> ProofZkSNARK \<Rightarrow> unit res" where
  "ProtobufZKProofToCircomProof P p =
     (if length (zk_A p) \<noteq> 3 \<or> length (zk_B p) \<noteq> 6 \<or> length (zk_C p) \<noteq> 3
      then Fail (Errf ''error on zkProof format'')
      else if zk_ProofOk P p then Ok () else Fail (Errf ''parsers''))"

text \<open>\<^verbatim>\<open>if exist, err := EnvelopeExists(...); err != nil || exist\<close>.\<close>

definition not_voted :: "params \<Rightarrow> bytes \<Rightarrow> bytes \<Rightarrow> state \<Rightarrow> unit res" where
  "not_voted P pid nullifier s =
     rbind (EnvelopeExists P pid nullifier False s)
       (\<lambda>exist. if exist then Fail (Errf ''vote %x already exists'') else Ok ())"

section \<open>The general guards\<close>

definition vote_guards :: "VoteEnvelope \<Rightarrow> state \<Rightarrow> (Process \<times> EnvelopeType) res" where
  "vote_guards ve s =
     rbind (wrap ''cannot fetch processId'' (Process_get (ve_ProcessId ve) False s)) (\<lambda>process.
     case (EnvelopeTypeOf process, Mode process) of
       (Some et, Some _) \<Rightarrow>
         let height = st_height s; endBlock = StartBlock process + BlockCount process
         in if height < StartBlock process then Fail (Errf ''process %x starts at height %d, current height is %d'')
         else if endBlock < height then Fail (Errf ''process %x finished at height %d, current height is %d'')
         else if Status process \<noteq> READY then Fail (Errf ''process %x not in READY state - current state: %s'')
         else if EncryptedVotes et \<and> (case KeyIndex process of None \<Rightarrow> False | Some k \<Rightarrow> k < 1)
         then Fail (Errf ''no keys available, voting is not possible'')
         else Ok (process, et)
     | _ \<Rightarrow> Fail (Errf ''process %x malformed''))"

section \<open>The full check of an anonymous vote\<close>

definition split_16 :: "params \<Rightarrow> bytes \<Rightarrow> nat list res" where
  "split_16 P b = (if length b < 16 then Panic ''slice bounds out of range''
                   else Ok [arbo_BytesToBigInt P (take 16 b), arbo_BytesToBigInt P (drop 16 b)])"

definition encryption_indexes :: "EnvelopeType \<Rightarrow> VoteEnvelope \<Rightarrow> Vote \<Rightarrow> Vote res" where
  "encryption_indexes et ve vote =
     (if EncryptedVotes et
      then if ve_EncryptionKeyIndexes ve = [] then Fail (Errf ''no key indexes provided on vote package'')
           else Ok (vote\<lparr>v_EncryptionKeyIndexes := ve_EncryptionKeyIndexes ve\<rparr>)
      else Ok vote)"

definition new_vote :: "VoteEnvelope \<Rightarrow> state \<Rightarrow> Vote" where
  "new_vote ve s = \<lparr>v_Height = st_height s, v_ProcessId = ve_ProcessId ve, v_Nullifier = None,
     v_VotePackage = ve_VotePackage ve, v_Weight = [], v_EncryptionKeyIndexes = []\<rparr>"

definition anonymous_check ::
  "params \<Rightarrow> nat \<Rightarrow> VoteEnvelope \<Rightarrow> Process \<Rightarrow> EnvelopeType \<Rightarrow> state \<Rightarrow> (Vote \<times> bytes) res" where
  "anonymous_check P nVKs ve process et s =
     (case (case ve_Proof ve of None \<Rightarrow> None | Some pr \<Rightarrow> GetZkSnark pr) of
        None \<Rightarrow> Fail (Errf ''zkSNARK proof is empty'')
      | Some zk \<Rightarrow>
     rbind (wrap ''failed on zk.ProtobufZKProofToCircomProof'' (ProtobufZKProofToCircomProof P zk)) (\<lambda>_.
     rbind (not_voted P (ve_ProcessId ve) (ve_Nullifier ve) s) (\<lambda>_.
     let i = sint (zk_CircuitParametersIndex zk)
     in if int nVKs \<le> i \<or> i < 0 then Fail (Errf ''invalid CircuitParametersIndex: %d of %d'')
     else rbind (split_16 P (bz (ProcessId process))) (\<lambda>pid01.
     rbind (split_16 P (Sha256 P (ve_VotePackage ve))) (\<lambda>hash01.
     let publicInputs = pid01 @ [arbo_BytesToBigInt P (RollingCensusRoot process),
           arbo_BytesToBigInt P (ve_Nullifier ve)] @ hash01
     in if \<not> zk_Verify P (nat i) zk publicInputs then Fail (Errf ''zkSNARK proof verification failed'')
     else rbind (encryption_indexes et ve
            ((new_vote ve s)\<lparr>v_Nullifier := Some (ve_Nullifier ve), v_Weight := big_Bytes 1\<rparr>))
          (\<lambda>vote. Ok (vote, [])))))))"

section \<open>The full check of a signed vote\<close>

definition signed_check ::
  "params \<Rightarrow> VoteEnvelope \<Rightarrow> Process \<Rightarrow> EnvelopeType \<Rightarrow> bytes \<Rightarrow> bytes \<Rightarrow> state \<Rightarrow> (Vote \<times> bytes) res" where
  "signed_check P ve process et txBytes signature s =
     (case ve_Proof ve of
        None \<Rightarrow> Fail (Errf ''proof not found on transaction'')
      | Some pr \<Rightarrow>
     rbind (encryption_indexes et ve (new_vote ve s)) (\<lambda>vote.
     rbind (wrap ''cannot extract public key from signature'' (PubKeyFromSignature P txBytes signature)) (\<lambda>pubKey.
     rbind (wrap ''cannot extract address from public key'' (AddrFromPublicKey P pubKey)) (\<lambda>addr.
     let nullifier = GenerateNullifier P addr (v_ProcessId vote)
     in rbind (not_voted P (v_ProcessId vote) nullifier s) (\<lambda>_.
        rbind (VerifyProof P process pr pubKey addr) (\<lambda>(valid, weight).
        if \<not> valid then Fail (Errf ''proof not valid'')
        else Ok (vote\<lparr>v_Nullifier := Some nullifier, v_Weight := big_Bytes weight\<rparr>,
                 VoterIDTypeECDSA # pubKey)))))))"

section \<open>The check of a vote transaction\<close>

text \<open>A vote the cache holds is only checked for being new; the cache entry is dropped on return.\<close>

definition lazy_check :: "params \<Rightarrow> bool \<Rightarrow> Process \<Rightarrow> bytes \<Rightarrow> Vote \<Rightarrow> state \<Rightarrow> (Vote \<times> bytes) res \<times> state" where
  "lazy_check P anonymous process txID cached s =
     (let vote = cached\<lparr>v_Height := st_height s\<rparr>;
          r = rbind (not_voted P (v_ProcessId vote) (bz (v_Nullifier vote)) s) (\<lambda>_.
                if \<not> anonymous \<and> (StartBlock process + BlockCount process < st_height s \<or> Status process \<noteq> READY)
                then Fail (Errf ''vote %x is not longer valid'')
                else Ok (vote, []))
      in (r, CacheDel txID s))"

definition VoteEnvelopeCheck ::
  "params \<Rightarrow> nat \<Rightarrow> VoteEnvelope option \<Rightarrow> bytes \<Rightarrow> bytes option \<Rightarrow> bytes \<Rightarrow> bool \<Rightarrow> state
     \<Rightarrow> (Vote \<times> bytes) res \<times> state" where
  "VoteEnvelopeCheck P nVKs ve_ptr txBytes signature txID forCommit s =
     (case ve_ptr of
        None \<Rightarrow> (Fail (Errf ''vote envelope is nil''), s)
      | Some ve \<Rightarrow>
     with_res (vote_guards ve s) s (\<lambda>(process, et).
     if \<not> Anonymous et \<and> signature = None then (Fail (Errf ''signature missing on voteTx''), s)
     else (case CacheGetCopy txID s of
        Some cached \<Rightarrow>
          if \<not> forCommit
          then (Fail (if Anonymous et then ErrorAlreadyExistInCache else Errf ''vote %x already exists in cache''), s)
          else lazy_check P (Anonymous et) process txID cached s
      | None \<Rightarrow>
          with_res (if Anonymous et then anonymous_check P nVKs ve process et s
                    else signed_check P ve process et txBytes (bz signature) s) s (\<lambda>(vote, voterID).
            (Ok (vote, voterID), if forCommit then s else CacheAdd P txID (Some vote) s)))))"

section \<open>What an accepted vote satisfies\<close>

definition cache_only :: "state \<Rightarrow> state \<Rightarrow> bool" where
  "cache_only s t \<longleftrightarrow> (\<exists>c. t = s\<lparr>st_voteCache := c\<rparr>)"

lemma cache_only_refl [simp]: "cache_only s s"
  unfolding cache_only_def by (rule exI [of _ "st_voteCache s"]) simp

lemma cache_only_ops [simp]: "cache_only s (CacheAdd P k v s)" "cache_only s (CacheDel k s)"
proof -
  show "cache_only s (CacheAdd P k v s)"
    by (auto simp: CacheAdd_def cache_put_def cache_only_def split: option.split) (metis cache_only_def cache_only_refl)+
  show "cache_only s (CacheDel k s)"
    by (auto simp: CacheDel_def cache_remove_def Let_def cache_only_def split: option.split)
      (metis cache_only_def cache_only_refl)+
qed

text \<open>Whatever it returns, the check changes nothing but the cache.\<close>

lemma VoteEnvelopeCheck_frame:
  assumes "VoteEnvelopeCheck P n ve b sig txID c s = (r, s')"
  shows "cache_only s s'"
proof -
  have "cache_only s (snd (VoteEnvelopeCheck P n ve b sig txID c s))"
    unfolding VoteEnvelopeCheck_def
    by (auto split: option.split prod.split simp: lazy_check_def Let_def
        intro!: with_res_keeps [where Q = "cache_only s"])
  then show ?thesis using assms by simp
qed

lemma not_voted_Ok: "not_voted P pid k s = Ok u \<longleftrightarrow> EnvelopeExists P pid k False s = Ok False"
  by (auto simp: not_voted_def res_simps split: if_splits)

lemma vote_guards_Ok:
  "vote_guards ve s = Ok (p, et) \<longleftrightarrow> Process_get (ve_ProcessId ve) False s = Ok p \<and> EnvelopeTypeOf p = Some et \<and>
     Mode p \<noteq> None \<and> StartBlock p \<le> st_height s \<and> st_height s \<le> StartBlock p + BlockCount p \<and> Status p = READY \<and>
     \<not> (EncryptedVotes et \<and> (\<exists>k. KeyIndex p = Some k \<and> k < 1))"
proof (cases "Process_get (ve_ProcessId ve) False s")
  case (Ok q)
  then show ?thesis
    by (cases "EnvelopeTypeOf q"; cases "Mode q"; cases "KeyIndex q") (auto simp: vote_guards_def Let_def)
qed (auto simp: vote_guards_def)

lemma encryption_indexes_Ok:
  "encryption_indexes et ve v = Ok v' \<longleftrightarrow>
     v' = (if EncryptedVotes et then v\<lparr>v_EncryptionKeyIndexes := ve_EncryptionKeyIndexes ve\<rparr> else v) \<and>
     (EncryptedVotes et \<longrightarrow> ve_EncryptionKeyIndexes ve \<noteq> [])"
  by (auto simp: encryption_indexes_def)

text \<open>The vote a full check builds.\<close>

definition built_vote :: "VoteEnvelope \<Rightarrow> EnvelopeType \<Rightarrow> bytes \<Rightarrow> nat \<Rightarrow> state \<Rightarrow> Vote" where
  "built_vote ve et nullifier weight s = \<lparr>v_Height = st_height s, v_ProcessId = ve_ProcessId ve,
     v_Nullifier = Some nullifier, v_VotePackage = ve_VotePackage ve, v_Weight = big_Bytes weight,
     v_EncryptionKeyIndexes = (if EncryptedVotes et then ve_EncryptionKeyIndexes ve else [])\<rparr>"

lemma signed_check_Ok:
  "signed_check P ve p et b sig s = Ok (v, vid) \<longleftrightarrow>
     (\<exists>pr pub addr w. ve_Proof ve = Some pr \<and> PubKeyFromSignature P b sig = Ok pub \<and> AddrFromPublicKey P pub = Ok addr \<and>
       EnvelopeExists P (ve_ProcessId ve) (GenerateNullifier P addr (ve_ProcessId ve)) False s = Ok False \<and>
       VerifyProof P p pr pub addr = Ok (True, w) \<and> vid = VoterIDTypeECDSA # pub \<and>
       (EncryptedVotes et \<longrightarrow> ve_EncryptionKeyIndexes ve \<noteq> []) \<and>
       v = built_vote ve et (GenerateNullifier P addr (ve_ProcessId ve)) w s)"
proof -
  have "v_ProcessId (if EncryptedVotes et then (new_vote ve s)\<lparr>v_EncryptionKeyIndexes := ve_EncryptionKeyIndexes ve\<rparr>
      else new_vote ve s) = ve_ProcessId ve"
    by (simp add: new_vote_def)
  then show ?thesis
    by (cases "ve_Proof ve")
      (auto simp: signed_check_def res_simps encryption_indexes_Ok not_voted_Ok Let_def built_vote_def new_vote_def
        split: if_splits)
qed

text \<open>The public inputs of the circuit: the process, its census, the nullifier and the vote.\<close>

definition public_inputs :: "params \<Rightarrow> Process \<Rightarrow> VoteEnvelope \<Rightarrow> nat list" where
  "public_inputs P p ve = map (arbo_BytesToBigInt P)
     [take 16 (bz (ProcessId p)), drop 16 (bz (ProcessId p)), RollingCensusRoot p, ve_Nullifier ve,
      take 16 (Sha256 P (ve_VotePackage ve)), drop 16 (Sha256 P (ve_VotePackage ve))]"

lemma split_16_Ok:
  "split_16 P b = Ok xs \<Longrightarrow> xs = [arbo_BytesToBigInt P (take 16 b), arbo_BytesToBigInt P (drop 16 b)]"
  by (auto simp: split_16_def split: if_splits)

lemma anonymous_check_Ok:
  assumes "anonymous_check P n ve p et s = Ok (v, vid)"
  shows "\<exists>zk i. ve_Proof ve = Some (Proof_ZkSnark (Some zk)) \<and> sint (zk_CircuitParametersIndex zk) = int i \<and> i < n \<and>
     EnvelopeExists P (ve_ProcessId ve) (ve_Nullifier ve) False s = Ok False \<and>
     zk_Verify P i zk (public_inputs P p ve) \<and> v = built_vote ve et (ve_Nullifier ve) 1 s \<and> vid = []"
proof -
  obtain pr where pr: "ve_Proof ve = Some pr" using assms by (cases "ve_Proof ve") (auto simp: anonymous_check_def)
  obtain zk where zk: "GetZkSnark pr = Some zk"
    using assms pr by (cases "GetZkSnark pr") (auto simp: anonymous_check_def)
  let ?i = "sint (zk_CircuitParametersIndex zk)"
  obtain pid01 hash01 where i: "\<not> (int n \<le> ?i \<or> ?i < 0)"
    and ex: "EnvelopeExists P (ve_ProcessId ve) (ve_Nullifier ve) False s = Ok False"
    and sp: "split_16 P (bz (ProcessId p)) = Ok pid01" "split_16 P (Sha256 P (ve_VotePackage ve)) = Ok hash01"
    and vf: "zk_Verify P (nat ?i) zk (pid01 @ [arbo_BytesToBigInt P (RollingCensusRoot p),
           arbo_BytesToBigInt P (ve_Nullifier ve)] @ hash01)"
    and v: "v = built_vote ve et (ve_Nullifier ve) 1 s" "vid = []"
    using assms pr zk
    by (auto simp: anonymous_check_def res_simps Let_def encryption_indexes_Ok not_voted_Ok built_vote_def new_vote_def
        split: if_splits)
  have "zk_Verify P (nat ?i) zk (public_inputs P p ve)"
    using vf split_16_Ok [OF sp(1)] split_16_Ok [OF sp(2)] by (simp add: public_inputs_def)
  moreover have "pr = Proof_ZkSnark (Some zk)" using zk by (auto simp: GetZkSnark_def split: ProofPayload.splits)
  moreover have "?i = int (nat ?i)" and "nat ?i < n" using i by auto
  ultimately show ?thesis using pr ex v by blast
qed

lemma VoteEnvelopeCheck_Ok:
  assumes "VoteEnvelopeCheck P n ve_ptr b sig txID c s = (Ok (v, vid), s')"
  shows "\<exists>ve p et. ve_ptr = Some ve \<and> vote_guards ve s = Ok (p, et) \<and> (\<not> Anonymous et \<longrightarrow> sig \<noteq> None) \<and>
     (case CacheGetCopy txID s of
        Some cached \<Rightarrow> c \<and> v = cached\<lparr>v_Height := st_height s\<rparr> \<and> vid = [] \<and> s' = CacheDel txID s \<and>
          EnvelopeExists P (v_ProcessId v) (bz (v_Nullifier v)) False s = Ok False
      | None \<Rightarrow> s' = (if c then s else CacheAdd P txID (Some v) s) \<and>
          (if Anonymous et then anonymous_check P n ve p et s else signed_check P ve p et b (bz sig) s) = Ok (v, vid))"
proof -
  obtain ve where ve: "ve_ptr = Some ve" using assms by (cases ve_ptr) (auto simp: VoteEnvelopeCheck_def)
  obtain p et where g: "vote_guards ve s = Ok (p, et)"
    using assms ve by (cases "vote_guards ve s") (auto simp: VoteEnvelopeCheck_def)
  show ?thesis
  proof (cases "CacheGetCopy txID s")
    case None
    then show ?thesis using assms ve g by (auto simp: VoteEnvelopeCheck_def res_simps split: if_splits)
  next
    case (Some cached)
    then show ?thesis
      using assms ve g
      by (auto simp: VoteEnvelopeCheck_def res_simps lazy_check_def Let_def not_voted_Ok split: if_splits)
  qed
qed


definition proof0 :: ProofPayload where
  "proof0 = Proof_Arbo (Some \<lparr>pa_Type = ARBO_BLAKE2B, pa_Value = None, pa_Siblings = [1, 2, 3]\<rparr>)"

definition envelope0 :: VoteEnvelope where
  "envelope0 = \<lparr>ve_Nonce = [], ve_ProcessId = pid0,
     ve_Proof = Some proof0,
     ve_VotePackage = [5], ve_Nullifier = [], ve_EncryptionKeyIndexes = []\<rparr>"

definition signed_type :: EnvelopeType where
  "signed_type = \<lparr>Serial = False, Anonymous = False, EncryptedVotes = False, UniqueValues = False, CostFromWeight = False\<rparr>"

lemma proc0_proof:
  "VerifyProof params0 (proc0\<lparr>CensusRoot := r, CensusURI := u\<rparr>) proof0 pub addr = Ok (r = [1, 2, 3], 1)"
  "VerifyProof params0 proc0 proof0 pub addr = Ok (True, 1)"
  by (auto simp: VerifyProof_def proc0_def proof0_def VerifyProofOffChainTree_def GetArbo_def
      of_option_def tree_VerifyProof_def)

lemma envelope0_sel [simp]: "ve_ProcessId envelope0 = pid0" "ve_Proof envelope0 = Some proof0"
  by (simp_all add: envelope0_def)

lemma envelope0_guards: "vote_guards envelope0 proc_state = Ok (proc0, signed_type)"
  by (simp add: vote_guards_Ok signed_type_def) (simp add: proc0_def proc_state_def)

lemma no_votes:
  assumes "tr_Votes (st_Tx s) pid0 = []" and "length k = 32"
    and "map_of (tr_Processes (st_Tx s)) pid0 = Some sp" and "length (sp_VotesRoot sp) = 32"
  shows "EnvelopeExists params0 pid0 k False s = Ok False"
proof -
  have "open_votes (st_Tx s) pid0 = Ok []" using assms by (simp add: open_votes_Ok)
  then show ?thesis
    using assms(2) by (simp add: EnvelopeExists_def Envelope_def voteID_def ProcessIDsize_def VoteNullifierSize_def
        mainTreeViewer_def)
qed

lemma nullifier_length: "length (GenerateNullifier params0 a p) = 32"
  by (simp add: GenerateNullifier_def HashRaw_def)

abbreviation vote1 :: Vote where
  "vote1 \<equiv> built_vote envelope0 signed_type (GenerateNullifier params0 (replicate 20 0) pid0) 1 proc_state"

lemma envelope0_signed:
  "signed_check params0 envelope0 proc0 signed_type b (replicate 65 0) proc_state = Ok (vote1, 1 # 2 # replicate 32 0)"
proof -
  have "EnvelopeExists params0 pid0 (GenerateNullifier params0 (replicate 20 0) pid0) False proc_state = Ok False"
    by (rule no_votes [where sp = "\<lparr>sp_Process = proc0, sp_VotesRoot = empty_root\<rparr>"])
      (simp_all add: proc_state_def ex_state_def trees0_def nullifier_length empty_root_def)
  then show ?thesis
    unfolding signed_check_Ok
    by (intro exI [of _ proof0] exI [of _ "2 # replicate 32 0"] exI [of _ "replicate 20 0"] exI [of _ 1])
      (simp add: sig0_key proc0_proof VoterIDTypeECDSA_def signed_type_def)
qed

lemma envelope0_accepted:
  "VoteEnvelopeCheck params0 0 (Some envelope0) b (Some (replicate 65 0)) txID False proc_state =
     (Ok (vote1, 1 # 2 # replicate 32 0), CacheAdd params0 txID (Some vote1) proc_state)"
proof -
  have "CacheGetCopy txID proc_state = None"
    by (simp add: CacheGetCopy_def CacheGet_def proc_state_def ex_state_def NewState_def)
  moreover have "\<not> Anonymous signed_type" by (simp add: signed_type_def)
  ultimately show ?thesis by (simp add: VoteEnvelopeCheck_def envelope0_guards envelope0_signed)
qed


text \<open>C22. What a vote transaction does in a block depends on the node's own vote cache: a signed vote the
  cache holds is accepted without its census proof being checked again, so that after the census of
  the process has changed and the proof no longer holds, a node that has the vote in its cache accepts
  it and a node with the same trees and no such entry rejects it.\<close>

theorem delivery_depends_on_cache:
  assumes "vote_guards ve s = Ok (p, et)" and "\<not> Anonymous et" and "CacheGetCopy txID s = Some cached"
    and "EnvelopeExists P (v_ProcessId cached) (bz (v_Nullifier cached)) False s = Ok False"
    and "\<forall>pr pub addr w. ve_Proof ve = Some pr \<longrightarrow> PubKeyFromSignature P b sg = Ok pub \<longrightarrow>
       AddrFromPublicKey P pub = Ok addr \<longrightarrow> VerifyProof P p pr pub addr \<noteq> Ok (True, w)"
  shows "fst (VoteEnvelopeCheck P n (Some ve) b (Some sg) txID True s) = Ok (cached\<lparr>v_Height := st_height s\<rparr>, []) \<and>
    \<not> is_ok (fst (VoteEnvelopeCheck P n (Some ve) b (Some sg) txID True (s\<lparr>st_voteCache := []\<rparr>)))"
proof -
  have "Status p = READY" "st_height s \<le> StartBlock p + BlockCount p"
    using assms(1) by (simp_all add: vote_guards_Ok)
  then have "\<not> (StartBlock p + BlockCount p < st_height s \<or> Status p \<noteq> READY)" by simp
  then have one: "fst (VoteEnvelopeCheck P n (Some ve) b (Some sg) txID True s) = Ok (cached\<lparr>v_Height := st_height s\<rparr>, [])"
    using assms(1-4) not_voted_Ok [of P "v_ProcessId cached" "bz (v_Nullifier cached)" s "()"]
    by (simp add: VoteEnvelopeCheck_def lazy_check_def Let_def)
  let ?s = "s\<lparr>st_voteCache := []\<rparr>"
  have g: "vote_guards ve ?s = Ok (p, et)" using assms(1) by (simp add: vote_guards_Ok Process_get_Ok)
  have "CacheGetCopy txID ?s = None" by (simp add: CacheGetCopy_def CacheGet_def)
  moreover have "signed_check P ve p et b sg ?s \<noteq> Ok x" for x
    using assms(5) by (cases x) (auto simp: signed_check_Ok)
  ultimately have "fst (VoteEnvelopeCheck P n (Some ve) b (Some sg) txID True ?s) \<noteq> Ok x" for x
    using g assms(2) by (cases "signed_check P ve p et b sg ?s") (auto simp: VoteEnvelopeCheck_def)
  then show ?thesis using one by (auto simp: is_ok_iff)
qed

text \<open>The scenario: the vote is checked into the cache, the census changes, the vote is delivered.\<close>

lemma census_change_scenario:
  fixes s1 defines "s1 \<equiv> CacheAdd params0 [7] (Some vote1) proc_state"
  shows "\<exists>s. SetProcessCensus params0 pid0 [9] ''ipfs://d'' True s1 = (Ok (), s) \<and>
     vote_guards envelope0 s = Ok (proc0\<lparr>CensusRoot := [9], CensusURI := Some ''ipfs://d''\<rparr>, signed_type) \<and>
     CacheGetCopy [7] s = Some vote1 \<and>
     EnvelopeExists params0 (v_ProcessId vote1) (bz (v_Nullifier vote1)) False s = Ok False"
proof -
  let ?p = "proc0\<lparr>CensusRoot := [9], CensusURI := Some ''ipfs://d''\<rparr>"
  have s1: "s1 = proc_state\<lparr>st_voteCache := [(CK_nullifier (GenerateNullifier params0 (replicate 20 0) pid0), None), (CK_tx [7], Some vote1)]\<rparr>"
    by (simp add: s1_def CacheAdd_def built_vote_def cache_put_def proc_state_def ex_state_def NewState_def)
  have get: "Process_get pid0 False s1 = Ok proc0" by (simp add: s1 Process_get_Ok proc_state_def)
  let ?s = "s1\<lparr>st_Tx := (st_Tx s1)\<lparr>tr_Processes := [(pid0, \<lparr>sp_Process = ?p, sp_VotesRoot = empty_root\<rparr>)]\<rparr>\<rparr>"
  have "updateProcess params0 ?p pid0 s1 = (Ok (), ?s)"
    by (simp add: updateProcess_Ok update_leaf_Ok Tree_Set_Ok s1 proc_state_def put_def)
  then have "SetProcessCensus params0 pid0 [9] ''ipfs://d'' True s1 = (Ok (), ?s)"
    using get by (simp add: SetProcessCensus_def) (simp add: proc0_def CensusOrigins_def)
  moreover have "vote_guards envelope0 ?s = Ok (?p, signed_type)"
    by (simp add: vote_guards_Ok signed_type_def Process_get_Ok s1) (simp add: proc0_def proc_state_def)
  moreover have "CacheGetCopy [7] ?s = Some vote1"
    by (simp add: CacheGetCopy_def CacheGet_def s1 proc_state_def ex_state_def NewState_def)
  moreover have "EnvelopeExists params0 pid0 (GenerateNullifier params0 (replicate 20 0) pid0) False ?s = Ok False"
    by (rule no_votes [where sp = "\<lparr>sp_Process = ?p, sp_VotesRoot = empty_root\<rparr>"])
      (simp_all add: s1 proc_state_def ex_state_def trees0_def nullifier_length empty_root_def)
  ultimately show ?thesis by (auto simp: built_vote_def)
qed

theorem delivery_depends_on_cache_witness:
  "\<exists>s. SetProcessCensus params0 pid0 [9] ''ipfs://d'' True
           (snd (VoteEnvelopeCheck params0 0 (Some envelope0) [] (Some (replicate 65 0)) [7] False proc_state)) = (Ok (), s) \<and>
     is_ok (fst (VoteEnvelopeCheck params0 0 (Some envelope0) [] (Some (replicate 65 0)) [7] True s)) \<and>
     \<not> is_ok (fst (VoteEnvelopeCheck params0 0 (Some envelope0) [] (Some (replicate 65 0)) [7] True (s\<lparr>st_voteCache := []\<rparr>)))"
proof -
  obtain s where s: "SetProcessCensus params0 pid0 [9] ''ipfs://d'' True (CacheAdd params0 [7] (Some vote1) proc_state) = (Ok (), s)"
    and g: "vote_guards envelope0 s = Ok (proc0\<lparr>CensusRoot := [9], CensusURI := Some ''ipfs://d''\<rparr>, signed_type)"
    and c: "CacheGetCopy [7] s = Some vote1"
    and e: "EnvelopeExists params0 (v_ProcessId vote1) (bz (v_Nullifier vote1)) False s = Ok False"
    using census_change_scenario by blast
  have n: "\<not> Anonymous signed_type" by (simp add: signed_type_def)
  have "\<forall>pr pub addr w. ve_Proof envelope0 = Some pr \<longrightarrow> PubKeyFromSignature params0 [] (replicate 65 0) = Ok pub \<longrightarrow>
       AddrFromPublicKey params0 pub = Ok addr \<longrightarrow>
       VerifyProof params0 (proc0\<lparr>CensusRoot := [9], CensusURI := Some ''ipfs://d''\<rparr>) pr pub addr \<noteq> Ok (True, w)"
    by (simp add: proc0_proof)
  note delivery_depends_on_cache [OF g n c e this, of 0]
  then show ?thesis using s by (simp add: envelope0_accepted)
qed

section \<open>No double vote\<close>

text \<open>A vote once stored stays stored whatever votes and operations on processes follow.\<close>

definition votes_kept :: "state \<Rightarrow> state \<Rightarrow> bool" where
  "votes_kept s s' \<longleftrightarrow> (\<forall>pid k. map_of (tr_Votes (st_Tx s) pid) k \<noteq> None \<longrightarrow> map_of (tr_Votes (st_Tx s') pid) k \<noteq> None) \<and>
     (\<forall>pid. map_of (tr_Processes (st_Tx s)) pid \<noteq> None \<longrightarrow> map_of (tr_Processes (st_Tx s')) pid \<noteq> None)"

lemma votes_kept_eq:
  "tr_Votes (st_Tx s') = tr_Votes (st_Tx s) \<Longrightarrow>
    set (map fst (tr_Processes (st_Tx s))) \<subseteq> set (map fst (tr_Processes (st_Tx s'))) \<Longrightarrow> votes_kept s s'"
  by (auto simp: votes_kept_def map_of_None_keys subset_iff simp del: set_map)

lemma create_rolling_census_votes:
  "tr_Votes (st_Tx (snd (create_rolling_census pid s))) = tr_Votes (st_Tx s) \<and>
   tr_Processes (st_Tx (snd (create_rolling_census pid s))) = tr_Processes (st_Tx s)"
proof -
  let ?Q = "\<lambda>t. tr_Votes (st_Tx t) = tr_Votes (st_Tx s) \<and> tr_Processes (st_Tx t) = tr_Processes (st_Tx s)"
  have "?Q (set_censusLen pid 0 s)" by (simp add: set_censusLen_def)
  then show ?thesis
    unfolding create_rolling_census_def Let_def by (intro with_res_keeps [where Q = ?Q]) simp_all
qed

lemma AddProcess_votes:
  assumes "AddProcess P p s = (Ok (), s')"
  shows "votes_kept s s'"
proof -
  let ?k = "bz (ProcessId p)"
  obtain s1 s2 where s1: "DeepAdd P 256 tr_Processes set_Processes ?k
        \<lparr>sp_Process = added_process p, sp_VotesRoot = empty_root\<rparr> s = (Ok (), s1)"
    and s2: "(if has_preRegister p \<and> has_anonymous p then create_rolling_census ?k s1 else (Ok (), s1)) = (Ok (), s2)"
    and s': "st_Tx s' = st_Tx (setProcessIDByStartBlock ?k (StartBlock p) s2)"
    using AddProcess_Ok [OF assms] by blast
  have "tr_Votes (st_Tx s2) = tr_Votes (st_Tx s1)" "tr_Processes (st_Tx s2) = tr_Processes (st_Tx s1)"
    using s2 create_rolling_census_votes [of ?k s1] by (auto split: if_splits)
  then show ?thesis
    using s1 s' by (intro votes_kept_eq)
      (auto simp: DeepAdd_Ok Tree_Add_Ok setProcessIDByStartBlock_def Let_def simp del: set_map)
qed

lemma AddVote_kept: "votes_kept s (snd (AddVote P v w s))"
proof -
  have inc: "votes_kept s (snd (voteCountInc (set_votes pid t' s)))"
    if "Tree_Add P 256 (tr_Votes (st_Tx s) pid) k x = Ok t'" for pid k x t'
  proof -
    have "votes_kept s (set_votes pid t' s)"
      using that by (auto simp: Tree_Add_Ok votes_kept_def set_votes_def)
    moreover have "tr_Votes (st_Tx (snd (voteCountInc u))) = tr_Votes (st_Tx u) \<and>
        tr_Processes (st_Tx (snd (voteCountInc u))) = tr_Processes (st_Tx u)" for u
      unfolding voteCountInc_def Let_def
      by (rule with_res_keeps [where Q = "\<lambda>t. tr_Votes (st_Tx t) = tr_Votes (st_Tx u) \<and>
        tr_Processes (st_Tx t) = tr_Processes (st_Tx u)"]) simp_all
    ultimately show ?thesis by (simp add: votes_kept_def)
  qed
  have "votes_kept s (emit ev t)" if "votes_kept s t" for ev t using that by (simp add: votes_kept_def)
  then show ?thesis
    unfolding AddVote_def Let_def
    by (intro with_res_keeps [where Q = "votes_kept s"] and_then_keeps [where Q = "votes_kept s"])
      (auto simp: votes_kept_eq open_votes_Ok intro: inc)
qed

lemma vote_step_votes_kept: "vote_step P s s' \<Longrightarrow> votes_kept s s'"
proof (induction rule: vote_step.induct)
  case (cast s v w)
  then show ?case by (rule AddVote_kept)
next
  case (on_process s s')
  then show ?case
    by (induction rule: process_step.induct)
      (use process_operations_same_votes AddProcess_votes in
        \<open>auto simp: same_votes_def simp del: set_map intro!: votes_kept_eq\<close>)
qed

lemma votes_kept_steps: "(vote_step P)\<^sup>*\<^sup>* s s' \<Longrightarrow> votes_kept s s'"
  by (induction rule: rtranclp_induct) (auto simp: votes_kept_def dest!: vote_step_votes_kept)

lemma voted_not_new:
  assumes "map_of (tr_Votes (st_Tx s) pid) (Sha256 P (pid @ k)) \<noteq> None"
    and "map_of (tr_Processes (st_Tx s)) pid \<noteq> None"
  shows "EnvelopeExists P pid k False s \<noteq> Ok False"
proof (cases "voteID P pid k")
  case (Ok vid)
  obtain sp where sp: "map_of (tr_Processes (st_Tx s)) pid = Some sp" using assms(2) by blast
  have "vid = Sha256 P (pid @ k)" using Ok by (simp add: voteID_Ok)
  then show ?thesis
    using Ok assms(1) sp
    by (cases "length (sp_VotesRoot sp) = 32")
      (auto simp: EnvelopeExists_def Envelope_def mainTreeViewer_def open_votes_def Tree_Get_def of_option_def
        processGetVotesRoot_def defaultHashLen_def)
next
  case (Fail e)
  then have "\<not> errors_is e ErrProcessNotFound \<and> \<not> errors_is e ErrVoteDoesNotExist"
    by (auto simp: voteID_def split: if_splits)
  then show ?thesis using Fail by (simp add: EnvelopeExists_def Envelope_def)
next
  case (Panic m)
  then show ?thesis by (simp add: EnvelopeExists_def Envelope_def)
qed

lemma VoteEnvelopeCheck_new:
  assumes "VoteEnvelopeCheck P n ve b sig txID c s = (Ok (v, vid), s')"
  shows "EnvelopeExists P (v_ProcessId v) (bz (v_Nullifier v)) False s = Ok False"
proof -
  obtain ve' p et where chk: "case CacheGetCopy txID s of
        Some cached \<Rightarrow> c \<and> v = cached\<lparr>v_Height := st_height s\<rparr> \<and> vid = [] \<and> s' = CacheDel txID s \<and>
          EnvelopeExists P (v_ProcessId v) (bz (v_Nullifier v)) False s = Ok False
      | None \<Rightarrow> s' = (if c then s else CacheAdd P txID (Some v) s) \<and>
          (if Anonymous et then anonymous_check P n ve' p et s else signed_check P ve' p et b (bz sig) s) = Ok (v, vid)"
    using VoteEnvelopeCheck_Ok [OF assms] by blast
  then show ?thesis
    by (cases "CacheGetCopy txID s"; cases "Anonymous et")
      (auto simp: signed_check_Ok built_vote_def dest!: anonymous_check_Ok)
qed

text \<open>C3. Nobody votes twice: after a vote has been accepted and stored, no check made after any further
  votes and operations on processes, whatever the cache holds by then, accepts a vote of the same
  process with the same nullifier.\<close>

theorem no_double_vote:
  assumes "VoteEnvelopeCheck P n ve b sig txID True s = (Ok (v, vid), s1)"
    and "AddVote P v vid s1 = (Ok (), s2)" and "(vote_step P)\<^sup>*\<^sup>* s2 s3" and "cache_only s3 t"
    and "VoteEnvelopeCheck P n2 ve2 b2 sig2 txID2 c t = (Ok (v2, vid2), t')"
  shows "\<not> (v_ProcessId v2 = v_ProcessId v \<and> bz (v_Nullifier v2) = bz (v_Nullifier v))"
proof
  assume same: "v_ProcessId v2 = v_ProcessId v \<and> bz (v_Nullifier v2) = bz (v_Nullifier v)"
  let ?pid = "v_ProcessId v" and ?k = "bz (v_Nullifier v)"
  have "map_of (tr_Votes (st_Tx s2) ?pid) (Sha256 P (?pid @ ?k)) \<noteq> None"
    "map_of (tr_Processes (st_Tx s2)) ?pid \<noteq> None"
    using AddVote_Ok [OF assms(2)] by (auto simp: open_votes_Ok)
  then have "map_of (tr_Votes (st_Tx t) ?pid) (Sha256 P (?pid @ ?k)) \<noteq> None"
    "map_of (tr_Processes (st_Tx t)) ?pid \<noteq> None"
    using votes_kept_steps [OF assms(3)] assms(4) by (auto simp: votes_kept_def cache_only_def)
  then have "EnvelopeExists P ?pid ?k False t \<noteq> Ok False" by (rule voted_not_new)
  moreover have "EnvelopeExists P (v_ProcessId v2) (bz (v_Nullifier v2)) False t = Ok False"
    using VoteEnvelopeCheck_new [OF assms(5)] .
  ultimately show False using same by simp
qed

lemma envelope0_delivered:
  "VoteEnvelopeCheck params0 0 (Some envelope0) b (Some (replicate 65 0)) txID True proc_state =
     (Ok (vote1, 1 # 2 # replicate 32 0), proc_state)"
proof -
  have "CacheGetCopy txID proc_state = None"
    by (simp add: CacheGetCopy_def CacheGet_def proc_state_def ex_state_def NewState_def)
  moreover have "\<not> Anonymous signed_type" by (simp add: signed_type_def)
  ultimately show ?thesis by (simp add: VoteEnvelopeCheck_def envelope0_guards envelope0_signed)
qed

lemma built_vote_sel [simp]:
  "v_ProcessId (built_vote ve et k w s) = ve_ProcessId ve" "v_Nullifier (built_vote ve et k w s) = Some k"
  by (simp_all add: built_vote_def)

lemma vote1_stored: "AddVote params0 vote1 w proc_state = (Ok (), snd (AddVote params0 vote1 w proc_state))"
proof -
  have "open_votes (st_Tx proc_state) pid0 = Ok []"
    by (simp add: open_votes_Ok proc_state_def empty_root_def ex_state_def trees0_def)
  moreover have "ns_voteCount (st_Tx proc_state) = None"
    by (simp add: proc_state_def ex_state_def trees0_def)
  ultimately have "fst (AddVote params0 vote1 w proc_state) = Ok ()"
    using replicate_8_zero nullifier_length
    by (simp add: AddVote_def voteID_def ProcessIDsize_def VoteNullifierSize_def Let_def
        Tree_Add_def voteCountInc_def set_votes_def)
  then show ?thesis by (cases "AddVote params0 vote1 w proc_state") simp
qed

lemma sig1_key:
  "PubKeyFromSignature params0 m (replicate 64 1 @ [0]) = Ok (2 # replicate 32 1)"
  "AddrFromPublicKey params0 (2 # replicate 32 1) = Ok (replicate 20 1)"
  by (simp_all add: PubKeyFromSignature_def normalise_v_def SignatureLength_def AddrFromPublicKey_def Let_def
      DecompressPubKey_def PubKeyLengthBytes_def of_option_def take_replicate nth_append)

lemma other_nullifier:
  "Sha256 params0 (pid0 @ GenerateNullifier params0 (replicate 20 1) pid0) \<noteq>
   Sha256 params0 (pid0 @ GenerateNullifier params0 (replicate 20 0) pid0)"
  by (simp add: GenerateNullifier_def HashRaw_def)

text \<open>A second voter after the first one's vote, on a node with an empty cache.\<close>

lemma second_voter:
  fixes s k defines "s \<equiv> (snd (AddVote params0 vote1 (1 # 2 # replicate 32 0) proc_state))\<lparr>st_voteCache := []\<rparr>"
    and "k \<equiv> GenerateNullifier params0 (replicate 20 1) pid0"
  shows "VoteEnvelopeCheck params0 0 (Some envelope0) [] (Some (replicate 64 1 @ [0])) [] True s =
      (Ok (built_vote envelope0 signed_type k 1 s, 1 # 2 # replicate 32 1), s)"
proof -
  obtain key x m where key: "key = Sha256 params0 (pid0 @ GenerateNullifier params0 (replicate 20 0) pid0)"
    and tx: "st_Tx s = (st_Tx proc_state)\<lparr>tr_Votes := (tr_Votes (st_Tx proc_state))(pid0 :=
         leaf_insert (arbo_before params0) key x (tr_Votes (st_Tx proc_state) pid0)), ns_voteCount := Some m\<rparr>"
    and h: "st_height s = st_height proc_state"
    using AddVote_Ok [OF vote1_stored [of "1 # 2 # replicate 32 0"]] unfolding s_def by auto
  have "tr_Votes (st_Tx proc_state) pid0 = []" by (simp add: proc_state_def ex_state_def trees0_def)
  then have map: "map_of (tr_Votes (st_Tx s) pid0) (Sha256 params0 (pid0 @ k)) = None"
    using tx other_nullifier [folded k_def key] by simp
  have op: "open_votes (st_Tx s) pid0 = Ok (tr_Votes (st_Tx s) pid0)"
    using tx by (simp add: open_votes_Ok proc_state_def empty_root_def)
  have "voteID params0 pid0 k = Ok (Sha256 params0 (pid0 @ k))"
    by (simp only: voteID_Ok pid0_length nullifier_length k_def)
  then have new: "EnvelopeExists params0 pid0 k False s = Ok False"
    using map op by (simp add: EnvelopeExists_def Envelope_def mainTreeViewer_def)
  have "Process_get pid0 False s = Ok proc0" using proc_state_get tx by (simp only: Process_get_Ok) simp
  then have g: "vote_guards envelope0 s = Ok (proc0, signed_type)"
    using envelope0_guards h by (simp add: vote_guards_Ok)
  have "signed_check params0 envelope0 proc0 signed_type [] (replicate 64 1 @ [0]) s =
      Ok (built_vote envelope0 signed_type k 1 s, 1 # 2 # replicate 32 1)"
    unfolding signed_check_Ok
    by (intro exI [of _ proof0] exI [of _ "2 # replicate 32 1"] exI [of _ "replicate 20 1"] exI [of _ 1])
      (use new in \<open>simp add: sig1_key proc0_proof VoterIDTypeECDSA_def k_def signed_type_def\<close>)
  moreover have "CacheGetCopy [] s = None" by (simp add: s_def CacheGetCopy_def CacheGet_def)
  moreover have "\<not> Anonymous signed_type" by (simp add: signed_type_def)
  ultimately show ?thesis using g by (simp add: VoteEnvelopeCheck_def)
qed

theorem no_double_vote_witness:
  "GenerateNullifier params0 (replicate 20 1) pid0 \<noteq> GenerateNullifier params0 (replicate 20 0) pid0"
proof -
  let ?s = "snd (AddVote params0 vote1 (1 # 2 # replicate 32 0) proc_state)"
  have "cache_only ?s (?s\<lparr>st_voteCache := []\<rparr>)" by (auto simp: cache_only_def)
  from no_double_vote [OF envelope0_delivered [of "[]" "[]"] vote1_stored rtranclp.rtrancl_refl this second_voter]
  show ?thesis by simp
qed

end
