(* ===== verification/Block_Commit.thy ===== *)
theory Block_Commit
  imports Census
begin

text \<open>
  The end and the start of a block on the state (\<^verbatim>\<open>Save\<close>, \<^verbatim>\<open>Rollback\<close> and the counters of
  \<^verbatim>\<open>src/vochain/state.go\<close>, over \<^verbatim>\<open>Commit\<close> and \<^verbatim>\<open>propagateRoot\<close> of \<^verbatim>\<open>src/statedb/treeupdate.go\<close>): fixing the census
  size of the processes that start next, writing the roots of the changed subtrees of a process into
  its leaf, making the open trees the committed ones, and calling the listeners. The root of the main
  tree is a parameter of \<open>Save\<close>; the errors of the database are not modelled.
\<close>

section \<open>The rolling census of the processes that start\<close>

fun setRollingCensusSize :: "params \<Rightarrow> bytes list \<Rightarrow> state \<Rightarrow> unit res \<times> state" where
  "setRollingCensusSize P [] s = (Ok (), s)"
| "setRollingCensusSize P (pid # pids) s =
     with_res (getProcess (st_Tx s) pid) s (\<lambda>process.
     case Mode process of
       None \<Rightarrow> (Panic ''nil pointer dereference'', s)
     | Some mode \<Rightarrow>
         if \<not> PreRegister mode then setRollingCensusSize P pids s
         else with_res (getRollingCensusSize (st_Tx s) pid) s (\<lambda>censusSize.
           and_then (update_leaf P (process\<lparr>RollingCensusSize := Some censusSize\<rparr>) pid s)
             (\<lambda>_ s. setRollingCensusSize P pids s)))"

section \<open>Commit\<close>

text \<open>A subtree of a process that differs from the committed one has its root put in the leaf.\<close>

definition propagate_leaf :: "params \<Rightarrow> trees \<Rightarrow> trees \<Rightarrow> bytes \<Rightarrow> StateDBProcess \<Rightarrow> StateDBProcess" where
  "propagate_leaf P committed T pid sp =
     (let sp = (if tr_Votes T pid \<noteq> tr_Votes committed pid
                then processSetVotesRoot sp (arbo_root_votes P (tr_Votes T pid)) else sp);
          sp = (if tr_Census T pid \<noteq> tr_Census committed pid
                then processSetCensusRoot sp (arbo_root_poseidon P (tr_Census T pid)) else sp)
      in if tr_PreRegister T pid \<noteq> tr_PreRegister committed pid
         then processSetPreRegisterNullifiersRoot sp (arbo_root_sha256 P (tr_PreRegister T pid)) else sp)"

definition propagateRoot_processes :: "params \<Rightarrow> trees \<Rightarrow> trees \<Rightarrow> trees" where
  "propagateRoot_processes P committed T =
     T\<lparr>tr_Processes := map (\<lambda>(pid, sp). (pid, propagate_leaf P committed T pid sp)) (tr_Processes T)\<rparr>"

definition TreeTx_Commit :: "params \<Rightarrow> u32 \<Rightarrow> state \<Rightarrow> state" where
  "TreeTx_Commit P version s =
     (let T = propagateRoot_processes P (st_View s) (st_Tx s)
      in s\<lparr>st_Tx := T, st_View := T, st_version := version\<rparr>)"

text \<open>The listeners are told of the commit one after another; a halt stops there.\<close>

fun commit_listeners :: "u32 \<Rightarrow> listener list \<Rightarrow> state \<Rightarrow> unit res \<times> state" where
  "commit_listeners height [] s = (Ok (), s)"
| "commit_listeners height (l # ls) s =
     (let s = s\<lparr>st_events := st_events s @ [OnCommit height]\<rparr>
      in case l_Commit l height of
           Some ErrHaltVochain \<Rightarrow> (Fail ErrHaltVochain, s)
         | _ \<Rightarrow> commit_listeners height ls s)"

definition Save :: "params \<Rightarrow> (trees \<Rightarrow> bytes) \<Rightarrow> state \<Rightarrow> bytes res \<times> state" where
  "Save P mainRoot s =
     (let height = st_height s;
          pidsStartNextBlock = processIDsByStartBlock (height + 1) s
      in and_then (hide_st ''cannot set rollingCensusSize for processes''
                     (setRollingCensusSize P pidsStartNextBlock s)) (\<lambda>_ s.
         let s = TreeTx_Commit P height s
         in and_then (commit_listeners height (st_listeners s) s) (\<lambda>_ s.
            let s = (if pidsStartNextBlock \<noteq> [] then emit (OnProcessesStart pidsStartNextBlock) s else s)
            in (Ok (mainRoot (st_View s)), s))))"

definition LastHeight :: "state \<Rightarrow> u32" where "LastHeight s = st_version s"

section \<open>Rollback and counters\<close>

definition Rollback :: "state \<Rightarrow> state" where
  "Rollback s = (let s = emit OnRollback s in s\<lparr>st_Tx := st_View s, st_txCounter := 0\<rparr>)"

definition SetHeight :: "u32 \<Rightarrow> state \<Rightarrow> state" where "SetHeight height s = s\<lparr>st_height := height\<rparr>"

definition TxCounterAdd :: "state \<Rightarrow> state" where "TxCounterAdd s = s\<lparr>st_txCounter := st_txCounter s + 1\<rparr>"

end
