(* ===== verification/Transactions.thy ===== *)
theory Transactions
  imports Process_Checks Vote_Check Block_Commit
begin

text \<open>
  The execution of transactions (\<^verbatim>\<open>AddTx\<close> of \<^verbatim>\<open>src/vochain/transaction.go\<close>): for every type of transaction
  the check and, when the transaction is committed, the operations on the state, in the order of the
  source. An error after some operations leaves what they did.
\<close>

section \<open>Transactions\<close>

record VochainTx =
  vtx_Tx :: "Tx option"
  vtx_SignedBody :: "bytes option"
  vtx_Signature :: "bytes option"
  vtx_TxID :: bytes

record AddTxResponse =
  rsp_TxHash :: bytes
  rsp_Data :: bytes

definition TxKey :: "params \<Rightarrow> bytes \<Rightarrow> bytes" where "TxKey P content = Sha256 P content"

definition VochainTx_Unmarshal :: "params \<Rightarrow> bytes \<Rightarrow> string \<Rightarrow> VochainTx res" where
  "VochainTx_Unmarshal P content chainID =
     rbind (of_option (Errf ''proto: cannot parse'') (Unmarshal_SignedTx P content)) (\<lambda>(body, signature).
     rbind (of_option (Errf ''proto: cannot parse'') (Unmarshal_Tx P body)) (\<lambda>tx.
       Ok \<lparr>vtx_Tx = Some tx, vtx_SignedBody = Some (BuildVocdoniTransaction P body chainID),
           vtx_Signature = signature, vtx_TxID = TxKey P content\<rparr>))"

text \<open>\<^verbatim>\<open>return response, op()\<close>.\<close>

definition respond :: "AddTxResponse \<Rightarrow> unit res \<times> state \<Rightarrow> AddTxResponse res \<times> state" where
  "respond response r = and_then r (\<lambda>_ s. (Ok response, s))"

definition GetVote :: "Tx option \<Rightarrow> VoteEnvelope option" where
  "GetVote vtx = (case vtx of Some (Some (Tx_Vote t)) \<Rightarrow> t | _ \<Rightarrow> None)"

section \<open>Votes, admin and process transactions\<close>

definition add_vote_tx :: "params \<Rightarrow> nat \<Rightarrow> VochainTx \<Rightarrow> bool \<Rightarrow> AddTxResponse \<Rightarrow> state \<Rightarrow> AddTxResponse res \<times> state" where
  "add_vote_tx P nVKs vtx commit response s =
     and_then (wrap_st ''voteTxCheck'' (VoteEnvelopeCheck P nVKs (GetVote (vtx_Tx vtx)) (bz (vtx_SignedBody vtx))
                 (vtx_Signature vtx) (vtx_TxID vtx) commit s)) (\<lambda>(v, voterID) s.
       let response = response\<lparr>rsp_Data := bz (v_Nullifier v)\<rparr>
       in if commit then respond response (AddVote P v voterID s) else (Ok response, s))"

definition add_admin_tx :: "params \<Rightarrow> VochainTx \<Rightarrow> bool \<Rightarrow> AddTxResponse \<Rightarrow> state \<Rightarrow> AddTxResponse res \<times> state" where
  "add_admin_tx P vtx commit response s =
     with_res (wrap ''adminTxCheck'' (AdminTxCheck P (vtx_Tx vtx) (vtx_SignedBody vtx) (vtx_Signature vtx) s)) s (\<lambda>_.
     if \<not> commit then (Ok response, s)
     else case GetAdmin (vtx_Tx vtx) of
       None \<Rightarrow> (Panic ''nil pointer dereference'', s)
     | Some tx \<Rightarrow>
     if ad_Txtype tx = ADD_ORACLE
     then and_then (wrap_st ''addOracle'' (AddOracle P (BytesToAddress P (ad_Address tx)) s))
            (\<lambda>_ s. respond response (IncrementTreasurerNonce P s))
     else if ad_Txtype tx = REMOVE_ORACLE
     then and_then (wrap_st ''removeOracle'' (RemoveOracle P (BytesToAddress P (ad_Address tx)) s))
            (\<lambda>_ s. respond response (IncrementTreasurerNonce P s))
     else if ad_Txtype tx = ADD_PROCESS_KEYS
     then respond response (wrap_st ''addProcessKeys'' (AddProcessKeys P tx s))
     else if ad_Txtype tx = REVEAL_PROCESS_KEYS
     then respond response (wrap_st ''revealProcessKeys'' (RevealProcessKeys P tx s))
     else (Fail (Errf ''tx not supported''), s))"

definition add_new_process_tx ::
  "params \<Rightarrow> string \<Rightarrow> VochainTx \<Rightarrow> bool \<Rightarrow> AddTxResponse \<Rightarrow> state \<Rightarrow> AddTxResponse res \<times> state" where
  "add_new_process_tx P chainID vtx commit response s =
     with_res (wrap ''newProcess'' (NewProcessTxCheck P chainID (vtx_Tx vtx) (vtx_SignedBody vtx) (vtx_Signature vtx) s)) s
     (\<lambda>(p, txSender).
       let response = response\<lparr>rsp_Data := bz (ProcessId p)\<rparr>
       in if commit
          then and_then (wrap_st ''newProcess: addProcess'' (AddProcess P p s)) (\<lambda>_ s.
               and_then (wrap_st ''newProcess: cannot increment process index'' (IncrementAccountProcessIndex P txSender s)) (\<lambda>_ s.
                 respond response (SubtractCostIncrementNonce P txSender NEW_PROCESS s)))
          else (Ok response, s))"

text \<open>What a checked change of a process does; the errors are reported without being wrapped.\<close>

definition set_process_op :: "params \<Rightarrow> SetProcessTx \<Rightarrow> state \<Rightarrow> unit res \<times> state" where
  "set_process_op P tx s =
     (case spt_Txtype tx of
        SET_PROCESS_STATUS \<Rightarrow>
          (case spt_Status tx of
             None \<Rightarrow> (Fail (Errf ''set process status, status unknown''), s)
           | Some st \<Rightarrow>
               if st = PROCESS_UNKNOWN then (Fail (Errf ''set process status, status unknown''), s)
               else hide_st ''setProcessStatus: %s'' (SetProcessStatus P (spt_ProcessId tx) st True s))
      | SET_PROCESS_RESULTS \<Rightarrow>
          (case spt_Results tx of
             None \<Rightarrow> (Fail (Errf ''set process results, results is nil''), s)
           | Some results \<Rightarrow> hide_st ''setProcessResults: %s'' (SetProcessResults P (spt_ProcessId tx) results True s))
      | SET_PROCESS_CENSUS \<Rightarrow>
          (case spt_CensusRoot tx of
             None \<Rightarrow> (Fail (Errf ''set process census, census root is nil''), s)
           | Some root \<Rightarrow> hide_st ''setProcessCensus: %s'' (SetProcessCensus P (spt_ProcessId tx) root
               (case spt_CensusURI tx of None \<Rightarrow> [] | Some u \<Rightarrow> u) True s))
      | _ \<Rightarrow> (Fail (Errf ''unknown set process tx type''), s))"

definition add_set_process_tx :: "params \<Rightarrow> VochainTx \<Rightarrow> bool \<Rightarrow> AddTxResponse \<Rightarrow> state \<Rightarrow> AddTxResponse res \<times> state" where
  "add_set_process_tx P vtx commit response s =
     with_res (wrap ''setProcess'' (SetProcessTxCheck P (vtx_Tx vtx) (vtx_SignedBody vtx) (vtx_Signature vtx) s)) s (\<lambda>txSender.
     if \<not> commit then (Ok response, s)
     else case GetSetProcess (vtx_Tx vtx) of
       None \<Rightarrow> (Panic ''nil pointer dereference'', s)
     | Some tx \<Rightarrow> and_then (set_process_op P tx s) (\<lambda>_ s.
         respond response (SubtractCostIncrementNonce P txSender (spt_Txtype tx) s)))"

definition add_register_key_tx :: "params \<Rightarrow> VochainTx \<Rightarrow> bool \<Rightarrow> AddTxResponse \<Rightarrow> state \<Rightarrow> AddTxResponse res \<times> state" where
  "add_register_key_tx P vtx commit response s =
     and_then (wrap_st ''registerKeyTx'' (RegisterKeyTxCheck P (vtx_Tx vtx) (bz (vtx_SignedBody vtx)) (vtx_Signature vtx) commit s)) (\<lambda>_ s.
     if \<not> commit then (Ok response, s)
     else case GetRegisterKey (vtx_Tx vtx) of
       None \<Rightarrow> (Panic ''nil pointer dereference'', s)
     | Some tx \<Rightarrow> with_res (of_option (Errf ''cannot parse weight %s'') (SetString (rk_Weight tx))) s (\<lambda>weight.
         respond response (AddToRollingCensus P (rk_ProcessId tx) (bz (rk_NewKey tx)) weight s)))"

section \<open>Account transactions\<close>

definition set_account_info_op :: "params \<Rightarrow> SetAccountInfoTx \<Rightarrow> setAccountInfoTxCheckValues \<Rightarrow> state \<Rightarrow> unit res \<times> state" where
  "set_account_info_op P tx txValues s =
     (if sv_CreateAccount txValues
      then if sv_CreateAccountWithFaucet txValues
        then and_then (wrap_st ''setAccountInfoTxCheck: createAccount''
                         (CreateAccount P (sv_TxSender txValues) (sai_InfoURI tx) [] 0 s)) (\<lambda>_ s.
               ConsumeFaucetPayload P (sv_FaucetPayloadSigner txValues)
                 (case sai_FaucetPackage tx of
                    None \<Rightarrow> Some \<lparr>fp_Identifier = 0, fp_To = [], fp_Amount = 0\<rparr>
                  | Some pkg \<Rightarrow> (case fk_Payload pkg of
                      None \<Rightarrow> Some \<lparr>fp_Identifier = 0, fp_To = [], fp_Amount = 0\<rparr>
                    | Some fp \<Rightarrow> Some fp)) SET_ACCOUNT_INFO s)
        else CreateAccount P (sv_TxSender txValues) (sai_InfoURI tx) [] 0 s
      else and_then (wrap_st ''setAccountInfoURI'' (SetAccountInfoURI P (sv_Account txValues) (sai_InfoURI tx) s)) (\<lambda>_ s.
             SubtractCostIncrementNonce P (sv_TxSender txValues) SET_ACCOUNT_INFO s))"

definition add_account_info_tx :: "params \<Rightarrow> VochainTx \<Rightarrow> bool \<Rightarrow> AddTxResponse \<Rightarrow> state \<Rightarrow> AddTxResponse res \<times> state" where
  "add_account_info_tx P vtx commit response s =
     with_res (wrap ''setAccountInfoTxCheck'' (SetAccountInfoTxCheck P (vtx_Tx vtx) (vtx_SignedBody vtx) (vtx_Signature vtx) s)) s
     (\<lambda>txValues. if \<not> commit then (Ok response, s)
       else case GetSetAccountInfo (vtx_Tx vtx) of
         None \<Rightarrow> (Panic ''nil pointer dereference'', s)
       | Some tx \<Rightarrow> respond response (set_account_info_op P tx txValues s))"

definition add_costs_tx :: "params \<Rightarrow> VochainTx \<Rightarrow> bool \<Rightarrow> AddTxResponse \<Rightarrow> state \<Rightarrow> AddTxResponse res \<times> state" where
  "add_costs_tx P vtx commit response s =
     with_res (wrap ''setTransactionCostsTx'' (SetTransactionCostsTxCheck P (vtx_Tx vtx) (vtx_SignedBody vtx) (vtx_Signature vtx) s)) s
     (\<lambda>cost. if \<not> commit then (Ok response, s)
       else case GetSetTransactionCosts (vtx_Tx vtx) of
         None \<Rightarrow> (Panic ''nil pointer dereference'', s)
       | Some tx \<Rightarrow> and_then (wrap_st ''setTransactionCosts'' (SetTxCost P (stc_Txtype tx) cost s)) (\<lambda>_ s.
           respond response (IncrementTreasurerNonce P s)))"

definition add_mint_tx :: "params \<Rightarrow> VochainTx \<Rightarrow> bool \<Rightarrow> AddTxResponse \<Rightarrow> state \<Rightarrow> AddTxResponse res \<times> state" where
  "add_mint_tx P vtx commit response s =
     with_res (wrap ''mintTokensTx'' (MintTokensTxCheck P (vtx_Tx vtx) (vtx_SignedBody vtx) (vtx_Signature vtx) s)) s
     (\<lambda>(address, amount). if \<not> commit then (Ok response, s)
       else and_then (wrap_st ''mintTokensTx'' (MintBalance P address amount s)) (\<lambda>_ s.
         respond response (IncrementTreasurerNonce P s)))"

definition add_send_tx :: "params \<Rightarrow> VochainTx \<Rightarrow> bool \<Rightarrow> AddTxResponse \<Rightarrow> state \<Rightarrow> AddTxResponse res \<times> state" where
  "add_send_tx P vtx commit response s =
     with_res (wrap ''sendTokensTxCheck'' (SendTokensTxCheck P (vtx_Tx vtx) (vtx_SignedBody vtx) (vtx_Signature vtx) s)) s
     (\<lambda>txValues. if \<not> commit then (Ok response, s)
       else and_then (wrap_st ''sendTokensTx: transferBalance''
                       (TransferBalance P (st_From txValues) (st_To txValues) (st_Value txValues) s)) (\<lambda>_ s.
         respond response (SubtractCostIncrementNonce P (st_From txValues) SEND_TOKENS s)))"

definition add_delegate_tx :: "params \<Rightarrow> VochainTx \<Rightarrow> bool \<Rightarrow> AddTxResponse \<Rightarrow> state \<Rightarrow> AddTxResponse res \<times> state" where
  "add_delegate_tx P vtx commit response s =
     with_res (wrap ''setAccountDelegateTxCheck'' (SetAccountDelegateTxCheck P (vtx_Tx vtx) (vtx_SignedBody vtx) (vtx_Signature vtx) s)) s
     (\<lambda>(from, delegate). if \<not> commit then (Ok response, s)
       else case GetSetAccountDelegateTx (vtx_Tx vtx) of
         None \<Rightarrow> (Panic ''nil pointer dereference'', s)
       | Some tx \<Rightarrow>
           if sad_Txtype tx = ADD_DELEGATE_FOR_ACCOUNT \<or> sad_Txtype tx = DEL_DELEGATE_FOR_ACCOUNT
           then and_then (wrap_st ''setAccountDelegate'' (SetAccountDelegate P from delegate (sad_Txtype tx) s)) (\<lambda>_ s.
             respond response (SubtractCostIncrementNonce P from (sad_Txtype tx) s))
           else (Fail (Errf ''setAccountDelegate: invalid transaction type''), s))"

definition add_faucet_tx :: "params \<Rightarrow> VochainTx \<Rightarrow> bool \<Rightarrow> AddTxResponse \<Rightarrow> state \<Rightarrow> AddTxResponse res \<times> state" where
  "add_faucet_tx P vtx commit response s =
     with_res (wrap ''collectFaucetTxCheck'' (CollectFaucetTxCheck P (vtx_Tx vtx) (vtx_SignedBody vtx) (vtx_Signature vtx) s)) s
     (\<lambda>fromAcc. if \<not> commit then (Ok response, s)
       else case GetCollectFaucet (vtx_Tx vtx) of
         None \<Rightarrow> (Panic ''nil pointer dereference'', s)
       | Some tx \<Rightarrow>
         (case cf_FaucetPackage tx of
            None \<Rightarrow> (Panic ''nil pointer dereference'', s)
          | Some pkg \<Rightarrow>
            (case fk_Payload pkg of
               None \<Rightarrow> (Panic ''nil pointer dereference'', s)
             | Some fp \<Rightarrow> and_then (wrap_st ''collectFaucetTx'' (ConsumeFaucetPayload P fromAcc (Some fp) COLLECT_FAUCET s)) (\<lambda>_ s.
                 respond response (SubtractCostIncrementNonce P fromAcc COLLECT_FAUCET s)))))"

section \<open>The dispatch\<close>

definition AddTx :: "params \<Rightarrow> string \<Rightarrow> nat \<Rightarrow> VochainTx \<Rightarrow> bool \<Rightarrow> state \<Rightarrow> AddTxResponse res \<times> state" where
  "AddTx P chainID nVKs vtx commit s =
     (case vtx_Tx vtx of
        None \<Rightarrow> (Fail (Errf ''transaction, state, and/or transaction payload is nil''), s)
      | Some None \<Rightarrow> (Fail (Errf ''transaction, state, and/or transaction payload is nil''), s)
      | Some (Some payload) \<Rightarrow>
          let response = \<lparr>rsp_TxHash = vtx_TxID vtx, rsp_Data = []\<rparr>
          in case payload of
            Tx_Vote _ \<Rightarrow> add_vote_tx P nVKs vtx commit response s
          | Tx_Admin _ \<Rightarrow> add_admin_tx P vtx commit response s
          | Tx_NewProcess _ \<Rightarrow> add_new_process_tx P chainID vtx commit response s
          | Tx_SetProcess _ \<Rightarrow> add_set_process_tx P vtx commit response s
          | Tx_RegisterKey _ \<Rightarrow> add_register_key_tx P vtx commit response s
          | Tx_SetAccountInfo _ \<Rightarrow> add_account_info_tx P vtx commit response s
          | Tx_SetTransactionCosts _ \<Rightarrow> add_costs_tx P vtx commit response s
          | Tx_MintTokens _ \<Rightarrow> add_mint_tx P vtx commit response s
          | Tx_SendTokens _ \<Rightarrow> add_send_tx P vtx commit response s
          | Tx_SetAccountDelegateTx _ \<Rightarrow> add_delegate_tx P vtx commit response s
          | Tx_CollectFaucet _ \<Rightarrow> add_faucet_tx P vtx commit response s)"

end
