(* ===== verification/Transaction_Laws.thy ===== *)
theory Transaction_Laws
  imports Transactions
begin

text \<open>
  What executing a transaction keeps and changes: the accounts and the token supply, the nonces that
  stop a transaction from being executed again, the trees that a mere check leaves alone.
\<close>

section \<open>What the operations leave of the accounts\<close>

definition same_accounts :: "state \<Rightarrow> state \<Rightarrow> bool" where
  "same_accounts s t \<longleftrightarrow> tr_Accounts (st_Tx t) = tr_Accounts (st_Tx s)"

lemma same_accounts_refl [simp]: "same_accounts s s" by (simp add: same_accounts_def)

lemma same_accounts_emit [simp]: "same_accounts s (emit ev t) = same_accounts s t"
  by (simp add: same_accounts_def emit_def)

lemma same_accounts_trans: "same_accounts s t \<Longrightarrow> same_accounts t u \<Longrightarrow> same_accounts s u"
  by (simp add: same_accounts_def)

lemma DeepSet_same_accounts:
  assumes "\<And>t T. tr_Accounts (upd t T) = tr_Accounts T"
  shows "same_accounts s (snd (DeepSet P lv sel upd k v s))" "same_accounts s (snd (DeepAdd P lv sel upd k v s))"
  using assms by (simp_all add: DeepSet_snd DeepAdd_snd same_accounts_def split: res.split)

lemmas keeps_accounts = with_res_keeps [where Q = "same_accounts s" for s] and_then_keeps [where Q = "same_accounts s" for s]

lemma state_ops_same_accounts:
  "same_accounts s (snd (AddOracle P a s))" "same_accounts s (snd (RemoveOracle P a s))"
  "same_accounts s (snd (IncrementTreasurerNonce P s))" "same_accounts s (snd (SetTxCost P ty c s))"
  "same_accounts s (snd (SetFaucetNonce P k s))"
  unfolding AddOracle_def RemoveOracle_def IncrementTreasurerNonce_def SetTxCost_def SetFaucetNonce_def
  by (auto intro!: keeps_accounts DeepSet_same_accounts split: option.split)

lemma update_leaf_same_accounts: "same_accounts s (snd (update_leaf P p pid s))" "same_accounts s (snd (updateProcess P p pid s))"
  unfolding update_leaf_def updateProcess_def
  by (auto intro!: DeepSet_same_accounts split: option.split)

lemma process_ops_same_accounts:
  "same_accounts s (snd (SetProcessStatus P pid st c s))" "same_accounts s (snd (SetProcessResults P pid res c s))"
  "same_accounts s (snd (SetProcessCensus P pid root uri c s))"
  "same_accounts s (snd (AddProcessKeys P tx s))" "same_accounts s (snd (RevealProcessKeys P tx s))"
  unfolding SetProcessStatus_def SetProcessResults_def SetProcessCensus_def AddProcessKeys_def RevealProcessKeys_def Let_def
  by (auto intro!: keeps_accounts update_leaf_same_accounts split: option.split prod.split)

lemma create_rolling_census_same_accounts: "same_accounts s (snd (create_rolling_census pid s))"
proof -
  have "same_accounts s (set_censusLen pid 0 s)" by (simp add: same_accounts_def set_censusLen_def)
  then show ?thesis unfolding create_rolling_census_def Let_def by (auto intro!: keeps_accounts)
qed

lemma AddProcess_same_accounts: "same_accounts s (snd (AddProcess P p s))"
proof -
  have "same_accounts s t \<Longrightarrow> same_accounts s (setProcessIDByStartBlock pid sb t)" for pid sb t
    by (simp add: same_accounts_def setProcessIDByStartBlock_def Let_def)
  moreover have "same_accounts s t \<Longrightarrow> same_accounts s (snd (create_rolling_census pid t))" for pid t
    using create_rolling_census_same_accounts same_accounts_trans by blast
  ultimately show ?thesis
    unfolding AddProcess_def Let_def by (auto intro!: keeps_accounts DeepSet_same_accounts)
qed

lemma AddVote_same_accounts: "same_accounts s (snd (AddVote P v w s))"
proof -
  have inc: "same_accounts t (snd (voteCountInc t))" for t
    unfolding voteCountInc_def Let_def by (rule keeps_accounts) (simp_all add: same_accounts_def)
  have "same_accounts s (snd (voteCountInc (set_votes pid u s)))" for pid u
    using inc [of "set_votes pid u s"] by (simp add: same_accounts_def set_votes_def)
  then show ?thesis unfolding AddVote_def Let_def by (auto intro!: keeps_accounts)
qed

lemma census_ops_same_accounts:
  "same_accounts s (snd (AddToRollingCensus P pid key w s))"
  "same_accounts s (snd (RegisterKeyTxCheck P vtx b sig c s))"
proof -
  have [simp]: "same_accounts s (set_censusLen pid n (set_census pid t s))"
    "same_accounts s (s\<lparr>st_Tx := (st_Tx s)\<lparr>tr_PreRegister := f\<rparr>\<rparr>)" for pid n t f
    by (simp_all add: same_accounts_def set_censusLen_def set_census_def)
  show "same_accounts s (snd (AddToRollingCensus P pid key w s))"
    unfolding AddToRollingCensus_def by (auto intro!: keeps_accounts split: option.split)
  have "same_accounts s (snd (setPreRegisterAddrUsedWeight P pid a n s))" for pid a n
    unfolding setPreRegisterAddrUsedWeight_def by (auto intro!: keeps_accounts)
  then show "same_accounts s (snd (RegisterKeyTxCheck P vtx b sig c s))"
    unfolding RegisterKeyTxCheck_def by (auto intro!: keeps_accounts split: option.split prod.split)
qed

lemma VoteEnvelopeCheck_same_accounts: "same_accounts s (snd (VoteEnvelopeCheck P n ve b sig txID c s))"
  using VoteEnvelopeCheck_frame [of P n ve b sig txID c s] 
  by (cases "VoteEnvelopeCheck P n ve b sig txID c s") (auto simp: cache_only_def same_accounts_def)

section \<open>The token supply\<close>

lemma sender_address:
  "tx_sender P b sg = Ok a \<Longrightarrow> \<exists>pub. AddrFromPublicKey P pub = Ok a"
  "AccountFromSignature P b sg s = Ok (a, acc) \<Longrightarrow> \<exists>pub. AddrFromPublicKey P pub = Ok a"
  "AddrFromSignature P b sg = Ok a \<Longrightarrow> \<exists>pub. AddrFromPublicKey P pub = Ok a"
  by (auto simp: tx_sender_def AccountFromSignature_def AddrFromSignature_def res_simps split: if_splits option.splits)

lemma NewProcessTxCheck_sender:
  assumes "NewProcessTxCheck P c vtx b sg s = Ok (p, a)"
  shows "\<exists>acc. AccountFromSignature P (bz b) (bz sg) s = Ok (a, acc) \<and>
     (\<exists>tx. GetNewProcess vtx = Some tx \<and> Nonce acc = np_Nonce tx)"
proof -
  obtain tx where tx: "GetNewProcess vtx = Some tx" using assms by (auto simp: NewProcessTxCheck_def split: option.splits)
  obtain p0 where p0: "np_Process tx = Some p0" using assms tx by (auto simp: NewProcessTxCheck_def split: option.splits)
  obtain vo et md where "VoteOptions p0 = Some vo" "EnvelopeTypeOf p0 = Some et" "Mode p0 = Some md"
    using assms tx p0 by (auto simp: NewProcessTxCheck_def split: option.splits)
  then show ?thesis
    using assms tx p0 by (auto simp: NewProcessTxCheck_def res_simps split: if_splits)
qed

lemma SetProcessTxCheck_sender:
  assumes "SetProcessTxCheck P vtx b sg s = Ok a"
  shows "\<exists>acc. AccountFromSignature P (bz b) (bz sg) s = Ok (a, acc) \<and>
     (\<exists>tx. GetSetProcess vtx = Some tx \<and> Nonce acc = spt_Nonce tx)"
proof -
  obtain tx where tx: "GetSetProcess vtx = Some tx" using assms by (auto simp: SetProcessTxCheck_def split: option.splits)
  show ?thesis
    using assms tx by (cases "spt_Txtype tx"; cases "spt_Results tx")
      (auto simp: SetProcessTxCheck_def res_simps Let_def split: if_splits)
qed

lemma SetAccountDelegateTxCheck_sender:
  assumes "SetAccountDelegateTxCheck P vtx b sg s = Ok (a, d)"
  shows "\<exists>acc. AccountFromSignature P (bz b) (bz sg) s = Ok (a, acc) \<and>
     (\<exists>tx. GetSetAccountDelegateTx vtx = Some tx \<and> Nonce acc = sad_Nonce tx)"
  using assms by (auto simp: SetAccountDelegateTxCheck_def res_simps Let_def split: if_splits option.splits)

lemma SendTokensTxCheck_Ok:
  assumes "SendTokensTxCheck P vtx b sg s = Ok v"
  shows "\<exists>tx acc. GetSendTokens vtx = Some tx \<and> tx_sender P (bz b) (bz sg) = Ok (st_From v) \<and>
     st_From v = BytesToAddress P (bz (snd_From tx)) \<and> st_To v = BytesToAddress P (bz (snd_To tx)) \<and>
     st_Value v = snd_Value tx \<and> GetAccount (st_From v) False s = Some acc \<and> Nonce acc = snd_Nonce tx"
  using assms by (auto simp: SendTokensTxCheck_def res_simps Let_def split: if_splits option.splits)

lemma CollectFaucetTxCheck_Ok:
  assumes "CollectFaucetTxCheck P vtx b sg s = Ok a"
  shows "\<exists>tx pkg fp sender. GetCollectFaucet vtx = Some tx \<and> cf_FaucetPackage tx = Some pkg \<and> fk_Payload pkg = Some fp \<and>
     tx_sender P (bz b) (bz sg) = Ok sender \<and> fp_To fp = sender \<and>
     AddrFromSignature P (Marshal_FaucetPayload P fp) (bz (fk_Signature pkg)) = Ok a \<and>
     \<not> FaucetNonce P (faucet_key P a (fp_Identifier fp)) False s"
  using assms by (auto simp: CollectFaucetTxCheck_def faucet_issuer_check_def res_simps split: if_splits option.splits)

lemma SetAccountInfoTxCheck_Ok:
  assumes "SetAccountInfoTxCheck P vtx b sg s = Ok v"
  shows "\<exists>tx. GetSetAccountInfo vtx = Some tx \<and> tx_sender P (bz b) (bz sg) = Ok (sv_TxSender v) \<and>
     (sv_CreateAccount v \<longrightarrow> GetAccount (sv_TxSender v) False s = None) \<and>
     (sv_CreateAccount v \<and> sv_CreateAccountWithFaucet v \<longrightarrow>
       (\<exists>pkg fp. sai_FaucetPackage tx = Some pkg \<and> fk_Payload pkg = Some fp \<and> fp_To fp = sv_TxSender v \<and>
          (\<exists>sg. AddrFromSignature P (Marshal_FaucetPayload P fp) sg = Ok (sv_FaucetPayloadSigner v)) \<and>
          GetAccount (sv_FaucetPayloadSigner v) False s \<noteq> None))"
proof -
  obtain tx where tx: "GetSetAccountInfo vtx = Some tx"
    using assms by (auto simp: SetAccountInfoTxCheck_def split: if_splits option.splits)
  obtain sender where snd: "tx_sender P (bz b) (bz sg) = Ok sender"
    using assms tx by (auto simp: SetAccountInfoTxCheck_def res_simps split: if_splits)
  show ?thesis
  proof (cases "GetAccount sender False s")
    case None
    show ?thesis
    proof (cases "sai_FaucetPackage tx")
      case None
      then show ?thesis
        using assms tx snd \<open>GetAccount sender False s = None\<close>
        by (auto simp: SetAccountInfoTxCheck_def Let_def split: if_splits)
    next
      case (Some pkg)
      then show ?thesis
        using assms tx snd None
        by (cases "fk_Payload pkg")
          (auto simp: SetAccountInfoTxCheck_def Let_def res_simps faucet_issuer_check_def split: if_splits option.splits)
    qed
  next
    case (Some acc)
    then show ?thesis
      using assms tx snd by (auto simp: SetAccountInfoTxCheck_def Let_def res_simps split: if_splits option.splits)
  qed
qed

text \<open>A faucet payload that is not consumed leaves the accounts as they were.\<close>

lemma faucet_writes:
  assumes wf: "accounts_wf P s" and acc: "GetAccount a False s = Some x" "GetAccount b False s = Some y" "GetAccount c False s = Some z"
    and run: "and_then (SetFaucetNonce P k s) (\<lambda>_ s. and_then (SetAccount P a x' s) (\<lambda>_ s.
         and_then (SetAccount P b y' s) (\<lambda>_ s. SetAccount P c z' s))) = (r, s')"
    and bad: "r \<noteq> Ok ()"
  shows "same_accounts s s'"
proof (cases "SetFaucetNonce P k s")
  case (Pair r0 s0)
  note fr = SetFaucetNonce_frame [OF Pair]
  show ?thesis
  proof (cases "r0 = Ok ()")
    case False
    then have "s' = s0" using run Pair by (cases r0) auto
    then show ?thesis using fr by (simp add: same_accounts_def)
  next
    case True
    have tr: "tr_Accounts (st_Tx s0) = tr_Accounts (st_Tx s)" using fr by simp
    have "accounts_wf P s0" "GetAccount a False s0 = Some x"
      using wf acc accounts_wf_frame [OF tr] GetAccount_frame [OF tr] by simp_all
    then obtain s1 where s1: "SetAccount P a x' s0 = (Ok (), s1)" using SetAccount_existing by blast
    have g1: "\<exists>v. GetAccount d False s1 = Some v" if "GetAccount d False s = Some w" for d w
      using SetAccount_get [OF s1, of d] GetAccount_frame [OF tr] that by auto
    have w1: "accounts_wf P s1" using SetAccount_wf_Ok [OF s1 \<open>accounts_wf P s0\<close>] .
    obtain s2 where s2: "SetAccount P b y' s1 = (Ok (), s2)" using SetAccount_existing [OF w1] g1 acc(2) by blast
    have "accounts_wf P s2" using SetAccount_wf_Ok [OF s2 w1] .
    moreover obtain v where "GetAccount c False s1 = Some v" using g1 acc(3) by blast
    then have "\<exists>v. GetAccount c False s2 = Some v" using SetAccount_get [OF s2, of c] by auto
    ultimately obtain s3 where "SetAccount P c z' s2 = (Ok (), s3)" using SetAccount_existing by blast
    then have "r = Ok ()" using run Pair True s1 s2 by simp
    then show ?thesis using bad by simp
  qed
qed

lemma ConsumeFaucetPayload_not_Ok:
  assumes "accounts_wf P s" and "ConsumeFaucetPayload P from payload ty s = (r, s')" and "r \<noteq> Ok ()"
  shows "same_accounts s s'"
proof (cases "s' = s")
  case False
  then obtain fp x y z where acc: "GetAccount from False s = Some x"
      "GetAccount (BytesToAddress P (fp_To fp)) False s = Some y" "GetAccount BurnAddress False s = Some z"
    and nz: "from \<noteq> EthereumZeroAddress" and p: "payload = Some fp"
    using assms(2) by (auto simp: ConsumeFaucetPayload_def Let_def split: if_splits option.splits)
  obtain x1 y1 where t: "Transfer x (Some y) (fp_Amount fp) = Ok (x1, y1)"
    using assms(2) acc nz p False
    by (cases "Transfer x (Some y) (fp_Amount fp)") (auto simp: ConsumeFaucetPayload_def Let_def)
  then obtain x' y' z' where "and_then (SetFaucetNonce P (faucet_key P from (fp_Identifier fp)) s) (\<lambda>_ s.
         and_then (SetAccount P from x' s) (\<lambda>_ s.
         and_then (SetAccount P (BytesToAddress P (fp_To fp)) y' s) (\<lambda>_ s.
           SetAccount P BurnAddress z' s))) = (r, s')"
  proof (cases "ty = SET_ACCOUNT_INFO")
    case True
    then obtain c where c: "TxCost COLLECT_FAUCET False s = Ok c"
      using assms(2) acc nz p False t
      by (cases "TxCost COLLECT_FAUCET False s") (auto simp: ConsumeFaucetPayload_def Let_def)
    then obtain x2 z2 where "Transfer x1 (Some z) c = Ok (x2, z2)"
      using assms(2) acc nz p False t True
      by (cases "Transfer x1 (Some z) c") (auto simp: ConsumeFaucetPayload_def Let_def)
    then show ?thesis using that assms(2) acc nz p t True c by (simp add: ConsumeFaucetPayload_def Let_def)
  next
    case False
    then show ?thesis using that assms(2) acc nz p t by (simp add: ConsumeFaucetPayload_def Let_def)
  qed
  then show ?thesis by (rule faucet_writes [OF assms(1) acc _ assms(3)])
qed simp

text \<open>A step that keeps the tree of accounts well formed and the supply as it was.\<close>

definition conserves :: "params \<Rightarrow> state \<Rightarrow> state \<Rightarrow> bool" where
  "conserves P s t \<longleftrightarrow> (accounts_wf P s \<longrightarrow> accounts_wf P t \<and> token_supply t = token_supply s)"

lemma conserves_refl [simp]: "conserves P s s" by (simp add: conserves_def)

lemma conserves_trans: "conserves P s t \<Longrightarrow> conserves P t u \<Longrightarrow> conserves P s u"
  by (simp add: conserves_def)

lemma same_accounts_conserves: "same_accounts s t \<Longrightarrow> conserves P s t"
  using accounts_wf_frame [of t s P] supply_frame [of t s] by (simp add: same_accounts_def conserves_def)

lemmas conserves_frames = same_accounts_conserves [OF state_ops_same_accounts(1)] same_accounts_conserves [OF state_ops_same_accounts(2)]
  same_accounts_conserves [OF state_ops_same_accounts(3)] same_accounts_conserves [OF state_ops_same_accounts(4)]
  same_accounts_conserves [OF process_ops_same_accounts(1)] same_accounts_conserves [OF process_ops_same_accounts(2)]
  same_accounts_conserves [OF process_ops_same_accounts(3)] same_accounts_conserves [OF process_ops_same_accounts(4)]
  same_accounts_conserves [OF process_ops_same_accounts(5)] same_accounts_conserves [OF AddProcess_same_accounts]
  same_accounts_conserves [OF AddVote_same_accounts] same_accounts_conserves [OF census_ops_same_accounts(1)]
  same_accounts_conserves [OF census_ops_same_accounts(2)] same_accounts_conserves [OF VoteEnvelopeCheck_same_accounts]

lemma conserves_accounts:
  "a \<noteq> b \<Longrightarrow> conserves P s (snd (TransferBalance P a b n s))"
  "conserves P s (snd (SetAccountInfoURI P a uri s))"
  "conserves P s (snd (IncrementAccountProcessIndex P a s))"
  "conserves P s (snd (CreateAccount P a uri ds 0 s))"
  "a \<noteq> BurnAddress \<Longrightarrow> conserves P s (snd (SubtractCostIncrementNonce P a ty s))"
  "conserves P s (snd (SetAccountDelegate P a d ty s))"
  unfolding conserves_def
  using account_operations_wf [of P s] TransferBalance_supply [of P s a b n] SetAccountInfoURI_supply [of P s a uri]
    IncrementAccountProcessIndex_supply [of P s a] CreateAccount_supply [of P s a uri ds 0] SubtractCost_conserves [of P s a ty]
    SetAccountDelegate_supply [of P s a d ty]
  by (metis prod.collapse add_0_right unat_0)+

lemma conserves_faucet:
  assumes "from \<noteq> BytesToAddress P (fp_To fp)" "from \<noteq> BurnAddress" "BytesToAddress P (fp_To fp) \<noteq> BurnAddress"
  shows "conserves P s (snd (ConsumeFaucetPayload P from (Some fp) ty s))"
proof (cases "ConsumeFaucetPayload P from (Some fp) ty s")
  case (Pair r s')
  show ?thesis
  proof (cases "r = Ok ()")
    case True
    then show ?thesis
      using ConsumeFaucetPayload_supply [of P s "from" fp ty s'] assms Pair account_operations_wf(8) [of P s "from" "Some fp" ty]
      by (auto simp: conserves_def)
  next
    case False
    then show ?thesis
      using ConsumeFaucetPayload_not_Ok [OF _ Pair] same_accounts_conserves [of s s' P] Pair by (auto simp: conserves_def)
  qed
qed

text \<open>A sequence of steps conserves when each does.\<close>

lemma conserves_seq:
  "conserves P s (snd m) \<Longrightarrow> (\<And>x t. m = (Ok x, t) \<Longrightarrow> conserves P t (snd (f x t))) \<Longrightarrow> conserves P s (snd (and_then m f))"
  "(\<And>x. r = Ok x \<Longrightarrow> conserves P s (snd (g x))) \<Longrightarrow> conserves P s (snd (with_res r s g))"
  "conserves P s (snd (wrap_st ms m)) = conserves P s (snd m)"
  "conserves P s (snd (hide_st ms m)) = conserves P s (snd m)"
  "conserves P s (snd (respond rsp n)) = conserves P s (snd n)"
  subgoal by (cases m; cases "fst m") (auto intro: conserves_trans)
  subgoal by (cases r) auto
  subgoal by (cases m; cases "fst m") (auto simp: wrap_st_def)
  subgoal by (cases m; cases "fst m") (auto simp: hide_st_def)
  subgoal by (cases n; cases "fst n") (auto simp: respond_def)
  done

lemmas conserves_rules = conserves_seq(1,2) conserves_frames conserves_accounts

text \<open>go-ethereum's addresses have 20 bytes, which the conversion keeps, and the burn address is the
  address of no key.\<close>

definition key_addresses :: "params \<Rightarrow> bool" where
  "key_addresses P \<longleftrightarrow> (\<forall>k. PubkeyToAddress P k \<noteq> BurnAddress \<and>
     BytesToAddress P (PubkeyToAddress P k) = PubkeyToAddress P k)"

lemma key_address:
  assumes "key_addresses P"
  shows "AddrFromPublicKey P pub = Ok a \<Longrightarrow> a \<noteq> BurnAddress \<and> BytesToAddress P a = a"
    and "tx_sender P b sg = Ok a \<Longrightarrow> a \<noteq> BurnAddress \<and> BytesToAddress P a = a"
    and "AccountFromSignature P b sg s = Ok (a, acc) \<Longrightarrow> a \<noteq> BurnAddress \<and> BytesToAddress P a = a"
    and "AddrFromSignature P b sg = Ok a \<Longrightarrow> a \<noteq> BurnAddress \<and> BytesToAddress P a = a"
proof -
  have "AddrFromPublicKey P pub = Ok a \<Longrightarrow> a \<noteq> BurnAddress \<and> BytesToAddress P a = a" for pub a
    using assms by (auto simp: AddrFromPublicKey_def key_addresses_def res_simps)
  then show "AddrFromPublicKey P pub = Ok a \<Longrightarrow> a \<noteq> BurnAddress \<and> BytesToAddress P a = a"
    "tx_sender P b sg = Ok a \<Longrightarrow> a \<noteq> BurnAddress \<and> BytesToAddress P a = a"
    "AccountFromSignature P b sg s = Ok (a, acc) \<Longrightarrow> a \<noteq> BurnAddress \<and> BytesToAddress P a = a"
    "AddrFromSignature P b sg = Ok a \<Longrightarrow> a \<noteq> BurnAddress \<and> BytesToAddress P a = a"
    using sender_address by blast+
qed

lemma not_burn: "key_addresses P \<Longrightarrow> AccountFromSignature P b sg s \<noteq> Ok (BurnAddress, acc)"
  using key_address(3) by blast

lemma conserves_process_txs:
  assumes "key_addresses P"
  shows "conserves P s (snd (add_vote_tx P n vtx c rsp s))"
    and "conserves P s (snd (add_admin_tx P vtx c rsp s))"
    and "conserves P s (snd (add_new_process_tx P ch vtx c rsp s))"
    and "conserves P s (snd (add_set_process_tx P vtx c rsp s))"
    and "conserves P s (snd (add_register_key_tx P vtx c rsp s))"
proof -
  show "conserves P s (snd (add_vote_tx P n vtx c rsp s))" "conserves P s (snd (add_admin_tx P vtx c rsp s))"
    "conserves P s (snd (add_register_key_tx P vtx c rsp s))"
    unfolding add_vote_tx_def add_admin_tx_def add_register_key_tx_def Let_def
    by (auto intro!: conserves_rules simp: conserves_seq(3-5) split: option.split prod.split)
  show "conserves P s (snd (add_new_process_tx P ch vtx c rsp s))"
    unfolding add_new_process_tx_def Let_def
    by (auto intro!: conserves_rules simp: conserves_seq(3-5) res_simps not_burn [OF assms] dest!: NewProcessTxCheck_sender split: prod.split)
  have op: "conserves P s (snd (set_process_op P tx s))" for tx
    unfolding set_process_op_def
    by (auto intro!: conserves_rules simp: conserves_seq(3-5) split: TxType.split option.split)
  show "conserves P s (snd (add_set_process_tx P vtx c rsp s))"
    unfolding add_set_process_tx_def
    by (auto intro!: conserves_rules op simp: conserves_seq(3-5) res_simps not_burn [OF assms] dest!: SetProcessTxCheck_sender split: option.split)
qed

lemma conserves_account_txs:
  assumes "key_addresses P"
  shows "conserves P s (snd (add_costs_tx P vtx c rsp s))"
    and "conserves P s (snd (add_delegate_tx P vtx c rsp s))"
    and "conserves P s (snd (add_account_info_tx P vtx c rsp s))"
proof -
  show "conserves P s (snd (add_costs_tx P vtx c rsp s))"
    unfolding add_costs_tx_def
    by (auto intro!: conserves_rules simp: conserves_seq(3-5) split: option.split)
  show "conserves P s (snd (add_delegate_tx P vtx c rsp s))"
    unfolding add_delegate_tx_def
    by (auto intro!: conserves_rules simp: conserves_seq(3-5) res_simps not_burn [OF assms] dest!: SetAccountDelegateTxCheck_sender split: option.split prod.split)
  have "conserves P s (snd (set_account_info_op P tx v s))"
    if v: "SetAccountInfoTxCheck P vt b sg s = Ok v" and tx: "GetSetAccountInfo vt = Some tx" for v vt b sg tx
  proof -
    note ok = SetAccountInfoTxCheck_Ok [OF v]
    then have own: "sv_TxSender v \<noteq> BurnAddress" "BytesToAddress P (sv_TxSender v) = sv_TxSender v"
      using key_address(2) [OF assms] by blast+
    show ?thesis
    proof (cases "sv_CreateAccount v \<and> sv_CreateAccountWithFaucet v")
      case True
      then obtain pkg fp sg' where p: "sai_FaucetPackage tx = Some pkg" "fk_Payload pkg = Some fp" "fp_To fp = sv_TxSender v"
        and g: "AddrFromSignature P (Marshal_FaucetPayload P fp) sg' = Ok (sv_FaucetPayloadSigner v)"
          "GetAccount (sv_FaucetPayloadSigner v) False s \<noteq> None" "GetAccount (sv_TxSender v) False s = None"
        using ok tx by auto
      have "sv_FaucetPayloadSigner v \<noteq> sv_TxSender v" "sv_FaucetPayloadSigner v \<noteq> BurnAddress"
        using g key_address(4) [OF assms] by auto
      then show ?thesis
        using True p own unfolding set_account_info_op_def
        by (auto intro!: conserves_rules conserves_faucet simp: conserves_seq(3-5))
    next
      case False
      then show ?thesis using own(1) unfolding set_account_info_op_def
        by (auto intro!: conserves_rules simp: conserves_seq(3-5))
    qed
  qed
  then show "conserves P s (snd (add_account_info_tx P vtx c rsp s))"
    unfolding add_account_info_tx_def
    by (auto intro!: conserves_rules simp: conserves_seq(3-5) res_simps split: option.split)
qed

lemma conserves_token_txs:
  assumes "key_addresses P"
  shows "\<forall>v. SendTokensTxCheck P (vtx_Tx vtx) (vtx_SignedBody vtx) (vtx_Signature vtx) s = Ok v \<longrightarrow> st_From v \<noteq> st_To v \<Longrightarrow>
      conserves P s (snd (add_send_tx P vtx c rsp s))"
    and "\<forall>a tx pkg fp. CollectFaucetTxCheck P (vtx_Tx vtx) (vtx_SignedBody vtx) (vtx_Signature vtx) s = Ok a \<and>
        GetCollectFaucet (vtx_Tx vtx) = Some tx \<and> cf_FaucetPackage tx = Some pkg \<and> fk_Payload pkg = Some fp \<longrightarrow> fp_To fp \<noteq> a \<Longrightarrow>
      conserves P s (snd (add_faucet_tx P vtx c rsp s))"
proof -
  have "st_From v \<noteq> BurnAddress" if "SendTokensTxCheck P vt b sg s = Ok v" for v vt b sg
    using SendTokensTxCheck_Ok [OF that] key_address(2) [OF assms] by blast
  then show "\<forall>v. SendTokensTxCheck P (vtx_Tx vtx) (vtx_SignedBody vtx) (vtx_Signature vtx) s = Ok v \<longrightarrow> st_From v \<noteq> st_To v \<Longrightarrow>
      conserves P s (snd (add_send_tx P vtx c rsp s))"
    unfolding add_send_tx_def by (auto intro!: conserves_rules simp: conserves_seq(3-5) res_simps)
  have nb: "CollectFaucetTxCheck P vt b sg s \<noteq> Ok BurnAddress" for vt b sg
    using CollectFaucetTxCheck_Ok key_address(4) [OF assms] by blast
  have "conserves P s (snd (ConsumeFaucetPayload P a (Some fp) ty s))"
    if pr: "CollectFaucetTxCheck P vt b sg s = Ok a" "GetCollectFaucet vt = Some tx" "cf_FaucetPackage tx = Some pkg"
      "fk_Payload pkg = Some fp" "fp_To fp \<noteq> a" for a vt b sg tx pkg fp ty
  proof -
    obtain sg' where "AddrFromSignature P (Marshal_FaucetPayload P fp) sg' = Ok a" "tx_sender P (bz b) (bz sg) = Ok (fp_To fp)"
      using CollectFaucetTxCheck_Ok [OF pr(1)] pr by auto
    then show ?thesis
      using key_address [OF assms] pr(5) conserves_faucet by metis
  qed
  then show "\<forall>a tx pkg fp. CollectFaucetTxCheck P (vtx_Tx vtx) (vtx_SignedBody vtx) (vtx_Signature vtx) s = Ok a \<and>
        GetCollectFaucet (vtx_Tx vtx) = Some tx \<and> cf_FaucetPackage tx = Some pkg \<and> fk_Payload pkg = Some fp \<longrightarrow> fp_To fp \<noteq> a \<Longrightarrow>
      conserves P s (snd (add_faucet_tx P vtx c rsp s))"
    unfolding add_faucet_tx_def
    by (auto intro!: conserves_seq(1,2) conserves_accounts(5) simp: nb conserves_seq(3-5) res_simps split: option.split)
qed

lemma add_mint_tx_supply:
  assumes "accounts_wf P s" and "add_mint_tx P vtx c rsp s = (r, s')"
  shows "accounts_wf P s' \<and> (token_supply s' = token_supply s \<or>
     c \<and> (\<exists>to amount. MintTokensTxCheck P (vtx_Tx vtx) (vtx_SignedBody vtx) (vtx_Signature vtx) s = Ok (to, amount) \<and>
       token_supply s' = token_supply s + unat amount))"
proof (cases "MintTokensTxCheck P (vtx_Tx vtx) (vtx_SignedBody vtx) (vtx_Signature vtx) s")
  case (Ok x)
  then obtain to amount where x: "x = (to, amount)" by (cases x)
  show ?thesis
  proof (cases c)
    case True
    obtain r1 s1 where m: "MintBalance P to amount s = (r1, s1)" by fastforce
    have "conserves P s1 s'" if "r1 = Ok ()"
      using assms(2) Ok x True m that same_accounts_conserves [OF state_ops_same_accounts(3), of P s1 P]
      by (cases "IncrementTreasurerNonce P s1"; cases "fst (IncrementTreasurerNonce P s1)")
        (auto simp: add_mint_tx_def wrap_st_def respond_def)
    moreover have "s' = s1" if "r1 \<noteq> Ok ()"
      using assms(2) Ok x True m that by (cases r1) (auto simp: add_mint_tx_def wrap_st_def)
    moreover have "accounts_wf P s1" using account_operations_wf(2) [OF assms(1), of to amount] m by simp
    ultimately show ?thesis
      using MintBalance_supply [OF assms(1) m] Ok x True by (auto simp: conserves_def)
  qed (use assms Ok in \<open>auto simp: add_mint_tx_def\<close>)
qed (use assms in \<open>auto simp: add_mint_tx_def\<close>)

lemma token_txs_wf:
  assumes "accounts_wf P s"
  shows "accounts_wf P (snd (add_send_tx P vtx c rsp s))" "accounts_wf P (snd (add_faucet_tx P vtx c rsp s))"
proof -
  have [simp]: "accounts_wf P (snd (wrap_st ms m)) = accounts_wf P (snd m)" "accounts_wf P (snd (respond rsp m)) = accounts_wf P (snd m)" for ms m
    by (cases m; cases "fst m"; auto simp: wrap_st_def respond_def)+
  note rules = with_res_keeps [where Q = "accounts_wf P"] and_then_keeps [where Q = "accounts_wf P"] account_operations_wf assms
  show "accounts_wf P (snd (add_send_tx P vtx c rsp s))"
    unfolding add_send_tx_def by (auto intro!: rules)
  show "accounts_wf P (snd (add_faucet_tx P vtx c rsp s))"
    unfolding add_faucet_tx_def by (auto intro!: rules split: option.split)
qed

text \<open>The transactions that move tokens between accounts or create them; all the others conserve them.\<close>

lemma AddTx_cases:
  assumes "key_addresses P"
  defines "rsp vtx \<equiv> \<lparr>rsp_TxHash = vtx_TxID vtx, rsp_Data = []\<rparr>"
  shows "AddTx P chainID nVKs vtx commit s = add_mint_tx P vtx commit (rsp vtx) s \<or>
    AddTx P chainID nVKs vtx commit s = add_send_tx P vtx commit (rsp vtx) s \<or>
    AddTx P chainID nVKs vtx commit s = add_faucet_tx P vtx commit (rsp vtx) s \<or>
    conserves P s (snd (AddTx P chainID nVKs vtx commit s))"
  using conserves_process_txs [OF assms(1), of s] conserves_account_txs [OF assms(1), of s]
  by (auto simp: AddTx_def Let_def rsp_def split: option.split TxPayload.split)

text \<open>A signed transfer between the two accounts of the example, with keys that all have one address.\<close>

definition one_key :: params where "one_key = params0\<lparr>PubkeyToAddress := \<lambda>_. alice\<rparr>"

definition send0 :: VochainTx where
  "send0 = \<lparr>vtx_Tx = Some (Some (Tx_SendTokens (Some \<lparr>snd_Nonce = 0, snd_From = Some alice,
       snd_To = Some bob, snd_Value = 30\<rparr>))), vtx_SignedBody = Some [1], vtx_Signature = Some (replicate 65 0), vtx_TxID = []\<rparr>"

lemma one_key_ok: "key_addresses one_key" by (simp add: key_addresses_def one_key_def)

text \<open>C4. Executing a transaction keeps the tree of accounts well formed and leaves the supply of
  tokens as it was, whether the transaction succeeds or fails half way, with three exceptions:
  a minting transaction that passed its check (which wants the treasurer's signature) adds the amount
  it names; a transfer from an account to itself; and a faucet payload collected by its own issuer.\<close>

theorem supply_changes:
  assumes "key_addresses P" and "accounts_wf P s" and "AddTx P chainID nVKs vtx commit s = (r, s')"
  shows "accounts_wf P s' \<and>
    (token_supply s' = token_supply s \<or>
     commit \<and> (\<exists>to amount. MintTokensTxCheck P (vtx_Tx vtx) (vtx_SignedBody vtx) (vtx_Signature vtx) s = Ok (to, amount) \<and>
        token_supply s' = token_supply s + unat amount) \<or>
     (\<exists>v. SendTokensTxCheck P (vtx_Tx vtx) (vtx_SignedBody vtx) (vtx_Signature vtx) s = Ok v \<and> st_From v = st_To v) \<or>
     (\<exists>a tx pkg fp. CollectFaucetTxCheck P (vtx_Tx vtx) (vtx_SignedBody vtx) (vtx_Signature vtx) s = Ok a \<and>
        GetCollectFaucet (vtx_Tx vtx) = Some tx \<and> cf_FaucetPackage tx = Some pkg \<and> fk_Payload pkg = Some fp \<and> fp_To fp = a))"
proof -
  let ?rsp = "\<lparr>rsp_TxHash = vtx_TxID vtx, rsp_Data = []\<rparr>"
  note tok = conserves_token_txs [OF assms(1), of vtx s commit ?rsp] token_txs_wf [OF assms(2), of vtx commit ?rsp]
  consider (mint) "add_mint_tx P vtx commit ?rsp s = (r, s')" | (send) "snd (add_send_tx P vtx commit ?rsp s) = s'"
    | (faucet) "snd (add_faucet_tx P vtx commit ?rsp s) = s'" | (kept) "conserves P s s'"
    using AddTx_cases [OF assms(1), of chainID nVKs vtx commit s] unfolding assms(3) by (metis snd_conv)
  then show ?thesis
  proof cases
    case mint
    then show ?thesis using add_mint_tx_supply [OF assms(2)] by blast
  next
    case send
    then show ?thesis using tok assms(2) unfolding conserves_def by blast
  next
    case faucet
    then show ?thesis using tok assms(2) unfolding conserves_def by blast
  next
    case kept
    then show ?thesis using assms(2) by (auto simp: conserves_def)
  qed
qed

lemma send0_sender: "tx_sender one_key [1] (replicate 65 0) = Ok alice"
  by (simp add: tx_sender_def one_key_def AddrFromPublicKey_def PubKeyFromSignature_def
      normalise_v_def Let_def SignatureLength_def PubKeyLengthBytes_def DecompressPubKey_def of_option_def)

lemma send0_check: "SendTokensTxCheck one_key (vtx_Tx send0) (vtx_SignedBody send0) (vtx_Signature send0) ex_state =
    Ok \<lparr>st_From = alice, st_To = bob, st_Value = 30, st_Nonce = 0\<rparr>"
proof -
  have a: "BytesToAddress one_key alice = alice" "BytesToAddress one_key bob = bob" by (simp_all add: one_key_def)
  show ?thesis
    using send0_sender a by (simp add: SendTokensTxCheck_def send0_def GetSendTokens_def acc0_def)
qed

theorem supply_changes_witness:
  "\<exists>r s'. AddTx one_key ''v'' 1 send0 True ex_state = (r, s') \<and> token_supply s' = 150"
proof -
  obtain r s' where run: "AddTx one_key ''v'' 1 send0 True ex_state = (r, s')" by fastforce
  have "accounts_wf one_key ex_state" using ex_wf by (simp add: accounts_wf_def one_key_def)
  from supply_changes [OF one_key_ok this run] have "token_supply s' = 150"
    using send0_check by (auto simp: ex_supply MintTokensTxCheck_def CollectFaucetTxCheck_def send0_def GetMintTokens_def GetCollectFaucet_def)
  then show ?thesis using run by blast
qed

section \<open>Replayed transactions\<close>

definition same_nonces :: "state \<Rightarrow> state \<Rightarrow> bool" where
  "same_nonces s t \<longleftrightarrow> (\<forall>a acc. GetAccount a False s = Some acc \<longrightarrow>
     (\<exists>acc'. GetAccount a False t = Some acc' \<and> Nonce acc' = Nonce acc))"

lemma same_accounts_nonces: "same_accounts s t \<Longrightarrow> same_nonces s t"
  using GetAccount_frame [of t s] by (simp add: same_accounts_def same_nonces_def)

lemma SetAccount_nonces:
  assumes "SetAccount P a acc' s = (Ok (), s')" and "\<And>acc. GetAccount a False s = Some acc \<Longrightarrow> Nonce acc' = Nonce acc"
  shows "same_nonces s s'"
  using assms by (auto simp: same_nonces_def SetAccount_get)

lemma same_nonces_ops:
  "TransferBalance P a b n s = (Ok (), s') \<Longrightarrow> same_nonces s s'"
  "SetAccountInfoURI P a uri s = (Ok (), s') \<Longrightarrow> same_nonces s s'"
  "IncrementAccountProcessIndex P a s = (Ok (), s') \<Longrightarrow> same_nonces s s'"
  "SetAccountDelegate P a d ty s = (Ok (), s') \<Longrightarrow> same_nonces s s'"
proof -
  have keep: "Nonce x' = Nonce x \<and> Nonce y' = Nonce y" if "Transfer x (Some y) n = Ok (x', y')" for x y x' y'
    using that by (auto simp: Transfer_Ok_iff)
  have dl: "Nonce acc' = Nonce acc" if "AddDelegate acc d = Ok acc' \<or> DelDelegate acc d = Ok acc'" for acc acc'
    using that by (auto simp: AddDelegate_def DelDelegate_def res_simps split: if_splits)
  show "same_nonces s s'" if run: "TransferBalance P a b n s = (Ok (), s')"
  proof -
    obtain x y x' y' s1 where g: "GetAccount a False s = Some x" "GetAccount b False s = Some y"
      and t: "Transfer x (Some y) n = Ok (x', y')"
      and w: "SetAccount P a x' s = (Ok (), s1)" "SetAccount P b y' s1 = (Ok (), s')"
      using run by (auto simp: TransferBalance_def res_simps split: option.splits)
    show ?thesis using g keep [OF t] SetAccount_get [OF w(1)] SetAccount_get [OF w(2)] by (auto simp: same_nonces_def)
  qed
  show "SetAccountInfoURI P a uri s = (Ok (), s') \<Longrightarrow> same_nonces s s'"
    by (auto simp: SetAccountInfoURI_def split: option.splits elim!: SetAccount_nonces)
  show "IncrementAccountProcessIndex P a s = (Ok (), s') \<Longrightarrow> same_nonces s s'"
    by (auto simp: IncrementAccountProcessIndex_def Let_def split: option.splits elim!: SetAccount_nonces)
  show "SetAccountDelegate P a d ty s = (Ok (), s') \<Longrightarrow> same_nonces s s'"
    using dl by (cases "ty = ADD_DELEGATE_FOR_ACCOUNT"; cases "ty = DEL_DELEGATE_FOR_ACCOUNT")
      (auto simp: SetAccountDelegate_def res_simps split: option.splits if_splits elim!: SetAccount_nonces)
qed

lemma SubtractCost_nonce:
  assumes "SubtractCostIncrementNonce P a ty s = (Ok (), s')" and "ty \<noteq> COLLECT_FAUCET" and "GetAccount a False s = Some acc"
  shows "\<exists>acc'. GetAccount a False s' = Some acc' \<and> Nonce acc' = Nonce acc + 1"
proof (cases "TxCost ty False s = Ok 0")
  case True
  then show ?thesis using assms
    by (auto simp: SubtractCostIncrementNonce_def res_simps SetAccount_get split: prod.splits)
next
  case False
  then obtain burn cost acc' burn' s1 where "GetAccount BurnAddress False s = Some burn"
      "Transfer (acc\<lparr>Nonce := Nonce acc + 1\<rparr>) (Some burn) cost = Ok (acc', burn')"
      "SetAccount P a acc' s1 = (Ok (), s')"
    using assms
    by (cases "GetAccount BurnAddress False s"; cases "TxCost ty False s")
      (auto simp: SubtractCostIncrementNonce_def Let_def res_simps split: prod.splits if_splits)
  then show ?thesis by (auto simp: SetAccount_get Transfer_Ok_iff)
qed

lemma nonce_bumped:
  assumes "same_nonces s t" and "SubtractCostIncrementNonce P a ty t = (Ok (), u)" and "ty \<noteq> COLLECT_FAUCET"
    and "GetAccount a False s = Some acc"
  shows "\<exists>acc'. GetAccount a False u = Some acc' \<and> Nonce acc' = Nonce acc + 1"
  using assms SubtractCost_nonce [OF assms(2,3)] by (fastforce simp: same_nonces_def)

lemma AccountFromSignature_again:
  assumes "AccountFromSignature P b sg s = Ok (a, acc)" and "AccountFromSignature P b sg t = Ok (a2, acc2)"
  shows "a2 = a \<and> GetAccount a False s = Some acc \<and> GetAccount a False t = Some acc2"
  using assms by (auto simp: AccountFromSignature_def res_simps split: if_splits option.splits)

lemma nonce_refused:
  assumes "AccountFromSignature P b sg s = Ok (a, acc)" and "same_nonces s t"
    and "SubtractCostIncrementNonce P a ty t = (Ok (), u)" and "ty \<noteq> COLLECT_FAUCET"
  shows "AccountFromSignature P b sg u = Ok (a2, acc2) \<Longrightarrow> Nonce acc2 \<noteq> Nonce acc"
  using AccountFromSignature_again [OF assms(1)] nonce_bumped [OF assms(2-4)] by fastforce

lemma set_process_op_same_accounts: "same_accounts s (snd (set_process_op P tx s))"
  unfolding set_process_op_def
  by (auto simp: process_ops_same_accounts hide_st_def split: TxType.split option.split)

lemma new_process_not_replayed:
  assumes "add_new_process_tx P ch vtx True rsp s = (Ok x, s')"
  shows "add_new_process_tx P ch vtx c rsp2 s' \<noteq> (Ok y, t)"
proof
  assume again: "add_new_process_tx P ch vtx c rsp2 s' = (Ok y, t)"
  obtain p a s1 s2 where chk: "NewProcessTxCheck P ch (vtx_Tx vtx) (vtx_SignedBody vtx) (vtx_Signature vtx) s = Ok (p, a)"
    and run: "AddProcess P p s = (Ok (), s1)" "IncrementAccountProcessIndex P a s1 = (Ok (), s2)"
      "SubtractCostIncrementNonce P a NEW_PROCESS s2 = (Ok (), s')"
    using assms by (auto simp: add_new_process_tx_def Let_def res_simps respond_def)
  obtain p2 a2 where chk2: "NewProcessTxCheck P ch (vtx_Tx vtx) (vtx_SignedBody vtx) (vtx_Signature vtx) s' = Ok (p2, a2)"
    using again by (auto simp: add_new_process_tx_def res_simps)
  have "same_nonces s s1" using same_accounts_nonces [OF AddProcess_same_accounts] run(1) by (metis snd_conv)
  then have "same_nonces s s2" using same_nonces_ops(3) [OF run(2)] by (fastforce simp: same_nonces_def)
  then show False
    using NewProcessTxCheck_sender [OF chk] NewProcessTxCheck_sender [OF chk2] nonce_refused [OF _ _ run(3)]
    by (elim exE conjE) fastforce
qed

lemma set_process_not_replayed:
  assumes "add_set_process_tx P vtx True rsp s = (Ok x, s')"
  shows "add_set_process_tx P vtx c rsp2 s' \<noteq> (Ok y, t)"
proof
  assume again: "add_set_process_tx P vtx c rsp2 s' = (Ok y, t)"
  obtain tx a s1 where chk: "SetProcessTxCheck P (vtx_Tx vtx) (vtx_SignedBody vtx) (vtx_Signature vtx) s = Ok a"
    and run: "set_process_op P tx s = (Ok (), s1)" "SubtractCostIncrementNonce P a (spt_Txtype tx) s1 = (Ok (), s')"
    using assms by (auto simp: add_set_process_tx_def res_simps respond_def split: option.splits)
  obtain a2 where chk2: "SetProcessTxCheck P (vtx_Tx vtx) (vtx_SignedBody vtx) (vtx_Signature vtx) s' = Ok a2"
    using again by (auto simp: add_set_process_tx_def res_simps)
  have "same_nonces s s1" using same_accounts_nonces [OF set_process_op_same_accounts] run(1) by (metis snd_conv)
  moreover have "spt_Txtype tx \<noteq> COLLECT_FAUCET" using run(1) by (auto simp: set_process_op_def)
  ultimately show False
    using SetProcessTxCheck_sender [OF chk] SetProcessTxCheck_sender [OF chk2] nonce_refused [OF _ _ run(2)]
    by (elim exE conjE) fastforce
qed

lemma delegate_not_replayed:
  assumes "add_delegate_tx P vtx True rsp s = (Ok x, s')"
  shows "add_delegate_tx P vtx c rsp2 s' \<noteq> (Ok y, t)"
proof
  assume again: "add_delegate_tx P vtx c rsp2 s' = (Ok y, t)"
  obtain tx where "GetSetAccountDelegateTx (vtx_Tx vtx) = Some tx"
    using assms by (cases "GetSetAccountDelegateTx (vtx_Tx vtx)") (auto simp: add_delegate_tx_def res_simps)
  then obtain a d s1 where chk: "SetAccountDelegateTxCheck P (vtx_Tx vtx) (vtx_SignedBody vtx) (vtx_Signature vtx) s = Ok (a, d)"
    and run: "SetAccountDelegate P a d (sad_Txtype tx) s = (Ok (), s1)" "SubtractCostIncrementNonce P a (sad_Txtype tx) s1 = (Ok (), s')"
    and ty: "sad_Txtype tx \<noteq> COLLECT_FAUCET"
    using assms by (auto simp: add_delegate_tx_def res_simps respond_def split: if_splits)
  obtain a2 d2 where chk2: "SetAccountDelegateTxCheck P (vtx_Tx vtx) (vtx_SignedBody vtx) (vtx_Signature vtx) s' = Ok (a2, d2)"
    using again by (auto simp: add_delegate_tx_def res_simps)
  show False
    using SetAccountDelegateTxCheck_sender [OF chk] SetAccountDelegateTxCheck_sender [OF chk2]
      nonce_refused [OF _ same_nonces_ops(4) [OF run(1)] run(2) ty]
    by (elim exE conjE) fastforce
qed

lemma send_not_replayed:
  assumes "add_send_tx P vtx True rsp s = (Ok x, s')"
  shows "add_send_tx P vtx c rsp2 s' \<noteq> (Ok y, t)"
proof
  assume again: "add_send_tx P vtx c rsp2 s' = (Ok y, t)"
  obtain v s1 where chk: "SendTokensTxCheck P (vtx_Tx vtx) (vtx_SignedBody vtx) (vtx_Signature vtx) s = Ok v"
    and run: "TransferBalance P (st_From v) (st_To v) (st_Value v) s = (Ok (), s1)"
      "SubtractCostIncrementNonce P (st_From v) SEND_TOKENS s1 = (Ok (), s')"
    using assms by (auto simp: add_send_tx_def res_simps respond_def)
  obtain v2 where chk2: "SendTokensTxCheck P (vtx_Tx vtx) (vtx_SignedBody vtx) (vtx_Signature vtx) s' = Ok v2"
    using again by (auto simp: add_send_tx_def res_simps)
  show False
    using SendTokensTxCheck_Ok [OF chk] SendTokensTxCheck_Ok [OF chk2]
      nonce_bumped [OF same_nonces_ops(1) [OF run(1)] run(2)] by auto
qed

lemma SetAccountInfoTxCheck_existing:
  assumes "SetAccountInfoTxCheck P vtx b sg s = Ok v" and "GetAccount (sv_TxSender v) False s = Some acc"
  shows "\<not> sv_CreateAccount v \<and> (\<exists>tx. GetSetAccountInfo vtx = Some tx \<and> Nonce acc = sai_Nonce tx)"
proof -
  obtain tx a where tx: "GetSetAccountInfo vtx = Some tx" "tx_sender P (bz b) (bz sg) = Ok a" and a: "sv_TxSender v = a"
    using SetAccountInfoTxCheck_Ok [OF assms(1)] by blast
  show ?thesis using assms(1) assms(2) [unfolded a] tx
    by (auto simp: SetAccountInfoTxCheck_def Let_def res_simps split: if_splits option.splits)
qed

lemma account_info_not_replayed:
  assumes "add_account_info_tx P vtx True rsp s = (Ok x, s')"
    and "tx_sender P (bz (vtx_SignedBody vtx)) (bz (vtx_Signature vtx)) = Ok a" and "GetAccount a False s \<noteq> None"
  shows "add_account_info_tx P vtx c rsp2 s' \<noteq> (Ok y, t)"
proof
  assume again: "add_account_info_tx P vtx c rsp2 s' = (Ok y, t)"
  obtain acc where acc: "GetAccount a False s = Some acc" using assms(3) by blast
  obtain tx v where chk: "SetAccountInfoTxCheck P (vtx_Tx vtx) (vtx_SignedBody vtx) (vtx_Signature vtx) s = Ok v"
    and op: "set_account_info_op P tx v s = (Ok (), s')"
    using assms(1) by (auto simp: add_account_info_tx_def res_simps respond_def split: option.splits)
  have v: "sv_TxSender v = a" using SetAccountInfoTxCheck_Ok [OF chk] assms(2) by auto
  note ex = SetAccountInfoTxCheck_existing [OF chk, unfolded v, OF acc]
  obtain s1 where run: "SetAccountInfoURI P (sv_Account v) (sai_InfoURI tx) s = (Ok (), s1)"
      "SubtractCostIncrementNonce P a SET_ACCOUNT_INFO s1 = (Ok (), s')"
    using op ex v by (auto simp: set_account_info_op_def res_simps)
  obtain v2 where chk2: "SetAccountInfoTxCheck P (vtx_Tx vtx) (vtx_SignedBody vtx) (vtx_Signature vtx) s' = Ok v2"
    using again by (auto simp: add_account_info_tx_def res_simps)
  have v2: "sv_TxSender v2 = a" using SetAccountInfoTxCheck_Ok [OF chk2] assms(2) by auto
  obtain acc2 where acc2: "GetAccount a False s' = Some acc2" "Nonce acc2 = Nonce acc + 1"
    using nonce_bumped [OF same_nonces_ops(2) [OF run(1)] run(2) _ acc] by auto
  show False using ex SetAccountInfoTxCheck_existing [OF chk2, unfolded v2, OF acc2(1)] acc2(2) by auto
qed

lemma treasurer_again:
  assumes "Treasurer_get False s1 = Treasurer_get False s" and "IncrementTreasurerNonce P s1 = (Ok (), s')"
    and "Treasurer_get False s = Ok t" and "Treasurer_get False s' = Ok t'"
  shows "t_Nonce t' \<noteq> t_Nonce t"
  using IncrementTreasurerNonce_Ok [OF assms(2)] assms(1,3,4) by auto

lemma same_treasurer: "tr_Extra (st_Tx t) = tr_Extra (st_Tx s) \<Longrightarrow> Treasurer_get False t = Treasurer_get False s"
  by (simp add: Treasurer_get_def mainTreeViewer_def)

lemma extra_kept:
  "AddOracle P a s = (r, s') \<Longrightarrow> Treasurer_get False s' = Treasurer_get False s"
  "RemoveOracle P a s = (r, s') \<Longrightarrow> Treasurer_get False s' = Treasurer_get False s"
  "MintBalance P a n s = (r, s') \<Longrightarrow> Treasurer_get False s' = Treasurer_get False s"
proof -
  have ds: "DeepSet P lv sel upd k v s = (r, s') \<Longrightarrow> (\<And>t T. tr_Extra (upd t T) = tr_Extra T) \<Longrightarrow> tr_Extra (st_Tx s') = tr_Extra (st_Tx s)"
    for lv sel and upd :: "'v tree \<Rightarrow> trees \<Rightarrow> trees" and k v
    using DeepSet_snd [of P lv sel upd k v s] by (auto split: res.splits)
  show "AddOracle P a s = (r, s') \<Longrightarrow> Treasurer_get False s' = Treasurer_get False s"
    by (rule same_treasurer) (auto simp: AddOracle_def elim!: ds)
  show "RemoveOracle P a s = (r, s') \<Longrightarrow> Treasurer_get False s' = Treasurer_get False s"
    by (rule same_treasurer, cases "Tree_Get (tr_Oracles (st_Tx s)) a") (auto simp: RemoveOracle_def elim!: ds)
  show "MintBalance P a n s = (r, s') \<Longrightarrow> Treasurer_get False s' = Treasurer_get False s"
    using SetAccount_frame by (intro same_treasurer) (fastforce simp: MintBalance_def split: if_splits option.splits)
qed

lemma treasurer_checks:
  "MintTokensTxCheck P vtx b sg s = Ok v \<Longrightarrow> \<exists>tx t. GetMintTokens vtx = Some tx \<and> Treasurer_get False s = Ok t \<and> t_Nonce t = mt_Nonce tx"
  "SetTransactionCostsTxCheck P vtx b sg s = Ok w \<Longrightarrow>
     \<exists>tx t. GetSetTransactionCosts vtx = Some tx \<and> Treasurer_get False s = Ok t \<and> t_Nonce t = stc_Nonce tx"
  "AdminTxCheck P vtx b sg s = Ok a \<Longrightarrow> GetAdmin vtx = Some ad \<Longrightarrow> ad_Txtype ad = ADD_ORACLE \<or> ad_Txtype ad = REMOVE_ORACLE \<Longrightarrow>
     \<exists>t. Treasurer_get False s = Ok t \<and> t_Nonce t = ad_Nonce ad"
  subgoal by (auto simp: MintTokensTxCheck_def Let_def res_simps split: if_splits option.splits)
  subgoal by (auto simp: SetTransactionCostsTxCheck_def res_simps split: if_splits option.splits)
  subgoal by (auto simp: AdminTxCheck_def VerifyTreasurer_def Let_def res_simps split: if_splits option.splits)
  done

lemma mint_not_replayed:
  assumes "add_mint_tx P vtx True rsp s = (Ok x, s')"
  shows "add_mint_tx P vtx c rsp2 s' \<noteq> (Ok y, t)"
proof
  assume again: "add_mint_tx P vtx c rsp2 s' = (Ok y, t)"
  obtain a n s1 where chk: "MintTokensTxCheck P (vtx_Tx vtx) (vtx_SignedBody vtx) (vtx_Signature vtx) s = Ok (a, n)"
    and run: "MintBalance P a n s = (Ok (), s1)" "IncrementTreasurerNonce P s1 = (Ok (), s')"
    using assms by (auto simp: add_mint_tx_def res_simps respond_def)
  obtain q where chk2: "MintTokensTxCheck P (vtx_Tx vtx) (vtx_SignedBody vtx) (vtx_Signature vtx) s' = Ok q"
    using again by (auto simp: add_mint_tx_def res_simps)
  show False
    using treasurer_checks(1) [OF chk] treasurer_checks(1) [OF chk2] treasurer_again [OF extra_kept(3) [OF run(1)] run(2)] by fastforce
qed

lemma costs_not_replayed:
  assumes "add_costs_tx P vtx True rsp s = (Ok x, s')"
  shows "add_costs_tx P vtx c rsp2 s' \<noteq> (Ok y, t)"
proof
  assume again: "add_costs_tx P vtx c rsp2 s' = (Ok y, t)"
  obtain ty n s1 where chk: "SetTransactionCostsTxCheck P (vtx_Tx vtx) (vtx_SignedBody vtx) (vtx_Signature vtx) s = Ok n"
    and run: "SetTxCost P ty n s = (Ok (), s1)" "IncrementTreasurerNonce P s1 = (Ok (), s')"
    using assms by (auto simp: add_costs_tx_def res_simps respond_def split: option.splits)
  obtain q where chk2: "SetTransactionCostsTxCheck P (vtx_Tx vtx) (vtx_SignedBody vtx) (vtx_Signature vtx) s' = Ok q"
    using again by (auto simp: add_costs_tx_def res_simps)
  show False
    using treasurer_checks(2) [OF chk] treasurer_checks(2) [OF chk2] treasurer_again [OF SetTxCost_treasurer [OF run(1)] run(2)] by fastforce
qed

lemma oracle_not_replayed:
  assumes "add_admin_tx P vtx True rsp s = (Ok x, s')" and ad: "GetAdmin (vtx_Tx vtx) = Some ad"
    and ty: "ad_Txtype ad = ADD_ORACLE \<or> ad_Txtype ad = REMOVE_ORACLE"
  shows "add_admin_tx P vtx c rsp2 s' \<noteq> (Ok y, t)"
proof
  assume again: "add_admin_tx P vtx c rsp2 s' = (Ok y, t)"
  obtain a s1 where chk: "AdminTxCheck P (vtx_Tx vtx) (vtx_SignedBody vtx) (vtx_Signature vtx) s = Ok a"
    and run: "Treasurer_get False s1 = Treasurer_get False s" "IncrementTreasurerNonce P s1 = (Ok (), s')"
    using assms by (auto simp: add_admin_tx_def res_simps respond_def split: if_splits dest: extra_kept)
  obtain q where chk2: "AdminTxCheck P (vtx_Tx vtx) (vtx_SignedBody vtx) (vtx_Signature vtx) s' = Ok q"
    using again by (auto simp: add_admin_tx_def res_simps)
  show False
    using treasurer_checks(3) [OF chk ad ty] treasurer_checks(3) [OF chk2 ad ty] treasurer_again [OF run] by fastforce
qed

lemma SubtractCost_faucet:
  assumes "SubtractCostIncrementNonce P a ty s = (Ok (), s')"
  shows "FaucetNonce P k False s' = FaucetNonce P k False s"
proof -
  obtain acc where acc: "GetAccount a False s = Some acc"
    using assms by (cases "GetAccount a False s") (auto simp: SubtractCostIncrementNonce_def)
  show ?thesis
    using assms acc
    by (cases "GetAccount BurnAddress False s"; cases "TxCost ty False s = Ok 0")
      (auto simp: SubtractCostIncrementNonce_def Let_def res_simps SetAccount_faucet split: if_splits)
qed

lemma faucet_not_replayed:
  assumes "add_faucet_tx P vtx True rsp s = (Ok x, s')" and "\<not> arbo_leaf_stop P"
  shows "add_faucet_tx P vtx c rsp2 s' \<noteq> (Ok y, t)"
proof
  assume again: "add_faucet_tx P vtx c rsp2 s' = (Ok y, t)"
  obtain a where chk: "CollectFaucetTxCheck P (vtx_Tx vtx) (vtx_SignedBody vtx) (vtx_Signature vtx) s = Ok a"
    using assms by (auto simp: add_faucet_tx_def res_simps)
  then obtain tx pkg fp where p: "GetCollectFaucet (vtx_Tx vtx) = Some tx" "cf_FaucetPackage tx = Some pkg" "fk_Payload pkg = Some fp"
    "AddrFromSignature P (Marshal_FaucetPayload P fp) (bz (fk_Signature pkg)) = Ok a"
    using CollectFaucetTxCheck_Ok by blast
  then obtain s1 where run: "ConsumeFaucetPayload P a (Some fp) COLLECT_FAUCET s = (Ok (), s1)"
      "SubtractCostIncrementNonce P a COLLECT_FAUCET s1 = (Ok (), s')"
    using assms chk by (auto simp: add_faucet_tx_def res_simps respond_def)
  obtain q where chk2: "CollectFaucetTxCheck P (vtx_Tx vtx) (vtx_SignedBody vtx) (vtx_Signature vtx) s' = Ok q"
    using again by (auto simp: add_faucet_tx_def res_simps)
  show False
    using CollectFaucetTxCheck_Ok [OF chk2] p ConsumeFaucetPayload_used [OF run(1) assms(2)] SubtractCost_faucet [OF run(2)] by auto
qed

text \<open>The transactions a nonce or an identifier guards: all but votes (which the nullifier guards),
  key registrations, transactions of the key keepers and the creation of an account.\<close>

definition replay_guarded :: "params \<Rightarrow> VochainTx \<Rightarrow> state \<Rightarrow> bool" where
  "replay_guarded P vtx s =
     (case vtx_Tx vtx of
        Some (Some (Tx_Admin (Some ad))) \<Rightarrow> ad_Txtype ad = ADD_ORACLE \<or> ad_Txtype ad = REMOVE_ORACLE
      | Some (Some (Tx_SetAccountInfo _)) \<Rightarrow>
          (case tx_sender P (bz (vtx_SignedBody vtx)) (bz (vtx_Signature vtx)) of
             Ok a \<Rightarrow> GetAccount a False s \<noteq> None | _ \<Rightarrow> False)
      | Some (Some (Tx_NewProcess _)) \<Rightarrow> True
      | Some (Some (Tx_SetProcess _)) \<Rightarrow> True
      | Some (Some (Tx_SetTransactionCosts _)) \<Rightarrow> True
      | Some (Some (Tx_MintTokens _)) \<Rightarrow> True
      | Some (Some (Tx_SendTokens _)) \<Rightarrow> True
      | Some (Some (Tx_SetAccountDelegateTx _)) \<Rightarrow> True
      | Some (Some (Tx_CollectFaucet _)) \<Rightarrow> True
      | _ \<Rightarrow> False)"

text \<open>C5. A transaction that was executed is refused when it is sent again: transfers, mints, costs,
  oracles, delegates, process creations and changes, account changes and collected faucet payloads
  are not accepted a second time by a check or by a delivery on the state they left.\<close>

theorem no_replay:
  assumes "\<not> arbo_leaf_stop P" and "AddTx P chainID nVKs vtx True s = (Ok rsp, s')" and "replay_guarded P vtx s"
  shows "\<nexists>rsp' t. AddTx P chainID nVKs vtx commit s' = (Ok rsp', t)"
proof -
  obtain p where p: "vtx_Tx vtx = Some (Some p)"
    using assms(2) by (auto simp: AddTx_def split: option.splits)
  show ?thesis
  proof (cases p)
    case (Tx_Admin ad)
    then obtain ad' where "ad = Some ad'" using assms(3) p by (cases ad) (auto simp: replay_guarded_def)
    then show ?thesis using assms p Tx_Admin oracle_not_replayed [of P vtx _ s rsp s' ad']
      by (auto simp: AddTx_def replay_guarded_def GetAdmin_def)
  next
    case (Tx_SetAccountInfo i)
    then show ?thesis using assms p account_info_not_replayed [of P vtx _ s rsp s']
      by (auto simp: AddTx_def replay_guarded_def split: res.splits)
  qed (use assms p new_process_not_replayed set_process_not_replayed mint_not_replayed costs_not_replayed send_not_replayed
        delegate_not_replayed faucet_not_replayed in \<open>auto simp: AddTx_def Let_def replay_guarded_def\<close>)
qed

lemma TxCost_frame: "tr_Extra (st_Tx t) = tr_Extra (st_Tx s) \<Longrightarrow> TxCost ty False t = TxCost ty False s"
  by (cases "TxTypeCostToStateKey ty") (simp_all add: TxCost_def mainTreeViewer_def)

lemma send0_runs: "\<exists>s'. AddTx one_key ''v'' 1 send0 True ex_state = (Ok \<lparr>rsp_TxHash = [], rsp_Data = []\<rparr>, s')"
proof -
  let ?a = "(acc0 100)\<lparr>Balance := 70\<rparr>" and ?b = "(acc0 50)\<lparr>Balance := 80\<rparr>"
  have wf: "accounts_wf one_key ex_state" using ex_wf by (simp add: accounts_wf_def one_key_def)
  obtain s1 where s1: "SetAccount one_key alice ?a ex_state = (Ok (), s1)"
    using SetAccount_existing [OF wf ex_get(1)] by blast
  have w1: "accounts_wf one_key s1" using SetAccount_wf_Ok [OF s1 wf] .
  have g1: "GetAccount bob False s1 = Some (acc0 50)" using SetAccount_get [OF s1] by simp
  obtain s2 where s2: "SetAccount one_key bob ?b s1 = (Ok (), s2)"
    using SetAccount_existing [OF w1 g1] by blast
  have w2: "accounts_wf one_key s2" using SetAccount_wf_Ok [OF s2 w1] .
  have g2: "GetAccount alice False s2 = Some ?a" "GetAccount BurnAddress False s2 = Some (acc0 0)"
    using SetAccount_get [OF s1] SetAccount_get [OF s2] by simp_all
  have t: "TransferBalance one_key alice bob 30 ex_state = (Ok (), s2)"
    using s1 s2 by (simp add: TransferBalance_def Transfer_def acc0_def)
  have "TxCost SEND_TOKENS False s2 = Ok 10"
    using SetAccount_frame [OF s1] SetAccount_frame [OF s2] TxCost_frame [of s2 ex_state] by simp
  obtain s3 where s3: "SetAccount one_key BurnAddress ((acc0 0)\<lparr>Balance := 10\<rparr>) s2 = (Ok (), s3)"
    using SetAccount_existing [OF w2 g2(2)] by blast
  have "GetAccount alice False s3 = Some ?a" using SetAccount_get [OF s3] g2 by simp
  then obtain s4 where s4: "SetAccount one_key alice (?a\<lparr>Nonce := 1, Balance := 60\<rparr>) s3 = (Ok (), s4)"
    using SetAccount_existing [OF SetAccount_wf_Ok [OF s3 w2]] by blast
  have "SubtractCostIncrementNonce one_key alice SEND_TOKENS s2 = (Ok (), s4)"
    using g2 s3 s4 \<open>TxCost SEND_TOKENS False s2 = Ok 10\<close>
    by (simp add: SubtractCostIncrementNonce_def Transfer_def acc0_def wrap_st_def)
  then show ?thesis using send0_check t
    by (simp add: AddTx_def add_send_tx_def send0_def wrap_st_def respond_def)
qed

theorem no_replay_witness:
  "\<nexists>rsp t. AddTx one_key ''v'' 1 send0 False (snd (AddTx one_key ''v'' 1 send0 True ex_state)) = (Ok rsp, t)"
proof -
  obtain s' where run: "AddTx one_key ''v'' 1 send0 True ex_state = (Ok \<lparr>rsp_TxHash = [], rsp_Data = []\<rparr>, s')"
    using send0_runs by blast
  have "replay_guarded one_key send0 ex_state" by (simp add: replay_guarded_def send0_def)
  from no_replay [OF _ run this] show ?thesis unfolding run by (simp add: one_key_def)
qed

section \<open>Checks leave the state alone\<close>


section \<open>The creation of an account is accepted a second time\<close>

lemma ConsumeFaucetPayload_nonces:
  assumes "ConsumeFaucetPayload P from (Some fp) SET_ACCOUNT_INFO s = (Ok (), s')"
  shows "same_nonces s s'"
proof -
  obtain x y z x' y' z' s0 s1 s2 where g: "GetAccount from False s = Some x"
      "GetAccount (BytesToAddress P (fp_To fp)) False s = Some y" "GetAccount BurnAddress False s = Some z"
    and f: "faucet_result x y z (fp_Amount fp) SET_ACCOUNT_INFO s = Ok (x', y', z')"
    and n: "SetFaucetNonce P (faucet_key P from (fp_Identifier fp)) s = (Ok (), s0)"
    and w: "SetAccount P from x' s0 = (Ok (), s1)" "SetAccount P (BytesToAddress P (fp_To fp)) y' s1 = (Ok (), s2)"
      "SetAccount P BurnAddress z' s2 = (Ok (), s')"
    using ConsumeFaucetPayload_Ok [OF assms] by blast
  have "Nonce x' = Nonce x \<and> Nonce y' = Nonce y \<and> Nonce z' = Nonce z"
    using f by (auto simp: faucet_result_def res_simps Transfer_Ok_iff)
  moreover have "GetAccount a False s0 = GetAccount a False s" for a
    using SetFaucetNonce_frame [OF n] GetAccount_frame by blast
  ultimately show ?thesis
    using g SetAccount_get [OF w(1)] SetAccount_get [OF w(2)] SetAccount_get [OF w(3)] by (auto simp: same_nonces_def)
qed

lemma created_nonce:
  assumes "CreateAccount P a uri ds n s = (Ok (), s')"
  shows "\<exists>acc. GetAccount a False s' = Some acc \<and> Nonce acc = 0"
  using assms by (auto simp: CreateAccount_def SetAccount_get split: if_splits option.splits)

text \<open>The transaction that creates an account is checked for no nonce and the new account starts
  at nonce 0: when the transaction carries nonce 0 and names the sender's own account, and the account can pay the fee, it is accepted
  once more, now as a change of the account, which is charged for it.\<close>

theorem creation_replayed:
  assumes "SetAccountInfoTxCheck P vtx b sg s = Ok v" and "sv_CreateAccount v" and "GetSetAccountInfo vtx = Some tx"
    and "set_account_info_op P tx v s = (Ok (), s')"
    and "sai_Nonce tx = 0" and "BytesToAddress P (sai_Account tx) = sv_TxSender v"
    and "TxCost SET_ACCOUNT_INFO False s' = Ok cost"
  shows "\<exists>acc. GetAccount (sv_TxSender v) False s' = Some acc \<and>
     (cost \<le> Balance acc \<longrightarrow> (\<exists>v'. SetAccountInfoTxCheck P vtx b sg s' = Ok v' \<and> \<not> sv_CreateAccount v'))"
proof -
  let ?a = "sv_TxSender v"
  note ok = SetAccountInfoTxCheck_Ok [OF assms(1)]
  obtain acc where acc: "GetAccount ?a False s' = Some acc" "Nonce acc = 0"
  proof (cases "sv_CreateAccountWithFaucet v")
    case True
    then obtain pkg fp where "sai_FaucetPackage tx = Some pkg" "fk_Payload pkg = Some fp" using ok assms(2,3) by auto
    then obtain s1 where "CreateAccount P ?a (sai_InfoURI tx) [] 0 s = (Ok (), s1)"
      "ConsumeFaucetPayload P (sv_FaucetPayloadSigner v) (Some fp) SET_ACCOUNT_INFO s1 = (Ok (), s')"
      using assms(2,4) True by (auto simp: set_account_info_op_def res_simps)
    then show ?thesis using created_nonce ConsumeFaucetPayload_nonces that unfolding same_nonces_def by metis
  next
    case False
    then have "CreateAccount P ?a (sai_InfoURI tx) [] 0 s = (Ok (), s')" using assms(2,4) by (simp add: set_account_info_op_def)
    then show ?thesis using created_nonce that by blast
  qed
  have "vtx \<noteq> None" "sg \<noteq> None" "b \<noteq> None" "sai_InfoURI tx \<noteq> []"
    using assms(1,3) by (auto simp: SetAccountInfoTxCheck_def split: if_splits)
  moreover have "tx_sender P (bz b) (bz sg) = Ok ?a" using ok by blast
  ultimately have "cost \<le> Balance acc \<longrightarrow> (\<exists>v'. SetAccountInfoTxCheck P vtx b sg s' = Ok v' \<and> \<not> sv_CreateAccount v')"
    using acc assms(3,5-7) by (auto simp: SetAccountInfoTxCheck_def Let_def not_less)
  then show ?thesis using acc by blast
qed

text \<open>The account of the one key, created on a chain where changing an account is free.\<close>

definition create0 :: VochainTx where
  "create0 = \<lparr>vtx_Tx = Some (Some (Tx_SetAccountInfo (Some \<lparr>sai_Nonce = 0, sai_InfoURI = ''ipfs://a'',
       sai_Account = alice, sai_FaucetPackage = None\<rparr>))),
     vtx_SignedBody = Some [1], vtx_Signature = Some (replicate 65 0), vtx_TxID = []\<rparr>"

definition free_state :: state where
  "free_state = NewState\<lparr>st_Tx := trees0\<lparr>tr_Extra := [(str ''c_setAccountInfo'', XBytes (PutUint64LE 0))]\<rparr>\<rparr>"

theorem creation_replayed_witness:
  "\<exists>s' v'. AddTx one_key ''v'' 1 create0 True free_state = (Ok \<lparr>rsp_TxHash = [], rsp_Data = []\<rparr>, s') \<and>
     SetAccountInfoTxCheck one_key (vtx_Tx create0) (vtx_SignedBody create0) (vtx_Signature create0) s' = Ok v' \<and> \<not> sv_CreateAccount v'"
proof -
  let ?v = "\<lparr>sv_Account = alice, sv_TxSender = alice, sv_FaucetPayloadSigner = EthereumZeroAddress,
    sv_CreateAccount = True, sv_CreateAccountWithFaucet = False\<rparr>"
  let ?tx = "\<lparr>sai_Nonce = 0, sai_InfoURI = ''ipfs://a'', sai_Account = alice, sai_FaucetPackage = None\<rparr>"
  have g: "GetAccount a False free_state = None" for a
    by (simp add: GetAccount_def free_state_def mainTreeViewer_def trees0_def)
  have tx: "GetSetAccountInfo (vtx_Tx create0) = Some ?tx" by (simp add: create0_def GetSetAccountInfo_def)
  have chk: "SetAccountInfoTxCheck one_key (vtx_Tx create0) (vtx_SignedBody create0) (vtx_Signature create0) free_state = Ok ?v"
    using send0_sender tx by (simp add: SetAccountInfoTxCheck_def create0_def g Let_def)
  have "tr_Accounts (st_Tx free_state) = []" by (simp add: free_state_def trees0_def)
  then obtain s' where op: "set_account_info_op one_key ?tx ?v free_state = (Ok (), s')"
    by (simp add: set_account_info_op_def CreateAccount_def g SetAccount_def DeepSet_def Tree_Set_def Tree_Add_def one_key_def)
  then have s': "tr_Extra (st_Tx s') = tr_Extra (st_Tx free_state)"
    by (auto simp: set_account_info_op_def CreateAccount_def g dest: SetAccount_frame)
  have c: "TxCost SET_ACCOUNT_INFO False s' = Ok 0"
    unfolding TxCost_frame [OF s']
    by (simp add: TxCost_def TxTypeCostToStateKey_def free_state_def mainTreeViewer_def Tree_Get_def of_option_def)
  have "AddTx one_key ''v'' 1 create0 True free_state = (Ok \<lparr>rsp_TxHash = [], rsp_Data = []\<rparr>, s')"
    using chk tx op by (simp add: AddTx_def add_account_info_tx_def create0_def respond_def)
  moreover have "BytesToAddress one_key alice = alice" by (simp add: one_key_def)
  ultimately show ?thesis
    using creation_replayed [OF chk _ tx op _ _ c] by auto
qed

end
