(* ===== verification/Application.thy ===== *)
theory Application
  imports Transaction_Laws
begin

text \<open>
  The application under Tendermint (\<^verbatim>\<open>src/vochain/app.go\<close>, with the genesis data of
  \<^verbatim>\<open>src/vochain/types.go\<close> and the block cache of \<^verbatim>\<open>src/db/lru/atomic.go\<close>): checking and delivering transactions, the start
  and the end of a block, its commit, the genesis, and the look-up of blocks and transactions.
  \<^verbatim>\<open>log.Fatalf\<close> stops the process and is a panic here. Tendermint's block store, its hash of a transaction and the
  eviction of the cache are arguments.
\<close>

section \<open>The application\<close>

type_synonym block = "bytes list"

record BaseApplication =
  app_State :: state
  app_height :: u32
  app_endBlockTimestamp :: int
  app_startBlockTimestamp :: int
  app_chainID :: string
  app_ZkVKs :: nat
  app_blockCache :: "(int \<times> block option option) list"

definition NewBaseApplication :: BaseApplication where
  "NewBaseApplication = \<lparr>app_State = NewState, app_height = 0, app_endBlockTimestamp = 0,
     app_startBlockTimestamp = 0, app_chainID = [], app_ZkVKs = 0, app_blockCache = []\<rparr>"

definition SetChainID :: "string \<Rightarrow> BaseApplication \<Rightarrow> BaseApplication" where
  "SetChainID chainId app = app\<lparr>app_chainID := chainId, app_State := (app_State app)\<lparr>st_chainID := chainId\<rparr>\<rparr>"

text \<open>An operation of the state, run on the state of the application.\<close>

definition on_state :: "BaseApplication \<Rightarrow> 'a res \<times> state \<Rightarrow> 'a res \<times> BaseApplication" where
  "on_state app r = (fst r, app\<lparr>app_State := snd r\<rparr>)"

definition fatal :: "string \<Rightarrow> 'a res \<times> 's \<Rightarrow> 'a res \<times> 's" where
  "fatal m r = ((case fst r of Fail e \<Rightarrow> Panic m | x \<Rightarrow> x), snd r)"

section \<open>Blocks\<close>

text \<open>The purge of the vote cache is started beside the block and may take place later in it; here it
  takes place at once.\<close>

definition BeginBlock :: "int \<Rightarrow> int \<Rightarrow> BaseApplication \<Rightarrow> BaseApplication" where
  "BeginBlock time height app =
     (let app = app\<lparr>app_State := Rollback (app_State app)\<rparr>;
          app = app\<lparr>app_startBlockTimestamp := time\<rparr>;
          h = (word_of_int height :: u32);
          app = app\<lparr>app_State := SetHeight h (app_State app)\<rparr>
      in app\<lparr>app_State := fst (CachePurge h (app_State app))\<rparr>)"

definition endBlock :: "int \<Rightarrow> int \<Rightarrow> BaseApplication \<Rightarrow> BaseApplication" where
  "endBlock height timestamp app =
     app\<lparr>app_height := word_of_int height, app_endBlockTimestamp := timestamp\<rparr>"

text \<open>The answer to a check or a delivery: the error takes the place of the data.\<close>

record ResponseTx =
  rt_Code :: nat
  rt_Data :: bytes
  rt_Info :: string
  rt_Error :: "(string \<times> err) option"

definition accepted :: "AddTxResponse \<Rightarrow> ResponseTx" where
  "accepted r = \<lparr>rt_Code = 0, rt_Data = rsp_Data r, rt_Info = hex (rsp_TxHash r), rt_Error = None\<rparr>"

definition rejected :: "string \<Rightarrow> err \<Rightarrow> ResponseTx" where
  "rejected m e = \<lparr>rt_Code = 1, rt_Data = [], rt_Info = [], rt_Error = Some (m, e)\<rparr>"

definition CheckTx :: "params \<Rightarrow> bool \<Rightarrow> bytes \<Rightarrow> BaseApplication \<Rightarrow> ResponseTx res \<times> BaseApplication" where
  "CheckTx P recheck tx app =
     (if recheck then (Ok \<lparr>rt_Code = 0, rt_Data = [], rt_Info = [], rt_Error = None\<rparr>, app)
      else case VochainTx_Unmarshal P tx (app_chainID app) of
        Panic m \<Rightarrow> (Panic m, app)
      | Fail e \<Rightarrow> (Ok (rejected ''unmarshalTx '' e), app)
      | Ok vtx \<Rightarrow>
          (case on_state app (AddTx P (app_chainID app) (app_ZkVKs app) vtx False (app_State app)) of
             (Panic m, app) \<Rightarrow> (Panic m, app)
           | (Ok response, app) \<Rightarrow> (Ok (accepted response), app)
           | (Fail e, app) \<Rightarrow>
               if errors_is e ErrorAlreadyExistInCache
               then (Ok \<lparr>rt_Code = 0, rt_Data = [], rt_Info = [], rt_Error = None\<rparr>, app)
               else (Ok (rejected ''addTx '' e), app)))"

text \<open>The counter of transactions is raised when the delivery returns, whatever its result.\<close>

definition count_tx :: "ResponseTx res \<times> BaseApplication \<Rightarrow> ResponseTx res \<times> BaseApplication" where
  "count_tx r = (fst r, (snd r)\<lparr>app_State := TxCounterAdd (app_State (snd r))\<rparr>)"

definition DeliverTx ::
  "params \<Rightarrow> (bytes \<Rightarrow> bytes) \<Rightarrow> bytes \<Rightarrow> BaseApplication \<Rightarrow> ResponseTx res \<times> BaseApplication" where
  "DeliverTx P tm_Hash tx app = count_tx
     (case VochainTx_Unmarshal P tx (app_chainID app) of
        Panic m \<Rightarrow> (Panic m, app)
      | Fail e \<Rightarrow> (Ok (rejected [] e), app)
      | Ok vtx \<Rightarrow>
          (case on_state app (AddTx P (app_chainID app) (app_ZkVKs app) vtx True (app_State app)) of
             (Panic m, app) \<Rightarrow> (Panic m, app)
           | (Fail e, app) \<Rightarrow> (Ok (rejected [] e), app)
           | (Ok response, app) \<Rightarrow>
               (Ok (accepted response),
                app\<lparr>app_State := emit (OnNewTx (tm_Hash tx) (app_height app + 1) (st_txCounter (app_State app)))
                                  (app_State app)\<rparr>)))"

text \<open>A snapshot is taken every 50000 blocks, unless the node is catching up.\<close>

definition Commit :: "params \<Rightarrow> (trees \<Rightarrow> bytes) \<Rightarrow> bool \<Rightarrow> unit res \<Rightarrow> BaseApplication \<Rightarrow> bytes res \<times> BaseApplication" where
  "Commit P mainRoot synchronizing snapshot app =
     and_then (fatal ''cannot save state'' (on_state app (Save P mainRoot (app_State app)))) (\<lambda>data app.
       if app_height app mod 50000 = 0 \<and> \<not> synchronizing
       then and_then (fatal ''cannot make state snapshot'' (snapshot, app)) (\<lambda>_ app. (Ok data, app))
       else (Ok data, app))"

record ResponseInfo =
  ri_LastBlockHeight :: int
  ri_LastBlockAppHash :: bytes

definition Info :: "(trees \<Rightarrow> bytes) \<Rightarrow> BaseApplication \<Rightarrow> ResponseInfo" where
  "Info mainRoot app = \<lparr>ri_LastBlockHeight = uint (LastHeight (app_State app)),
     ri_LastBlockAppHash = mainRoot (st_View (app_State app))\<rparr>"

section \<open>Genesis\<close>

record TransactionCosts =
  tc_SetProcessStatus :: u64
  tc_SetProcessCensus :: u64
  tc_SetProcessResults :: u64
  tc_SetProcessQuestionIndex :: u64
  tc_RegisterKey :: u64
  tc_NewProcess :: u64
  tc_SendTokens :: u64
  tc_SetAccountInfo :: u64
  tc_AddDelegateForAccount :: u64
  tc_DelDelegateForAccount :: u64
  tc_CollectFaucet :: u64

definition TxCostNameToTxTypeMap :: "(string \<times> TxType) list" where
  "TxCostNameToTxTypeMap =
     [(''SetProcessStatus'', SET_PROCESS_STATUS), (''SetProcessCensus'', SET_PROCESS_CENSUS),
      (''SetProcessResults'', SET_PROCESS_RESULTS), (''SetProcessQuestionIndex'', SET_PROCESS_QUESTION_INDEX),
      (''SendTokens'', SEND_TOKENS), (''SetAccountInfo'', SET_ACCOUNT_INFO), (''RegisterKey'', REGISTER_VOTER_KEY),
      (''NewProcess'', NEW_PROCESS), (''AddDelegateForAccount'', ADD_DELEGATE_FOR_ACCOUNT),
      (''DelDelegateForAccount'', DEL_DELEGATE_FOR_ACCOUNT), (''CollectFaucet'', COLLECT_FAUCET)]"

definition TxCostNameToTxType :: "string \<Rightarrow> TxType" where
  "TxCostNameToTxType key = (case map_of TxCostNameToTxTypeMap key of Some ty \<Rightarrow> ty | None \<Rightarrow> TX_UNKNOWN)"

definition TxTypeToCostName :: "TxType \<Rightarrow> string" where
  "TxTypeToCostName ty =
     (case ty of
        SET_PROCESS_STATUS \<Rightarrow> ''SetProcessStatus'' | SET_PROCESS_CENSUS \<Rightarrow> ''SetProcessCensus''
      | SET_PROCESS_RESULTS \<Rightarrow> ''SetProcessResults'' | SET_PROCESS_QUESTION_INDEX \<Rightarrow> ''SetProcessQuestionIndex''
      | SEND_TOKENS \<Rightarrow> ''SendTokens'' | SET_ACCOUNT_INFO \<Rightarrow> ''SetAccountInfo'' | REGISTER_VOTER_KEY \<Rightarrow> ''RegisterKey''
      | NEW_PROCESS \<Rightarrow> ''NewProcess'' | ADD_DELEGATE_FOR_ACCOUNT \<Rightarrow> ''AddDelegateForAccount''
      | DEL_DELEGATE_FOR_ACCOUNT \<Rightarrow> ''DelDelegateForAccount'' | COLLECT_FAUCET \<Rightarrow> ''CollectFaucet''
      | _ \<Rightarrow> ''TX_UNKNOWN'')"

text \<open>The fields by name, in their order in the struct; the map is iterated in an order of Go's choice.\<close>

definition cost_fields :: "TransactionCosts \<Rightarrow> (string \<times> u64) list" where
  "cost_fields t =
     [(''SetProcessStatus'', tc_SetProcessStatus t), (''SetProcessCensus'', tc_SetProcessCensus t),
      (''SetProcessResults'', tc_SetProcessResults t), (''SetProcessQuestionIndex'', tc_SetProcessQuestionIndex t),
      (''RegisterKey'', tc_RegisterKey t), (''NewProcess'', tc_NewProcess t), (''SendTokens'', tc_SendTokens t),
      (''SetAccountInfo'', tc_SetAccountInfo t), (''AddDelegateForAccount'', tc_AddDelegateForAccount t),
      (''DelDelegateForAccount'', tc_DelDelegateForAccount t), (''CollectFaucet'', tc_CollectFaucet t)]"

definition AsMap :: "TransactionCosts \<Rightarrow> (TxType \<times> u64) list" where
  "AsMap t = map (\<lambda>(name, v). (TxCostNameToTxType name, v)) (cost_fields t)"

record GenesisValidator =
  gv_Address :: bytes
  gv_PubKey :: bytes
  gv_Power :: string

record GenesisAppState =
  ga_Validators :: "GenesisValidator list"
  ga_Oracles :: "bytes list"
  ga_Accounts :: "(bytes \<times> u64) list"
  ga_Treasurer :: bytes
  ga_TxCost :: TransactionCosts

text \<open>\<^verbatim>\<open>strconv.ParseUint(s, 10, 64)\<close>.\<close>

definition ParseUint :: "string \<Rightarrow> u64 res" where
  "ParseUint w =
     (case (if w = [] then None else digits_value 0 w) of
        None \<Rightarrow> Fail (Errf ''invalid syntax'')
      | Some n \<Rightarrow> if n < 2 ^ 64 then Ok (word_of_int n) else Fail (Errf ''value out of range''))"

fun init_oracles :: "params \<Rightarrow> bytes list \<Rightarrow> state \<Rightarrow> unit res \<times> state" where
  "init_oracles P [] s = (Ok (), s)"
| "init_oracles P (v # vs) s =
     (let addr = BytesToAddress P v
      in and_then (fatal ''cannot add oracles'' (AddOracle P addr s)) (\<lambda>_ s.
           init_oracles P vs (snd (CreateAccount P addr [] [] 100 s))))"

fun init_accounts :: "params \<Rightarrow> (bytes \<times> u64) list \<Rightarrow> state \<Rightarrow> unit res \<times> state" where
  "init_accounts P [] s = (Ok (), s)"
| "init_accounts P ((a, balance) # accs) s =
     (let addr = BytesToAddress P a;
          r = CreateAccount P addr [] [] balance s;
          r = (if fst r = Fail ErrAccountAlreadyExists then MintBalance P addr balance (snd r) else r)
      in and_then (fatal ''cannot create account'' r) (\<lambda>_ s. init_accounts P accs s))"

fun init_validators :: "params \<Rightarrow> GenesisValidator list \<Rightarrow> state \<Rightarrow> unit res \<times> state" where
  "init_validators P [] s = (Ok (), s)"
| "init_validators P (v # vs) s =
     and_then (fatal ''cannot decode validator power'' (ParseUint (gv_Power v), s)) (\<lambda>pwr s.
     and_then (fatal ''cannot add validator''
        (AddValidator P \<lparr>val_Address = gv_Address v, val_PubKey = gv_PubKey v, val_Power = pwr\<rparr> s)) (\<lambda>_ s.
       init_validators P vs s))"

fun init_costs :: "params \<Rightarrow> (TxType \<times> u64) list \<Rightarrow> state \<Rightarrow> unit res \<times> state" where
  "init_costs P [] s = (Ok (), s)"
| "init_costs P ((ty, c) # cs) s =
     and_then (fatal ''could not set tx cost'' (SetTxCost P ty c s)) (\<lambda>_ s. init_costs P cs s)"

definition InitChain ::
  "params \<Rightarrow> ((TxType \<times> u64) list \<Rightarrow> (TxType \<times> u64) list) \<Rightarrow> (trees \<Rightarrow> bytes) \<Rightarrow> GenesisAppState option \<Rightarrow> state \<Rightarrow> bytes res \<times> state" where
  "InitChain P order mainRoot genesis s =
     (case genesis of
        None \<Rightarrow> (Panic ''cannot unmarshal app state bytes'', s)
      | Some g \<Rightarrow>
          and_then (init_oracles P (ga_Oracles g) s) (\<lambda>_ s.
          and_then (init_accounts P (ga_Accounts g) s) (\<lambda>_ s.
          and_then (init_validators P (ga_Validators g) s) (\<lambda>_ s.
          and_then (fatal ''could not set State.Treasurer''
                      (SetTreasurer P (BytesToAddress P (ga_Treasurer g)) 0 s)) (\<lambda>_ s.
          and_then (init_costs P (order (AsMap (ga_TxCost g))) s) (\<lambda>_ s.
          and_then (fatal ''unable to set burn address'' (SetAccount P BurnAddress
             \<lparr>Balance = 0, Nonce = 0, InfoURI = [], DelegateAddrs = [], ProcessIndex = 0\<rparr> s)) (\<lambda>_ s.
            fatal ''cannot save state'' (Save P mainRoot s))))))))"

section \<open>Blocks and transactions of the past\<close>

text \<open>A value of an interface that holds a pointer to no block is not nil.\<close>

definition GetAndUpdate ::
  "(('k \<times> 'v option) list \<Rightarrow> ('k \<times> 'v option) list) \<Rightarrow> 'k \<Rightarrow> ('v option \<Rightarrow> 'v option) \<Rightarrow>
     ('k \<times> 'v option) list \<Rightarrow> 'v option \<times> ('k \<times> 'v option) list" where
  "GetAndUpdate keep key updateValue cache =
     (case map_of cache key of
        Some v \<Rightarrow> (updateValue v, (key, updateValue v) # filter (\<lambda>e. fst e \<noteq> key) cache)
      | None \<Rightarrow> (updateValue None, keep ((key, updateValue None) # cache)))"

definition GetBlockByHeight ::
  "((int \<times> block option option) list \<Rightarrow> (int \<times> block option option) list) \<Rightarrow> (int \<Rightarrow> block option) \<Rightarrow> int \<Rightarrow>
     BaseApplication \<Rightarrow> block option \<times> BaseApplication" where
  "GetBlockByHeight keep fnGetBlockByHeight height app =
     (let (v, cache) = GetAndUpdate keep height (\<lambda>prev. if prev \<noteq> None then prev else Some (fnGetBlockByHeight height))
                         (app_blockCache app)
      in (the v, app\<lparr>app_blockCache := cache\<rparr>))"

definition getTxTendermint ::
  "params \<Rightarrow> ((int \<times> block option option) list \<Rightarrow> (int \<times> block option option) list) \<Rightarrow> (int \<Rightarrow> block option) \<Rightarrow> u32 \<Rightarrow> int \<Rightarrow>
     BaseApplication \<Rightarrow> (bytes \<times> bytes option) res \<times> BaseApplication" where
  "getTxTendermint P keep fnGetBlockByHeight height txIndex app =
     (let (block, app) = GetBlockByHeight keep fnGetBlockByHeight (uint height) app
      in case block of
           None \<Rightarrow> (Fail (Errf ''unable to get block by height: %d''), app)
         | Some txs \<Rightarrow>
             if sint (of_nat (length txs) :: u32) \<le> txIndex
             then (Fail (Errf ''txIndex overflow on GetTx (height: %d, txIndex:%d)''), app)
             else if txIndex < 0 then (Panic ''index out of range'', app)
             else (rbind (index_at txs (nat txIndex)) (\<lambda>tx. of_option (Errf ''proto: cannot parse'') (Unmarshal_SignedTx P tx)), app))"

end
