(* ===== verification/Chain_Invariant.thy ===== *)
theory Chain_Invariant
  imports Application
begin

text \<open>
  What holds of the state along the life of the chain: the invariant of accounts, processes and the
  index of the processes to start, that every transaction and every block keeps; that the commit of
  a block goes through; that what is committed stays.
\<close>

section \<open>The invariant\<close>

text \<open>A process of the index can be started: it is stored and, when voters register for it, its
  census has a size.\<close>

definition can_start :: "state \<Rightarrow> bytes \<Rightarrow> bool" where
  "can_start s pid \<longleftrightarrow> (\<exists>p. Process_get pid False s = Ok p \<and>
     (has_preRegister p \<longrightarrow> length (RollingCensusRoot p) = 32 \<and> (\<exists>n. ns_censusLen (st_Tx s) pid = Some (PutUint64LE n))))"

definition startable :: "state \<Rightarrow> bool" where
  "startable s \<longleftrightarrow> (\<forall>key pids. ns_pids (st_Tx s) key = Some pids \<longrightarrow> (\<forall>pid \<in> set pids. can_start s pid))"

definition chain_wf :: "params \<Rightarrow> state \<Rightarrow> bool" where
  "chain_wf P s \<longleftrightarrow> accounts_wf P s \<and> processes_wf P s \<and> startable s"

text \<open>A step that keeps the invariant, the stored votes, and the stored processes up to their
  evolution.\<close>

definition safe_step :: "params \<Rightarrow> state \<Rightarrow> state \<Rightarrow> bool" where
  "safe_step P s t \<longleftrightarrow> (chain_wf P s \<longrightarrow> chain_wf P t \<and> votes_kept s t \<and> kept P s t)"

lemma safe_refl [simp]: "safe_step P s s"
  by (simp add: safe_step_def votes_kept_def chain_wf_def kept_refl)

lemma safe_trans: "safe_step P s t \<Longrightarrow> safe_step P t u \<Longrightarrow> safe_step P s u"
  unfolding safe_step_def votes_kept_def using kept_trans by blast

lemma safe_seq:
  "safe_step P s (snd m) \<Longrightarrow> (\<And>x t. m = (Ok x, t) \<Longrightarrow> safe_step P t (snd (f x t))) \<Longrightarrow> safe_step P s (snd (and_then m f))"
  "(\<And>x. r = Ok x \<Longrightarrow> safe_step P s (snd (g x))) \<Longrightarrow> safe_step P s (snd (with_res r s g))"
  "safe_step P s (snd (respond rsp n)) = safe_step P s (snd n)"
  subgoal by (cases m; cases "fst m") (auto intro: safe_trans)
  subgoal by (cases r) auto
  subgoal by (cases n; cases "fst n") (auto simp: respond_def)
  done

section \<open>Operations that leave processes and votes alone\<close>

definition same_processes :: "state \<Rightarrow> state \<Rightarrow> bool" where
  "same_processes s t \<longleftrightarrow> tr_Processes (st_Tx t) = tr_Processes (st_Tx s) \<and> ns_pids (st_Tx t) = ns_pids (st_Tx s) \<and>
     ns_censusLen (st_Tx t) = ns_censusLen (st_Tx s) \<and> tr_Votes (st_Tx t) = tr_Votes (st_Tx s)"

lemma same_processes_refl [simp]: "same_processes s s" by (simp add: same_processes_def)

lemma same_processes_trans: "same_processes s t \<Longrightarrow> same_processes t u \<Longrightarrow> same_processes s u"
  by (simp add: same_processes_def)

lemma Process_get_frame: "tr_Processes (st_Tx t) = tr_Processes (st_Tx s) \<Longrightarrow> Process_get pid False t = Process_get pid False s"
  by (simp add: Process_get_def mainTreeViewer_def getProcess_def)

lemma safe_accounts:
  assumes "same_processes s t" and "accounts_wf P s \<Longrightarrow> accounts_wf P t"
  shows "safe_step P s t"
proof -
  have g: "Process_get pid False t = Process_get pid False s" for pid
    using assms(1) Process_get_frame [of t s] by (simp add: same_processes_def)
  have "startable s \<Longrightarrow> startable t" "processes_wf P s \<Longrightarrow> processes_wf P t"
    using assms(1) by (auto simp: startable_def can_start_def g same_processes_def processes_wf_def)
  then show ?thesis
    using assms by (auto simp: safe_step_def chain_wf_def kept_def g votes_kept_def same_processes_def)
qed

lemma DeepSet_same_processes:
  assumes "\<And>t T. tr_Processes (upd t T) = tr_Processes T \<and> ns_pids (upd t T) = ns_pids T \<and>
     ns_censusLen (upd t T) = ns_censusLen T \<and> tr_Votes (upd t T) = tr_Votes T"
  shows "same_processes s (snd (DeepSet P lv sel upd k v s))"
  using assms by (simp add: DeepSet_snd same_processes_def split: res.split)

lemmas keeps_processes = with_res_keeps [where Q = "same_processes s" for s] and_then_keeps [where Q = "same_processes s" for s]

lemma SetAccount_same_processes: "same_processes s (snd (SetAccount P a acc s))"
  unfolding SetAccount_def by (rule DeepSet_same_processes) simp

lemma state_ops_same_processes:
  "same_processes s (snd (AddOracle P a s))" "same_processes s (snd (RemoveOracle P a s))"
  "same_processes s (snd (IncrementTreasurerNonce P s))" "same_processes s (snd (SetTxCost P ty c s))"
  "same_processes s (snd (SetFaucetNonce P k s))" "same_processes s (snd (SetTreasurer P a n s))"
  "same_processes s (snd (AddValidator P v s))"
  unfolding AddOracle_def RemoveOracle_def IncrementTreasurerNonce_def SetTxCost_def SetFaucetNonce_def SetTreasurer_def AddValidator_def
  by (auto intro!: keeps_processes DeepSet_same_processes split: option.split)

lemma SetAccount_after: "same_processes s t \<Longrightarrow> same_processes s (snd (SetAccount P a acc t))"
  using SetAccount_same_processes same_processes_trans by blast

lemma account_ops_same_processes:
  "same_processes s (snd (TransferBalance P a b n s))" "same_processes s (snd (MintBalance P a n s))"
  "same_processes s (snd (SetAccountInfoURI P a uri s))" "same_processes s (snd (IncrementAccountProcessIndex P a s))"
  "same_processes s (snd (CreateAccount P a uri ds n s))" "same_processes s (snd (SubtractCostIncrementNonce P a ty s))"
  "same_processes s (snd (SetAccountDelegate P a d ty s))" "same_processes s (snd (ConsumeFaucetPayload P a fp ty s))"
  unfolding TransferBalance_def MintBalance_def SetAccountInfoURI_def IncrementAccountProcessIndex_def CreateAccount_def
    SubtractCostIncrementNonce_def SetAccountDelegate_def ConsumeFaucetPayload_def Let_def
  by (auto intro!: keeps_processes SetAccount_after state_ops_same_processes split: option.split prod.split)

lemma same_accounts_wf: "same_accounts s t \<Longrightarrow> accounts_wf P s \<Longrightarrow> accounts_wf P t"
  by (simp add: same_accounts_def accounts_wf_def)

lemma safe_account_ops:
  "safe_step P s (snd (TransferBalance P a b n s))" "safe_step P s (snd (MintBalance P a n s))"
  "safe_step P s (snd (SetAccountInfoURI P a uri s))" "safe_step P s (snd (IncrementAccountProcessIndex P a s))"
  "safe_step P s (snd (CreateAccount P a uri ds n s))" "safe_step P s (snd (SubtractCostIncrementNonce P a ty s))"
  "safe_step P s (snd (SetAccountDelegate P a d ty s))" "safe_step P s (snd (ConsumeFaucetPayload P a fp ty s))"
  by (rule safe_accounts; simp add: account_ops_same_processes account_operations_wf)+

lemma safe_state_ops:
  "safe_step P s (snd (AddOracle P a s))" "safe_step P s (snd (RemoveOracle P a s))"
  "safe_step P s (snd (IncrementTreasurerNonce P s))" "safe_step P s (snd (SetTxCost P ty c s))"
  by (rule safe_accounts; simp add: state_ops_same_processes same_accounts_wf [OF state_ops_same_accounts(1)]
      same_accounts_wf [OF state_ops_same_accounts(2)] same_accounts_wf [OF state_ops_same_accounts(3)]
      same_accounts_wf [OF state_ops_same_accounts(4)])+

lemma safe_vote_check: "safe_step P s (snd (VoteEnvelopeCheck P n ve b sig txID c s))"
  using VoteEnvelopeCheck_frame [of P n ve b sig txID c s]
  by (cases "VoteEnvelopeCheck P n ve b sig txID c s") (auto intro!: safe_accounts simp: cache_only_def same_processes_def accounts_wf_def)

section \<open>Operations on processes, votes and censuses\<close>

text \<open>The index and the census sizes, which the operations on stored processes leave alone.\<close>

definition same_index :: "state \<Rightarrow> state \<Rightarrow> bool" where
  "same_index s t \<longleftrightarrow> ns_pids (st_Tx t) = ns_pids (st_Tx s) \<and> ns_censusLen (st_Tx t) = ns_censusLen (st_Tx s)"

lemma same_index_simps [simp]: "same_index s s" "same_index s (emit ev t) = same_index s t"
  by (simp_all add: same_index_def)

lemmas keeps_index = with_res_keeps [where Q = "same_index s" for s] and_then_keeps [where Q = "same_index s" for s]

lemma update_leaf_same_index: "same_index s (snd (update_leaf P p pid s))" "same_index s (snd (updateProcess P p pid s))"
  unfolding update_leaf_def updateProcess_def
  by (auto simp: DeepSet_snd same_index_def split: option.split res.split)

lemma process_ops_same_index:
  "same_index s (snd (SetProcessStatus P pid st c s))" "same_index s (snd (SetProcessResults P pid res c s))"
  "same_index s (snd (SetProcessCensus P pid root uri c s))"
  "same_index s (snd (AddProcessKeys P tx s))" "same_index s (snd (RevealProcessKeys P tx s))"
  unfolding SetProcessStatus_def SetProcessResults_def SetProcessCensus_def AddProcessKeys_def RevealProcessKeys_def Let_def
  by (auto intro!: keeps_index update_leaf_same_index split: option.split prod.split)

lemma can_start_evolves:
  assumes "kept P s t" and "\<And>n. ns_censusLen (st_Tx s) pid = Some (PutUint64LE n) \<Longrightarrow> \<exists>m. ns_censusLen (st_Tx t) pid = Some (PutUint64LE m)"
  shows "can_start s pid \<Longrightarrow> can_start t pid"
  using assms by (fastforce simp: can_start_def kept_def evolves_def has_preRegister_def)

lemma safe_process_step:
  assumes "same_accounts s t" and "processes_wf P s \<Longrightarrow> kept P s t" and "same_index s t" and "votes_kept s t"
  shows "safe_step P s t"
proof -
  have "startable s \<Longrightarrow> kept P s t \<Longrightarrow> startable t"
    using assms(3) can_start_evolves [of P s t] by (simp add: startable_def same_index_def)
  then show ?thesis
    using assms same_accounts_wf by (auto simp: safe_step_def chain_wf_def kept_def)
qed

lemma safe_process_ops:
  "safe_step P s (snd (SetProcessStatus P pid st c s))" "safe_step P s (snd (SetProcessResults P pid res c s))"
  "safe_step P s (snd (SetProcessCensus P pid root uri c s))"
  "safe_step P s (snd (AddProcessKeys P tx s))" "safe_step P s (snd (RevealProcessKeys P tx s))"
proof -
  have v: "votes_kept s t" if "process_step P s t" for t
    using vote_step_votes_kept [OF vote_step.on_process [OF that]] .
  show "safe_step P s (snd (SetProcessStatus P pid st c s))" "safe_step P s (snd (SetProcessResults P pid res c s))"
    "safe_step P s (snd (SetProcessCensus P pid root uri c s))"
    "safe_step P s (snd (AddProcessKeys P tx s))" "safe_step P s (snd (RevealProcessKeys P tx s))"
    by (rule safe_process_step; simp add: process_ops_same_accounts process_ops_same_index v process_step.intros
        SetProcessStatus_kept SetProcessResults_kept SetProcessCensus_kept AddProcessKeys_kept RevealProcessKeys_kept)+
qed

lemma NewProcessTxCheck_process:
  assumes "NewProcessTxCheck P c vtx b sg s = Ok (p, a)"
  shows "\<exists>k et md. ProcessId p = Some k \<and> EnvelopeTypeOf p = Some et \<and> Mode p = Some md \<and> PreRegister md = Anonymous et"
proof -
  obtain tx where tx: "GetNewProcess vtx = Some tx" using assms by (auto simp: NewProcessTxCheck_def split: option.splits)
  obtain p0 where p0: "np_Process tx = Some p0" using assms tx by (auto simp: NewProcessTxCheck_def split: option.splits)
  obtain vo et md where f: "VoteOptions p0 = Some vo" "EnvelopeTypeOf p0 = Some et" "Mode p0 = Some md"
    using assms tx p0 by (auto simp: NewProcessTxCheck_def split: option.splits)
  obtain p1 p2 isOracle where sb: "start_block p0 s = Ok p1" and ai: "assign_process_id P c isOracle a p1 s = Ok p2"
    and it: "implemented_types c md et p2 = Ok ()"
    and p: "p = (if EncryptedVotes et \<or> Anonymous et
       then p2\<lparr>EncryptionPublicKeys := replicate KeyKeeperMaxKeyIndex [], EncryptionPrivateKeys := replicate KeyKeeperMaxKeyIndex []\<rparr> else p2)"
    using assms tx p0 f by (auto simp: NewProcessTxCheck_def res_simps split: if_splits)
  have "EnvelopeTypeOf p2 = Some et" "Mode p2 = Some md" "ProcessId p2 \<noteq> None"
    using sb ai f by (auto simp: start_block_def assign_process_id_def res_simps split: if_splits)
  moreover have "PreRegister md = Anonymous et" using it by (auto simp: implemented_types_def split: if_splits)
  ultimately show ?thesis using p by auto
qed

text \<open>An addition goes through or changes nothing.\<close>

lemma AddProcess_all_or_nothing:
  assumes "AddProcess P p s = (r, s')"
  shows "r = Ok () \<or> s' = s"
proof (rule ccontr)
  assume n: "\<not> (r = Ok () \<or> s' = s)"
  let ?k = "bz (ProcessId p)"
  let ?sp = "\<lparr>sp_Process = added_process p, sp_VotesRoot = empty_root\<rparr>"
  have run: "and_then (DeepAdd P 256 tr_Processes set_Processes ?k ?sp s) (\<lambda>_ s.
         and_then (if has_preRegister p \<and> has_anonymous p then create_rolling_census ?k s else (Ok (), s)) (\<lambda>_ s.
         let s = setProcessIDByStartBlock ?k (StartBlock p) s
         in (Ok (), emit (OnProcess ?k (EntityId p) (hex (CensusRoot (added_process p)))
               (case CensusURI (added_process p) of None \<Rightarrow> [] | Some u \<Rightarrow> u) (st_txCounter s)) s))) = (r, s')"
    using assms unfolding AddProcess_def Let_def added_process_def [symmetric] added_process_sel .
  obtain r1 s1 where d: "DeepAdd P 256 tr_Processes set_Processes ?k ?sp s = (r1, s1)" by fastforce
  then have r1: "r1 = Ok ()" using n run DeepAdd_not_Ok [OF d] by (cases r1) auto
  then have l: "map_of (tr_Processes (st_Tx s1)) ?k = Some ?sp"
    using d by (auto simp: DeepAdd_Ok Tree_Add_Ok map_of_leaf_insert)
  have "\<exists>s2. create_rolling_census ?k s1 = (Ok (), s2)" if "has_preRegister p"
    using that l by (simp add: create_rolling_census_def open_census_def open_preregister_def set_censusLen_def
        processGetCensusRoot_def processGetPreRegisterNullifiersRoot_def added_process_def empty_root_def defaultHashLen_def Tree_Get_def of_option_def)
  then show False using run d r1 n by (auto simp: Let_def split: if_splits)
qed

lemma AddProcess_safe:
  assumes "ProcessId p = Some k" and "EnvelopeTypeOf p = Some et" and "Mode p = Some md" and "PreRegister md = Anonymous et"
  shows "safe_step P s (snd (AddProcess P p s))"
proof (cases "AddProcess P p s")
  case (Pair r s')
  show ?thesis
  proof (cases "r = Ok ()")
    case True
    with Pair have run: "AddProcess P p s = (Ok (), s')" by simp
    have "startable s'" if w: "chain_wf P s"
    proof -
      have kp: "kept P s s'" using AddProcess_kept [OF _ assms(1) _ _ run] assms(2,3) w by (simp add: chain_wf_def)
      obtain s1 s2 where s1: "DeepAdd P 256 tr_Processes set_Processes k \<lparr>sp_Process = added_process p, sp_VotesRoot = empty_root\<rparr> s = (Ok (), s1)"
        and s2: "(if has_preRegister p \<and> has_anonymous p then create_rolling_census k s1 else (Ok (), s1)) = (Ok (), s2)"
        and s': "st_Tx s' = st_Tx (setProcessIDByStartBlock k (StartBlock p) s2)"
        using AddProcess_Ok [OF run, unfolded assms(1) bz_simps] by blast
      have s1': "ns_censusLen (st_Tx s1) = ns_censusLen (st_Tx s)" "ns_pids (st_Tx s1) = ns_pids (st_Tx s)"
        "map_of (tr_Processes (st_Tx s1)) k = Some \<lparr>sp_Process = added_process p, sp_VotesRoot = empty_root\<rparr>"
        using s1 by (auto simp: DeepAdd_Ok Tree_Add_Ok map_of_leaf_insert)
      have s2': "tr_Processes (st_Tx s2) = tr_Processes (st_Tx s1)" "ns_pids (st_Tx s2) = ns_pids (st_Tx s1)"
        "ns_censusLen (st_Tx s2) = (if has_preRegister p \<and> has_anonymous p then (ns_censusLen (st_Tx s))(k \<mapsto> PutUint64LE 0) else ns_censusLen (st_Tx s))"
        using s2 s1' by (auto simp: create_rolling_census_def set_censusLen_def res_simps Let_def split: if_splits)
      have tr: "tr_Processes (st_Tx s') = tr_Processes (st_Tx s1)" "ns_censusLen (st_Tx s') = ns_censusLen (st_Tx s2)"
        using s' s2' by (simp_all add: setProcessIDByStartBlock_def Let_def)
      have new: "can_start s' k"
        using tr s1'(3) s2'(3) assms(2-4)
        by (auto simp: can_start_def Process_get_Ok has_preRegister_def has_anonymous_def added_process_def empty_root_def)
      have old: "can_start s pid \<Longrightarrow> can_start s' pid" for pid
        by (rule can_start_evolves [OF kp]) (auto simp: tr s2'(3) split: if_splits)
      have "ns_pids (st_Tx s') key = Some pids \<Longrightarrow> pid \<in> set pids \<Longrightarrow> pid = k \<or> (\<exists>pids'. ns_pids (st_Tx s) key = Some pids' \<and> pid \<in> set pids')" for key pids pid
        using s' s2'(2) s1'(2)
        by (auto simp: setProcessIDByStartBlock_def Let_def split: if_splits option.splits)
      then show ?thesis using w new old by (fastforce simp: startable_def chain_wf_def)
    qed
    moreover have "accounts_wf P s \<Longrightarrow> accounts_wf P s'"
      using same_accounts_wf [OF AddProcess_same_accounts] Pair by (metis snd_conv)
    ultimately show ?thesis
      using AddProcess_kept [OF _ assms(1) _ _ run] AddProcess_votes [OF run] assms(2,3) Pair
      by (auto simp: safe_step_def chain_wf_def kept_def)
  next
    case False
    then show ?thesis using AddProcess_all_or_nothing [OF Pair] Pair by auto
  qed
qed

lemma AddVote_safe: "safe_step P s (snd (AddVote P v w s))"
proof -
  let ?Q = "\<lambda>t. tr_Processes (st_Tx t) = tr_Processes (st_Tx s) \<and> ns_pids (st_Tx t) = ns_pids (st_Tx s) \<and> ns_censusLen (st_Tx t) = ns_censusLen (st_Tx s)"
  have "?Q (snd (AddVote P v w s))"
    unfolding AddVote_def Let_def
    by (intro with_res_keeps [where Q = ?Q] and_then_keeps [where Q = ?Q])
      (auto simp: voteCountInc_def Let_def set_votes_def intro!: with_res_keeps [where Q = ?Q])
  then have "same_index s (snd (AddVote P v w s))" "processes_wf P s \<Longrightarrow> kept P s (snd (AddVote P v w s))"
    using Process_get_frame [of "snd (AddVote P v w s)" s] by (auto simp: same_index_def kept_def processes_wf_def)
  then show ?thesis using safe_process_step AddVote_same_accounts AddVote_kept by blast
qed

lemma census_ops_safe:
  "safe_step P s (snd (AddToRollingCensus P pid key w s))"
  "safe_step P s (snd (RegisterKeyTxCheck P vtx b sig c s))"
proof -
  have st: "safe_step P s (set_censusLen pid (n + 1) (set_census pid t s))" for n t
  proof -
    let ?t = "set_censusLen pid (n + 1) (set_census pid t s)"
    have g: "Process_get p False ?t = Process_get p False s" for p
      by (rule Process_get_frame) (simp add: set_censusLen_def set_census_def)
    have f: "ns_censusLen (st_Tx ?t) = (ns_censusLen (st_Tx s))(pid \<mapsto> PutUint64LE (n + 1))" "ns_pids (st_Tx ?t) = ns_pids (st_Tx s)"
      by (simp_all add: set_censusLen_def set_census_def)
    have "can_start s p \<Longrightarrow> can_start ?t p" for p by (auto simp: can_start_def g f)
    then have "startable s \<Longrightarrow> startable ?t" by (auto simp: startable_def f)
    then show ?thesis
      by (auto simp: safe_step_def chain_wf_def kept_def g votes_kept_def)
         (simp_all add: set_censusLen_def set_census_def accounts_wf_def processes_wf_def)
  qed
  show "safe_step P s (snd (AddToRollingCensus P pid key w s))"
    unfolding AddToRollingCensus_def by (auto intro!: safe_seq st split: option.split)
  have "same_processes s (s\<lparr>st_Tx := (st_Tx s)\<lparr>tr_PreRegister := f\<rparr>\<rparr>)" for f by (simp add: same_processes_def)
  then have "same_processes s (snd (setPreRegisterAddrUsedWeight P pid a n s))" for pid a n
    unfolding setPreRegisterAddrUsedWeight_def by (auto intro!: keeps_processes)
  then have "same_processes s (snd (RegisterKeyTxCheck P vtx b sig c s))"
    unfolding RegisterKeyTxCheck_def by (auto intro!: keeps_processes split: option.split prod.split)
  then show "safe_step P s (snd (RegisterKeyTxCheck P vtx b sig c s))"
    using safe_accounts same_accounts_wf [OF census_ops_same_accounts(2)] by blast
qed

lemma safe_new_process:
  assumes "NewProcessTxCheck P c vtx b sg s = Ok (p, a)"
  shows "safe_step P s (snd (AddProcess P p s))"
  using NewProcessTxCheck_process [OF assms] AddProcess_safe by blast

lemmas safe_rules = safe_seq(1,2) safe_account_ops safe_state_ops safe_process_ops safe_vote_check AddVote_safe census_ops_safe

text \<open>Every transaction, checked or executed, accepted or refused, keeps the invariant.\<close>

lemma AddTx_safe: "safe_step P s (snd (AddTx P chainID nVKs vtx commit s))"
proof -
  have a: "safe_step P s (snd (add_vote_tx P nVKs vtx commit rsp s))" "safe_step P s (snd (add_admin_tx P vtx commit rsp s))"
    "safe_step P s (snd (add_register_key_tx P vtx commit rsp s))" for rsp
    unfolding add_vote_tx_def add_admin_tx_def add_register_key_tx_def Let_def
    by (auto intro!: safe_rules simp: safe_seq(3) split: option.split prod.split)
  have b: "safe_step P s (snd (add_new_process_tx P chainID vtx commit rsp s))" for rsp
    unfolding add_new_process_tx_def Let_def
    by (auto intro!: safe_rules safe_new_process simp: safe_seq(3) res_simps split: prod.split)
  have "safe_step P s (snd (set_process_op P tx s))" for tx
    unfolding set_process_op_def by (auto intro!: safe_rules split: TxType.split option.split)
  then have c: "safe_step P s (snd (add_set_process_tx P vtx commit rsp s))" for rsp
    unfolding add_set_process_tx_def by (auto intro!: safe_rules simp: safe_seq(3) split: option.split)
  have "safe_step P s (snd (set_account_info_op P tx v s))" for tx v
    unfolding set_account_info_op_def by (auto intro!: safe_rules split: option.split)
  then have d: "safe_step P s (snd (add_account_info_tx P vtx commit rsp s))" for rsp
    unfolding add_account_info_tx_def by (auto intro!: safe_rules simp: safe_seq(3) split: option.split)
  have e: "safe_step P s (snd (add_costs_tx P vtx commit rsp s))" "safe_step P s (snd (add_mint_tx P vtx commit rsp s))"
    "safe_step P s (snd (add_send_tx P vtx commit rsp s))" "safe_step P s (snd (add_delegate_tx P vtx commit rsp s))"
    "safe_step P s (snd (add_faucet_tx P vtx commit rsp s))" for rsp
    unfolding add_costs_tx_def add_mint_tx_def add_send_tx_def add_delegate_tx_def add_faucet_tx_def
    by (auto intro!: safe_rules simp: safe_seq(3) split: option.split prod.split)
  show ?thesis using a b c d e by (auto simp: AddTx_def Let_def split: option.split TxPayload.split)
qed

section \<open>Commit\<close>

text \<open>Arbo's roots have the length of its hashes.\<close>

definition root_sizes :: "params \<Rightarrow> bool" where
  "root_sizes P \<longleftrightarrow> (\<forall>t. length (arbo_root_votes P t) = 32) \<and> (\<forall>t. length (arbo_root_poseidon P t) = 32) \<and>
     (\<forall>t. length (arbo_root_sha256 P t) = 32)"

lemma update_leaf_safe:
  assumes "chain_wf P s" and "Process_get pid False s = Ok p" and "evolves p q"
  shows "\<exists>s'. update_leaf P q pid s = (Ok (), s') \<and> chain_wf P s' \<and> votes_kept s s' \<and> kept P s s' \<and> same_index s s'"
proof -
  have wf: "processes_wf P s" using assms(1) by (simp add: chain_wf_def)
  obtain sp where sp: "map_of (tr_Processes (st_Tx s)) pid = Some sp" "sp_Process sp = p" using assms(2) by (auto simp: Process_get_Ok)
  then have l: "leaf_wf P pid sp" using wf by (auto simp: processes_wf_def)
  then obtain s' where u: "update_leaf P q pid s = (Ok (), s')" using sp by (auto simp: update_leaf_Ok Tree_Set_Ok leaf_wf_def)
  have "processes_wf P s'"
    using update_leaf_wf [OF u wf] l sp assms(3) by (simp add: leaf_wf_def evolves_def)
  then have k: "kept P s s'" using assms(2,3) update_leaf_get [OF u] by (auto simp: kept_def)
  have i: "same_index s s'" using update_leaf_same_index(1) [of s P q pid] u by simp
  have v: "votes_kept s s'"
    using u sp by (intro votes_kept_eq) (auto simp: update_leaf_Ok Tree_Set_Ok map_of_None_keys simp del: set_map)
  have "same_accounts s s'" using update_leaf_same_accounts(1) [of s P q pid] u by simp
  then show ?thesis using safe_process_step [OF _ k i v] u assms(1) k i v by (auto simp: safe_step_def)
qed

lemma setRollingCensusSize_safe:
  assumes "chain_wf P s" and "\<forall>pid \<in> set pids. can_start s pid"
  shows "\<exists>s'. setRollingCensusSize P pids s = (Ok (), s') \<and> chain_wf P s' \<and> votes_kept s s' \<and> kept P s s' \<and>
     st_listeners s' = st_listeners s"
  using assms
proof (induction pids arbitrary: s)
  case Nil
  then show ?case by (auto simp: votes_kept_def chain_wf_def kept_refl)
next
  case (Cons pid pids)
  have wf: "processes_wf P s" using Cons.prems(1) by (simp add: chain_wf_def)
  obtain p where p: "Process_get pid False s = Ok p"
    and st: "has_preRegister p \<Longrightarrow> length (RollingCensusRoot p) = 32 \<and> (\<exists>n. ns_censusLen (st_Tx s) pid = Some (PutUint64LE n))"
    using Cons.prems(2) by (auto simp: can_start_def)
  have g: "getProcess (st_Tx s) pid = Ok p" using p by (simp add: Process_get_def mainTreeViewer_def)
  obtain md where md: "Mode p = Some md" using wf_Process(2) [OF wf p] by blast
  show ?case
  proof (cases "PreRegister md")
    case False
    then show ?thesis using Cons.IH [OF Cons.prems(1)] Cons.prems(2) g md by simp
  next
    case True
    then obtain n where n: "ns_censusLen (st_Tx s) pid = Some (PutUint64LE n)" "length (RollingCensusRoot p) = 32"
      using st md by (auto simp: has_preRegister_def)
    have sz: "getRollingCensusSize (st_Tx s) pid = Ok n"
      using n p by (auto simp: getRollingCensusSize_def open_census_Ok res_simps Process_get_Ok GetUint64_def)
    have "evolves p (p\<lparr>RollingCensusSize := Some n\<rparr>)" by (simp add: evolves_def)
    then obtain s1 where s1: "update_leaf P (p\<lparr>RollingCensusSize := Some n\<rparr>) pid s = (Ok (), s1)" "chain_wf P s1"
      "votes_kept s s1" "kept P s s1" "same_index s s1"
      using update_leaf_safe [OF Cons.prems(1) p] by blast
    have "\<forall>pid \<in> set pids. can_start s1 pid"
      using Cons.prems(2) can_start_evolves [OF s1(4)] s1(5) by (auto simp: same_index_def)
    then obtain s' where "setRollingCensusSize P pids s1 = (Ok (), s')" "chain_wf P s'" "votes_kept s1 s'" "kept P s1 s'"
      "st_listeners s' = st_listeners s1"
      using Cons.IH [OF s1(2)] by blast
    moreover have "st_listeners s1 = st_listeners s" using s1(1) by (auto simp: update_leaf_Ok)
    ultimately show ?thesis
      using g md True sz s1 kept_trans [OF s1(4)] by (auto simp: votes_kept_def)
  qed
qed

lemma propagate_leaf_sel:
  "ProcessId (sp_Process (propagate_leaf P C T pid sp)) = ProcessId (sp_Process sp)"
  "root_sizes P \<Longrightarrow> length (sp_VotesRoot sp) = 32 \<Longrightarrow> length (sp_VotesRoot (propagate_leaf P C T pid sp)) = 32"
  "root_sizes P \<Longrightarrow> evolves (sp_Process sp) (sp_Process (propagate_leaf P C T pid sp))"
  by (auto simp: propagate_leaf_def Let_def processSetVotesRoot_def processSetCensusRoot_def
      processSetPreRegisterNullifiersRoot_def root_sizes_def evolves_def)

lemma map_of_map_leaf: "map_of (map (\<lambda>(k, v). (k, f k v)) t) k = map_option (f k) (map_of t k)"
  by (induction t) auto

lemma TreeTx_Commit_safe:
  assumes "root_sizes P"
  shows "safe_step P s (TreeTx_Commit P h s)"
proof -
  let ?t = "TreeTx_Commit P h s"
  let ?f = "propagate_leaf P (st_View s) (st_Tx s)"
  have t: "tr_Processes (st_Tx ?t) = map (\<lambda>(pid, sp). (pid, ?f pid sp)) (tr_Processes (st_Tx s))"
    "tr_Votes (st_Tx ?t) = tr_Votes (st_Tx s)" "tr_Accounts (st_Tx ?t) = tr_Accounts (st_Tx s)"
    "ns_pids (st_Tx ?t) = ns_pids (st_Tx s)" "ns_censusLen (st_Tx ?t) = ns_censusLen (st_Tx s)"
    by (simp_all add: TreeTx_Commit_def propagateRoot_processes_def Let_def)
  have keys: "map fst (tr_Processes (st_Tx ?t)) = map fst (tr_Processes (st_Tx s))" unfolding t by (simp add: case_prod_unfold)
  have look: "map_of (tr_Processes (st_Tx ?t)) k = map_option (?f k) (map_of (tr_Processes (st_Tx s)) k)" for k
    unfolding t by (rule map_of_map_leaf)
  have "kept P s ?t" if "processes_wf P s"
  proof -
    have "leaf_wf P k (?f k sp)" if "leaf_wf P k sp" for k sp
      using that propagate_leaf_sel(2,3) [OF assms, of sp "st_View s" "st_Tx s" k] by (auto simp: leaf_wf_def evolves_def)
    then have "processes_wf P ?t" using that keys look by (auto simp: processes_wf_def)
    then show ?thesis using look propagate_leaf_sel(3) [OF assms] by (auto simp: kept_def Process_get_Ok)
  qed
  then show ?thesis
    by (intro safe_process_step) (auto simp: same_accounts_def same_index_def t(2-5) votes_kept_def look)
qed

lemma commit_listeners_Ok:
  assumes "\<forall>l \<in> set ls. l_Commit l h \<noteq> Some ErrHaltVochain"
  shows "\<exists>ev. commit_listeners h ls s = (Ok (), s\<lparr>st_events := ev\<rparr>)"
  using assms
proof (induction ls arbitrary: s)
  case Nil
  have "s = s\<lparr>st_events := st_events s\<rparr>" by simp
  then show ?case by (simp only: commit_listeners.simps) blast
next
  case (Cons l ls)
  obtain ev where "commit_listeners h ls (s\<lparr>st_events := st_events s @ [OnCommit h]\<rparr>) = (Ok (), s\<lparr>st_events := ev\<rparr>)"
    using Cons.IH [of "s\<lparr>st_events := st_events s @ [OnCommit h]\<rparr>"] Cons.prems by auto
  then show ?case using Cons.prems by (cases "l_Commit l h") (auto simp: Let_def split: err.split)
qed

lemma setRollingCensusSize_same_accounts: "same_accounts s (snd (setRollingCensusSize P pids s))"
proof (induction pids arbitrary: s)
  case (Cons pid pids)
  show ?case
    using Cons.IH update_leaf_same_accounts same_accounts_trans by (auto intro!: keeps_accounts split: option.split)
qed simp

text \<open>A commit goes through, keeps the invariant and leaves the committed trees equal to the open ones.\<close>

lemma Save_safe:
  assumes "root_sizes P" and "chain_wf P s" and "\<forall>l \<in> set (st_listeners s). l_Commit l (st_height s) \<noteq> Some ErrHaltVochain"
  shows "\<exists>s'. Save P mainRoot s = (Ok (mainRoot (st_View s')), s') \<and> chain_wf P s' \<and> votes_kept s s' \<and> kept P s s' \<and>
     st_View s' = st_Tx s' \<and> st_version s' = st_height s \<and> st_listeners s' = st_listeners s \<and> same_accounts s s'"
proof -
  let ?pids = "processIDsByStartBlock (st_height s + 1) s"
  have "\<forall>pid \<in> set ?pids. can_start s pid"
    using assms(2)
    by (cases "ns_pids (st_Tx s) (keyProcessIDsByStartBlock (st_height s + 1))")
      (auto simp: chain_wf_def startable_def processIDsByStartBlock_def)
  then obtain s1 where s1: "setRollingCensusSize P ?pids s = (Ok (), s1)" "chain_wf P s1" "votes_kept s s1" "kept P s s1"
    "st_listeners s1 = st_listeners s"
    using setRollingCensusSize_safe [OF assms(2)] by blast
  let ?s2 = "TreeTx_Commit P (st_height s) s1"
  have s2: "chain_wf P ?s2" "votes_kept s1 ?s2" "kept P s1 ?s2"
    using TreeTx_Commit_safe [OF assms(1), of s1 "st_height s"] s1(2) by (auto simp: safe_step_def)
  have "st_listeners ?s2 = st_listeners s" using s1(5) by (simp add: TreeTx_Commit_def Let_def)
  then obtain ev where cl: "commit_listeners (st_height s) (st_listeners ?s2) ?s2 = (Ok (), ?s2\<lparr>st_events := ev\<rparr>)"
    using commit_listeners_Ok [of "st_listeners ?s2" "st_height s" ?s2] assms(3) by auto
  define s3 where "s3 = (if ?pids \<noteq> [] then emit (OnProcessesStart ?pids) (?s2\<lparr>st_events := ev\<rparr>) else ?s2\<lparr>st_events := ev\<rparr>)"
  have same: "st_Tx s3 = st_Tx ?s2" "st_View s3 = st_View ?s2" "st_version s3 = st_version ?s2"
    by (simp_all add: s3_def emit_def)
  have "Save P mainRoot s = (Ok (mainRoot (st_View s3)), s3)"
    using s1(1) cl by (simp add: Save_def Let_def hide_st_def s3_def)
  moreover have "chain_wf P s3" "votes_kept s s3" "kept P s s3"
    using s2 s1 kept_trans [OF s1(4) s2(3)] same
    by (auto simp: chain_wf_def startable_def can_start_def accounts_wf_def processes_wf_def votes_kept_def kept_def
        Process_get_def mainTreeViewer_def)
  moreover have "st_View s3 = st_Tx s3" "st_version s3 = st_height s"
    unfolding same by (simp_all add: TreeTx_Commit_def Let_def)
  moreover have "st_listeners s3 = st_listeners s" using s1(5) by (simp add: s3_def emit_def TreeTx_Commit_def Let_def)
  moreover have "same_accounts s s3"
    using setRollingCensusSize_same_accounts [of s P ?pids] s1(1) same(1)
    by (simp add: same_accounts_def TreeTx_Commit_def propagateRoot_processes_def Let_def)
  ultimately show ?thesis by blast
qed

section \<open>What transactions leave of the rest of the state\<close>

definition same_env :: "state \<Rightarrow> state \<Rightarrow> bool" where
  "same_env s t \<longleftrightarrow> st_View t = st_View s \<and> st_listeners t = st_listeners s \<and> st_height t = st_height s \<and>
     st_version t = st_version s \<and> st_txCounter t = st_txCounter s \<and> st_DisableVoteCache t = st_DisableVoteCache s"

lemma same_env_refl [simp]: "same_env s s" by (simp add: same_env_def)

lemma same_env_trans: "same_env s t \<Longrightarrow> same_env t u \<Longrightarrow> same_env s u" by (simp add: same_env_def)

lemma same_env_emit [simp]: "same_env s (emit ev t) = same_env s t" by (simp add: same_env_def emit_def)

lemma same_env_Tx [simp]: "same_env s (t\<lparr>st_Tx := T\<rparr>) = same_env s t" by (simp add: same_env_def)

lemma same_env_writes: "same_env s t \<Longrightarrow> same_env s (snd (DeepSet P lv sel upd k v t))" "same_env s t \<Longrightarrow> same_env s (snd (DeepAdd P lv sel upd k v t))"
  by (simp_all add: DeepSet_snd DeepAdd_snd split: res.split)

lemmas keeps_env = with_res_keeps [where Q = "same_env s" for s] and_then_keeps [where Q = "same_env s" for s]

lemma env_state_ops:
  "same_env s t \<Longrightarrow> same_env s (snd (AddOracle P a t))" "same_env s t \<Longrightarrow> same_env s (snd (RemoveOracle P a t))"
  "same_env s t \<Longrightarrow> same_env s (snd (IncrementTreasurerNonce P t))" "same_env s t \<Longrightarrow> same_env s (snd (SetTxCost P ty c t))"
  "same_env s t \<Longrightarrow> same_env s (snd (SetFaucetNonce P k t))" "same_env s t \<Longrightarrow> same_env s (snd (SetAccount P a acc t))"
  "same_env s t \<Longrightarrow> same_env s (snd (SetTreasurer P a n t))" "same_env s t \<Longrightarrow> same_env s (snd (AddValidator P v t))"
  unfolding AddOracle_def RemoveOracle_def IncrementTreasurerNonce_def SetTxCost_def SetFaucetNonce_def SetAccount_def SetTreasurer_def AddValidator_def
  by (auto intro!: keeps_env same_env_writes split: option.split)

lemma env_account_ops:
  "same_env s t \<Longrightarrow> same_env s (snd (TransferBalance P a b n t))" "same_env s t \<Longrightarrow> same_env s (snd (MintBalance P a n t))"
  "same_env s t \<Longrightarrow> same_env s (snd (SetAccountInfoURI P a uri t))" "same_env s t \<Longrightarrow> same_env s (snd (IncrementAccountProcessIndex P a t))"
  "same_env s t \<Longrightarrow> same_env s (snd (CreateAccount P a uri ds n t))" "same_env s t \<Longrightarrow> same_env s (snd (SubtractCostIncrementNonce P a ty t))"
  "same_env s t \<Longrightarrow> same_env s (snd (SetAccountDelegate P a d ty t))" "same_env s t \<Longrightarrow> same_env s (snd (ConsumeFaucetPayload P a fp ty t))"
  unfolding TransferBalance_def MintBalance_def SetAccountInfoURI_def IncrementAccountProcessIndex_def CreateAccount_def
    SubtractCostIncrementNonce_def SetAccountDelegate_def ConsumeFaucetPayload_def Let_def
  by (auto intro!: keeps_env env_state_ops split: option.split prod.split)

lemma env_process_ops:
  "same_env s t \<Longrightarrow> same_env s (snd (SetProcessStatus P pid st c t))" "same_env s t \<Longrightarrow> same_env s (snd (SetProcessResults P pid res c t))"
  "same_env s t \<Longrightarrow> same_env s (snd (SetProcessCensus P pid root uri c t))"
  "same_env s t \<Longrightarrow> same_env s (snd (AddProcessKeys P tx t))" "same_env s t \<Longrightarrow> same_env s (snd (RevealProcessKeys P tx t))"
  unfolding SetProcessStatus_def SetProcessResults_def SetProcessCensus_def AddProcessKeys_def RevealProcessKeys_def Let_def
    updateProcess_def update_leaf_def
  by (auto intro!: keeps_env same_env_writes split: option.split prod.split)

lemma env_other_ops:
  "same_env s t \<Longrightarrow> same_env s (snd (AddProcess P p t))" "same_env s t \<Longrightarrow> same_env s (snd (AddVote P v w t))"
  "same_env s t \<Longrightarrow> same_env s (snd (AddToRollingCensus P pid key n t))"
  "same_env s t \<Longrightarrow> same_env s (snd (RegisterKeyTxCheck P vtx b sig c t))"
  unfolding AddProcess_def create_rolling_census_def setProcessIDByStartBlock_def set_censusLen_def AddVote_def voteCountInc_def
    set_votes_def AddToRollingCensus_def set_census_def RegisterKeyTxCheck_def setPreRegisterAddrUsedWeight_def Let_def
  by (auto intro!: keeps_env same_env_writes split: option.split prod.split)

lemma env_vote_check: "same_env s t \<Longrightarrow> same_env s (snd (VoteEnvelopeCheck P n ve b sig txID c t))"
  using VoteEnvelopeCheck_frame [of P n ve b sig txID c t]
  by (cases "VoteEnvelopeCheck P n ve b sig txID c t") (auto simp: cache_only_def same_env_def)

lemmas env_ops = keeps_env env_state_ops env_account_ops env_process_ops env_other_ops env_vote_check

lemma env_set_process_op: "same_env s (snd (set_process_op P tx s))"
  unfolding set_process_op_def by (auto intro!: env_ops split: TxType.split option.split)

lemma env_set_account_info_op: "same_env s (snd (set_account_info_op P tx v s))"
  unfolding set_account_info_op_def by (auto intro!: env_ops split: option.split)

lemma AddTx_env: "same_env s (snd (AddTx P chainID nVKs vtx commit s))"
proof -
  have r: "same_env s (snd (respond rsp m)) = same_env s (snd m)" for rsp m
    by (cases m; cases "fst m") (auto simp: respond_def)
  have a: "same_env s (snd (add_vote_tx P nVKs vtx commit rsp s))" "same_env s (snd (add_admin_tx P vtx commit rsp s))"
    "same_env s (snd (add_register_key_tx P vtx commit rsp s))" "same_env s (snd (add_new_process_tx P chainID vtx commit rsp s))" for rsp
    unfolding add_vote_tx_def add_admin_tx_def add_register_key_tx_def add_new_process_tx_def Let_def
    by (auto intro!: env_ops simp: r split: option.split prod.split)
  have b: "same_env s (snd (add_set_process_tx P vtx commit rsp s))" "same_env s (snd (add_account_info_tx P vtx commit rsp s))" for rsp
    unfolding add_set_process_tx_def add_account_info_tx_def
    by (auto intro!: env_ops env_set_process_op env_set_account_info_op simp: r split: option.split)
  have c: "same_env s (snd (add_costs_tx P vtx commit rsp s))" "same_env s (snd (add_mint_tx P vtx commit rsp s))"
    "same_env s (snd (add_send_tx P vtx commit rsp s))" "same_env s (snd (add_delegate_tx P vtx commit rsp s))"
    "same_env s (snd (add_faucet_tx P vtx commit rsp s))" for rsp
    unfolding add_costs_tx_def add_mint_tx_def add_send_tx_def add_delegate_tx_def add_faucet_tx_def
    by (auto intro!: env_ops simp: r split: option.split prod.split)
  show ?thesis using a b c by (auto simp: AddTx_def Let_def split: option.split TxPayload.split)
qed

end
