(* ===== verification/Chain.thy ===== *)
theory Chain
  imports Chain_Invariant "HOL-Library.Multiset"
begin

text \<open>
  The application driven by Tendermint, as a step relation: checks, deliveries, starts and ends of
  blocks and commits in any order, and what holds of every history.
\<close>

section \<open>The supply never shrinks\<close>

definition grows :: "params \<Rightarrow> state \<Rightarrow> state \<Rightarrow> bool" where
  "grows P s t \<longleftrightarrow> (accounts_wf P s \<longrightarrow> accounts_wf P t \<and> token_supply s \<le> token_supply t)"

lemma conserves_grows: "conserves P s t \<Longrightarrow> grows P s t" by (simp add: conserves_def grows_def)

lemma grows_trans: "grows P s t \<Longrightarrow> grows P t u \<Longrightarrow> grows P s u" by (auto simp: grows_def)

lemma grows_seq:
  "grows P s (snd m) \<Longrightarrow> (\<And>x t. m = (Ok x, t) \<Longrightarrow> grows P t (snd (f x t))) \<Longrightarrow> grows P s (snd (and_then m f))"
  "(\<And>x. r = Ok x \<Longrightarrow> grows P s (snd (g x))) \<Longrightarrow> grows P s (snd (with_res r s g))"
  "grows P s (snd (respond rsp n)) = grows P s (snd n)"
  subgoal by (cases m; cases "fst m") (auto intro: grows_trans)
  subgoal by (cases r) (auto simp: grows_def)
  subgoal by (cases n; cases "fst n") (auto simp: respond_def)
  done

lemma TransferBalance_grows: "grows P s (snd (TransferBalance P a b n s))"
proof (cases "a = b")
  case True
  obtain r s' where run: "TransferBalance P a b n s = (r, s')" by fastforce
  have "token_supply s \<le> token_supply s'" if wf: "accounts_wf P s"
    using TransferBalance_cases [OF wf run]
  proof (elim disjE exE conjE)
    fix x y x' y' s1
    assume g: "GetAccount a False s = Some x" "GetAccount b False s = Some y" and t: "Transfer x (Some y) n = Ok (x', y')"
      and w: "SetAccount P a x' s = (Ok (), s1)" "SetAccount P b y' s1 = (Ok (), s')"
    have "GetAccount b False s1 = Some x'" using SetAccount_get [OF w(1)] True by simp
    then show ?thesis
      using supply_Set_existing [OF wf g(1) w(1)] supply_Set_existing [OF SetAccount_wf_Ok [OF w(1) wf] _ w(2)]
        Transfer_tokens [OF t] g True by auto
  qed simp
  then show ?thesis using run TransferBalance_wf by (fastforce simp: grows_def)
next
  case False
  then show ?thesis using conserves_grows conserves_accounts(1) by blast
qed

lemma ConsumeFaucetPayload_grows:
  assumes "from \<noteq> BurnAddress" "BytesToAddress P (fp_To fp) \<noteq> BurnAddress" "ty \<noteq> SET_ACCOUNT_INFO"
  shows "grows P s (snd (ConsumeFaucetPayload P from (Some fp) ty s))"
proof (cases "from = BytesToAddress P (fp_To fp)")
  case True
  obtain r s' where run: "ConsumeFaucetPayload P from (Some fp) ty s = (r, s')" by fastforce
  have "token_supply s \<le> token_supply s'" if wf: "accounts_wf P s"
  proof (cases "r = Ok ()")
    case False
    then show ?thesis using ConsumeFaucetPayload_not_Ok [OF wf run] by (simp add: same_accounts_def token_supply_def)
  next
    case Ok: True
    obtain x z x' y' z' s0 s1 s2 where g: "GetAccount from False s = Some x" "GetAccount BurnAddress False s = Some z"
      and f: "faucet_result x x z (fp_Amount fp) ty s = Ok (x', y', z')"
      and n: "SetFaucetNonce P (faucet_key P from (fp_Identifier fp)) s = (Ok (), s0)"
      and w: "SetAccount P from x' s0 = (Ok (), s1)" "SetAccount P from y' s1 = (Ok (), s2)"
        "SetAccount P BurnAddress z' s2 = (Ok (), s')"
      using ConsumeFaucetPayload_Ok [OF run [unfolded Ok]] unfolding True [symmetric] by auto
    have eq: "tr_Accounts (st_Tx s0) = tr_Accounts (st_Tx s)" using SetFaucetNonce_frame [OF n] by simp
    have wf0: "accounts_wf P s0" and g0: "GetAccount from False s0 = Some x" "GetAccount BurnAddress False s0 = Some z"
      using wf g by (simp_all add: accounts_wf_frame [OF eq] GetAccount_frame [OF eq])
    have y': "tokens x \<le> tokens y'" and z': "z' = z"
      using f assms(3) Transfer_tokens(2) [of x x "fp_Amount fp"] by (auto simp: faucet_result_def res_simps)
    have wf1: "accounts_wf P s1" using SetAccount_wf_Ok [OF w(1) wf0] .
    have wf2: "accounts_wf P s2" using SetAccount_wf_Ok [OF w(2) wf1] .
    have "GetAccount from False s1 = Some x'" "GetAccount BurnAddress False s2 = Some z"
      using g0 assms(1) by (simp_all add: SetAccount_get [OF w(1)] SetAccount_get [OF w(2)])
    then have "token_supply s0 \<le> token_supply s'"
      using supply_Set_existing [OF wf0 g0(1) w(1)] supply_Set_existing [OF wf1 _ w(2)]
        supply_Set_existing [OF wf2 _ w(3)] y' z' by auto
    then show ?thesis using supply_frame [OF eq] by simp
  qed
  then show ?thesis using run account_operations_wf(8) by (auto simp: grows_def) (metis snd_conv)
next
  case False
  then show ?thesis using conserves_grows conserves_faucet assms by blast
qed

lemma AddTx_grows:
  assumes "key_addresses P"
  shows "grows P s (snd (AddTx P chainID nVKs vtx commit s))"
proof -
  have "grows P s (snd (add_mint_tx P vtx commit rsp s))" for rsp
    using add_mint_tx_supply [of P s vtx commit rsp] by (cases "add_mint_tx P vtx commit rsp s") (auto simp: grows_def)
  moreover have "grows P s (snd (add_send_tx P vtx commit rsp s))" for rsp
  proof -
    have "st_From v \<noteq> BurnAddress" if "SendTokensTxCheck P vt b sg s = Ok v" for v vt b sg
      using SendTokensTxCheck_Ok [OF that] key_address(2) [OF assms] by blast
    then show ?thesis unfolding add_send_tx_def
      by (auto intro!: grows_seq(1,2) TransferBalance_grows conserves_grows [OF conserves_accounts(5)] conserves_grows [OF conserves_refl] simp: grows_seq(3) res_simps)
  qed
  moreover have "grows P s (snd (add_faucet_tx P vtx commit rsp s))" for rsp
  proof -
    have nb: "CollectFaucetTxCheck P vt b sg s \<noteq> Ok BurnAddress" for vt b sg
      using CollectFaucetTxCheck_Ok key_address(4) [OF assms] by blast
    have "grows P s (snd (ConsumeFaucetPayload P a (Some fp) COLLECT_FAUCET s))"
      if pr: "CollectFaucetTxCheck P vt b sg s = Ok a" "GetCollectFaucet vt = Some tx" "cf_FaucetPackage tx = Some pkg"
        "fk_Payload pkg = Some fp" for a vt b sg tx pkg fp
    proof -
      have "tx_sender P (bz b) (bz sg) = Ok (fp_To fp)" using CollectFaucetTxCheck_Ok [OF pr(1)] pr by auto
      then show ?thesis using key_address(2) [OF assms] nb pr(1) by (intro ConsumeFaucetPayload_grows) auto
    qed
    then show ?thesis unfolding add_faucet_tx_def
      by (auto intro!: grows_seq(1,2) conserves_grows [OF conserves_accounts(5)] conserves_grows [OF conserves_refl]
          simp: nb grows_seq(3) res_simps split: option.split)
  qed
  ultimately show ?thesis using AddTx_cases [OF assms, of chainID nVKs vtx commit s] conserves_grows by metis
qed

section \<open>Histories\<close>

definition committed :: "state \<Rightarrow> state" where "committed s = s\<lparr>st_Tx := st_View s\<rparr>"

text \<open>The invariant holds of the open and of the committed trees, what is committed is in the open
  trees, and no listener asks the chain to halt.\<close>

definition state_wf :: "params \<Rightarrow> state \<Rightarrow> bool" where
  "state_wf P s \<longleftrightarrow> chain_wf P s \<and> chain_wf P (committed s) \<and> votes_kept (committed s) s \<and> kept P (committed s) s \<and>
     token_supply (committed s) \<le> token_supply s \<and> (\<forall>l \<in> set (st_listeners s). \<forall>h. l_Commit l h \<noteq> Some ErrHaltVochain)"

text \<open>What a later committed state keeps of an earlier one.\<close>

definition succeeds :: "params \<Rightarrow> state \<Rightarrow> state \<Rightarrow> bool" where
  "succeeds P s t \<longleftrightarrow> votes_kept (committed s) (committed t) \<and> kept P (committed s) (committed t) \<and>
     token_supply (committed s) \<le> token_supply (committed t)"

inductive abci_step :: "params \<Rightarrow> (bytes \<Rightarrow> bytes) \<Rightarrow> (trees \<Rightarrow> bytes) \<Rightarrow> BaseApplication \<Rightarrow> BaseApplication \<Rightarrow> bool"
  for P tm_Hash mainRoot where
  check: "abci_step P tm_Hash mainRoot app (snd (CheckTx P recheck tx app))"
| deliver: "abci_step P tm_Hash mainRoot app (snd (DeliverTx P tm_Hash tx app))"
| begin_block: "abci_step P tm_Hash mainRoot app (BeginBlock time height app)"
| end_block: "abci_step P tm_Hash mainRoot app (endBlock height time app)"
| commit: "abci_step P tm_Hash mainRoot app (snd (Commit P mainRoot synchronizing snapshot app))"

lemma votes_kept_refl [simp]: "votes_kept s s" by (simp add: votes_kept_def)

lemma votes_kept_trans: "votes_kept s t \<Longrightarrow> votes_kept t u \<Longrightarrow> votes_kept s u"
  by (auto simp: votes_kept_def)

lemma trees_only:
  assumes "st_Tx t = st_Tx s"
  shows "chain_wf P t = chain_wf P s" "votes_kept u t = votes_kept u s" "votes_kept t u = votes_kept s u"
    "kept P u t = kept P u s" "kept P t u = kept P s u" "token_supply t = token_supply s"
  using assms
  by (simp_all add: chain_wf_def startable_def can_start_def accounts_wf_def processes_wf_def votes_kept_def kept_def
      Process_get_def mainTreeViewer_def token_supply_def)

lemma same_trees:
  assumes "st_Tx t = st_Tx s" and "st_View t = st_View s" and "st_listeners t = st_listeners s"
  shows "state_wf P t = state_wf P s" "succeeds P u t = succeeds P u s"
proof -
  have c: "st_Tx (committed t) = st_Tx (committed s)" using assms(2) by (simp add: committed_def)
  show "state_wf P t = state_wf P s" "succeeds P u t = succeeds P u s"
    using assms(3) by (simp_all add: state_wf_def succeeds_def trees_only [OF assms(1)] trees_only [OF c])
qed

lemma succeeds_refl: "chain_wf P (committed s) \<Longrightarrow> succeeds P s s"
  by (simp add: succeeds_def votes_kept_def kept_refl chain_wf_def)

lemma succeeds_trans: "succeeds P s t \<Longrightarrow> succeeds P t u \<Longrightarrow> succeeds P s u"
  unfolding succeeds_def votes_kept_def using kept_trans by fastforce

lemma AddTx_state_wf:
  assumes "key_addresses P" and "state_wf P s"
  shows "state_wf P (snd (AddTx P c n vtx b s)) \<and> succeeds P s (snd (AddTx P c n vtx b s))"
proof -
  let ?t = "snd (AddTx P c n vtx b s)"
  have e: "same_env s ?t" by (rule AddTx_env)
  then have v: "st_Tx (committed ?t) = st_Tx (committed s)" by (simp add: committed_def same_env_def)
  have s: "chain_wf P ?t" "votes_kept s ?t" "kept P s ?t" using AddTx_safe [of P s c n vtx b] assms(2) by (auto simp: safe_step_def state_wf_def)
  have g: "token_supply s \<le> token_supply ?t" using AddTx_grows [OF assms(1), of s c n vtx b] assms(2) by (auto simp: grows_def state_wf_def chain_wf_def)
  have "votes_kept (committed s) ?t" using assms(2) s(2) by (auto simp: state_wf_def votes_kept_def)
  moreover have "kept P (committed s) ?t" using assms(2) s(3) kept_trans by (auto simp: state_wf_def)
  ultimately show ?thesis
    using assms(2) s g e succeeds_refl [of P s] by (auto simp: state_wf_def trees_only [OF v] same_env_def succeeds_def)
qed

lemma CheckTx_state:
  "app_State (snd (CheckTx P re tx app)) = app_State app \<or>
   (\<exists>vtx. app_State (snd (CheckTx P re tx app)) = snd (AddTx P (app_chainID app) (app_ZkVKs app) vtx False (app_State app)))"
  by (cases "VochainTx_Unmarshal P tx (app_chainID app)")
    (auto simp: CheckTx_def on_state_def split: res.split prod.split)

lemma DeliverTx_state:
  "\<exists>t. (t = app_State app \<or> (\<exists>vtx. t = snd (AddTx P (app_chainID app) (app_ZkVKs app) vtx True (app_State app)))) \<and>
     st_Tx (app_State (snd (DeliverTx P h tx app))) = st_Tx t \<and> st_View (app_State (snd (DeliverTx P h tx app))) = st_View t \<and>
     st_listeners (app_State (snd (DeliverTx P h tx app))) = st_listeners t"
proof (cases "VochainTx_Unmarshal P tx (app_chainID app)")
  case (Ok vtx)
  let ?t = "snd (AddTx P (app_chainID app) (app_ZkVKs app) vtx True (app_State app))"
  have "st_Tx (app_State (snd (DeliverTx P h tx app))) = st_Tx ?t \<and> st_View (app_State (snd (DeliverTx P h tx app))) = st_View ?t \<and>
     st_listeners (app_State (snd (DeliverTx P h tx app))) = st_listeners ?t"
    using Ok by (cases "AddTx P (app_chainID app) (app_ZkVKs app) vtx True (app_State app)")
      (auto simp: DeliverTx_def on_state_def count_tx_def TxCounterAdd_def split: res.split)
  then show ?thesis by blast
qed (auto simp: DeliverTx_def count_tx_def TxCounterAdd_def)

lemma Save_state_wf:
  assumes "root_sizes P" and "state_wf P s"
  shows "\<exists>s'. Save P mainRoot s = (Ok (mainRoot (st_View s')), s') \<and> state_wf P s' \<and> succeeds P s s' \<and> st_version s' = st_height s"
proof -
  obtain s' where s': "Save P mainRoot s = (Ok (mainRoot (st_View s')), s')" "chain_wf P s'" "votes_kept s s'" "kept P s s'"
      "st_View s' = st_Tx s'" "st_version s' = st_height s" and env: "st_listeners s' = st_listeners s" "same_accounts s s'"
    using Save_safe [OF assms(1), of s mainRoot] assms(2) by (auto simp: state_wf_def)
  have c: "st_Tx (committed s') = st_Tx s'" using s'(5) by (simp add: committed_def)
  have "token_supply s' = token_supply s" using env(2) by (simp add: same_accounts_def token_supply_def)
  moreover have "votes_kept (committed s) s'" "kept P (committed s) s'" "kept P s' s'"
    using s'(2-4) assms(2) votes_kept_trans kept_trans [of P "committed s" s s'] kept_refl [of P s']
    by (auto simp: state_wf_def chain_wf_def)
  ultimately show ?thesis
    using s' assms(2) env(1) by (simp add: state_wf_def succeeds_def trees_only [OF c])
qed

lemma purge_loop_frame:
  "st_Tx (fst (purge_loop h ks s rs)) = st_Tx s \<and> st_View (fst (purge_loop h ks s rs)) = st_View s \<and>
   st_listeners (fst (purge_loop h ks s rs)) = st_listeners s"
  by (induction h ks s rs rule: purge_loop.induct)
    (auto simp: cache_remove_def split: option.split cache_key.split)

lemma CachePurge_frame:
  "st_Tx (fst (CachePurge h s)) = st_Tx s" "st_View (fst (CachePurge h s)) = st_View s"
  "st_listeners (fst (CachePurge h s)) = st_listeners s"
  by (simp_all add: CachePurge_def purge_loop_frame)

lemma abci_step_wf:
  assumes "key_addresses P" and "root_sizes P" and "abci_step P tm_Hash mainRoot app app'" and "state_wf P (app_State app)"
  shows "state_wf P (app_State app') \<and> succeeds P (app_State app) (app_State app')"
  using assms(3)
proof cases
  case (check recheck tx)
  then show ?thesis
    using CheckTx_state [of P recheck tx app] AddTx_state_wf [OF assms(1,4)] assms(4) succeeds_refl by (auto simp: state_wf_def)
next
  case (deliver tx)
  then obtain t where t: "t = app_State app \<or> (\<exists>vtx. t = snd (AddTx P (app_chainID app) (app_ZkVKs app) vtx True (app_State app)))"
    "st_Tx (app_State app') = st_Tx t" "st_View (app_State app') = st_View t" "st_listeners (app_State app') = st_listeners t"
    using DeliverTx_state [of app P tm_Hash tx] by blast
  have "state_wf P t \<and> succeeds P (app_State app) t"
    using t(1) AddTx_state_wf [OF assms(1,4)] assms(4) succeeds_refl by (auto simp: state_wf_def)
  then show ?thesis by (simp add: same_trees [OF t(2-4)])
next
  case (begin_block time height)
  then have t: "st_Tx (app_State app') = st_View (app_State app)" "st_View (app_State app') = st_View (app_State app)"
    "st_listeners (app_State app') = st_listeners (app_State app)"
    by (simp_all add: BeginBlock_def Let_def Rollback_def SetHeight_def CachePurge_frame)
  have c: "st_Tx (app_State app') = st_Tx (committed (app_State app))" "st_Tx (committed (app_State app')) = st_Tx (committed (app_State app))"
    using t by (simp_all add: committed_def)
  have "kept P (committed (app_State app)) (committed (app_State app))"
    using assms(4) by (simp add: state_wf_def kept_refl chain_wf_def)
  then show ?thesis
    using assms(4) t(3) by (simp add: state_wf_def trees_only [OF c(1)] trees_only [OF c(2)] succeeds_def)
next
  case (end_block height time)
  then show ?thesis using assms(4) succeeds_refl by (auto simp: endBlock_def state_wf_def)
next
  case (commit synchronizing snapshot)
  then have "app_State app' = snd (Save P mainRoot (app_State app))"
    using Save_state_wf [OF assms(2,4), of mainRoot]
    by (cases snapshot) (auto simp: Commit_def on_state_def fatal_def)
  then show ?thesis using Save_state_wf [OF assms(2,4), of mainRoot] by auto
qed

section \<open>Properties of every history\<close>

lemma abci_history:
  assumes "key_addresses P" and "root_sizes P" and "(abci_step P tm_Hash mainRoot)\<^sup>*\<^sup>* app app'" and "state_wf P (app_State app)"
  shows "state_wf P (app_State app') \<and> succeeds P (app_State app) (app_State app')"
  using assms(3)
proof (induction rule: rtranclp_induct)
  case base
  then show ?case using assms(4) succeeds_refl by (auto simp: state_wf_def)
next
  case (step app1 app2)
  then show ?case using abci_step_wf [OF assms(1,2) step.hyps(2)] succeeds_trans by blast
qed

text \<open>A fresh application satisfies the invariant.\<close>

lemma NewState_wf: "state_wf P NewState"
proof -
  have t: "st_Tx NewState = trees0" "st_View NewState = trees0" "st_listeners NewState = []" by (simp_all add: NewState_def)
  have "chain_wf P s" "votes_kept s s" "kept P s s" "token_supply s = 0" if "st_Tx s = trees0" for s
    using that by (simp_all add: chain_wf_def accounts_wf_def processes_wf_def startable_def trees0_def votes_kept_def kept_def
        Process_get_def mainTreeViewer_def getProcess_def token_supply_def)
  note e = this
  have c: "st_Tx (committed NewState) = st_Tx NewState" by (simp add: committed_def t)
  show ?thesis unfolding state_wf_def trees_only [OF c] using e [of NewState] t by simp
qed

text \<open>C1. The chain never stops at a commit: whatever checks, deliveries, blocks and commits came
  before, accepted and refused, the commit of the block goes through, as long as no listener asks for a halt, and the node's
  committed version is the height of that block.\<close>

theorem commit_never_fails:
  assumes "key_addresses P" and "root_sizes P"
    and "(abci_step P tm_Hash mainRoot)\<^sup>*\<^sup>* app app'" and "state_wf P (app_State app)"
  shows "\<exists>root app''. Commit P mainRoot synchronizing (Ok ()) app' = (Ok root, app'') \<and>
     LastHeight (app_State app'') = st_height (app_State app') \<and>
     Info mainRoot app'' = \<lparr>ri_LastBlockHeight = uint (st_height (app_State app')), ri_LastBlockAppHash = root\<rparr>"
proof -
  have "state_wf P (app_State app')" using abci_history [OF assms] by blast
  then obtain s' where "Save P mainRoot (app_State app') = (Ok (mainRoot (st_View s')), s')" "st_version s' = st_height (app_State app')"
    using Save_state_wf [OF assms(2), of "app_State app'" mainRoot] by blast
  then show ?thesis by (auto simp: Commit_def on_state_def fatal_def LastHeight_def Info_def)
qed

text \<open>C2. What is committed stays: along any history of the application, a committed vote is never removed, a
  committed process is never removed and only evolves (its owner, schedule and rules stay, a canceled one stays canceled,
  results stay), and the sum of all balances never shrinks.\<close>

theorem committed_stays:
  assumes "key_addresses P" and "root_sizes P"
    and "(abci_step P tm_Hash mainRoot)\<^sup>*\<^sup>* app app'" and "state_wf P (app_State app)"
  shows "(\<forall>pid k. map_of (tr_Votes (st_View (app_State app)) pid) k \<noteq> None \<longrightarrow> map_of (tr_Votes (st_View (app_State app')) pid) k \<noteq> None) \<and>
    (\<forall>pid p. Process_get pid True (app_State app) = Ok p \<longrightarrow> (\<exists>q. Process_get pid True (app_State app') = Ok q \<and> evolves p q)) \<and>
    token_supply (committed (app_State app)) \<le> token_supply (committed (app_State app'))"
proof -
  have "Process_get pid False (committed s) = Process_get pid True s" for pid s
    by (simp add: Process_get_def mainTreeViewer_def committed_def)
  then show ?thesis
    using abci_history [OF assms] by (auto simp: succeeds_def votes_kept_def kept_def committed_def)
qed

definition app_ex :: BaseApplication where
  "app_ex = NewBaseApplication\<lparr>app_State := NewState\<lparr>st_Tx := st_Tx ex_state, st_View := st_Tx ex_state\<rparr>\<rparr>"

lemma app_ex_wf: "state_wf one_key (app_State app_ex)"
proof -
  let ?s = "app_State app_ex"
  have t: "st_Tx ?s = st_Tx ex_state" "st_Tx (committed ?s) = st_Tx ex_state" "st_listeners ?s = []"
    by (simp_all add: app_ex_def NewState_def committed_def)
  have "accounts_wf one_key ex_state" using ex_wf by (simp add: accounts_wf_def one_key_def)
  then have "chain_wf one_key ex_state" "votes_kept ex_state ex_state" "kept one_key ex_state ex_state"
    by (auto simp: chain_wf_def processes_wf_def startable_def ex_state_def trees0_def kept_def votes_kept_def)
  then show ?thesis unfolding state_wf_def trees_only [OF t(1)] trees_only [OF t(2)] using t(3) by simp
qed

lemma one_key_roots: "root_sizes one_key" by (simp add: root_sizes_def one_key_def)

theorem commit_never_fails_witness:
  "\<exists>root app''. Commit one_key (\<lambda>_. []) True (Ok ()) (snd (DeliverTx one_key id [1, 2] (BeginBlock 0 1 app_ex))) = (Ok root, app'') \<and>
     LastHeight (app_State app'') = 1"
proof -
  let ?a = "BeginBlock 0 1 app_ex" and ?b = "snd (DeliverTx one_key id [1, 2] (BeginBlock 0 1 app_ex))"
  have "(abci_step one_key id (\<lambda>_. []))\<^sup>*\<^sup>* app_ex ?b"
    by (rule rtranclp_trans [of _ _ ?a]) (auto intro: abci_step.intros)
  note commit_never_fails [OF one_key_ok one_key_roots this app_ex_wf, of True]
  moreover have "st_height (app_State ?b) = 1"
    by (simp add: DeliverTx_def VochainTx_Unmarshal_def one_key_def of_option_def on_state_def AddTx_def count_tx_def TxCounterAdd_def
        BeginBlock_def CachePurge_def SetHeight_def Rollback_def Let_def)
  ultimately show ?thesis by auto
qed

theorem committed_stays_witness:
  "token_supply (committed (app_State (snd (Commit one_key (\<lambda>_. []) True (Ok ()) (BeginBlock 0 1 app_ex))))) \<ge> 150"
proof -
  let ?a = "BeginBlock 0 1 app_ex" and ?b = "snd (Commit one_key (\<lambda>_. []) True (Ok ()) (BeginBlock 0 1 app_ex))"
  have "(abci_step one_key id (\<lambda>_. []))\<^sup>*\<^sup>* app_ex ?b"
    by (rule rtranclp_trans [of _ _ ?a]) (auto intro: abci_step.intros)
  moreover have "token_supply (committed (app_State app_ex)) = 150"
    using ex_supply by (simp add: token_supply_def committed_def app_ex_def NewState_def)
  ultimately show ?thesis
    using committed_stays [OF one_key_ok one_key_roots _ app_ex_wf] by metis
qed

definition deliver_all :: "params \<Rightarrow> (bytes \<Rightarrow> bytes) \<Rightarrow> bytes list \<Rightarrow> BaseApplication \<Rightarrow> BaseApplication" where
  "deliver_all P tm_Hash txs app = fold (\<lambda>tx app. snd (DeliverTx P tm_Hash tx app)) txs app"


section \<open>Genesis\<close>

lemma fatal_simps [simp]: "snd (fatal m r) = snd r" "fatal m r = (Ok x, s) \<longleftrightarrow> r = (Ok x, s)"
  by (cases r; cases "fst r"; auto simp: fatal_def)+

lemma init_safe:
  "safe_step P s (snd (init_oracles P os s))" "safe_step P s (snd (init_accounts P accs s))"
  "safe_step P s (snd (init_validators P vs s))" "safe_step P s (snd (init_costs P cs s))"
proof -
  have v: "safe_step P t (snd (AddValidator P v t))" for v t
  proof (rule safe_accounts)
    show "same_processes t (snd (AddValidator P v t))" by (rule state_ops_same_processes)
    show "accounts_wf P t \<Longrightarrow> accounts_wf P (snd (AddValidator P v t))"
      by (simp add: AddValidator_def DeepSet_snd accounts_wf_def split: res.split)
  qed
  show "safe_step P s (snd (init_oracles P os s))"
    by (induction os arbitrary: s) (auto simp: Let_def intro!: safe_seq(1) safe_state_ops intro: safe_trans [OF safe_account_ops(5)])
  show "safe_step P s (snd (init_accounts P accs s))"
  proof (induction accs arbitrary: s)
    case (Cons a accs)
    obtain x n where a: "a = (x, n)" by (cases a)
    have "safe_step P s (snd (CreateAccount P b [] [] n s))" "safe_step P t (snd (MintBalance P b n t))" for b t
      by (rule safe_account_ops)+
    then show ?case using Cons.IH safe_trans by (auto simp: a Let_def intro!: safe_seq(1)) blast+
  qed simp
  show "safe_step P s (snd (init_validators P vs s))"
    by (induction vs arbitrary: s) (auto intro!: safe_seq(1) v)
  show "safe_step P s (snd (init_costs P cs s))"
    by (induction cs arbitrary: s) (auto intro!: safe_seq(1) safe_state_ops)
qed

lemma init_costs_Ok:
  assumes "init_costs P cs s = (Ok (), s')" and "distinct (map fst cs)"
  shows "Treasurer_get False s' = Treasurer_get False s \<and>
    (\<forall>ty. TxCost ty False s' = (case map_of cs ty of Some c \<Rightarrow> Ok c | None \<Rightarrow> TxCost ty False s))"
  using assms
proof (induction cs arbitrary: s)
  case (Cons e cs)
  obtain ty c where e: "e = (ty, c)" by (cases e)
  obtain s1 where s1: "SetTxCost P ty c s = (Ok (), s1)" "init_costs P cs s1 = (Ok (), s')"
    using Cons.prems(1) by (auto simp: e res_simps)
  have "map_of cs ty = None" using Cons.prems(2) by (simp add: e map_of_eq_None_iff)
  then show ?case
    using Cons.IH [OF s1(2)] Cons.prems(2) SetTxCost_treasurer [OF s1(1)] SetTxCost_cost [OF s1(1)] by (auto simp: e split: option.split)
qed simp

lemma SetTreasurer_Ok:
  "SetTreasurer P a n s = (Ok (), s') \<Longrightarrow> Treasurer_get False s' = Ok \<lparr>t_Address = a, t_Nonce = n\<rparr>"
  by (auto simp: SetTreasurer_def DeepSet_Ok Treasurer_get_def mainTreeViewer_def Tree_Get_def Tree_Set_lookup of_option_def)

lemma setRollingCensusSize_only: "\<exists>t. st_Tx (snd (setRollingCensusSize P pids s)) = set_Processes t (st_Tx s)"
proof -
  define Q where "Q = (\<lambda>u :: state. \<exists>t. st_Tx u = set_Processes t (st_Tx s))"
  have s: "Q s" unfolding Q_def by (rule exI [of _ "tr_Processes (st_Tx s)"]) simp
  have "Q u \<Longrightarrow> Q (snd (setRollingCensusSize P pids u))" for u
  proof (induction pids arbitrary: u)
    case (Cons pid pids)
    have "Q (snd (update_leaf P p pid u))" for p
      using Cons.prems by (auto simp: update_leaf_def DeepSet_snd Q_def split: option.split res.split)
    then show ?case
      using Cons by (auto intro!: with_res_keeps [where Q = Q] and_then_keeps [where Q = Q] split: option.split)
  qed simp
  then show ?thesis using s by (simp add: Q_def)
qed

lemma commit_listeners_frame: "st_Tx (snd (commit_listeners h ls s)) = st_Tx s \<and> st_View (snd (commit_listeners h ls s)) = st_View s"
  by (induction ls arbitrary: s) (auto simp: Let_def split: option.split err.split)

lemma Save_only:
  assumes "Save P mainRoot s = (Ok root, s')"
  shows "st_View s' = st_Tx s' \<and> (\<exists>t. st_Tx s' = set_Processes t (st_Tx s))"
proof -
  let ?pids = "processIDsByStartBlock (st_height s + 1) s"
  obtain s1 where s1: "setRollingCensusSize P ?pids s = (Ok (), s1)"
    and s': "st_Tx s' = st_Tx (TreeTx_Commit P (st_height s) s1)" "st_View s' = st_View (TreeTx_Commit P (st_height s) s1)"
    using assms commit_listeners_frame [of "st_height s"]
    by (auto simp: Save_def Let_def res_simps split: if_splits) (metis snd_conv)+
  obtain t where "st_Tx s1 = set_Processes t (st_Tx s)" using setRollingCensusSize_only [of P ?pids s] s1 by auto
  then show ?thesis using s' by (auto simp: TreeTx_Commit_def propagateRoot_processes_def Let_def)
qed

lemma init_env:
  "same_env s t \<Longrightarrow> same_env s (snd (init_oracles P os t))" "same_env s t \<Longrightarrow> same_env s (snd (init_accounts P accs t))"
  "same_env s t \<Longrightarrow> same_env s (snd (init_validators P vs t))" "same_env s t \<Longrightarrow> same_env s (snd (init_costs P cs t))"
proof -
  show "same_env s t \<Longrightarrow> same_env s (snd (init_oracles P os t))"
    by (induction os arbitrary: t) (auto simp: Let_def intro!: keeps_env env_state_ops(1) env_account_ops(5))
  show "same_env s t \<Longrightarrow> same_env s (snd (init_accounts P accs t))"
  proof (induction accs arbitrary: t)
    case (Cons a accs)
    obtain x n where a: "a = (x, n)" by (cases a)
    have "same_env s (snd (CreateAccount P b [] [] n t))" "same_env s u \<Longrightarrow> same_env s (snd (MintBalance P b n u))" for b u
      using Cons.prems by (auto intro: env_account_ops)
    then show ?case using Cons.IH by (simp add: a Let_def and_then_keeps [where Q = "same_env s"])
  qed simp
  show "same_env s t \<Longrightarrow> same_env s (snd (init_validators P vs t))"
  proof (induction vs arbitrary: t)
    case (Cons v vs)
    have "same_env s u \<Longrightarrow> same_env s (snd (AddValidator P x u))" for x u by (rule env_state_ops(8))
    then show ?case using Cons by (simp add: and_then_keeps [where Q = "same_env s"])
  qed simp
  show "same_env s t \<Longrightarrow> same_env s (snd (init_costs P cs t))"
  proof (induction cs arbitrary: t)
    case (Cons e cs)
    obtain ty c where e: "e = (ty, c)" by (cases e)
    have "same_env s (snd (SetTxCost P ty c t))" using Cons.prems by (intro env_state_ops)
    then show ?case using Cons.IH by (simp add: e and_then_keeps [where Q = "same_env s"])
  qed simp
qed

lemma genesis_writes_safe: "safe_step P s (snd (SetTreasurer P a n s))" "safe_step P s (snd (SetAccount P b acc s))"
proof -
  show "safe_step P s (snd (SetTreasurer P a n s))"
    by (rule safe_accounts [OF state_ops_same_processes(6)])
      (simp add: SetTreasurer_def DeepSet_snd accounts_wf_def split: res.split)
  show "safe_step P s (snd (SetAccount P b acc s))"
    by (rule safe_accounts [OF SetAccount_same_processes SetAccount_wf])
qed

lemma AsMap_types: "distinct (map fst (AsMap t))"
  by (simp add: AsMap_def cost_fields_def TxCostNameToTxType_def TxCostNameToTxTypeMap_def)

text \<open>The genesis: when it goes through, the committed state satisfies the invariant of the chain, has the treasurer of the
  genesis file with nonce 0, the cost of every transaction type of the file, whatever order the costs
  are set in, and an empty burn account.\<close>

theorem genesis_state:
  assumes "root_sizes P" and "\<forall>l \<in> set ls. \<forall>h. l_Commit l h \<noteq> Some ErrHaltVochain" and "\<And>xs. mset (order xs) = mset xs"
    and "InitChain P order mainRoot (Some g) (NewState\<lparr>st_listeners := ls\<rparr>) = (Ok root, s')"
  shows "state_wf P s' \<and> Treasurer_get True s' = Ok \<lparr>t_Address = BytesToAddress P (ga_Treasurer g), t_Nonce = 0\<rparr> \<and>
    (\<forall>(ty, c) \<in> set (AsMap (ga_TxCost g)). TxCost ty True s' = Ok c) \<and>
    GetAccount BurnAddress True s' = Some \<lparr>Balance = 0, Nonce = 0, InfoURI = [], DelegateAddrs = [], ProcessIndex = 0\<rparr>"
proof -
  let ?s = "NewState\<lparr>st_listeners := ls\<rparr>" and ?cs = "order (AsMap (ga_TxCost g))"
  let ?burn = "\<lparr>Balance = 0, Nonce = 0, InfoURI = [], DelegateAddrs = [], ProcessIndex = 0\<rparr>"
  obtain s1 s2 s3 s4 s5 s6 where run: "init_oracles P (ga_Oracles g) ?s = (Ok (), s1)" "init_accounts P (ga_Accounts g) s1 = (Ok (), s2)"
    "init_validators P (ga_Validators g) s2 = (Ok (), s3)" "SetTreasurer P (BytesToAddress P (ga_Treasurer g)) 0 s3 = (Ok (), s4)"
    "init_costs P ?cs s4 = (Ok (), s5)" "SetAccount P BurnAddress ?burn s5 = (Ok (), s6)" "Save P mainRoot s6 = (Ok root, s')"
    using assms(4) by (auto simp: InitChain_def res_simps)
  obtain t where v: "st_View s' = st_Tx s'" and tx: "st_Tx s' = set_Processes t (st_Tx s6)" using Save_only [OF run(7)] by blast
  have d: "distinct (map fst ?cs)"
    using AsMap_types [of "ga_TxCost g"] assms(3) [of "AsMap (ga_TxCost g)"] by (metis mset_map mset_eq_imp_distinct_iff)
  have "set ?cs = set (AsMap (ga_TxCost g))" by (rule mset_eq_setD [OF assms(3)])
  then have "map_of ?cs ty = Some c" if "(ty, c) \<in> set (AsMap (ga_TxCost g))" for ty c
    using map_of_is_SomeI [OF d] that by simp
  note look = this
  have costs: "TxCost ty False s5 = Ok c" if "(ty, c) \<in> set (AsMap (ga_TxCost g))" for ty c
    using conjunct2 [OF init_costs_Ok [OF run(5) d], rule_format, of ty] look [OF that] by simp
  have tr: "Treasurer_get False s5 = Ok \<lparr>t_Address = BytesToAddress P (ga_Treasurer g), t_Nonce = 0\<rparr>"
    using conjunct1 [OF init_costs_Ok [OF run(5) d]] SetTreasurer_Ok [OF run(4)] by simp
  have e: "tr_Extra (mainTreeViewer True s') = tr_Extra (mainTreeViewer False s5)"
    using v tx SetAccount_frame [OF run(6)] by (simp add: mainTreeViewer_def)
  have read: "Treasurer_get True s' = Treasurer_get False s5" "TxCost ty True s' = TxCost ty False s5" for ty
    unfolding Treasurer_get_def TxCost_def e by simp_all
  have "GetAccount BurnAddress True s' = GetAccount BurnAddress False s6"
    using v tx by (simp add: GetAccount_def mainTreeViewer_def)
  then have burn: "GetAccount BurnAddress True s' = Some ?burn" using SetAccount_get [OF run(6)] by simp
  have "chain_wf P ?s" using NewState_wf [of P] trees_only(1) [of ?s NewState P] by (simp add: state_wf_def)
  moreover have "safe_step P s3 s4" "safe_step P s5 s6"
    using genesis_writes_safe(1) [of P s3 "BytesToAddress P (ga_Treasurer g)" 0] genesis_writes_safe(2) [of P s5 BurnAddress ?burn] run(4,6)
    by simp_all
  ultimately have "chain_wf P s6"
    using init_safe(1) [of P ?s "ga_Oracles g"] init_safe(2) [of P s1 "ga_Accounts g"] init_safe(3) [of P s2 "ga_Validators g"]
      init_safe(4) [of P s4 ?cs] run(1-6) by (simp add: safe_step_def)
  moreover have "same_env ?s s6"
    using init_env(1) [of ?s ?s P "ga_Oracles g"] init_env(2) [of ?s s1 P "ga_Accounts g"] init_env(3) [of ?s s2 P "ga_Validators g"]
      env_state_ops(7) [of ?s s3 P "BytesToAddress P (ga_Treasurer g)" 0] init_env(4) [of ?s s4 P ?cs]
      env_state_ops(6) [of ?s s5 P BurnAddress ?burn] run(1-6) by simp
  then have "st_listeners s6 = ls" by (simp add: same_env_def)
  ultimately obtain s'' where "Save P mainRoot s6 = (Ok (mainRoot (st_View s'')), s'')" "chain_wf P s''" "st_listeners s'' = ls"
    using Save_safe [OF assms(1), of s6 mainRoot] assms(2) by auto
  then have w: "chain_wf P s'" "st_listeners s' = ls" using run(7) by simp_all
  have c: "st_Tx (committed s') = st_Tx s'" using v by (simp add: committed_def)
  have "state_wf P s'" unfolding state_wf_def trees_only [OF c] using w assms(2) kept_refl [of P s'] by (simp add: chain_wf_def)
  then show ?thesis using costs tr read burn by auto
qed

text \<open>A genesis with one oracle, one validator and all costs one.\<close>

definition genesis0 :: GenesisAppState where
  "genesis0 = \<lparr>ga_Validators = [\<lparr>gv_Address = replicate 20 7, gv_PubKey = replicate 32 8, gv_Power = ''10''\<rparr>],
     ga_Oracles = [alice], ga_Accounts = [], ga_Treasurer = alice,
     ga_TxCost = \<lparr>tc_SetProcessStatus = 1, tc_SetProcessCensus = 1, tc_SetProcessResults = 1, tc_SetProcessQuestionIndex = 1,
       tc_RegisterKey = 1, tc_NewProcess = 1, tc_SendTokens = 1, tc_SetAccountInfo = 1, tc_AddDelegateForAccount = 1,
       tc_DelDelegateForAccount = 1, tc_CollectFaucet = 1\<rparr>\<rparr>"

lemma params0_writes: "length k \<le> 32 \<Longrightarrow> \<exists>s'. DeepSet params0 256 sel upd k v s = (Ok (), s')"
  by (simp add: DeepSet_def Tree_Set_def Tree_Add_def)

lemma params0_costs: "\<forall>e \<in> set cs. TxTypeCostToStateKey (fst e) \<noteq> None \<Longrightarrow> \<exists>s'. init_costs params0 cs s = (Ok (), s')"
proof (induction cs arbitrary: s)
  case (Cons e cs)
  obtain ty c where e: "e = (ty, c)" by (cases e)
  obtain key where key: "TxTypeCostToStateKey ty = Some key" using Cons.prems e by auto
  then have "length (str key) \<le> 32" by (cases ty) (auto simp: TxTypeCostToStateKey_def str_def)
  then obtain s1 where "SetTxCost params0 ty c s = (Ok (), s1)"
    using params0_writes by (fastforce simp: SetTxCost_def key)
  then show ?case using Cons by (auto simp: e fatal_def)
qed simp

lemma genesis0_runs: "\<exists>root s'. InitChain params0 id (\<lambda>_. []) (Some genesis0) NewState = (Ok root, s')"
proof -
  let ?cs = "AsMap (ga_TxCost genesis0)"
  have a: "BytesToAddress params0 alice = alice" by simp
  obtain s0 where "AddOracle params0 alice NewState = (Ok (), s0)" using params0_writes [of alice tr_Oracles set_Oracles "[1]" NewState] by (auto simp: AddOracle_def)
  then obtain s1 where s1: "init_oracles params0 (ga_Oracles genesis0) NewState = (Ok (), s1)"
    by (simp add: genesis0_def a fatal_def)
  have s2: "init_accounts params0 (ga_Accounts genesis0) s1 = (Ok (), s1)" by (simp add: genesis0_def)
  obtain s3 where "AddValidator params0 \<lparr>val_Address = replicate 20 7, val_PubKey = replicate 32 8, val_Power = 10\<rparr> s1 = (Ok (), s3)"
    using params0_writes [of "replicate 20 7" tr_Validators set_Validators _ s1] by (auto simp: AddValidator_def)
  moreover have "ParseUint ''10'' = Ok 10" by (simp add: ParseUint_def digit_value_def)
  ultimately have s3: "init_validators params0 (ga_Validators genesis0) s1 = (Ok (), s3)"
    by (simp add: genesis0_def fatal_def)
  obtain s4 where s4: "SetTreasurer params0 alice 0 s3 = (Ok (), s4)"
    using params0_writes [of treasurerKey tr_Extra set_Extra _ s3] by (auto simp: SetTreasurer_def treasurerKey_def str_def)
  obtain s5 where s5: "init_costs params0 ?cs s4 = (Ok (), s5)"
    using params0_costs [of ?cs s4]
    by (auto simp: AsMap_def cost_fields_def TxCostNameToTxType_def TxCostNameToTxTypeMap_def TxTypeCostToStateKey_def)
  obtain s6 where s6: "SetAccount params0 BurnAddress \<lparr>Balance = 0, Nonce = 0, InfoURI = [], DelegateAddrs = [], ProcessIndex = 0\<rparr> s5 = (Ok (), s6)"
    using params0_writes [of BurnAddress tr_Accounts set_Accounts _ s5] by (auto simp: SetAccount_def)
  have n: "chain_wf params0 NewState" using NewState_wf by (simp add: state_wf_def)
  have "chain_wf params0 s6"
    using n init_safe(1) [of params0 NewState "ga_Oracles genesis0"] init_safe(3) [of params0 s1 "ga_Validators genesis0"]
      init_safe(4) [of params0 s4 ?cs] genesis_writes_safe(1) [of params0 s3 alice 0]
      genesis_writes_safe(2) [of params0 s5 BurnAddress "\<lparr>Balance = 0, Nonce = 0, InfoURI = [], DelegateAddrs = [], ProcessIndex = 0\<rparr>"]
      s1 s3 s4 s5 s6 by (simp add: safe_step_def)
  moreover have "same_env NewState s6"
    using init_env(1) [of NewState NewState params0 "ga_Oracles genesis0"] init_env(3) [of NewState s1 params0 "ga_Validators genesis0"]
      env_state_ops(7) [of NewState s3 params0 alice 0] init_env(4) [of NewState s4 params0 ?cs]
      env_state_ops(6) [of NewState s5 params0 BurnAddress "\<lparr>Balance = 0, Nonce = 0, InfoURI = [], DelegateAddrs = [], ProcessIndex = 0\<rparr>"]
      s1 s3 s4 s5 s6 by simp
  then have "st_listeners s6 = []" by (simp add: same_env_def NewState_def)
  ultimately obtain s' where "Save params0 (\<lambda>_. []) s6 = (Ok [], s')"
    using Save_safe [of params0 s6 "\<lambda>_. []"] by (auto simp: root_sizes_def)
  moreover have "ga_Treasurer genesis0 = alice" by (simp add: genesis0_def)
  ultimately show ?thesis
    using s1 s2 s3 s4 s5 s6 by (simp add: InitChain_def fatal_def a)
qed

theorem genesis_state_witness:
  "\<exists>root s'. InitChain params0 id (\<lambda>_. []) (Some genesis0) NewState = (Ok root, s') \<and> TxCost SEND_TOKENS True s' = Ok 1"
proof -
  obtain root s' where run: "InitChain params0 id (\<lambda>_. []) (Some genesis0) NewState = (Ok root, s')" using genesis0_runs by blast
  have r: "root_sizes params0" by (simp add: root_sizes_def)
  have n: "NewState\<lparr>st_listeners := []\<rparr> = NewState" by (simp add: NewState_def)
  have "(SEND_TOKENS, 1) \<in> set (AsMap (ga_TxCost genesis0))"
    by (simp add: genesis0_def AsMap_def cost_fields_def TxCostNameToTxType_def TxCostNameToTxTypeMap_def)
  moreover have run': "InitChain params0 id (\<lambda>_. []) (Some genesis0) (NewState\<lparr>st_listeners := []\<rparr>) = (Ok root, s')"
    unfolding n by (rule run)
  have "\<forall>(ty, c) \<in> set (AsMap (ga_TxCost genesis0)). TxCost ty True s' = Ok c"
    using genesis_state [OF r _ _ run'] by simp
  ultimately show ?thesis using run by blast
qed

section \<open>Blocks of the past\<close>

text \<open>A block that was asked for before the node had it stays missing: the cache keeps the pointer to no block
  as a value, and answers with it after the block has been stored, until the entry is
  evicted.\<close>

theorem missing_block_cached:
  assumes "\<And>e c. \<exists>c'. keep (e # c) = e # c'" and "GetBlockByHeight keep fn height app = (None, app1)"
  shows "\<exists>app2. GetBlockByHeight keep fn' height app1 = (None, app2)"
proof -
  have "\<exists>c. app_blockCache app1 = (height, Some None) # c"
    using assms(2) assms(1) [of "(height, Some (fn height))" "app_blockCache app"]
    by (auto simp: GetBlockByHeight_def GetAndUpdate_def split: option.splits)
  then show ?thesis by (auto simp: GetBlockByHeight_def GetAndUpdate_def)
qed

theorem missing_block_cached_witness:
  "\<exists>app2. GetBlockByHeight (take 32) (\<lambda>_. Some [[1]]) 5 (snd (GetBlockByHeight (take 32) (\<lambda>_. None) 5 NewBaseApplication)) = (None, app2)"
proof -
  have "GetBlockByHeight (take 32) (\<lambda>_. None) 5 NewBaseApplication = (None, snd (GetBlockByHeight (take 32) (\<lambda>_. None) 5 NewBaseApplication))"
    by (simp add: GetBlockByHeight_def GetAndUpdate_def NewBaseApplication_def)
  from missing_block_cached [OF _ this] show ?thesis by simp
qed

end
