(* ===== verification/Results.thy ===== *)
theory Results
  imports Process_Checks "HOL-Library.Multiset"
begin

text \<open>
  Counting votes (\<^verbatim>\<open>vochain/scrutinizer/indexertypes/results.go\<close> and the computation of results in
  \<^verbatim>\<open>vochain/scrutinizer/vote.go\<close>): the matrix of results of a process, the ballot protocol that
  admits a vote to it, the decryption of a vote, the final count over the indexed envelopes, and the
  forms in which a matrix is published and stored. A \<^verbatim>\<open>types.BigInt\<close> is an \<open>int\<close>, a Go \<^verbatim>\<open>int\<close> (the values of a
  vote) an \<open>int\<close> whose conversions to \<^verbatim>\<open>uint32\<close> and \<^verbatim>\<open>uint64\<close> wrap. \<^verbatim>\<open>encoding/json\<close> on a vote package and
  \<^verbatim>\<open>nacl/box\<close> are arguments.
\<close>

section \<open>The matrix of results\<close>

definition MaxQuestions :: nat where "MaxQuestions = 64"
definition MaxOptions :: nat where "MaxOptions = 128"

record Results =
  r_ProcessID :: bytes
  r_Votes :: "int list list"
  r_Weight :: int
  r_EnvelopeHeight :: u64
  r_EnvelopeType :: "EnvelopeType option"
  r_VoteOpts :: "ProcessVoteOptions option"
  r_Signatures :: "bytes list"
  r_Final :: bool
  r_BlockHeight :: u32

definition NewEmptyVotes :: "nat \<Rightarrow> nat \<Rightarrow> int list list" where
  "NewEmptyVotes questions options =
     (if questions = 0 \<or> options = 0 then []
      else map (\<lambda>i. map (\<lambda>j. 0) [0..<options]) [0..<questions])"

text \<open>The loop of \<^verbatim>\<open>Results.Add\<close> stops at the first question that is too wide and leaves the
  questions before it added.\<close>

fun add_questions :: "int list list \<Rightarrow> int list list \<Rightarrow> unit res \<times> int list list" where
  "add_questions (n # ns) (q # qs) =
     (if length q < length n then (Fail (Errf ''results.Add: values overflow (%d)''), q # qs)
      else let (r, qs') = add_questions ns qs
           in (r, (map2 (+) (take (length n) q) n @ drop (length n) q) # qs'))"
| "add_questions _ qs = (Ok (), qs)"

definition Results_Add :: "Results \<Rightarrow> Results \<Rightarrow> unit res \<times> Results" where
  "Results_Add new r =
     (let r = r\<lparr>r_Weight := r_Weight r + r_Weight new\<rparr>;
          r = (if r_BlockHeight r < r_BlockHeight new then r\<lparr>r_BlockHeight := r_BlockHeight new\<rparr> else r);
          r = r\<lparr>r_EnvelopeHeight := r_EnvelopeHeight r + r_EnvelopeHeight new\<rparr>
      in if r_Votes new = [] then (Ok (), r)
         else if length (r_Votes new) \<noteq> length (r_Votes r)
         then (Fail (Errf ''results.Add: incorrect number of fields''), r)
         else let (res, votes) = add_questions (r_Votes new) (r_Votes r)
              in (res, r\<lparr>r_Votes := votes\<rparr>))"

section \<open>The ballot protocol\<close>

fun repeated :: "int list \<Rightarrow> int list \<Rightarrow> bool" where
  "repeated votes [] = False"
| "repeated votes (v # vs) = (v \<in> set votes \<or> repeated (v # votes) vs)"

text \<open>The total cost is compared with its maximum after every value; without a weight the maximum of
  a process that takes it from the weight is a nil pointer.\<close>

fun total_cost :: "nat \<Rightarrow> int option \<Rightarrow> int \<Rightarrow> int list \<Rightarrow> unit res" where
  "total_cost exponent maxCost cost [] = Ok ()"
| "total_cost exponent maxCost cost (v # vs) =
     (let cost' = cost + uint (word_of_int v :: u64) ^ exponent
      in case maxCost of
           None \<Rightarrow> Panic ''nil pointer dereference''
         | Some m \<Rightarrow> if m < cost' then Fail (Errf ''max total cost overflow: %s'')
                     else total_cost exponent maxCost cost' vs)"

definition check_ballot ::
  "ProcessVoteOptions \<Rightarrow> EnvelopeType \<Rightarrow> int option \<Rightarrow> int list \<Rightarrow> unit res" where
  "check_ballot opts et weight voteValues =
     (if unat (MaxCount opts) < length voteValues \<or> MaxOptions < length voteValues
      then Fail (Errf ''max count overflow %d'')
      else if UniqueValues et \<and> repeated [] voteValues then Fail (Errf ''values are not unique'')
      else if 0 < MaxValue opts \<and> (\<exists>v \<in> set voteValues. MaxValue opts < word_of_int v)
      then Fail (Errf ''max value overflow %d'')
      else if 0 < MaxTotalCost opts \<or> CostFromWeight et
      then total_cost (unat (CostExponent opts))
             (if CostFromWeight et then weight else Some (uint (MaxTotalCost opts))) 0 voteValues
      else Ok ())"

text \<open>One addition per question: \<open>cell\<close> gives the column of a value and what is added there. An index
  out of range of the matrix panics.\<close>

fun add_cells :: "(int \<Rightarrow> int \<times> int) \<Rightarrow> nat \<Rightarrow> int list \<Rightarrow> int list list \<Rightarrow> unit res \<times> int list list" where
  "add_cells cell q [] votes = (Ok (), votes)"
| "add_cells cell q (v # vs) votes =
     (let (col, x) = cell v
      in if q < length votes \<and> 0 \<le> col \<and> col < int (length (votes ! q))
         then add_cells cell (Suc q) vs (votes[q := (votes ! q)[nat col := votes ! q ! nat col + x]])
         else (Panic ''index out of range'', votes))"

definition ballot_cell :: "ProcessVoteOptions \<Rightarrow> EnvelopeType \<Rightarrow> int \<Rightarrow> int \<Rightarrow> int \<times> int" where
  "ballot_cell opts et weight v =
     (if MaxValue opts = 0
      then (0, uint (word_of_int v :: u64) * (if CostFromWeight et then 1 else weight))
      else (v, weight))"

definition count_ballot ::
  "ProcessVoteOptions \<Rightarrow> EnvelopeType \<Rightarrow> int \<Rightarrow> int list \<Rightarrow> Results \<Rightarrow> unit res \<times> Results" where
  "count_ballot opts et weight voteValues r =
     (let r = r\<lparr>r_Weight := r_Weight r + weight\<rparr>;
          r = (if r_Votes r = []
               then r\<lparr>r_Votes := NewEmptyVotes (unat (MaxCount opts)) (unat (MaxValue opts) + 1)\<rparr> else r);
          r = r\<lparr>r_EnvelopeHeight := r_EnvelopeHeight r + 1\<rparr>;
          (res, votes) = add_cells (ballot_cell opts et weight) 0 voteValues (r_Votes r)
      in (res, r\<lparr>r_Votes := votes\<rparr>))"

definition Results_AddVote :: "int list \<Rightarrow> int option \<Rightarrow> Results \<Rightarrow> unit res \<times> Results" where
  "Results_AddVote voteValues weight r =
     (case r_VoteOpts r of
        None \<Rightarrow> (Fail (Errf ''addVote: processVoteOptions is nil''), r)
      | Some opts \<Rightarrow>
          if 0 < length (r_Votes r) \<and> length (r_Votes r) \<noteq> unat (MaxCount opts)
          then (Fail (Errf ''addVote: currentResults size mismatch %d != %d''), r)
          else case r_EnvelopeType r of
            None \<Rightarrow> (Fail (Errf ''addVote: envelopeType is nil''), r)
          | Some et \<Rightarrow>
              with_res (check_ballot opts et weight voteValues) r (\<lambda>_.
                count_ballot opts et (case weight of None \<Rightarrow> 1 | Some w \<Rightarrow> w) voteValues r))"

section \<open>Laws of matrices\<close>

definition shape :: "nat \<Rightarrow> nat \<Rightarrow> int list list \<Rightarrow> bool" where
  "shape m n A \<longleftrightarrow> length A = m \<and> (\<forall>row \<in> set A. length row = n)"

definition mat_add :: "int list list \<Rightarrow> int list list \<Rightarrow> int list list" where
  "mat_add A B = map2 (map2 (+)) A B"

text \<open>The matrix a single ballot contributes.\<close>

definition ballot_matrix :: "nat \<Rightarrow> nat \<Rightarrow> (int \<Rightarrow> int \<times> int) \<Rightarrow> int list \<Rightarrow> int list list" where
  "ballot_matrix m n cell vs =
     map (\<lambda>q. map (\<lambda>j. if q < length vs \<and> fst (cell (vs ! q)) = int j then snd (cell (vs ! q)) else 0)
       [0..<n]) [0..<m]"

definition in_range :: "nat \<Rightarrow> (int \<Rightarrow> int \<times> int) \<Rightarrow> int list \<Rightarrow> bool" where
  "in_range n cell vs \<longleftrightarrow> (\<forall>v \<in> set vs. 0 \<le> fst (cell v) \<and> fst (cell v) < int n)"

lemma shape_nth: "shape m n A \<Longrightarrow> q < m \<Longrightarrow> length (A ! q) = n"
  by (simp add: shape_def)

lemma shape_length: "shape m n A \<Longrightarrow> length A = m"
  by (simp add: shape_def)

lemma shape_NewEmptyVotes: "0 < m \<Longrightarrow> shape m (Suc n) (NewEmptyVotes m (Suc n))"
  by (auto simp: shape_def NewEmptyVotes_def)

lemma shape_ballot [simp]: "shape m n (ballot_matrix m n cell vs)"
  by (auto simp: shape_def ballot_matrix_def)

lemma shape_mat_add: "shape m n A \<Longrightarrow> shape m n B \<Longrightarrow> shape m n (mat_add A B)"
  by (auto simp: shape_def mat_add_def set_zip)

lemma mat_add_nth:
  assumes "shape m n A" "shape m n B" "q < m" "j < n"
  shows "mat_add A B ! q ! j = A ! q ! j + B ! q ! j"
  using assms by (simp add: mat_add_def shape_length shape_nth)

lemma matrix_eqI:
  assumes "shape m n A" "shape m n B" "\<And>q j. q < m \<Longrightarrow> j < n \<Longrightarrow> A ! q ! j = B ! q ! j"
  shows "A = B"
  using assms by (intro nth_equalityI) (auto simp: shape_length shape_nth intro!: nth_equalityI)

lemma mat_add_comm:
  assumes "shape m n A" "shape m n B"
  shows "mat_add A B = mat_add B A"
  by (rule matrix_eqI [where m = m and n = n]) (auto simp: assms shape_mat_add mat_add_nth [of m n])

lemma mat_add_assoc:
  assumes "shape m n A" "shape m n B" "shape m n C"
  shows "mat_add (mat_add A B) C = mat_add A (mat_add B C)"
  by (rule matrix_eqI [where m = m and n = n]) (auto simp: assms shape_mat_add mat_add_nth [of m n])

lemma ballot_nth:
  "q < m \<Longrightarrow> j < n \<Longrightarrow> ballot_matrix m n cell vs ! q ! j
     = (if q < length vs \<and> fst (cell (vs ! q)) = int j then snd (cell (vs ! q)) else 0)"
  by (simp add: ballot_matrix_def)

lemma NewEmptyVotes_nth: "q < m \<Longrightarrow> j < n \<Longrightarrow> NewEmptyVotes m n ! q ! j = 0"
  by (simp add: NewEmptyVotes_def)

lemma mat_add_zero:
  assumes "shape m (Suc n) A" "0 < m"
  shows "mat_add (NewEmptyVotes m (Suc n)) A = A"
  by (rule matrix_eqI [where m = m and n = "Suc n"])
    (auto simp: assms shape_NewEmptyVotes shape_mat_add mat_add_nth [of m "Suc n"] NewEmptyVotes_nth)

section \<open>What a ballot adds\<close>

lemma add_cells_Ok:
  assumes "shape m n votes" "q + length vs \<le> m" "in_range n cell vs"
  shows "\<exists>votes'. add_cells cell q vs votes = (Ok (), votes') \<and> shape m n votes' \<and>
    (\<forall>i < m. \<forall>j < n. votes' ! i ! j = votes ! i ! j +
      (if q \<le> i \<and> i < q + length vs \<and> fst (cell (vs ! (i - q))) = int j
       then snd (cell (vs ! (i - q))) else 0))"
  using assms
proof (induction vs arbitrary: q votes)
  case (Cons v vs)
  obtain col x where c: "cell v = (col, x)" by force
  let ?v = "votes[q := (votes ! q)[nat col := votes ! q ! nat col + x]]"
  have q: "q < m" "length (votes ! q) = n" "length votes = m" "0 \<le> col" "col < int n"
    using Cons.prems c by (auto simp: shape_def in_range_def)
  then have s: "shape m n ?v"
    using Cons.prems(1) by (auto simp: shape_def dest!: set_update_subset_insert [THEN subsetD])
  obtain votes' where v': "add_cells cell (Suc q) vs ?v = (Ok (), votes')" "shape m n votes'"
    "\<forall>i < m. \<forall>j < n. votes' ! i ! j = ?v ! i ! j +
      (if Suc q \<le> i \<and> i < Suc q + length vs \<and> fst (cell (vs ! (i - Suc q))) = int j
       then snd (cell (vs ! (i - Suc q))) else 0)"
    using Cons.IH [OF s, of "Suc q"] Cons.prems by (auto simp: in_range_def)
  have "votes' ! i ! j = votes ! i ! j +
      (if q \<le> i \<and> i < q + length (v # vs) \<and> fst (cell ((v # vs) ! (i - q))) = int j
       then snd (cell ((v # vs) ! (i - q))) else 0)" if "i < m" "j < n" for i j
    using v'(3) that q c by (cases "i = q") (auto simp: nth_list_update nth_Cons' not_less_eq_eq)
  then show ?case using v' c q by auto
qed auto

lemma add_cells_ballot:
  assumes "shape m n votes" "length vs \<le> m" "in_range n cell vs"
  shows "add_cells cell 0 vs votes = (Ok (), mat_add votes (ballot_matrix m n cell vs))"
proof -
  obtain votes' where v: "add_cells cell 0 vs votes = (Ok (), votes')" "shape m n votes'"
    "\<forall>i < m. \<forall>j < n. votes' ! i ! j = votes ! i ! j +
      (if i < length vs \<and> fst (cell (vs ! i)) = int j then snd (cell (vs ! i)) else 0)"
    using add_cells_Ok [of m n votes 0 vs cell] assms by auto
  have "votes' = mat_add votes (ballot_matrix m n cell vs)"
    by (rule matrix_eqI [where m = m and n = n])
      (auto simp: v assms shape_mat_add mat_add_nth [of m n] ballot_nth)
  then show ?thesis using v by simp
qed

lemma add_cells_Panic:
  assumes "shape m n votes" "q + length vs \<le> m" "\<not> in_range n cell vs"
  shows "fst (add_cells cell q vs votes) = Panic ''index out of range''"
  using assms
proof (induction vs arbitrary: q votes)
  case (Cons v vs)
  obtain col x where c: "cell v = (col, x)" by force
  let ?v = "votes[q := (votes ! q)[nat col := votes ! q ! nat col + x]]"
  have q: "q < m" "length (votes ! q) = n" "length votes = m"
    using Cons.prems c by (auto simp: shape_def)
  then have s: "shape m n ?v"
    using Cons.prems(1) by (auto simp: shape_def dest!: set_update_subset_insert [THEN subsetD])
  show ?case
    using Cons.IH [OF s, of "Suc q"] Cons.prems q c by (auto simp: in_range_def)
qed (simp add: in_range_def)

lemma repeated_iff: "repeated seen vs \<longleftrightarrow> \<not> (distinct vs \<and> set seen \<inter> set vs = {})"
  by (induction vs arbitrary: seen) auto

section \<open>Acceptance\<close>

definition results_wf :: "ProcessVoteOptions \<Rightarrow> EnvelopeType \<Rightarrow> Results \<Rightarrow> bool" where
  "results_wf opts et r \<longleftrightarrow>
     r_VoteOpts r = Some opts \<and> r_EnvelopeType r = Some et \<and>
     (r_Votes r = [] \<or> shape (unat (MaxCount opts)) (Suc (unat (MaxValue opts))) (r_Votes r))"

abbreviation cells_ok :: "ProcessVoteOptions \<Rightarrow> EnvelopeType \<Rightarrow> int \<Rightarrow> int list \<Rightarrow> bool" where
  "cells_ok opts et w vs \<equiv> in_range (Suc (unat (MaxValue opts))) (ballot_cell opts et w) vs"

abbreviation contribution :: "ProcessVoteOptions \<Rightarrow> EnvelopeType \<Rightarrow> int \<Rightarrow> int list \<Rightarrow> int list list" where
  "contribution opts et w vs \<equiv>
     ballot_matrix (unat (MaxCount opts)) (Suc (unat (MaxValue opts))) (ballot_cell opts et w) vs"

definition current_votes :: "ProcessVoteOptions \<Rightarrow> Results \<Rightarrow> int list list" where
  "current_votes opts r =
     (if r_Votes r = [] then NewEmptyVotes (unat (MaxCount opts)) (Suc (unat (MaxValue opts))) else r_Votes r)"

definition counted :: "ProcessVoteOptions \<Rightarrow> EnvelopeType \<Rightarrow> int \<Rightarrow> int list \<Rightarrow> Results \<Rightarrow> Results" where
  "counted opts et w vs r =
     r\<lparr>r_Weight := r_Weight r + w, r_EnvelopeHeight := r_EnvelopeHeight r + 1,
       r_Votes := mat_add (current_votes opts r) (contribution opts et w vs)\<rparr>"

lemma current_votes_shape:
  "results_wf opts et r \<Longrightarrow> shape (unat (MaxCount opts)) (Suc (unat (MaxValue opts))) (current_votes opts r)"
  by (cases "unat (MaxCount opts) = 0")
    (auto simp: results_wf_def current_votes_def shape_NewEmptyVotes, auto simp: shape_def NewEmptyVotes_def)

lemma check_ballot_length: "check_ballot opts et w vs = Ok () \<Longrightarrow> length vs \<le> unat (MaxCount opts)"
  by (auto simp: check_ballot_def split: if_splits)

lemma Results_AddVote_wf:
  assumes "results_wf opts et r"
  shows "Results_AddVote vs w r = with_res (check_ballot opts et w vs) r (\<lambda>_.
           count_ballot opts et (case w of None \<Rightarrow> 1 | Some w \<Rightarrow> w) vs r)"
  using assms by (auto simp: Results_AddVote_def results_wf_def shape_def)

lemma count_ballot_Ok:
  assumes "results_wf opts et r" "length vs \<le> unat (MaxCount opts)" "cells_ok opts et w vs"
  shows "count_ballot opts et w vs r = (Ok (), counted opts et w vs r)"
  using add_cells_ballot [OF current_votes_shape [OF assms(1)] assms(2,3)]
  by (auto simp: count_ballot_def counted_def current_votes_def Let_def)

lemma count_ballot_Panic:
  assumes "results_wf opts et r" "length vs \<le> unat (MaxCount opts)" "\<not> cells_ok opts et w vs"
  shows "fst (count_ballot opts et w vs r) = Panic ''index out of range''"
  using add_cells_Panic [OF current_votes_shape [OF assms(1)], of 0 vs "ballot_cell opts et w"] assms(2,3)
  by (auto simp: count_ballot_def current_votes_def Let_def split: prod.split)

lemma counted_wf: "results_wf opts et r \<Longrightarrow> results_wf opts et (counted opts et w vs r)"
  using shape_mat_add [OF current_votes_shape shape_ballot]
  by (auto simp: results_wf_def counted_def)

lemma Results_AddVote_cases:
  assumes "results_wf opts et r"
  obtains (counted) "check_ballot opts et (Some w) vs = Ok ()" "cells_ok opts et w vs"
      "Results_AddVote vs (Some w) r = (Ok (), counted opts et w vs r)"
  | (rejected) e where "check_ballot opts et (Some w) vs = Fail e" "Results_AddVote vs (Some w) r = (Fail e, r)"
  | (panics) r' where "check_ballot opts et (Some w) vs = Ok ()" "\<not> cells_ok opts et w vs"
      "Results_AddVote vs (Some w) r = (Panic ''index out of range'', r')"
proof (cases "check_ballot opts et (Some w) vs")
  case (Ok u)
  then have len: "length vs \<le> unat (MaxCount opts)" using check_ballot_length by auto
  show thesis
  proof (cases "cells_ok opts et w vs")
    case True
    then show thesis
      using that(1) Ok Results_AddVote_wf [OF assms, of vs "Some w"] count_ballot_Ok [OF assms len] by simp
  next
    case False
    then show thesis
      using that(3) [of "snd (count_ballot opts et w vs r)"] Ok Results_AddVote_wf [OF assms, of vs "Some w"]
        count_ballot_Panic [OF assms len] by (simp add: prod_eq_iff)
  qed
next
  case (Fail e)
  then show thesis using that(2) [of e] Results_AddVote_wf [OF assms, of vs "Some w"] by simp
next
  case (Panic m)
  then have False
  proof -
    have "total_cost k (Some c) c0 vs \<noteq> Panic m" for k c c0
      by (induction vs arbitrary: c0) (auto simp: Let_def)
    then show False using Panic by (auto simp: check_ballot_def split: if_splits)
  qed
  then show thesis ..
qed

section \<open>Reading a vote\<close>

record VotePackage =
  vp_Nonce :: string
  vp_Votes :: "int list"

definition hex_value :: "char \<Rightarrow> nat option" where
  "hex_value c = (let n = of_char c in
     if 48 \<le> n \<and> n \<le> 57 then Some (n - 48)
     else if 97 \<le> n \<and> n \<le> 102 then Some (n - 87)
     else if 65 \<le> n \<and> n \<le> 70 then Some (n - 55) else None)"

fun hex_DecodeString :: "string \<Rightarrow> bytes option" where
  "hex_DecodeString [] = Some []"
| "hex_DecodeString [c] = None"
| "hex_DecodeString (c # d # cs) =
     (case (hex_value c, hex_value d, hex_DecodeString cs) of
        (Some h, Some l, Some b) \<Rightarrow> Some (of_nat (16 * h + l) # b)
      | _ \<Rightarrow> None)"

definition DecodePrivate :: "params \<Rightarrow> string \<Rightarrow> (bytes \<times> bytes) res" where
  "DecodePrivate P hexkey =
     (case hex_DecodeString hexkey of
        None \<Rightarrow> Fail (Errf ''encoding/hex: invalid'')
      | Some key \<Rightarrow> rbind (DecodePrivate_Public P key) (\<lambda>pub. Ok (pub, key)))"

definition Decrypt :: "(bytes \<Rightarrow> bytes \<Rightarrow> bytes \<Rightarrow> bytes option) \<Rightarrow> bytes \<times> bytes \<Rightarrow> bytes \<Rightarrow> bytes res" where
  "Decrypt OpenAnonymous priv cipher =
     of_option (Errf ''could not open box'') (OpenAnonymous (fst priv) (snd priv) cipher)"

text \<open>The layers of encryption are opened with the keys from the last one to the first one.\<close>

fun open_layers ::
  "params \<Rightarrow> (bytes \<Rightarrow> bytes \<Rightarrow> bytes \<Rightarrow> bytes option) \<Rightarrow> string list \<Rightarrow> bytes \<Rightarrow> bytes res" where
  "open_layers P OpenAnonymous [] rawVote = Ok rawVote"
| "open_layers P OpenAnonymous (k # ks) rawVote =
     rbind (hide ''cannot create private key cipher: (%s)'' (DecodePrivate P k)) (\<lambda>priv.
     rbind (wrap ''cannot decrypt vote with index key %d: %w'' (Decrypt OpenAnonymous priv rawVote))
       (open_layers P OpenAnonymous ks))"

definition unmarshalVote ::
  "params \<Rightarrow> (bytes \<Rightarrow> bytes \<Rightarrow> bytes \<Rightarrow> bytes option) \<Rightarrow> (bytes \<Rightarrow> VotePackage option) \<Rightarrow>
     bytes \<Rightarrow> string list \<Rightarrow> VotePackage res" where
  "unmarshalVote P OpenAnonymous json_Unmarshal votePackage keys =
     rbind (open_layers P OpenAnonymous (rev keys) votePackage) (\<lambda>rawVote.
       of_option (Errf ''cannot unmarshal vote: %w'') (json_Unmarshal rawVote))"

section \<open>The final count\<close>

record IndexerProcess =
  ip_ID :: bytes
  ip_EntityID :: bytes
  ip_StartBlock :: u32
  ip_EndBlock :: u32
  ip_Rheight :: u32
  ip_CensusRoot :: bytes
  ip_RollingCensusRoot :: bytes
  ip_CensusURI :: string
  ip_CensusOrigin :: CensusOrigin
  ip_Status :: ProcessStatus
  ip_Envelope :: "EnvelopeType option"
  ip_Mode :: "ProcessMode option"
  ip_VoteOpts :: "ProcessVoteOptions option"
  ip_PrivateKeys :: "string list"
  ip_PublicKeys :: "string list"
  ip_HaveResults :: bool
  ip_FinalResults :: bool
  ip_SourceBlockHeight :: u64
  ip_MaxCensusSize :: u64
  ip_RollingCensusSize :: u64

record VoteReference =
  vr_Nullifier :: bytes
  vr_ProcessID :: bytes
  vr_VoterID :: "bytes option"
  vr_Height :: u32
  vr_Weight :: int
  vr_TxIndex :: int

type_synonym block_store = "u32 \<Rightarrow> int \<Rightarrow> (bytes \<times> bytes option) res"

definition reference_envelope :: "params \<Rightarrow> block_store \<Rightarrow> VoteReference \<Rightarrow> VoteEnvelope option res" where
  "reference_envelope P getTx txRef =
     (case getTx (vr_Height txRef) (vr_TxIndex txRef) of
        Panic m \<Rightarrow> Panic m
      | Fail e \<Rightarrow> Ok None
      | Ok stx \<Rightarrow> Ok (case Unmarshal_Tx P (fst stx) of Some (Some (Tx_Vote v)) \<Rightarrow> v | _ \<Rightarrow> None))"

text \<open>The walk over the references of a process, in the order in which their callbacks run; a
  reference without an envelope is logged and skipped.\<close>

fun WalkEnvelopes ::
  "params \<Rightarrow> block_store \<Rightarrow> (VoteEnvelope \<Rightarrow> int \<Rightarrow> 's \<Rightarrow> 's res) \<Rightarrow> VoteReference list \<Rightarrow> 's \<Rightarrow> 's res" where
  "WalkEnvelopes P getTx callback [] s = Ok s"
| "WalkEnvelopes P getTx callback (txRef # refs) s =
     rbind (reference_envelope P getTx txRef) (\<lambda>env.
     rbind (case env of None \<Rightarrow> Ok s | Some envelope \<Rightarrow> callback envelope (vr_Weight txRef) s)
       (WalkEnvelopes P getTx callback refs))"

fun pick_keys :: "string list \<Rightarrow> u32 list \<Rightarrow> string list res" where
  "pick_keys privateKeys [] = Ok []"
| "pick_keys privateKeys (k # ks) =
     (if of_nat KeyKeeperMaxKeyIndex \<le> k then Fail (Errf ''key index overflow'')
      else rbind (index_at privateKeys (unat k)) (\<lambda>key.
           rbind (pick_keys privateKeys ks) (\<lambda>keys. Ok (key # keys))))"

definition envelope_vote ::
  "params \<Rightarrow> (bytes \<Rightarrow> bytes \<Rightarrow> bytes \<Rightarrow> bytes option) \<Rightarrow> (bytes \<Rightarrow> VotePackage option) \<Rightarrow>
     IndexerProcess \<Rightarrow> VoteEnvelope \<Rightarrow> VotePackage res" where
  "envelope_vote P OpenAnonymous json_Unmarshal p vote =
     (if (case ip_Envelope p of None \<Rightarrow> False | Some et \<Rightarrow> EncryptedVotes et)
      then if length (ip_PrivateKeys p) < length (ve_EncryptionKeyIndexes vote)
           then Fail (Errf ''encryptionKeyIndexes has too many fields'')
           else rbind (pick_keys (ip_PrivateKeys p) (ve_EncryptionKeyIndexes vote)) (\<lambda>keys.
             if keys = [] then Fail (Errf ''no keys provided or wrong index'')
             else unmarshalVote P OpenAnonymous json_Unmarshal (ve_VotePackage vote) keys)
      else unmarshalVote P OpenAnonymous json_Unmarshal (ve_VotePackage vote) [])"

text \<open>The callback: an envelope that cannot be read and a vote that is refused are logged, only a
  panic ends the walk (and the node).\<close>

definition final_callback ::
  "params \<Rightarrow> (bytes \<Rightarrow> bytes \<Rightarrow> bytes \<Rightarrow> bytes option) \<Rightarrow> (bytes \<Rightarrow> VotePackage option) \<Rightarrow>
     IndexerProcess \<Rightarrow> VoteEnvelope \<Rightarrow> int \<Rightarrow> Results \<times> u64 \<Rightarrow> (Results \<times> u64) res" where
  "final_callback P OpenAnonymous json_Unmarshal p vote weight s =
     (case envelope_vote P OpenAnonymous json_Unmarshal p vote of
        Panic m \<Rightarrow> Panic m
      | Fail e \<Rightarrow> Ok s
      | Ok vp \<Rightarrow>
          (case Results_AddVote (vp_Votes vp) (Some weight) (fst s) of
             (Panic m, r) \<Rightarrow> Panic m
           | (Fail e, r) \<Rightarrow> Ok (r, snd s)
           | (Ok _, r) \<Rightarrow> Ok (r, snd s + 1)))"

definition computeFinalResults ::
  "params \<Rightarrow> (bytes \<Rightarrow> bytes \<Rightarrow> bytes \<Rightarrow> bytes option) \<Rightarrow> (bytes \<Rightarrow> VotePackage option) \<Rightarrow> block_store \<Rightarrow>
     u32 \<Rightarrow> VoteReference list \<Rightarrow> IndexerProcess option \<Rightarrow> Results res" where
  "computeFinalResults P OpenAnonymous json_Unmarshal getTx height refs pr =
     (case pr of
        None \<Rightarrow> Fail (Errf ''process is nil'')
      | Some p \<Rightarrow>
          (case ip_VoteOpts p of
             None \<Rightarrow> Panic ''nil pointer dereference''
           | Some opts \<Rightarrow>
               if MaxCount opts = 0 \<or> MaxValue opts = 0
               then Fail (Errf ''computeNonLiveResults: maxCount and/or maxValue is zero'')
               else if MaxQuestions < unat (MaxCount opts) \<or> MaxOptions < unat (MaxValue opts)
               then Fail (Errf ''maxCount and/or maxValue overflows hardcoded maximum'')
               else rbind (WalkEnvelopes P getTx (final_callback P OpenAnonymous json_Unmarshal p) refs
                      (\<lparr>r_ProcessID = ip_ID p,
                        r_Votes = NewEmptyVotes (unat (MaxCount opts)) (unat (MaxValue opts) + 1),
                        r_Weight = 0, r_EnvelopeHeight = 0, r_EnvelopeType = ip_Envelope p,
                        r_VoteOpts = Some opts, r_Signatures = [], r_Final = True,
                        r_BlockHeight = height\<rparr>, 0))
                    (\<lambda>(results, nvotes). Ok (results\<lparr>r_EnvelopeHeight := nvotes\<rparr>))))"

section \<open>What the final count returns\<close>

definition read_vote ::
  "params \<Rightarrow> (bytes \<Rightarrow> bytes \<Rightarrow> bytes \<Rightarrow> bytes option) \<Rightarrow> (bytes \<Rightarrow> VotePackage option) \<Rightarrow> block_store \<Rightarrow>
     IndexerProcess \<Rightarrow> VoteReference \<Rightarrow> int list option res" where
  "read_vote P OpenAnonymous json_Unmarshal getTx p txRef =
     rbind (reference_envelope P getTx txRef) (\<lambda>env.
       case env of
         None \<Rightarrow> Ok None
       | Some vote \<Rightarrow>
           (case envelope_vote P OpenAnonymous json_Unmarshal p vote of
              Panic m \<Rightarrow> Panic m | Fail e \<Rightarrow> Ok None | Ok vp \<Rightarrow> Ok (Some (vp_Votes vp))))"

text \<open>The values of a reference that are counted, and the references that do not panic.\<close>

definition accepted ::
  "(VoteReference \<Rightarrow> int list option res) \<Rightarrow> ProcessVoteOptions \<Rightarrow> EnvelopeType \<Rightarrow> VoteReference \<Rightarrow>
     int list option" where
  "accepted rd opts et txRef =
     (case rd txRef of
        Ok (Some vs) \<Rightarrow> if check_ballot opts et (Some (vr_Weight txRef)) vs = Ok () then Some vs else None
      | _ \<Rightarrow> None)"

definition harmless ::
  "(VoteReference \<Rightarrow> int list option res) \<Rightarrow> ProcessVoteOptions \<Rightarrow> EnvelopeType \<Rightarrow> VoteReference \<Rightarrow> bool" where
  "harmless rd opts et txRef \<longleftrightarrow>
     is_ok (rd txRef) \<and>
     (case accepted rd opts et txRef of None \<Rightarrow> True | Some vs \<Rightarrow> cells_ok opts et (vr_Weight txRef) vs)"

definition total_of ::
  "(VoteReference \<Rightarrow> int list option res) \<Rightarrow> ProcessVoteOptions \<Rightarrow> EnvelopeType \<Rightarrow>
     (VoteReference \<Rightarrow> int list \<Rightarrow> int) \<Rightarrow> VoteReference list \<Rightarrow> int" where
  "total_of rd opts et f refs =
     sum_list (map (\<lambda>txRef. case accepted rd opts et txRef of None \<Rightarrow> 0 | Some vs \<Rightarrow> f txRef vs) refs)"

definition tally ::
  "(VoteReference \<Rightarrow> int list option res) \<Rightarrow> ProcessVoteOptions \<Rightarrow> EnvelopeType \<Rightarrow> VoteReference list \<Rightarrow>
     int list list" where
  "tally rd opts et refs =
     map (\<lambda>q. map (\<lambda>j. total_of rd opts et (\<lambda>txRef vs. contribution opts et (vr_Weight txRef) vs ! q ! j) refs)
       [0..<Suc (unat (MaxValue opts))]) [0..<unat (MaxCount opts)]"

definition tallied ::
  "(VoteReference \<Rightarrow> int list option res) \<Rightarrow> ProcessVoteOptions \<Rightarrow> EnvelopeType \<Rightarrow> VoteReference list \<Rightarrow>
     Results \<Rightarrow> Results" where
  "tallied rd opts et refs r =
     r\<lparr>r_Weight := r_Weight r + total_of rd opts et (\<lambda>txRef vs. vr_Weight txRef) refs,
       r_EnvelopeHeight := r_EnvelopeHeight r + of_int (total_of rd opts et (\<lambda>txRef vs. 1) refs),
       r_Votes := mat_add (r_Votes r) (tally rd opts et refs)\<rparr>"

lemma total_of_Nil [simp]: "total_of rd opts et f [] = 0"
  by (simp add: total_of_def)

lemma total_of_Cons:
  "total_of rd opts et f (x # refs) =
     (case accepted rd opts et x of None \<Rightarrow> 0 | Some vs \<Rightarrow> f x vs) + total_of rd opts et f refs"
  by (simp add: total_of_def)

lemma total_of_mset: "mset refs = mset refs' \<Longrightarrow> total_of rd opts et f refs = total_of rd opts et f refs'"
proof -
  let ?g = "\<lambda>x. case accepted rd opts et x of None \<Rightarrow> 0 | Some vs \<Rightarrow> f x vs"
  assume "mset refs = mset refs'"
  then have "sum_mset (mset (map ?g refs)) = sum_mset (mset (map ?g refs'))" by simp
  then show ?thesis unfolding total_of_def sum_mset_sum_list .
qed

lemma tally_mset: "mset refs = mset refs' \<Longrightarrow> tally rd opts et refs = tally rd opts et refs'"
  by (simp add: tally_def total_of_mset [of refs refs'])

lemma shape_tally [simp]: "shape (unat (MaxCount opts)) (Suc (unat (MaxValue opts))) (tally rd opts et refs)"
  by (auto simp: shape_def tally_def)

lemma tally_nth:
  "q < unat (MaxCount opts) \<Longrightarrow> j < Suc (unat (MaxValue opts)) \<Longrightarrow>
     tally rd opts et refs ! q ! j
       = total_of rd opts et (\<lambda>txRef vs. contribution opts et (vr_Weight txRef) vs ! q ! j) refs"
  by (simp add: tally_def del: upt_Suc)

lemma tally_Cons:
  "tally rd opts et (x # refs) =
     (case accepted rd opts et x of
        None \<Rightarrow> tally rd opts et refs
      | Some vs \<Rightarrow> mat_add (contribution opts et (vr_Weight x) vs) (tally rd opts et refs))"
proof (cases "accepted rd opts et x")
  case None
  then show ?thesis by (simp add: tally_def total_of_Cons)
next
  case (Some vs)
  show ?thesis
    by (rule matrix_eqI [where m = "unat (MaxCount opts)" and n = "Suc (unat (MaxValue opts))"])
      (auto simp: Some shape_mat_add tally_nth total_of_Cons
         mat_add_nth [of "unat (MaxCount opts)" "Suc (unat (MaxValue opts))"] simp del: upt_Suc)
qed

text \<open>The callback as a step over what is read of the reference.\<close>

lemma final_step:
  assumes wf: "results_wf opts et r" and rd: "rd = read_vote P OpenA json getTx p"
  shows "WalkEnvelopes P getTx (final_callback P OpenA json p) (x # refs) (r, n) =
     (if \<not> harmless rd opts et x then
        WalkEnvelopes P getTx (final_callback P OpenA json p) [x] (r, n)
      else case accepted rd opts et x of
        None \<Rightarrow> WalkEnvelopes P getTx (final_callback P OpenA json p) refs (r, n)
      | Some vs \<Rightarrow> WalkEnvelopes P getTx (final_callback P OpenA json p) refs
                    (counted opts et (vr_Weight x) vs r, n + 1))"
    (is "?L = ?R")
proof -
  consider (none) "reference_envelope P getTx x = Ok None"
    | (env) e where "reference_envelope P getTx x = Ok (Some e)"
    | (other) "\<not> is_ok (reference_envelope P getTx x)"
    by (cases "reference_envelope P getTx x") (auto split: option.splits)
  then show ?thesis
  proof cases
    case none
    then show ?thesis by (simp add: harmless_def accepted_def rd read_vote_def)
  next
    case other
    then show ?thesis
      by (cases "reference_envelope P getTx x") (simp_all add: harmless_def rd read_vote_def)
  next
    case env
    show ?thesis
    proof (cases "envelope_vote P OpenA json p e")
      case (Ok vp)
      then have r: "rd x = Ok (Some (vp_Votes vp))" using env by (simp add: rd read_vote_def)
      show ?thesis
        by (rule Results_AddVote_cases [OF wf, of "vr_Weight x" "vp_Votes vp"])
          (simp_all add: env Ok r harmless_def accepted_def final_callback_def)
    next
      case (Fail e')
      then show ?thesis using env by (simp add: harmless_def accepted_def rd read_vote_def final_callback_def)
    next
      case (Panic m)
      then show ?thesis using env by (simp add: harmless_def accepted_def rd read_vote_def final_callback_def)
    qed
  qed
qed

lemma final_single_bad:
  assumes wf: "results_wf opts et r" and rd: "rd = read_vote P OpenA json getTx p"
    and "\<not> harmless rd opts et x"
  shows "WalkEnvelopes P getTx (final_callback P OpenA json p) [x] (r, n) \<noteq> Ok s"
proof (cases "reference_envelope P getTx x")
  case (Ok env)
  show ?thesis
  proof (cases env)
    case None
    then show ?thesis using assms Ok by (simp add: harmless_def accepted_def read_vote_def)
  next
    case (Some e)
    show ?thesis
    proof (cases "envelope_vote P OpenA json p e")
      case (Ok vp)
      then have r: "rd x = Ok (Some (vp_Votes vp))"
        using \<open>reference_envelope P getTx x = Ok env\<close> Some by (simp add: rd read_vote_def)
      show ?thesis
        by (rule Results_AddVote_cases [OF wf, of "vr_Weight x" "vp_Votes vp"])
          (use assms(3) in \<open>simp_all add: \<open>reference_envelope P getTx x = Ok env\<close> Some Ok r harmless_def accepted_def final_callback_def\<close>)
    qed (use assms Ok Some in \<open>simp_all add: harmless_def accepted_def read_vote_def final_callback_def\<close>)
  qed
qed simp_all

lemma counted_tallied:
  assumes "results_wf opts et r" "r_Votes r \<noteq> []" "accepted rd opts et x = Some vs"
  shows "tallied rd opts et refs (counted opts et (vr_Weight x) vs r) = tallied rd opts et (x # refs) r"
proof -
  have "shape (unat (MaxCount opts)) (Suc (unat (MaxValue opts))) (r_Votes r)"
    using assms by (simp add: results_wf_def)
  from mat_add_assoc [OF this shape_ballot shape_tally]
  show ?thesis
    using assms by (simp add: tallied_def counted_def current_votes_def total_of_Cons tally_Cons add.assoc)
qed

lemma counted_nonempty:
  assumes "results_wf opts et r" "r_Votes r \<noteq> []"
  shows "r_Votes (counted opts et w vs r) \<noteq> []"
proof -
  have "length (r_Votes r) = unat (MaxCount opts)" using assms by (simp add: results_wf_def shape_def)
  then have "0 < unat (MaxCount opts)" using assms(2) by (metis length_greater_0_conv)
  then show ?thesis
    using shape_length [OF shape_mat_add [OF current_votes_shape [OF assms(1)] shape_ballot [where cell = "ballot_cell opts et w" and vs = vs]]]
    by (auto simp: counted_def)
qed

lemma walk_tallies:
  assumes "results_wf opts et r" "r_Votes r \<noteq> []" and rd: "rd = read_vote P OpenA json getTx p"
  shows "WalkEnvelopes P getTx (final_callback P OpenA json p) refs (r, n) = Ok s \<longleftrightarrow>
    (\<forall>x \<in> set refs. harmless rd opts et x) \<and>
    s = (tallied rd opts et refs r, n + of_int (total_of rd opts et (\<lambda>txRef vs. 1) refs))"
  using assms(1,2)
proof (induction refs arbitrary: r n)
  case Nil
  then have sh: "shape (unat (MaxCount opts)) (Suc (unat (MaxValue opts))) (r_Votes r)"
    by (simp add: results_wf_def)
  have "mat_add (r_Votes r) (tally rd opts et []) = r_Votes r"
    by (rule matrix_eqI [where m = "unat (MaxCount opts)" and n = "Suc (unat (MaxValue opts))"])
      (auto simp: sh shape_mat_add tally_nth
         mat_add_nth [of "unat (MaxCount opts)" "Suc (unat (MaxValue opts))"])
  then show ?case by (auto simp: tallied_def)
next
  case (Cons x refs)
  note step = final_step [OF Cons.prems(1) rd, of x refs n]
  show ?case
  proof (cases "harmless rd opts et x")
    case False
    then show ?thesis
      using final_single_bad [OF Cons.prems(1) rd] step by auto
  next
    case True
    show ?thesis
    proof (cases "accepted rd opts et x")
      case None
      then show ?thesis
        using Cons True step by (simp add: total_of_Cons tally_Cons tallied_def)
    next
      case (Some vs)
      then show ?thesis
        using True step Cons.IH [OF counted_wf [OF Cons.prems(1)] counted_nonempty [OF Cons.prems], of "vr_Weight x" vs "n + 1"]
          counted_tallied [OF Cons.prems Some] by (simp add: total_of_Cons add.assoc)
    qed
  qed
qed

lemma computeFinalResults_Ok:
  assumes p: "ip_VoteOpts p = Some opts" "ip_Envelope p = Some et"
    and opts: "0 < unat (MaxCount opts)" "unat (MaxCount opts) \<le> MaxQuestions"
      "0 < unat (MaxValue opts)" "unat (MaxValue opts) \<le> MaxOptions"
    and rd: "rd = read_vote P OpenA json getTx p"
  shows "computeFinalResults P OpenA json getTx height refs (Some p) = Ok r \<longleftrightarrow>
    (\<forall>x \<in> set refs. harmless rd opts et x) \<and>
    r = \<lparr>r_ProcessID = ip_ID p, r_Votes = tally rd opts et refs,
         r_Weight = total_of rd opts et (\<lambda>x vs. vr_Weight x) refs,
         r_EnvelopeHeight = of_int (total_of rd opts et (\<lambda>x vs. 1) refs),
         r_EnvelopeType = Some et, r_VoteOpts = Some opts, r_Signatures = [], r_Final = True,
         r_BlockHeight = height\<rparr>"
    (is "?c = Ok r \<longleftrightarrow> _")
proof -
  let ?r = "\<lparr>r_ProcessID = ip_ID p,
     r_Votes = NewEmptyVotes (unat (MaxCount opts)) (Suc (unat (MaxValue opts))),
     r_Weight = 0, r_EnvelopeHeight = 0, r_EnvelopeType = Some et, r_VoteOpts = Some opts,
     r_Signatures = [], r_Final = True, r_BlockHeight = height\<rparr>"
  have wf: "results_wf opts et ?r" "r_Votes ?r \<noteq> []"
    using opts(1) by (auto simp: results_wf_def shape_NewEmptyVotes, simp add: NewEmptyVotes_def)
  have ne: "MaxCount opts \<noteq> 0" "MaxValue opts \<noteq> 0" using opts(1,3) by auto
  have "?c = rbind (WalkEnvelopes P getTx (final_callback P OpenA json p) refs (?r, 0))
               (\<lambda>(results, nvotes). Ok (results\<lparr>r_EnvelopeHeight := nvotes\<rparr>))"
    using p opts ne by (simp add: computeFinalResults_def)
  moreover have "mat_add (r_Votes ?r) (tally rd opts et refs) = tally rd opts et refs"
    using mat_add_zero [OF shape_tally opts(1)] by simp
  ultimately show ?thesis
    by (auto simp: rbind_Ok_iff walk_tallies [OF wf rd] tallied_def)
qed

text \<open>C8. The final count of a process returns, for every question and option, the total weight of the
  accepted ballots that chose the option.\<close>

theorem final_results_counted:
  assumes "ip_VoteOpts p = Some opts" "ip_Envelope p = Some et"
    and "0 < unat (MaxCount opts)" "unat (MaxCount opts) \<le> MaxQuestions"
      "0 < unat (MaxValue opts)" "unat (MaxValue opts) \<le> MaxOptions"
    and "\<forall>x \<in> set refs. harmless (read_vote P OpenA json getTx p) opts et x"
  shows "\<exists>r. computeFinalResults P OpenA json getTx height refs (Some p) = Ok r \<and> r_Final r \<and>
    (\<forall>q < unat (MaxCount opts). \<forall>opt \<le> unat (MaxValue opts).
       r_Votes r ! q ! opt =
         (\<Sum>x\<leftarrow>refs. case accepted (read_vote P OpenA json getTx p) opts et x of
            None \<Rightarrow> 0
          | Some vs \<Rightarrow> if q < length vs \<and> vs ! q = int opt then vr_Weight x else 0)) \<and>
    r_Weight r = (\<Sum>x\<leftarrow>refs. case accepted (read_vote P OpenA json getTx p) opts et x of
                    None \<Rightarrow> 0 | Some vs \<Rightarrow> vr_Weight x)"
proof -
  have ne: "MaxValue opts \<noteq> 0" using assms(5) by auto
  show ?thesis
    using assms(7) ne
    by (auto simp: computeFinalResults_Ok [OF assms(1-6) refl] tally_nth ballot_nth ballot_cell_def
          total_of_def less_Suc_eq_le intro!: arg_cong [where f = sum_list] map_cong split: option.split)
qed

text \<open>C10. The envelopes are read by goroutines that end in any order: the outcome of the final count is the
  same for every order of the references.\<close>

theorem final_results_any_order:
  assumes "ip_VoteOpts p = Some opts" "ip_Envelope p = Some et"
    and "0 < unat (MaxCount opts)" "unat (MaxCount opts) \<le> MaxQuestions"
      "0 < unat (MaxValue opts)" "unat (MaxValue opts) \<le> MaxOptions"
    and "mset refs = mset refs'"
  shows "computeFinalResults P OpenA json getTx height refs (Some p) = Ok r \<longleftrightarrow>
         computeFinalResults P OpenA json getTx height refs' (Some p) = Ok r"
  using assms(7) mset_eq_setD [OF assms(7)]
  by (simp add: computeFinalResults_Ok [OF assms(1-6) refl] total_of_mset [of refs refs'] tally_mset [of refs refs'])

lemma rbind_not_Fail: "r \<noteq> Fail e \<Longrightarrow> (\<And>a. k a \<noteq> Fail e) \<Longrightarrow> rbind r k \<noteq> Fail e"
  by (cases r) auto

lemma rbind_Fail_D: "rbind r k = Fail e \<Longrightarrow> r = Fail e \<or> (\<exists>a. r = Ok a \<and> k a = Fail e)"
  by (cases r) auto

lemma walk_not_Fail: "WalkEnvelopes P getTx (final_callback P OpenA json p) refs s \<noteq> Fail e"
proof (induction refs arbitrary: s)
  case (Cons x refs)
  have a: "reference_envelope P getTx x \<noteq> Fail e" by (simp add: reference_envelope_def split: res.split)
  have b: "final_callback P OpenA json p v w s \<noteq> Fail e" for v w
    by (auto simp: final_callback_def split: res.splits prod.splits)
  show ?case
    unfolding WalkEnvelopes.simps using a b Cons.IH by (intro rbind_not_Fail) (auto split: option.split)
qed simp

text \<open>A ballot that passes the checks with a value outside the options of the process (its low 32 bits
  are an option) indexes the matrix out of range: the count does not end.\<close>

theorem oversized_value_stops_count:
  assumes "ip_VoteOpts p = Some opts" "ip_Envelope p = Some et"
    and "0 < unat (MaxCount opts)" "unat (MaxCount opts) \<le> MaxQuestions"
      "0 < unat (MaxValue opts)" "unat (MaxValue opts) \<le> MaxOptions"
    and "x \<in> set refs" "read_vote P OpenA json getTx p x = Ok (Some vs)"
      "check_ballot opts et (Some (vr_Weight x)) vs = Ok ()"
    and "v \<in> set vs" "v < 0 \<or> uint (MaxValue opts) < v"
  shows "\<exists>m. computeFinalResults P OpenA json getTx height refs (Some p) = Panic m"
proof -
  have ne: "MaxValue opts \<noteq> 0" "MaxCount opts \<noteq> 0" using assms(3,5) by auto
  then have "\<not> cells_ok opts et (vr_Weight x) vs"
    using assms(10,11) by (force simp: in_range_def ballot_cell_def)
  then have "\<not> harmless (read_vote P OpenA json getTx p) opts et x"
    using assms(8,9) by (simp add: harmless_def accepted_def)
  then have "computeFinalResults P OpenA json getTx height refs (Some p) \<noteq> Ok r" for r
    using assms(7) by (auto simp: computeFinalResults_Ok [OF assms(1-6) refl])
  moreover have "computeFinalResults P OpenA json getTx height refs (Some p) \<noteq> Fail e" for e
    using assms(1-6) ne by (auto simp: computeFinalResults_def dest!: rbind_Fail_D simp: walk_not_Fail)
  ultimately show ?thesis by (metis res.exhaust)
qed

section \<open>Encrypted votes\<close>

definition DecodePublic :: "string \<Rightarrow> bytes res" where
  "DecodePublic hexkey =
     (case hex_DecodeString hexkey of
        None \<Rightarrow> Fail (Errf ''encoding/hex: invalid'')
      | Some key \<Rightarrow> if length key \<noteq> nacl_KeyLength then Fail (Errf ''key length must be %d, not %d'')
                    else Ok key)"

text \<open>The client's side: one layer of encryption for every key that is present, from the first to the
  last; the package is encoded at the first of them. \<open>Seal i\<close> is \<^verbatim>\<open>box.SealAnonymous\<close> at the \<open>i\<close>-th draw
  from the source of randomness.\<close>

fun seal_layers ::
  "(nat \<Rightarrow> bytes \<Rightarrow> bytes \<Rightarrow> bytes) \<Rightarrow> nat \<Rightarrow> bytes \<Rightarrow> bytes option \<Rightarrow> string list \<Rightarrow> bytes option res" where
  "seal_layers Seal i encoded vpBytes [] = Ok vpBytes"
| "seal_layers Seal i encoded vpBytes (k # ks) =
     (if k = [] then seal_layers Seal (Suc i) encoded vpBytes ks
      else rbind (hide ''cannot decode encryption key with index %d: (%s)'' (DecodePublic k)) (\<lambda>pub.
             seal_layers Seal (Suc i) encoded
               (Some (Seal i pub (case vpBytes of None \<Rightarrow> encoded | Some b \<Rightarrow> b))) ks))"

definition genVote ::
  "(nat \<Rightarrow> bytes \<Rightarrow> bytes \<Rightarrow> bytes) \<Rightarrow> (VotePackage \<Rightarrow> bytes) \<Rightarrow> string \<Rightarrow> bool \<Rightarrow> string list \<Rightarrow> bytes option res" where
  "genVote Seal json_Marshal nonce encrypted keys =
     (if encrypted
      then seal_layers Seal 0 (json_Marshal \<lparr>vp_Nonce = nonce, vp_Votes = [1, 2, 3, 4, 5, 6]\<rparr>) None keys
      else Ok (Some (json_Marshal \<lparr>vp_Nonce = [], vp_Votes = [1, 2, 3, 4, 5, 6]\<rparr>)))"

lemma hex_value_digit: "n < 16 \<Longrightarrow> hex_value (hex_digit n) = Some n"
proof -
  have "\<forall>n \<in> set [0..<16]. hex_value (hex_digit n) = Some n"
    by (simp add: upt_rec hex_value_def hex_digit_def)
  then show "n < 16 \<Longrightarrow> hex_value (hex_digit n) = Some n" by simp
qed

lemma hex_DecodeString_hex [simp]: "hex_DecodeString (hex b) = Some b"
proof (induction b)
  case (Cons x b)
  have "unat x div 16 < 16" "unat x mod 16 < 16"
    using unsigned_less [of x, where ?'a = nat] by (simp_all add: less_mult_imp_div_less)
  then show ?case
    using Cons by (simp add: hex_def hex_value_digit)
qed (simp add: hex_def)

lemma hex_Nil_iff [simp]: "hex b = [] \<longleftrightarrow> b = []"
  by (cases b) (simp_all add: hex_def)

lemma rbind_assoc: "rbind (rbind r f) g = rbind r (\<lambda>a. rbind (f a) g)"
  by (cases r) auto

lemma open_layers_append:
  "open_layers P OpenA (ks @ ls) b = rbind (open_layers P OpenA ks b) (open_layers P OpenA ls)"
proof (induction ks arbitrary: b)
  case (Cons k ks)
  have "open_layers P OpenA (ks @ ls) = (\<lambda>b. rbind (open_layers P OpenA ks b) (open_layers P OpenA ls))"
    using Cons by (rule ext)
  then show ?case by (simp add: rbind_assoc)
qed simp

text \<open>The key slots of a process: the key pair of a published key, or nothing.\<close>

type_synonym key_slots = "(bytes \<times> bytes) option list"

definition slot_publics :: "key_slots \<Rightarrow> string list" where
  "slot_publics slots = map (\<lambda>s. case s of None \<Rightarrow> [] | Some (pub, priv) \<Rightarrow> hex pub) slots"

fun slot_privates :: "key_slots \<Rightarrow> string list" where
  "slot_privates [] = []"
| "slot_privates (None # slots) = slot_privates slots"
| "slot_privates (Some (pub, priv) # slots) = hex priv # slot_privates slots"

definition key_pairs :: "params \<Rightarrow> key_slots \<Rightarrow> bool" where
  "key_pairs P slots \<longleftrightarrow>
     (\<forall>pub priv. Some (pub, priv) \<in> set slots \<longrightarrow>
        length pub = 32 \<and> length priv = 32 \<and> box_PublicKey P priv = Some pub)"

text \<open>The documented law of \<^verbatim>\<open>nacl/box\<close>: a sealed message opens with the key pair it was sealed for.\<close>

definition box_opens ::
  "params \<Rightarrow> (bytes \<Rightarrow> bytes \<Rightarrow> bytes \<Rightarrow> bytes option) \<Rightarrow> (nat \<Rightarrow> bytes \<Rightarrow> bytes \<Rightarrow> bytes) \<Rightarrow> bool" where
  "box_opens P OpenAnonymous Seal \<longleftrightarrow>
     (\<forall>i pub priv m. box_PublicKey P priv = Some pub \<longrightarrow> OpenAnonymous pub priv (Seal i pub m) = Some m)"

lemma seal_open_layers:
  assumes box: "box_opens P OpenA Seal"
    and "key_pairs P slots"
  shows "\<exists>vp'. seal_layers Seal i encoded vp (slot_publics slots) = Ok vp' \<and>
    open_layers P OpenA (rev (slot_privates slots)) (case vp' of None \<Rightarrow> encoded | Some b \<Rightarrow> b)
      = Ok (case vp of None \<Rightarrow> encoded | Some b \<Rightarrow> b) \<and>
    (vp' = None \<longrightarrow> vp = None \<and> slot_privates slots = [])"
  using assms(2)
proof (induction slots arbitrary: i vp)
  case (Cons s slots)
  have tl: "key_pairs P slots" using Cons.prems by (auto simp: key_pairs_def)
  show ?case
  proof (cases s)
    case None
    then show ?thesis using Cons.IH [OF tl, of "Suc i" vp] by (simp add: slot_publics_def)
  next
    case (Some pp)
    obtain pub priv where pp: "pp = (pub, priv)" by force
    have k: "length pub = 32" "length priv = 32" "box_PublicKey P priv = Some pub"
      using Cons.prems Some pp by (auto simp: key_pairs_def)
    let ?m = "case vp of None \<Rightarrow> encoded | Some b \<Rightarrow> b"
    have dp: "DecodePrivate P (hex priv) = Ok (pub, priv)"
      using k by (simp add: DecodePrivate_def DecodePrivate_Public_def nacl_KeyLength_def of_option_def)
    have "open_layers P OpenA [hex priv] (Seal i pub ?m) = Ok ?m"
      using box k(3) by (simp add: box_opens_def dp Decrypt_def of_option_def)
    then show ?thesis
      using Cons.IH [OF tl, of "Suc i" "Some (Seal i pub ?m)"] Some pp k
      by (fastforce simp: slot_publics_def DecodePublic_def nacl_KeyLength_def open_layers_append)
  qed
qed (simp add: slot_publics_def)

text \<open>C30. What the client encrypts with the published keys of a process, the indexer decrypts with the
  revealed ones.\<close>

theorem encrypted_vote_roundtrip:
  assumes "box_opens P OpenA Seal"
    and "json_Unmarshal (json_Marshal \<lparr>vp_Nonce = nonce, vp_Votes = [1, 2, 3, 4, 5, 6]\<rparr>)
           = Some \<lparr>vp_Nonce = nonce, vp_Votes = [1, 2, 3, 4, 5, 6]\<rparr>"
    and "key_pairs P slots" "slot_privates slots \<noteq> []"
  shows "\<exists>b. genVote Seal json_Marshal nonce True (slot_publics slots) = Ok (Some b) \<and>
    unmarshalVote P OpenA json_Unmarshal b (slot_privates slots)
      = Ok \<lparr>vp_Nonce = nonce, vp_Votes = [1, 2, 3, 4, 5, 6]\<rparr>"
proof -
  let ?e = "json_Marshal \<lparr>vp_Nonce = nonce, vp_Votes = [1, 2, 3, 4, 5, 6]\<rparr>"
  obtain vp' where v: "seal_layers Seal 0 ?e None (slot_publics slots) = Ok vp'"
    "open_layers P OpenA (rev (slot_privates slots)) (case vp' of None \<Rightarrow> ?e | Some b \<Rightarrow> b) = Ok ?e"
    "vp' \<noteq> None"
    using seal_open_layers [OF assms(1,3), of 0 ?e None] assms(4) by auto
  then show ?thesis
    by (auto simp: genVote_def unmarshalVote_def assms(2) of_option_def)
qed

theorem encrypted_vote_roundtrip_witness:
  "\<exists>b. genVote (\<lambda>i pub m. pub @ m) (\<lambda>vp. str (vp_Nonce vp)) ''n'' True
         (slot_publics [None, Some (replicate 32 7, replicate 32 7)]) = Ok (Some b) \<and>
     unmarshalVote params0 (\<lambda>pub priv c. Some (drop (length pub) c))
       (\<lambda>b. Some \<lparr>vp_Nonce = unstr b, vp_Votes = [1, 2, 3, 4, 5, 6]\<rparr>) b
       (slot_privates [None, Some (replicate 32 7, replicate 32 7)])
     = Ok \<lparr>vp_Nonce = ''n'', vp_Votes = [1, 2, 3, 4, 5, 6]\<rparr>"
proof -
  let ?slots = "[None, Some (replicate 32 7, replicate 32 7)] :: key_slots"
  have "str ''n'' = [110 :: u8]" by (simp add: str_def)
  moreover have "unstr [110] = ''n''" by (simp add: unstr_def) code_simp
  ultimately show ?thesis
    by (intro encrypted_vote_roundtrip) (auto simp: key_pairs_def box_opens_def)
qed

section \<open>A concrete count\<close>

definition tally_params :: params where
  "tally_params = params0\<lparr>Unmarshal_Tx := (\<lambda>b. Some (Some (Tx_Vote (Some \<lparr>ve_Nonce = [],
     ve_ProcessId = [], ve_Proof = None, ve_VotePackage = b, ve_Nullifier = [],
     ve_EncryptionKeyIndexes = []\<rparr>))))\<rparr>"

definition tally_opts :: ProcessVoteOptions where
  "tally_opts = \<lparr>MaxCount = 1, MaxValue = 2, MaxVoteOverwrites = 0, MaxTotalCost = 0, CostExponent = 0\<rparr>"

definition tally_type :: EnvelopeType where
  "tally_type = \<lparr>Serial = False, Anonymous = False, EncryptedVotes = False, UniqueValues = False,
     CostFromWeight = False\<rparr>"

definition tally_process :: IndexerProcess where
  "tally_process = \<lparr>ip_ID = [7], ip_EntityID = [], ip_StartBlock = 0, ip_EndBlock = 10, ip_Rheight = 11,
     ip_CensusRoot = [], ip_RollingCensusRoot = [], ip_CensusURI = [], ip_CensusOrigin = OFF_CHAIN_TREE,
     ip_Status = ENDED, ip_Envelope = Some tally_type, ip_Mode = None, ip_VoteOpts = Some tally_opts,
     ip_PrivateKeys = [], ip_PublicKeys = [], ip_HaveResults = True, ip_FinalResults = False,
     ip_SourceBlockHeight = 0, ip_MaxCensusSize = 0, ip_RollingCensusSize = 0\<rparr>"

definition tally_json :: "bytes \<Rightarrow> VotePackage option" where
  "tally_json b = Some \<lparr>vp_Nonce = [], vp_Votes = map uint b\<rparr>"

definition tally_ref :: "int \<Rightarrow> int \<Rightarrow> VoteReference" where
  "tally_ref i w = \<lparr>vr_Nullifier = [], vr_ProcessID = [7], vr_VoterID = None, vr_Height = 1,
     vr_Weight = w, vr_TxIndex = i\<rparr>"

definition tally_store :: block_store where
  "tally_store h i = Ok ([word_of_int i], None)"

abbreviation tally_read :: "VoteReference \<Rightarrow> int list option res" where
  "tally_read \<equiv> read_vote tally_params (\<lambda>pub priv c. None) tally_json tally_store tally_process"

lemma tally_weight: "vr_Weight (tally_ref i w) = w"
  by (simp add: tally_ref_def)

lemma tally_read_ref: "tally_read (tally_ref i w) = Ok (Some [uint (word_of_int i :: u8)])"
  by (simp add: read_vote_def reference_envelope_def tally_store_def tally_ref_def tally_params_def
      envelope_vote_def tally_process_def tally_type_def unmarshalVote_def tally_json_def of_option_def)

lemma tally_check: "0 \<le> i \<Longrightarrow> i \<le> 2 \<Longrightarrow> check_ballot tally_opts tally_type (Some w) [i] = Ok ()"
  by (auto simp: check_ballot_def tally_opts_def tally_type_def MaxOptions_def word_less_def uint_word_of_int)

lemma tally_harmless:
  assumes "0 \<le> i" "i \<le> 2"
  shows "accepted tally_read tally_opts tally_type (tally_ref i w) = Some [i]"
    "harmless tally_read tally_opts tally_type (tally_ref i w)"
proof -
  have "uint (word_of_int i :: u8) = i" using assms by (simp add: uint_word_of_int)
  with tally_check [OF assms] show a: "accepted tally_read tally_opts tally_type (tally_ref i w) = Some [i]"
    by (simp add: accepted_def tally_read_ref)
  with assms show "harmless tally_read tally_opts tally_type (tally_ref i w)"
    by (simp add: harmless_def tally_read_ref in_range_def ballot_cell_def tally_opts_def)
qed

lemma tally_opts_ok:
  "0 < unat (MaxCount tally_opts)" "unat (MaxCount tally_opts) \<le> MaxQuestions"
  "0 < unat (MaxValue tally_opts)" "unat (MaxValue tally_opts) \<le> MaxOptions"
  "ip_VoteOpts tally_process = Some tally_opts" "ip_Envelope tally_process = Some tally_type"
  by (simp_all add: tally_opts_def MaxQuestions_def MaxOptions_def tally_process_def)

theorem final_results_counted_witness:
  "\<exists>r. computeFinalResults tally_params (\<lambda>pub priv c. None) tally_json tally_store 11
         [tally_ref 1 5, tally_ref 2 3, tally_ref 1 2] (Some tally_process) = Ok r \<and>
       r_Votes r ! 0 ! 1 = 7 \<and> r_Votes r ! 0 ! 2 = 3 \<and> r_Weight r = 10"
proof -
  let ?refs = "[tally_ref 1 5, tally_ref 2 3, tally_ref 1 2]"
  have "\<forall>x \<in> set ?refs. harmless tally_read tally_opts tally_type x"
    by (simp add: tally_harmless)
  note final_results_counted [OF tally_opts_ok(5,6,1-4) this, of 11]
  then obtain r where r: "computeFinalResults tally_params (\<lambda>pub priv c. None) tally_json tally_store 11 ?refs (Some tally_process) = Ok r"
    and c: "\<forall>q < unat (MaxCount tally_opts). \<forall>opt \<le> unat (MaxValue tally_opts). r_Votes r ! q ! opt =
         (\<Sum>x\<leftarrow>?refs. case accepted tally_read tally_opts tally_type x of None \<Rightarrow> 0
          | Some vs \<Rightarrow> if q < length vs \<and> vs ! q = int opt then vr_Weight x else 0)"
    and w: "r_Weight r = (\<Sum>x\<leftarrow>?refs. case accepted tally_read tally_opts tally_type x of
              None \<Rightarrow> 0 | Some vs \<Rightarrow> vr_Weight x)"
    by blast
  have "r_Votes r ! 0 ! 1 = 7" "r_Votes r ! 0 ! 2 = 3"
    using spec [OF c, of 0] tally_weight by (simp_all add: tally_opts_def tally_harmless [unfolded tally_opts_def])
  then show ?thesis using r w by (simp add: tally_harmless tally_weight)
qed

theorem final_results_any_order_witness:
  "\<forall>r. computeFinalResults tally_params (\<lambda>pub priv c. None) tally_json tally_store 11
     [tally_ref 1 5, tally_ref 2 3] (Some tally_process) = Ok r \<longleftrightarrow>
   computeFinalResults tally_params (\<lambda>pub priv c. None) tally_json tally_store 11
     [tally_ref 2 3, tally_ref 1 5] (Some tally_process) = Ok r"
  by (intro allI final_results_any_order [OF tally_opts_ok(5,6,1-4)]) simp

definition wide_json :: "bytes \<Rightarrow> VotePackage option" where
  "wide_json b = Some \<lparr>vp_Nonce = [], vp_Votes = [4294967296]\<rparr>"

theorem oversized_value_stops_count_witness:
  "\<exists>m. computeFinalResults tally_params (\<lambda>pub priv c. None) wide_json tally_store 11
     [tally_ref 1 5] (Some tally_process) = Panic m"
proof -
  have "read_vote tally_params (\<lambda>pub priv c. None) wide_json tally_store tally_process (tally_ref 1 5)
          = Ok (Some [4294967296])"
    by (simp add: read_vote_def reference_envelope_def tally_store_def tally_ref_def tally_params_def
      envelope_vote_def tally_process_def tally_type_def unmarshalVote_def wide_json_def of_option_def)
  moreover have "check_ballot tally_opts tally_type (Some (vr_Weight (tally_ref 1 5))) [4294967296] = Ok ()"
    by (simp add: check_ballot_def tally_opts_def tally_type_def MaxOptions_def)
  moreover have "uint (MaxValue tally_opts) < 4294967296" by (simp add: tally_opts_def)
  ultimately show ?thesis
    by (intro oversized_value_stops_count [OF tally_opts_ok(5,6,1-4), of "tally_ref 1 5" _ _ _ _ _ "[4294967296]" 4294967296]) simp_all
qed

section \<open>Publishing and storing a matrix\<close>

text \<open>\<^verbatim>\<open>big.Int\<close>'s \<^verbatim>\<open>String\<close>, \<^verbatim>\<open>Bytes\<close> (of the absolute value) and \<^verbatim>\<open>SetString(s, 0)\<close>: an optional sign, a prefix
  that chooses the base, and digits that underscores may separate.\<close>

definition big_String :: "int \<Rightarrow> string" where
  "big_String i = (if i < 0 then CHR ''-'' # decimal (nat (- i)) else decimal (nat i))"

definition BigInt_Bytes :: "int \<Rightarrow> bytes" where
  "BigInt_Bytes i = big_Bytes (nat \<bar>i\<bar>)"

fun scan_digits :: "nat \<Rightarrow> char \<Rightarrow> bool \<Rightarrow> nat \<Rightarrow> nat \<Rightarrow> string \<Rightarrow> (nat \<times> nat) option" where
  "scan_digits b prev invalSep cnt n [] =
     (if invalSep \<or> prev = CHR ''_'' then None else Some (n, cnt))"
| "scan_digits b prev invalSep cnt n (c # cs) =
     (if c = CHR ''_'' then scan_digits b c (invalSep \<or> prev \<noteq> CHR ''0'') cnt n cs
      else case hex_value c of
             None \<Rightarrow> None
           | Some d \<Rightarrow> if b \<le> d then None else scan_digits b (CHR ''0'') invalSep (Suc cnt) (b * n + d) cs)"

definition scan_number :: "nat \<Rightarrow> char \<Rightarrow> string \<Rightarrow> nat option" where
  "scan_number b prev cs =
     (case scan_digits b prev False 0 0 cs of
        None \<Rightarrow> None | Some (n, cnt) \<Rightarrow> if cnt = 0 then None else Some n)"

definition nat_scan :: "string \<Rightarrow> nat option" where
  "nat_scan cs =
     (case cs of
        [] \<Rightarrow> None
      | d # rest \<Rightarrow>
          if d \<noteq> CHR ''0'' then scan_number 10 (CHR ''.'') cs
          else case rest of
             [] \<Rightarrow> Some 0
           | c # r \<Rightarrow>
               if c \<in> set ''bB'' then scan_number 2 (CHR ''0'') r
               else if c \<in> set ''oO'' then scan_number 8 (CHR ''0'') r
               else if c \<in> set ''xX'' then scan_number 16 (CHR ''0'') r
               else map_option fst (scan_digits 8 (CHR ''0'') False 0 0 rest))"

definition BigInt_UnmarshalText :: "string \<Rightarrow> int option" where
  "BigInt_UnmarshalText s =
     (case s of
        c # cs \<Rightarrow>
          if c = CHR ''-'' then map_option (\<lambda>n. - int n) (nat_scan cs)
          else if c = CHR ''+'' then map_option int (nat_scan cs)
          else map_option int (nat_scan s)
      | [] \<Rightarrow> None)"

fun strings_Split :: "char \<Rightarrow> string \<Rightarrow> string list" where
  "strings_Split sep [] = [[]]"
| "strings_Split sep (c # cs) =
     (if c = sep then [] # strings_Split sep cs
      else case strings_Split sep cs of [] \<Rightarrow> [[c]] | w # ws \<Rightarrow> (c # w) # ws)"

fun strings_Join :: "char \<Rightarrow> string list \<Rightarrow> string" where
  "strings_Join sep [] = []"
| "strings_Join sep [w] = w"
| "strings_Join sep (w # v # ws) = w @ sep # strings_Join sep (v # ws)"

definition Results_String :: "Results \<Rightarrow> string" where
  "Results_String r = concat (map (\<lambda>q. '' ['' @ strings_Join (CHR '','') (map big_String q) @ '']'') (r_Votes r))"

definition encodeVotes :: "int list list \<Rightarrow> string" where
  "encodeVotes votes = strings_Join (CHR '' '') (map (\<lambda>row. strings_Join (CHR '','') (map big_String row)) votes)"

definition decodeVotes :: "string \<Rightarrow> int list list" where
  "decodeVotes input =
     map (\<lambda>group. List.map_filter BigInt_UnmarshalText (strings_Split (CHR '','') group))
       (strings_Split (CHR '' '') input)"

definition decodeBigint :: "string \<Rightarrow> int" where
  "decodeBigint s = (case BigInt_UnmarshalText s of None \<Rightarrow> 0 | Some n \<Rightarrow> n)"

definition joinHexBytes :: "bytes list \<Rightarrow> string" where
  "joinHexBytes xs = strings_Join (CHR '','') (map hex xs)"

definition hexSplit :: "string \<Rightarrow> bytes list res" where
  "hexSplit joined =
     (if joined = [] then Ok []
      else let bs = map hex_DecodeString (strings_Split (CHR '','') joined)
           in if None \<in> set bs then Panic ''encoding/hex'' else Ok (map the bs))"

definition nonEmptySplit :: "string \<Rightarrow> char \<Rightarrow> string list" where
  "nonEmptySplit s sep = (let xs = strings_Split sep s in if xs = [[]] then [] else xs)"

definition BuildProcessResult :: "Results \<Rightarrow> bytes \<Rightarrow> ProcessResult" where
  "BuildProcessResult results entityID =
     \<lparr>pr_Votes = map (map BigInt_Bytes) (r_Votes results), pr_ProcessId = r_ProcessID results,
      pr_EntityId = entityID, pr_OracleAddress = None, pr_Signature = []\<rparr>"

definition GetFriendlyVotes :: "int list list \<Rightarrow> string list list" where
  "GetFriendlyVotes votes = map (map big_String) votes"

text \<open>The comparison of published results with the node's own ones in \<^verbatim>\<open>OnProcessResults\<close>: lengths
  first, then question by question.\<close>

fun questions_match :: "bytes list list \<Rightarrow> bytes list list \<Rightarrow> bool" where
  "questions_match (q # qs) (m # ms) =
     (length q = length m \<and> list_all2 (=) q m \<and> questions_match qs ms)"
| "questions_match _ _ = True"

definition results_match :: "ProcessResult \<Rightarrow> Results \<Rightarrow> bool" where
  "results_match published myResults =
     (let myVotes = pr_Votes (BuildProcessResult myResults (pr_EntityId published))
      in length myVotes = length (pr_Votes published) \<and> questions_match (pr_Votes published) myVotes)"

lemma strings_Split_nonempty [simp]: "strings_Split sep s \<noteq> []"
  by (induction s) (auto split: list.split)

lemma strings_Split_plain: "sep \<notin> set s \<Longrightarrow> strings_Split sep s = [s]"
  by (induction s) auto

lemma strings_Split_sep:
  "sep \<notin> set w \<Longrightarrow> strings_Split sep (w @ sep # s) = w # strings_Split sep s"
  by (induction w) auto

lemma strings_Split_Join:
  "ws \<noteq> [] \<Longrightarrow> \<forall>w \<in> set ws. sep \<notin> set w \<Longrightarrow> strings_Split sep (strings_Join sep ws) = ws"
  by (induction sep ws rule: strings_Join.induct) (auto simp: strings_Split_plain strings_Split_sep)

lemma set_strings_Join: "set (strings_Join sep ws) \<subseteq> insert sep (\<Union> (set ` set ws))"
  by (induction sep ws rule: strings_Join.induct) auto

lemma set_decimal: "set (decimal n) \<subseteq> {c. 48 \<le> (of_char c :: nat) \<and> (of_char c :: nat) \<le> 57}"
proof (induction n rule: decimal.induct)
  case (1 n)
  have d: "48 \<le> (of_char (char_of (48 + k) :: char) :: nat) \<and> (of_char (char_of (48 + k) :: char) :: nat) \<le> 57"
    if "k < 10" for k :: nat
    using that by simp
  show ?case
    using 1 d [of n] d [of "n mod 10"] by (subst decimal.simps) auto
qed

lemma big_String_chars:
  "CHR '','' \<notin> set (big_String i)" "CHR '' '' \<notin> set (big_String i)"
  using set_decimal [of "nat i"] set_decimal [of "nat (- i)"] by (auto simp: big_String_def)

lemma hex_chars: "CHR '','' \<notin> set (hex b)"
proof -
  have "\<forall>n \<in> set [0..<16]. hex_digit n \<noteq> CHR '',''" by (simp add: upt_rec hex_digit_def)
  then have "hex_digit n \<noteq> CHR '',''" if "n < 16" for n using that by simp
  moreover have "unat x div 16 < 16" for x :: u8
    using unsigned_less [of x, where ?'a = nat] by (simp add: less_mult_imp_div_less)
  ultimately have "hex_digit (unat x div 16) \<noteq> CHR '','' \<and> hex_digit (unat x mod 16) \<noteq> CHR '',''" for x :: u8
    by simp
  then show ?thesis by (simp add: hex_def) metis
qed

lemma hex_value_decimal: "d < 10 \<Longrightarrow> hex_value (char_of (48 + d)) = Some d \<and> char_of (48 + d) \<noteq> CHR ''_''"
proof -
  have "\<forall>d \<in> set [0..<10]. hex_value (char_of (48 + d)) = Some d \<and> char_of (48 + d) \<noteq> CHR ''_''"
    by (simp add: upt_rec hex_value_def char_of_eq_iff)
  then show "d < 10 \<Longrightarrow> hex_value (char_of (48 + d)) = Some d \<and> char_of (48 + d) \<noteq> CHR ''_''" by simp
qed

lemma scan_decimal:
  "\<exists>k. scan_digits 10 p False c a (decimal n @ s) = scan_digits 10 (CHR ''0'') False (Suc c + k) (a * 10 ^ Suc k + n) s"
proof (induction n arbitrary: p c a s rule: decimal.induct)
  case (1 n)
  show ?case
  proof (cases "n < 10")
    case True
    then show ?thesis
      using hex_value_decimal [of n]
      by (intro exI [of _ 0], subst decimal.simps) (simp add: mult.commute)
  next
    case False
    from 1 [OF False, of p c a "char_of (48 + n mod 10) # s"]
    obtain k where "scan_digits 10 p False c a (decimal (n div 10) @ char_of (48 + n mod 10) # s)
        = scan_digits 10 (CHR ''0'') False (Suc c + k) (a * 10 ^ Suc k + n div 10) (char_of (48 + n mod 10) # s)"
      by blast
    moreover have "\<not> 10 \<le> n mod 10" by (simp add: not_le)
    moreover have "10 * (a * 10 ^ Suc k + n div 10) + n mod 10 = a * 10 ^ Suc (Suc k) + n"
      by (simp add: algebra_simps)
    ultimately show ?thesis
      using False hex_value_decimal [of "n mod 10"]
      by (intro exI [of _ "Suc k"], subst decimal.simps) (simp add: ac_simps)
  qed
qed

lemma decimal_hd: "\<exists>c cs. decimal n = c # cs \<and> (c = CHR ''0'' \<longleftrightarrow> n = 0) \<and> c \<noteq> CHR ''-'' \<and> c \<noteq> CHR ''+''"
proof (induction n rule: decimal.induct)
  case (1 n)
  have "\<forall>n \<in> set [0..<10]. (char_of (48 + n) = CHR ''0'' \<longleftrightarrow> n = 0) \<and> char_of (48 + n) \<noteq> CHR ''-'' \<and> char_of (48 + n) \<noteq> CHR ''+''"
    by (simp add: upt_rec char_of_eq_iff)
  then have *: "(char_of (48 + n) = CHR ''0'' \<longleftrightarrow> n = 0) \<and> char_of (48 + n) \<noteq> CHR ''-'' \<and> char_of (48 + n) \<noteq> CHR ''+''" if "n < 10"
    using that by simp
  show ?case
  proof (cases "n < 10")
    case True
    then show ?thesis using * by (subst decimal.simps) simp
  next
    case False
    then show ?thesis using 1 by (subst decimal.simps) auto
  qed
qed

lemma nat_scan_decimal: "nat_scan (decimal n) = Some n"
proof (cases "n = 0")
  case True
  then show ?thesis by (simp add: nat_scan_def decimal.simps char_of_eq_iff)
next
  case False
  obtain c cs where d: "decimal n = c # cs" "c \<noteq> CHR ''0''" using decimal_hd [of n] False by blast
  obtain k where "scan_digits 10 (CHR ''.'') False 0 0 (decimal n) = Some (n, Suc k)"
    using scan_decimal [of "CHR ''.''" 0 0 n "[]"] by auto
  then have "scan_number 10 (CHR ''.'') (decimal n) = Some n" by (simp add: scan_number_def)
  moreover have "nat_scan (decimal n) = scan_number 10 (CHR ''.'') (decimal n)"
    using d by (simp add: nat_scan_def)
  ultimately show ?thesis by simp
qed

lemma BigInt_text_roundtrip [simp]: "BigInt_UnmarshalText (big_String i) = Some i"
proof (cases "i < 0")
  case True
  then show ?thesis
    by (simp add: big_String_def BigInt_UnmarshalText_def nat_scan_decimal)
next
  case False
  obtain c cs where d: "decimal (nat i) = c # cs" "c \<noteq> CHR ''-''" "c \<noteq> CHR ''+''" using decimal_hd [of "nat i"] by blast
  have "BigInt_UnmarshalText (decimal (nat i)) = map_option int (nat_scan (decimal (nat i)))"
    unfolding BigInt_UnmarshalText_def d(1) using d(2,3) by simp
  then show ?thesis using False by (simp add: big_String_def nat_scan_decimal)
qed

lemma map_filter_all: "\<forall>x \<in> set xs. f (g x) = Some (h x) \<Longrightarrow> List.map_filter f (map g xs) = map h xs"
  by (induction xs) (auto simp: List.map_filter_simps)

lemma decode_row: "row \<noteq> [] \<Longrightarrow>
  List.map_filter BigInt_UnmarshalText (strings_Split (CHR '','') (strings_Join (CHR '','') (map big_String row))) = row"
  using map_filter_all [of row BigInt_UnmarshalText big_String id]
  by (simp add: strings_Split_Join big_String_chars)

text \<open>A matrix with a question and whose questions have options survives its text form in the
  database; the empty matrix comes back as one question without options.\<close>

theorem votes_text_roundtrip:
  assumes "votes \<noteq> []" "\<forall>row \<in> set votes. row \<noteq> []"
  shows "decodeVotes (encodeVotes votes) = votes"
proof -
  let ?row = "\<lambda>row. strings_Join (CHR '','') (map big_String row)"
  have "CHR '' '' \<notin> set (?row row)" for row
    using set_strings_Join [of "CHR '',''" "map big_String row"] big_String_chars by auto
  then have "strings_Split (CHR '' '') (encodeVotes votes) = map ?row votes"
    using assms(1) by (simp add: encodeVotes_def strings_Split_Join)
  then show ?thesis
    using assms(2) by (simp add: decodeVotes_def decode_row map_idI)
qed

theorem votes_text_roundtrip_witness: "decodeVotes (encodeVotes [[3, 0, 12], [1, 14, 0]]) = [[3, 0, 12], [1, 14, 0]]"
  by (rule votes_text_roundtrip) simp_all

lemma decodeVotes_empty: "decodeVotes (encodeVotes []) = [[]]"
  by (simp add: decodeVotes_def encodeVotes_def BigInt_UnmarshalText_def List.map_filter_simps)

lemma hexSplit_join:
  assumes "xs \<noteq> [[]]"
  shows "hexSplit (joinHexBytes xs) = Ok xs"
proof (cases "xs = []")
  case True
  then show ?thesis by (simp add: hexSplit_def joinHexBytes_def)
next
  case False
  then have "strings_Split (CHR '','') (joinHexBytes xs) = map hex xs"
    by (simp add: joinHexBytes_def strings_Split_Join hex_chars)
  moreover have "joinHexBytes xs \<noteq> []"
    using assms False by (cases xs rule: remdups_adj.cases) (auto simp: joinHexBytes_def)
  ultimately show ?thesis
    by (auto simp: hexSplit_def Let_def comp_def)
qed

lemma nonEmptySplit_Join:
  assumes "keys \<noteq> [[]]" "\<forall>k \<in> set keys. sep \<notin> set k"
  shows "nonEmptySplit (strings_Join sep keys) sep = keys"
  using assms by (cases "keys = []") (simp_all add: nonEmptySplit_def strings_Split_Join)

text \<open>What the indexer publishes is what the state's readers show: the numbers of the matrix.\<close>

theorem published_results_readable:
  assumes "\<forall>row \<in> set (r_Votes r). \<forall>x \<in> set row. 0 \<le> x"
  shows "GetFriendlyResults (pr_Votes (BuildProcessResult r eid)) = GetFriendlyVotes (r_Votes r) \<and>
    (results_match published r \<longleftrightarrow> pr_Votes published = pr_Votes (BuildProcessResult r eid))"
proof -
  have q: "length qs = length ms \<Longrightarrow> questions_match qs ms \<longleftrightarrow> qs = ms" for qs ms
    by (induction qs ms rule: list_induct2) (auto simp: list.rel_eq)
  have "map (\<lambda>b. decimal (big_SetBytes b)) (map BigInt_Bytes row) = map big_String row" if "row \<in> set (r_Votes r)" for row
  proof -
    have "\<forall>x \<in> set row. 0 \<le> x" using assms that by blast
    then show ?thesis by (auto simp: BigInt_Bytes_def big_String_def)
  qed
  then show ?thesis
    using q [of "pr_Votes published" "map (map BigInt_Bytes) (r_Votes r)"]
    by (auto simp: GetFriendlyResults_def GetFriendlyVotes_def BuildProcessResult_def results_match_def Let_def)
qed

theorem published_results_readable_witness:
  "let r = \<lparr>r_ProcessID = [7], r_Votes = [[0, 258]], r_Weight = 258, r_EnvelopeHeight = 1, r_EnvelopeType = None,
       r_VoteOpts = None, r_Signatures = [], r_Final = True, r_BlockHeight = 3\<rparr>
   in GetFriendlyResults (pr_Votes (BuildProcessResult r [])) = GetFriendlyVotes (r_Votes r) \<and>
      results_match (BuildProcessResult r []) r"
  using published_results_readable [where eid = "[]" and published = "BuildProcessResult r []" for r]
  by (simp add: Let_def)

end
