(* ===== verification/Indexer.thy ===== *)
theory Indexer
  imports Results
begin

text \<open>
  The indexer (\<^verbatim>\<open>vochain/scrutinizer\<close>), a listener of the state: the pools it fills during a block, their
  commit to its database, the live results it keeps while a process is open, and the computation of
  the final ones at the scheduled height. The database is the record's tables. The badgerhold store
  and its sqlite copy are written together and hold the same rows, so they are one table here;
  a callback of \<^verbatim>\<open>UpdateMatching\<close> that returns an error leaves the row as it was. The goroutines of
  \<^verbatim>\<open>Commit\<close> are separate operations: the one that indexes the transactions touches only the table of
  transactions and runs at once, \<open>computePendingProcesses\<close> runs later.
\<close>

section \<open>State\<close>

record TxReference =
  tr_Index :: u64
  tr_Hash :: bytes
  tr_BlockHeight :: u32
  tr_TxBlockIndex :: int

record VoteWithIndex =
  vi_vote :: Vote
  vi_voterID :: bytes
  vi_txIndex :: int

record Scrutinizer =
  ix_voteIndexPool :: "VoteWithIndex list"
  ix_votePool :: "(bytes \<times> Vote list) list"
  ix_newProcessPool :: "bytes list"
  ix_updateProcessPool :: "bytes list"
  ix_resultsPool :: "bytes list"
  ix_newTxPool :: "TxReference list"
  ix_liveResultsProcs :: "bytes list"
  ix_ignoreLiveResults :: bool
  ix_results :: "(bytes \<times> Results) list"
  ix_processes :: "(bytes \<times> IndexerProcess) list"
  ix_entities :: "(bytes \<times> u32) list"
  ix_votes :: "(bytes \<times> VoteReference) list"
  ix_txs :: "(u64 \<times> TxReference) list"
  ix_countEntities :: u64
  ix_countProcesses :: u64
  ix_countEnvelopes :: u64
  ix_countTransactions :: u64

text \<open>What the indexer calls: the decoding of votes and the application's block store, height and
  synchronisation flag.\<close>

record indexer_env =
  ie_OpenAnonymous :: "bytes \<Rightarrow> bytes \<Rightarrow> bytes \<Rightarrow> bytes option"
  ie_json :: "bytes \<Rightarrow> VotePackage option"
  ie_getTx :: block_store
  ie_Height :: u32
  ie_Synchronizing :: bool

definition NewScrutinizer :: "bool \<Rightarrow> Scrutinizer" where
  "NewScrutinizer countLiveResults = \<lparr>ix_voteIndexPool = [], ix_votePool = [], ix_newProcessPool = [],
     ix_updateProcessPool = [], ix_resultsPool = [], ix_newTxPool = [], ix_liveResultsProcs = [],
     ix_ignoreLiveResults = \<not> countLiveResults, ix_results = [], ix_processes = [], ix_entities = [],
     ix_votes = [], ix_txs = [], ix_countEntities = 0, ix_countProcesses = 0, ix_countEnvelopes = 0,
     ix_countTransactions = 0\<rparr>"

text \<open>\<^verbatim>\<open>Insert\<close> refuses a key that exists, \<^verbatim>\<open>Upsert\<close> replaces it, \<^verbatim>\<open>UpdateMatching\<close> on a key changes its row if
  there is one.\<close>

definition db_Insert :: "('k \<times> 'v) list \<Rightarrow> 'k \<Rightarrow> 'v \<Rightarrow> ('k \<times> 'v) list res" where
  "db_Insert t k v = (if map_of t k = None then Ok (t @ [(k, v)]) else Fail (Errf ''This Key already exists in badgerhold for this type''))"

definition db_Upsert :: "('k \<times> 'v) list \<Rightarrow> 'k \<Rightarrow> 'v \<Rightarrow> ('k \<times> 'v) list" where
  "db_Upsert t k v = (if map_of t k = None then t @ [(k, v)] else put t k v)"

definition db_Update :: "('k \<times> 'v) list \<Rightarrow> 'k \<Rightarrow> ('v \<Rightarrow> 'v) \<Rightarrow> ('k \<times> 'v) list" where
  "db_Update t k f = (case map_of t k of None \<Rightarrow> t | Some v \<Rightarrow> put t k (f v))"

section \<open>Processes\<close>

definition isOpenProcess :: "bytes \<Rightarrow> state \<Rightarrow> bool res" where
  "isOpenProcess pid s =
     rbind (Process_get pid False s) (\<lambda>p.
       case EnvelopeTypeOf p of
         None \<Rightarrow> Fail (Errf ''cannot fetch process %x or envelope type not defined'')
       | Some et \<Rightarrow> Ok (\<not> EncryptedVotes et))"

definition opt_u64 :: "u64 option \<Rightarrow> u64" where
  "opt_u64 x = (case x of None \<Rightarrow> 0 | Some n \<Rightarrow> n)"

definition opt_string :: "string option \<Rightarrow> string" where
  "opt_string x = (case x of None \<Rightarrow> [] | Some n \<Rightarrow> n)"

definition empty_results :: "bytes \<Rightarrow> ProcessVoteOptions \<Rightarrow> EnvelopeType option \<Rightarrow> Results" where
  "empty_results pid options et =
     \<lparr>r_ProcessID = pid, r_Votes = NewEmptyVotes (unat (MaxCount options)) (unat (MaxValue options) + 1),
      r_Weight = 0, r_EnvelopeHeight = 0, r_EnvelopeType = et, r_VoteOpts = Some options,
      r_Signatures = [], r_Final = False, r_BlockHeight = 0\<rparr>"

definition new_indexer_process :: "bytes \<Rightarrow> Process \<Rightarrow> u32 \<Rightarrow> IndexerProcess" where
  "new_indexer_process pid p compResultsHeight =
     \<lparr>ip_ID = pid, ip_EntityID = EntityId p, ip_StartBlock = StartBlock p,
      ip_EndBlock = BlockCount p + StartBlock p, ip_Rheight = compResultsHeight,
      ip_CensusRoot = CensusRoot p, ip_RollingCensusRoot = RollingCensusRoot p,
      ip_CensusURI = opt_string (CensusURI p), ip_CensusOrigin = CensusOriginOf p, ip_Status = Status p,
      ip_Envelope = EnvelopeTypeOf p, ip_Mode = Mode p, ip_VoteOpts = VoteOptions p,
      ip_PrivateKeys = EncryptionPrivateKeys p, ip_PublicKeys = EncryptionPublicKeys p,
      ip_HaveResults = (0 < compResultsHeight), ip_FinalResults = False,
      ip_SourceBlockHeight = opt_u64 (SourceBlockHeight p), ip_MaxCensusSize = opt_u64 (MaxCensusSize p),
      ip_RollingCensusSize = opt_u64 (RollingCensusSize p)\<rparr>"

definition newEmptyProcess :: "bytes \<Rightarrow> state \<Rightarrow> Scrutinizer \<Rightarrow> unit res \<times> Scrutinizer" where
  "newEmptyProcess pid s ix =
     with_res (wrap ''cannot create new empty process: %w'' (Process_get pid False s)) ix (\<lambda>p.
       case VoteOptions p of
         None \<Rightarrow> (Fail (Errf ''newEmptyProcess: vote options is nil''), ix)
       | Some options \<Rightarrow>
           if MaxCount options = 0 then (Fail (Errf ''newEmptyProcess: maxCount is zero''), ix)
           else if MaxQuestions < unat (MaxCount options) \<or> MaxOptions < unat (MaxValue options)
           then (Fail (Errf ''maxCount or maxValue overflows hardcoded maximums''), ix)
           else with_res (db_Insert (ix_results ix) pid (empty_results pid options (EnvelopeTypeOf p))) ix (\<lambda>results.
             let ix = ix\<lparr>ix_results := results, ix_countProcesses := ix_countProcesses ix + 1\<rparr>;
                 eid = EntityId p;
                 entity = map_of (ix_entities ix) eid;
                 ix = (if entity = None then ix\<lparr>ix_countEntities := ix_countEntities ix + 1\<rparr> else ix);
                 ix = ix\<lparr>ix_entities := db_Upsert (ix_entities ix) eid
                           ((case entity of None \<Rightarrow> 0 | Some n \<Rightarrow> n) + 1)\<rparr>
             in with_res (wrap ''cannot check if process is live: %w'' (isOpenProcess pid s)) ix (\<lambda>live.
                  let compResultsHeight = (if live then BlockCount p + StartBlock p + 1 else 0)
                  in with_res (db_Insert (ix_processes ix) pid (new_indexer_process pid p compResultsHeight)) ix
                       (\<lambda>processes. (Ok (), ix\<lparr>ix_processes := processes\<rparr>)))))"

definition cancel_results :: "Results \<Rightarrow> Results" where
  "cancel_results r = r\<lparr>r_Votes := [],
     r_EnvelopeType := Some \<lparr>Serial = False, Anonymous = False, EncryptedVotes = False,
                             UniqueValues = False, CostFromWeight = False\<rparr>,
     r_VoteOpts := Some \<lparr>MaxCount = 0, MaxValue = 0, MaxVoteOverwrites = 0, MaxTotalCost = 0, CostExponent = 0\<rparr>,
     r_Signatures := [], r_Final := False, r_BlockHeight := 0\<rparr>"

definition sync_process :: "Process \<Rightarrow> IndexerProcess \<Rightarrow> IndexerProcess" where
  "sync_process p u =
     (let u = u\<lparr>ip_EndBlock := BlockCount p + StartBlock p, ip_CensusRoot := CensusRoot p,
                ip_RollingCensusRoot := RollingCensusRoot p, ip_CensusURI := opt_string (CensusURI p),
                ip_PrivateKeys := EncryptionPrivateKeys p, ip_PublicKeys := EncryptionPublicKeys p,
                ip_RollingCensusSize := opt_u64 (RollingCensusSize p)\<rparr>;
          u = (if ip_Status u \<noteq> CANCELED \<and> Status p = CANCELED
               then u\<lparr>ip_HaveResults := False, ip_FinalResults := True, ip_Rheight := 0\<rparr> else u)
      in u\<lparr>ip_Status := Status p\<rparr>)"

definition Indexer_updateProcess :: "bytes \<Rightarrow> state \<Rightarrow> Scrutinizer \<Rightarrow> unit res \<times> Scrutinizer" where
  "Indexer_updateProcess pid s ix =
     with_res (wrap ''updateProcess: cannot fetch process %x: %w'' (Process_get pid False s)) ix (\<lambda>p.
       case map_of (ix_processes ix) pid of
         None \<Rightarrow> (Fail (Errf ''sql: no rows in result set''), ix)
       | Some u \<Rightarrow>
           (Ok (), ix\<lparr>ix_processes := put (ix_processes ix) pid (sync_process p u),
                      ix_results := (if ip_Status u \<noteq> CANCELED \<and> Status p = CANCELED
                                     then db_Update (ix_results ix) pid cancel_results else ix_results ix)\<rparr>))"

definition setResultsHeight :: "bytes \<Rightarrow> u32 \<Rightarrow> Scrutinizer \<Rightarrow> unit res \<times> Scrutinizer" where
  "setResultsHeight pid height ix =
     (if height = 0 then (Panic ''setting results height to 0?'', ix)
      else (Ok (), ix\<lparr>ix_processes := db_Update (ix_processes ix) pid (ip_Rheight_update (\<lambda>_. height))\<rparr>))"

section \<open>Live results\<close>

definition addProcessToLiveResults :: "bytes \<Rightarrow> Scrutinizer \<Rightarrow> Scrutinizer" where
  "addProcessToLiveResults pid ix = ix\<lparr>ix_liveResultsProcs := List.insert pid (ix_liveResultsProcs ix)\<rparr>"

definition delProcessFromLiveResults :: "bytes \<Rightarrow> Scrutinizer \<Rightarrow> Scrutinizer" where
  "delProcessFromLiveResults pid ix = ix\<lparr>ix_liveResultsProcs := removeAll pid (ix_liveResultsProcs ix)\<rparr>"

definition isProcessLiveResults :: "bytes \<Rightarrow> Scrutinizer \<Rightarrow> bool" where
  "isProcessLiveResults pid ix = (pid \<in> set (ix_liveResultsProcs ix))"

definition addLiveVote ::
  "params \<Rightarrow> indexer_env \<Rightarrow> state \<Rightarrow> bytes \<Rightarrow> bytes \<Rightarrow> int \<Rightarrow> Results \<Rightarrow> unit res \<times> Results" where
  "addLiveVote P E s pid votePackage weight results =
     with_res (hide ''cannot check if process is open: %v'' (isOpenProcess pid s)) results (\<lambda>open_process.
       let vote = (if open_process
                   then case unmarshalVote P (ie_OpenAnonymous E) (ie_json E) votePackage [] of
                          Ok vp \<Rightarrow> Some vp | _ \<Rightarrow> None
                   else None)
       in case vote of
            Some vp \<Rightarrow> Results_AddVote (vp_Votes vp) (Some weight) results
          | None \<Rightarrow> (Ok (), results\<lparr>r_Weight := r_Weight results + weight,
                                     r_EnvelopeHeight := r_EnvelopeHeight results + 1\<rparr>))"

text \<open>The votes of one process in a block: a vote that is refused is logged.\<close>

fun live_votes :: "params \<Rightarrow> indexer_env \<Rightarrow> state \<Rightarrow> Vote list \<Rightarrow> Results \<Rightarrow> Results res" where
  "live_votes P E s [] results = Ok results"
| "live_votes P E s (v # votes) results =
     (case addLiveVote P E s (v_ProcessId v) (v_VotePackage v) (int (big_SetBytes (v_Weight v))) results of
        (Panic m, r) \<Rightarrow> Panic m
      | (_, r) \<Rightarrow> live_votes P E s votes r)"

definition commitVotes :: "bytes \<Rightarrow> Results \<Rightarrow> Scrutinizer \<Rightarrow> unit res \<times> Scrutinizer" where
  "commitVotes pid partialResults ix =
     (let (res, ix) =
        (case map_of (ix_results ix) pid of
           None \<Rightarrow> (Ok (), ix)
         | Some stored \<Rightarrow>
             if r_Final stored then (Ok (), ix)
             else case Results_Add partialResults stored of
                    (Ok _, r) \<Rightarrow> (Ok (), ix\<lparr>ix_results := put (ix_results ix) pid r\<rparr>)
                  | (e, r) \<Rightarrow> (e, ix))
      in and_then (res, ix) (\<lambda>_ ix.
           if map_of (ix_processes ix) pid = None then (Fail (Errf ''sql: no rows in result set''), ix)
           else (Ok (), ix)))"

section \<open>Callbacks\<close>

definition Indexer_Rollback :: "Scrutinizer \<Rightarrow> Scrutinizer" where
  "Indexer_Rollback ix = ix\<lparr>ix_votePool := [], ix_voteIndexPool := [], ix_newProcessPool := [],
     ix_resultsPool := [], ix_updateProcessPool := [], ix_newTxPool := []\<rparr>"

definition Indexer_OnProcess :: "bytes \<Rightarrow> Scrutinizer \<Rightarrow> Scrutinizer" where
  "Indexer_OnProcess pid ix = ix\<lparr>ix_newProcessPool := ix_newProcessPool ix @ [pid]\<rparr>"

definition pool_vote :: "Vote \<Rightarrow> (bytes \<times> Vote list) list \<Rightarrow> (bytes \<times> Vote list) list" where
  "pool_vote v pool =
     (case map_of pool (v_ProcessId v) of
        None \<Rightarrow> pool @ [(v_ProcessId v, [v])]
      | Some vs \<Rightarrow> put pool (v_ProcessId v) (vs @ [v]))"

definition Indexer_OnVote :: "Vote \<Rightarrow> bytes \<Rightarrow> int \<Rightarrow> Scrutinizer \<Rightarrow> Scrutinizer" where
  "Indexer_OnVote v voterID txIndex ix =
     (let ix = (if \<not> ix_ignoreLiveResults ix \<and> isProcessLiveResults (v_ProcessId v) ix
                then ix\<lparr>ix_votePool := pool_vote v (ix_votePool ix)\<rparr> else ix)
      in ix\<lparr>ix_voteIndexPool := ix_voteIndexPool ix @ [\<lparr>vi_vote = v, vi_voterID = voterID, vi_txIndex = txIndex\<rparr>]\<rparr>)"

definition update_pool :: "bytes \<Rightarrow> Scrutinizer \<Rightarrow> Scrutinizer" where
  "update_pool pid ix = ix\<lparr>ix_updateProcessPool := ix_updateProcessPool ix @ [pid]\<rparr>"

definition Indexer_OnProcessStatusChange :: "bytes \<Rightarrow> ProcessStatus \<Rightarrow> state \<Rightarrow> Scrutinizer \<Rightarrow> Scrutinizer" where
  "Indexer_OnProcessStatusChange pid status s ix =
     (let ix = (if status = ENDED \<and> isOpenProcess pid s = Ok True
                then ix\<lparr>ix_resultsPool := ix_resultsPool ix @ [pid]\<rparr> else ix)
      in update_pool pid ix)"

definition Indexer_OnRevealKeys :: "bytes \<Rightarrow> state \<Rightarrow> Scrutinizer \<Rightarrow> Scrutinizer" where
  "Indexer_OnRevealKeys pid s ix =
     (case Process_get pid False s of
        Ok p \<Rightarrow>
          (case KeyIndex p of
             None \<Rightarrow> ix
           | Some k \<Rightarrow>
               let ix = (if k < 1 then ix\<lparr>ix_resultsPool := ix_resultsPool ix @ [pid]\<rparr> else ix)
               in update_pool pid ix)
      | _ \<Rightarrow> ix)"

definition Indexer_OnProcessResults :: "indexer_env \<Rightarrow> bytes \<Rightarrow> Scrutinizer \<Rightarrow> Scrutinizer" where
  "Indexer_OnProcessResults E pid ix = (if ie_Synchronizing E then ix else update_pool pid ix)"

fun update_all :: "bytes list \<Rightarrow> state \<Rightarrow> Scrutinizer \<Rightarrow> Scrutinizer res" where
  "update_all [] s ix = Ok ix"
| "update_all (pid # pids) s ix =
     (case Indexer_updateProcess pid s ix of
        (Panic m, ix') \<Rightarrow> Panic m
      | (_, ix') \<Rightarrow> update_all pids s ix')"

definition Indexer_OnNewTx :: "bytes \<Rightarrow> u32 \<Rightarrow> int \<Rightarrow> Scrutinizer \<Rightarrow> Scrutinizer" where
  "Indexer_OnNewTx hash blockHeight txIndex ix =
     ix\<lparr>ix_newTxPool := ix_newTxPool ix @
          [\<lparr>tr_Index = 0, tr_Hash = hash, tr_BlockHeight = blockHeight, tr_TxBlockIndex = txIndex\<rparr>]\<rparr>"

section \<open>Commit\<close>

fun insert_txs :: "u64 \<Rightarrow> TxReference list \<Rightarrow> (u64 \<times> TxReference) list \<Rightarrow> (u64 \<times> TxReference) list \<times> bool" where
  "insert_txs index [] t = (t, True)"
| "insert_txs index (tx # txs) t =
     (let index = index + 1
      in case db_Insert t index (tx\<lparr>tr_Index := index\<rparr>) of
           Ok t' \<Rightarrow> insert_txs index txs t'
         | _ \<Rightarrow> (t, False))"

definition indexNewTxs :: "TxReference list \<Rightarrow> Scrutinizer \<Rightarrow> Scrutinizer" where
  "indexNewTxs txList ix =
     (if txList = [] then ix
      else let (t, ok) = insert_txs (ix_countTransactions ix) txList (ix_txs ix);
               ix = ix\<lparr>ix_txs := t\<rparr>
           in if ok then ix\<lparr>ix_countTransactions := ix_countTransactions ix + of_nat (length txList)\<rparr> else ix)"

fun create_all :: "indexer_env \<Rightarrow> bytes list \<Rightarrow> state \<Rightarrow> Scrutinizer \<Rightarrow> Scrutinizer res" where
  "create_all E [] s ix = Ok ix"
| "create_all E (pid # pids) s ix =
     (case newEmptyProcess pid s ix of
        (Panic m, ix') \<Rightarrow> Panic m
      | (Fail e, ix') \<Rightarrow> create_all E pids s ix'
      | (Ok _, ix') \<Rightarrow>
          create_all E pids s (if ie_Synchronizing E then ix' else addProcessToLiveResults pid ix'))"

fun schedule_all :: "u32 \<Rightarrow> bytes list \<Rightarrow> Scrutinizer \<Rightarrow> Scrutinizer res" where
  "schedule_all height [] ix = Ok ix"
| "schedule_all height (pid # pids) ix =
     (case setResultsHeight pid (height + 1) ix of
        (Panic m, ix') \<Rightarrow> Panic m
      | (Fail e, ix') \<Rightarrow> schedule_all height pids ix'
      | (Ok _, ix') \<Rightarrow> schedule_all height pids (delProcessFromLiveResults pid ix'))"

definition addVoteIndex :: "u32 \<Rightarrow> VoteWithIndex \<Rightarrow> Scrutinizer \<Rightarrow> unit res \<times> Scrutinizer" where
  "addVoteIndex blockHeight v ix =
     with_res (db_Insert (ix_votes ix) (bz (v_Nullifier (vi_vote v)))
        \<lparr>vr_Nullifier = bz (v_Nullifier (vi_vote v)), vr_ProcessID = v_ProcessId (vi_vote v),
         vr_VoterID = Some (vi_voterID v), vr_Height = blockHeight,
         vr_Weight = int (big_SetBytes (v_Weight (vi_vote v))), vr_TxIndex = vi_txIndex v\<rparr>) ix
       (\<lambda>t. (Ok (), ix\<lparr>ix_votes := t\<rparr>))"

definition index_votes :: "u32 \<Rightarrow> Scrutinizer \<Rightarrow> Scrutinizer" where
  "index_votes height ix =
     (let pool = ix_voteIndexPool ix;
          ix = fold (\<lambda>v ix. snd (addVoteIndex height v ix)) pool ix
      in ix\<lparr>ix_countEnvelopes := ix_countEnvelopes ix + of_nat (length pool)\<rparr>)"

text \<open>\<open>ProcessInfo\<close> reads the row of a process.\<close>

definition ProcessInfo :: "bytes \<Rightarrow> Scrutinizer \<Rightarrow> IndexerProcess res" where
  "ProcessInfo pid ix = of_option (Errf ''No data found for this key'') (map_of (ix_processes ix) pid)"

definition block_results :: "IndexerProcess \<Rightarrow> Results" where
  "block_results proc =
     \<lparr>r_ProcessID = [], r_Votes = [], r_Weight = 0, r_EnvelopeHeight = 0, r_EnvelopeType = ip_Envelope proc,
      r_VoteOpts = ip_VoteOpts proc, r_Signatures = [], r_Final = False, r_BlockHeight = 0\<rparr>"

fun commit_pool ::
  "params \<Rightarrow> indexer_env \<Rightarrow> state \<Rightarrow> (bytes \<times> Vote list) list \<Rightarrow> Scrutinizer \<Rightarrow> Scrutinizer res" where
  "commit_pool P E s [] ix = Ok ix"
| "commit_pool P E s ((pid, votes) # pool) ix =
     (case ProcessInfo pid ix of
        Ok proc \<Rightarrow>
          rbind (live_votes P E s votes (block_results proc)) (\<lambda>results.
            commit_pool P E s pool (snd (commitVotes pid results ix)))
      | _ \<Rightarrow> commit_pool P E s pool ix)"

text \<open>\<open>order\<close> is the order in which Go iterates over the map of pooled votes.\<close>

definition Indexer_Commit ::
  "params \<Rightarrow> indexer_env \<Rightarrow> ((bytes \<times> Vote list) list \<Rightarrow> (bytes \<times> Vote list) list) \<Rightarrow> u32 \<Rightarrow> state \<Rightarrow>
     Scrutinizer \<Rightarrow> Scrutinizer res" where
  "Indexer_Commit P E order height s ix =
     rbind (create_all E (ix_newProcessPool ix) s ix) (\<lambda>ix.
     rbind (update_all (ix_updateProcessPool ix) s ix) (\<lambda>ix.
     rbind (schedule_all height (ix_resultsPool ix) (indexNewTxs (ix_newTxPool ix) ix)) (\<lambda>ix.
       commit_pool P E s (order (ix_votePool ix)) (index_votes height ix))))"

section \<open>Final results\<close>

definition ComputeResult :: "params \<Rightarrow> indexer_env \<Rightarrow> bytes \<Rightarrow> Scrutinizer \<Rightarrow> unit res \<times> Scrutinizer" where
  "ComputeResult P E processID ix =
     with_res (wrap ''computeResult: cannot load processID %x from database: %w'' (ProcessInfo processID ix)) ix (\<lambda>p.
     with_res (computeFinalResults P (ie_OpenAnonymous E) (ie_json E) (ie_getTx E) (ie_Height E)
                 (filter (\<lambda>v. vr_ProcessID v = processID) (map snd (ix_votes ix))) (Some p)) ix (\<lambda>results.
       (Ok (), ix\<lparr>ix_processes := db_Update (ix_processes ix) processID
                    (\<lambda>u. u\<lparr>ip_HaveResults := True, ip_FinalResults := True\<rparr>),
                  ix_results := db_Upsert (ix_results ix) processID results\<rparr>)))"

fun compute_all :: "params \<Rightarrow> indexer_env \<Rightarrow> bytes list \<Rightarrow> Scrutinizer \<Rightarrow> Scrutinizer res" where
  "compute_all P E [] ix = Ok ix"
| "compute_all P E (pid # pids) ix =
     (case ComputeResult P E pid ix of
        (Panic m, ix') \<Rightarrow> Panic m
      | (_, ix') \<Rightarrow> compute_all P E pids ix')"

definition computePendingProcesses :: "params \<Rightarrow> indexer_env \<Rightarrow> u32 \<Rightarrow> Scrutinizer \<Rightarrow> Scrutinizer res" where
  "computePendingProcesses P E height ix =
     compute_all P E (map fst (filter (\<lambda>(pid, p). ip_Rheight p = height) (ix_processes ix))) ix"

section \<open>The indexer as a listener\<close>

definition Indexer_event ::
  "params \<Rightarrow> indexer_env \<Rightarrow> ((bytes \<times> Vote list) list \<Rightarrow> (bytes \<times> Vote list) list) \<Rightarrow> event \<Rightarrow> state \<Rightarrow>
     Scrutinizer \<Rightarrow> Scrutinizer res" where
  "Indexer_event P E order ev s ix =
     (case ev of
        OnVote v voterID txIndex \<Rightarrow> Ok (Indexer_OnVote v voterID (sint txIndex) ix)
      | OnNewTx hash height txIndex \<Rightarrow> Ok (Indexer_OnNewTx hash height (sint txIndex) ix)
      | OnProcess pid eid censusRoot censusURI txIndex \<Rightarrow> Ok (Indexer_OnProcess pid ix)
      | OnProcessStatusChange pid status txIndex \<Rightarrow> Ok (Indexer_OnProcessStatusChange pid status s ix)
      | OnCancel pid txIndex \<Rightarrow> Ok (update_pool pid ix)
      | OnProcessKeys pid pub txIndex \<Rightarrow> Ok (update_pool pid ix)
      | OnRevealKeys pid priv txIndex \<Rightarrow> Ok (Indexer_OnRevealKeys pid s ix)
      | OnProcessResults pid results txIndex \<Rightarrow> Ok (Indexer_OnProcessResults E pid ix)
      | OnProcessesStart pids \<Rightarrow> update_all pids s ix
      | OnCommit height \<Rightarrow> Indexer_Commit P E order height s ix
      | OnRollback \<Rightarrow> Ok (Indexer_Rollback ix))"

section \<open>Adding the votes of a block\<close>

lemma add_questions_shape:
  assumes "shape m n A" "shape m n B"
  shows "add_questions B A = (Ok (), mat_add A B)"
  using assms
proof (induction B A arbitrary: m rule: add_questions.induct)
  case (1 b B a A)
  then have "shape (m - 1) n A" "shape (m - 1) n B" "length a = n" "length b = n"
    by (auto simp: shape_def)
  with 1(1) show ?case by (simp add: mat_add_def)
qed (auto simp: shape_def mat_add_def)

lemma Results_Add_votes:
  assumes "shape (unat (MaxCount opts)) (Suc (unat (MaxValue opts))) (r_Votes r)" "0 < unat (MaxCount opts)"
    and "results_wf opts et new"
  shows "\<exists>r'. Results_Add new r = (Ok (), r') \<and>
    r_Votes r' = mat_add (r_Votes r) (current_votes opts new) \<and>
    r_Weight r' = r_Weight r + r_Weight new \<and>
    r_EnvelopeHeight r' = r_EnvelopeHeight r + r_EnvelopeHeight new \<and>
    r_Final r' = r_Final r \<and> r_VoteOpts r' = r_VoteOpts r \<and> r_EnvelopeType r' = r_EnvelopeType r"
proof (cases "r_Votes new = []")
  case True
  have "mat_add (r_Votes r) (current_votes opts new) = r_Votes r"
    using True mat_add_zero [OF assms(1,2)] mat_add_comm [OF assms(1) shape_NewEmptyVotes [OF assms(2)]]
    by (simp add: current_votes_def)
  then show ?thesis using True by (simp add: Results_Add_def Let_def)
next
  case False
  then have sh: "shape (unat (MaxCount opts)) (Suc (unat (MaxValue opts))) (r_Votes new)"
    using assms(3) by (simp add: results_wf_def)
  show ?thesis
    using False add_questions_shape [OF assms(1) sh] shape_length [OF assms(1)] shape_length [OF sh]
    by (simp add: Results_Add_def Let_def current_votes_def)
qed

text \<open>A vote of the pool and the reference that is indexed for it: the count reads from the block
  store the package the vote carries.\<close>

definition same_ballot ::
  "indexer_env \<Rightarrow> (VoteReference \<Rightarrow> int list option res) \<Rightarrow> VoteReference \<Rightarrow> Vote \<Rightarrow> bool" where
  "same_ballot E rd txRef v \<longleftrightarrow>
     rd txRef = Ok (map_option vp_Votes (ie_json E (v_VotePackage v))) \<and>
     vr_Weight txRef = int (big_SetBytes (v_Weight v))"

lemma counted_current:
  assumes "results_wf opts et r" "0 < unat (MaxCount opts)"
  shows "current_votes opts (counted opts et w vs r) = mat_add (current_votes opts r) (contribution opts et w vs)"
proof -
  have "length (mat_add (current_votes opts r) (contribution opts et w vs)) = unat (MaxCount opts)"
    by (rule shape_length [OF shape_mat_add [OF current_votes_shape [OF assms(1)] shape_ballot]])
  then have "mat_add (current_votes opts r) (contribution opts et w vs) \<noteq> []" using assms(2) by auto
  then show ?thesis by (simp add: current_votes_def counted_def)
qed

lemma addLiveVote_open:
  assumes "isOpenProcess (v_ProcessId v) s = Ok True" "same_ballot E rd x v" "harmless rd opts et x"
    and "results_wf opts et r" "0 < unat (MaxCount opts)"
  shows "\<exists>e r'. addLiveVote P E s (v_ProcessId v) (v_VotePackage v) (int (big_SetBytes (v_Weight v))) r = (e, r') \<and>
    (\<forall>m. e \<noteq> Panic m) \<and> results_wf opts et r' \<and>
    current_votes opts r' = (case accepted rd opts et x of
        None \<Rightarrow> current_votes opts r
      | Some vs \<Rightarrow> mat_add (current_votes opts r) (contribution opts et (vr_Weight x) vs))"
proof (cases "ie_json E (v_VotePackage v)")
  case None
  then show ?thesis
    using assms by (simp add: addLiveVote_def unmarshalVote_def of_option_def same_ballot_def accepted_def
        results_wf_def current_votes_def)
next
  case (Some vp)
  then have rd: "rd x = Ok (Some (vp_Votes vp))" "int (big_SetBytes (v_Weight v)) = vr_Weight x"
    using assms(2) by (simp_all add: same_ballot_def)
  have live: "addLiveVote P E s (v_ProcessId v) (v_VotePackage v) (int (big_SetBytes (v_Weight v))) r
          = Results_AddVote (vp_Votes vp) (Some (vr_Weight x)) r"
    using assms(1) Some rd(2) by (simp add: addLiveVote_def unmarshalVote_def of_option_def)
  show ?thesis
    by (rule Results_AddVote_cases [OF assms(4), of "vr_Weight x" "vp_Votes vp"])
      (use assms(3-5) live rd(1) counted_wf [OF assms(4)] counted_current [OF assms(4,5)]
       in \<open>simp_all add: accepted_def harmless_def\<close>)
qed

lemma tally_Nil_add:
  assumes "shape (unat (MaxCount opts)) (Suc (unat (MaxValue opts))) A"
  shows "mat_add A (tally rd opts et []) = A"
  by (rule matrix_eqI [where m = "unat (MaxCount opts)" and n = "Suc (unat (MaxValue opts))"])
    (auto simp: assms shape_mat_add tally_nth mat_add_nth [of "unat (MaxCount opts)" "Suc (unat (MaxValue opts))"])

lemma live_votes_tally:
  assumes "list_all2 (same_ballot E rd) refs votes" "\<forall>v \<in> set votes. isOpenProcess (v_ProcessId v) s = Ok True"
    and "\<forall>x \<in> set refs. harmless rd opts et x" "results_wf opts et r" "0 < unat (MaxCount opts)"
  shows "\<exists>r'. live_votes P E s votes r = Ok r' \<and> results_wf opts et r' \<and>
    current_votes opts r' = mat_add (current_votes opts r) (tally rd opts et refs)"
  using assms(1-4)
proof (induction refs votes arbitrary: r rule: list_all2_induct)
  case Nil
  then show ?case using tally_Nil_add [OF current_votes_shape] by simp
next
  case (Cons x refs v votes)
  obtain e r1 where a: "addLiveVote P E s (v_ProcessId v) (v_VotePackage v) (int (big_SetBytes (v_Weight v))) r = (e, r1)"
    "\<forall>m. e \<noteq> Panic m" "results_wf opts et r1"
    "current_votes opts r1 = (case accepted rd opts et x of
        None \<Rightarrow> current_votes opts r
      | Some vs \<Rightarrow> mat_add (current_votes opts r) (contribution opts et (vr_Weight x) vs))"
    using addLiveVote_open [of v s E rd x opts et r P] Cons assms(5) by auto
  obtain r2 where r2: "live_votes P E s votes r1 = Ok r2" "results_wf opts et r2"
    "current_votes opts r2 = mat_add (current_votes opts r1) (tally rd opts et refs)"
    using Cons.IH [of r1] Cons.prems a(3) by auto
  have "live_votes P E s (v # votes) r = Ok r2"
    using a(1,2) r2(1) by (cases e) simp_all
  moreover have "current_votes opts r2 = mat_add (current_votes opts r) (tally rd opts et (x # refs))"
    using r2(3) a(4) mat_add_assoc [OF current_votes_shape [OF Cons.prems(3)] shape_ballot shape_tally]
    by (simp add: tally_Cons split: option.split)
  ultimately show ?case using r2(2) by blast
qed

text \<open>The blocks of an open process, each with its pooled votes.\<close>

fun commit_blocks :: "params \<Rightarrow> indexer_env \<Rightarrow> bytes \<Rightarrow> (state \<times> Vote list) list \<Rightarrow> Scrutinizer \<Rightarrow> Scrutinizer res" where
  "commit_blocks P E pid [] ix = Ok ix"
| "commit_blocks P E pid ((s, votes) # blocks) ix =
     rbind (commit_pool P E s [(pid, votes)] ix) (commit_blocks P E pid blocks)"

lemma tally_append:
  "tally rd opts et (xs @ ys) = mat_add (tally rd opts et xs) (tally rd opts et ys)"
proof (induction xs)
  case Nil
  have "mat_add (tally rd opts et []) (tally rd opts et ys) = mat_add (tally rd opts et ys) (tally rd opts et [])"
    by (rule mat_add_comm [OF shape_tally shape_tally])
  then show ?case using tally_Nil_add [OF shape_tally] by simp
next
  case (Cons x xs)
  then show ?case
    using mat_add_assoc [OF shape_ballot shape_tally shape_tally] by (simp add: tally_Cons split: option.split)
qed

definition live_row :: "bytes \<Rightarrow> IndexerProcess \<Rightarrow> ProcessVoteOptions \<Rightarrow> int list list \<Rightarrow> Scrutinizer \<Rightarrow> bool" where
  "live_row pid p opts votes ix \<longleftrightarrow>
     map_of (ix_processes ix) pid = Some p \<and>
     (\<exists>r. map_of (ix_results ix) pid = Some r \<and> r_Votes r = votes \<and> \<not> r_Final r)"

lemma commit_pool_row:
  assumes row: "live_row pid p opts A ix" and p: "ip_VoteOpts p = Some opts" "ip_Envelope p = Some et"
    and "shape (unat (MaxCount opts)) (Suc (unat (MaxValue opts))) A" "0 < unat (MaxCount opts)"
    and "list_all2 (same_ballot E rd) refs votes" "\<forall>v \<in> set votes. isOpenProcess (v_ProcessId v) s = Ok True"
    and "\<forall>x \<in> set refs. harmless rd opts et x"
  shows "\<exists>ix'. commit_pool P E s [(pid, votes)] ix = Ok ix' \<and>
    live_row pid p opts (mat_add A (tally rd opts et refs)) ix'"
proof -
  let ?b = "block_results p"
  have wf: "results_wf opts et ?b" "current_votes opts ?b = NewEmptyVotes (unat (MaxCount opts)) (Suc (unat (MaxValue opts)))"
    using p by (simp_all add: results_wf_def block_results_def current_votes_def)
  obtain r' where r': "live_votes P E s votes ?b = Ok r'" "results_wf opts et r'"
    "current_votes opts r' = tally rd opts et refs"
    using live_votes_tally [OF assms(6-8) wf(1) assms(5), of P] wf(2) mat_add_zero [OF shape_tally assms(5)] by auto
  obtain r where r: "map_of (ix_results ix) pid = Some r" "r_Votes r = A" "\<not> r_Final r"
    "map_of (ix_processes ix) pid = Some p"
    using row by (auto simp: live_row_def)
  obtain r2 where "Results_Add r' r = (Ok (), r2)" "r_Votes r2 = mat_add A (tally rd opts et refs)" "\<not> r_Final r2"
    using Results_Add_votes [of opts r et r'] assms(4,5) r r' by auto
  then show ?thesis
    using r r'(1) by (simp add: ProcessInfo_def of_option_def commitVotes_def live_row_def)
qed

lemma commit_blocks_row:
  assumes "live_row pid p opts A ix" and p: "ip_VoteOpts p = Some opts" "ip_Envelope p = Some et"
    and "shape (unat (MaxCount opts)) (Suc (unat (MaxValue opts))) A" "0 < unat (MaxCount opts)"
    and "list_all2 (same_ballot E rd) refs (concat (map snd blocks))"
      "\<forall>(s, votes) \<in> set blocks. \<forall>v \<in> set votes. isOpenProcess (v_ProcessId v) s = Ok True"
    and "\<forall>x \<in> set refs. harmless rd opts et x"
  shows "\<exists>ix'. commit_blocks P E pid blocks ix = Ok ix' \<and>
    live_row pid p opts (mat_add A (tally rd opts et refs)) ix'"
  using assms(1,4,6-8)
proof (induction blocks arbitrary: A ix refs)
  case Nil
  then show ?case by (simp add: tally_Nil_add)
next
  case (Cons b blocks)
  obtain s votes where b: "b = (s, votes)" by force
  obtain xs ys where refs: "refs = xs @ ys" "list_all2 (same_ballot E rd) xs votes"
    "list_all2 (same_ballot E rd) ys (concat (map snd blocks))"
    using Cons.prems(3) b by (auto simp: list_all2_append2)
  have op: "\<forall>v \<in> set votes. isOpenProcess (v_ProcessId v) s = Ok True" and hx: "\<forall>x \<in> set xs. harmless rd opts et x"
    using Cons.prems(4,5) b refs(1) by auto
  obtain ix1 where 1: "commit_pool P E s [(pid, votes)] ix = Ok ix1"
    "live_row pid p opts (mat_add A (tally rd opts et xs)) ix1"
    using commit_pool_row [OF Cons.prems(1) p Cons.prems(2) assms(5) refs(2) op hx] by blast
  obtain ix2 where 2: "commit_blocks P E pid blocks ix1 = Ok ix2"
    "live_row pid p opts (mat_add (mat_add A (tally rd opts et xs)) (tally rd opts et ys)) ix2"
    using Cons.IH [OF 1(2) shape_mat_add [OF Cons.prems(2) shape_tally] refs(3)] Cons.prems(4,5) refs(1) by auto
  have "commit_blocks P E pid (b # blocks) ix = Ok ix2"
    using 1(1) 2(1) unfolding b commit_blocks.simps by simp
  then show ?case
    using 2(2) mat_add_assoc [OF Cons.prems(2) shape_tally shape_tally] refs(1) tally_append by metis
qed

text \<open>The reference of a vote: the block store has, at its height and position, an envelope with the
  vote's package.\<close>

definition recorded :: "params \<Rightarrow> indexer_env \<Rightarrow> VoteReference \<Rightarrow> Vote \<Rightarrow> bool" where
  "recorded P E txRef v \<longleftrightarrow>
     (case reference_envelope P (ie_getTx E) txRef of
        Ok (Some env) \<Rightarrow> ve_VotePackage env = v_VotePackage v | _ \<Rightarrow> False) \<and>
     vr_Weight txRef = int (big_SetBytes (v_Weight v))"

lemma recorded_same_ballot:
  assumes "recorded P E x v" "ip_Envelope p = Some et" "\<not> EncryptedVotes et"
  shows "same_ballot E (read_vote P (ie_OpenAnonymous E) (ie_json E) (ie_getTx E) p) x v"
proof -
  obtain env where "reference_envelope P (ie_getTx E) x = Ok (Some env)" "ve_VotePackage env = v_VotePackage v"
    "vr_Weight x = int (big_SetBytes (v_Weight v))"
    using assms(1) by (auto simp: recorded_def split: res.splits option.splits)
  then show ?thesis
    using assms(2,3) by (cases "ie_json E (v_VotePackage v)")
      (simp_all add: same_ballot_def read_vote_def envelope_vote_def unmarshalVote_def of_option_def)
qed

text \<open>C9. For a process whose votes are not encrypted, the live results that the commits of its blocks
  add up hold the same votes as the final count over the references of these votes.\<close>

theorem live_results_equal_final:
  assumes p: "ip_VoteOpts p = Some opts" "ip_Envelope p = Some et"
    and opts: "0 < unat (MaxCount opts)" "unat (MaxCount opts) \<le> MaxQuestions"
      "0 < unat (MaxValue opts)" "unat (MaxValue opts) \<le> MaxOptions"
    and "\<not> EncryptedVotes et"
    and "map_of (ix_processes ix) pid = Some p" "map_of (ix_results ix) pid = Some (empty_results pid opts (Some et))"
    and "list_all2 (recorded P E) refs (concat (map snd blocks))"
    and "\<forall>(s, votes) \<in> set blocks. \<forall>v \<in> set votes. isOpenProcess (v_ProcessId v) s = Ok True"
    and "computeFinalResults P (ie_OpenAnonymous E) (ie_json E) (ie_getTx E) height refs (Some p) = Ok final"
  shows "\<exists>ix' r. commit_blocks P E pid blocks ix = Ok ix' \<and> map_of (ix_results ix') pid = Some r \<and>
    r_Votes r = r_Votes final"
proof -
  let ?rd = "read_vote P (ie_OpenAnonymous E) (ie_json E) (ie_getTx E) p"
  let ?A = "NewEmptyVotes (unat (MaxCount opts)) (Suc (unat (MaxValue opts)))"
  have f: "\<forall>x \<in> set refs. harmless ?rd opts et x" "r_Votes final = tally ?rd opts et refs"
    using assms(12) by (simp_all add: computeFinalResults_Ok [OF p opts refl])
  have "list_all2 (same_ballot E ?rd) refs (concat (map snd blocks))"
    using assms(10) by (rule list_all2_mono) (rule recorded_same_ballot [OF _ p(2) assms(7)])
  moreover have "live_row pid p opts ?A ix"
    using assms(8,9) by (simp add: live_row_def empty_results_def)
  ultimately obtain ix' where "commit_blocks P E pid blocks ix = Ok ix'"
    "live_row pid p opts (mat_add ?A (tally ?rd opts et refs)) ix'"
    using commit_blocks_row [OF _ p shape_NewEmptyVotes [OF opts(1)] opts(1) _ assms(11) f(1)] by blast
  then show ?thesis
    using f(2) mat_add_zero [OF shape_tally opts(1)] by (auto simp: live_row_def)
qed

section \<open>Scheduling\<close>

lemma map_of_db_Update [simp]:
  "map_of (db_Update t k f) k' = (if k' = k then map_option f (map_of t k) else map_of t k')"
  by (auto simp: db_Update_def split: option.split)

lemma map_of_db_Upsert [simp]:
  "map_of (db_Upsert t k v) k' = (if k' = k then Some v else map_of t k')"
  by (auto simp: db_Upsert_def map_add_def split: option.split)

lemma db_Insert_Ok_iff [res_simps]: "db_Insert t k v = Ok t' \<longleftrightarrow> map_of t k = None \<and> t' = t @ [(k, v)]"
  by (auto simp: db_Insert_def)

lemma schedule_all_row:
  assumes "height + 1 \<noteq> 0" "schedule_all height pids ix = Ok ix'"
  shows "map_of (ix_processes ix') pid = map_option
      (\<lambda>p. if pid \<in> set pids then p\<lparr>ip_Rheight := height + 1\<rparr> else p) (map_of (ix_processes ix) pid) \<and>
    (isProcessLiveResults pid ix' \<longleftrightarrow> isProcessLiveResults pid ix \<and> pid \<notin> set pids) \<and>
    ix_results ix' = ix_results ix \<and> ix_votes ix' = ix_votes ix \<and> ix_voteIndexPool ix' = ix_voteIndexPool ix \<and>
    ix_votePool ix' = ix_votePool ix"
  using assms(2)
proof (induction pids arbitrary: ix)
  case Nil
  then show ?case by (cases "map_of (ix_processes ix) pid") auto
next
  case (Cons q pids)
  let ?ix = "delProcessFromLiveResults q
     (ix\<lparr>ix_processes := db_Update (ix_processes ix) q (ip_Rheight_update (\<lambda>_. height + 1))\<rparr>)"
  have "schedule_all height pids ?ix = Ok ix'"
    using Cons.prems assms(1) by (simp add: setResultsHeight_def)
  from Cons.IH [OF this] show ?case
    by (cases "map_of (ix_processes ix) pid")
      (auto simp: delProcessFromLiveResults_def isProcessLiveResults_def)
qed

lemma schedule_all_Ok: "height + 1 \<noteq> 0 \<Longrightarrow> \<exists>ix'. schedule_all height pids ix = Ok ix'"
  by (induction pids arbitrary: ix) (auto simp: setResultsHeight_def)

section \<open>The invariant of the database\<close>

text \<open>Every indexed process has its results and options within the limits, every matrix has the
  shape of its options (a cancelled process has none), and the transactions are numbered from one
  without gaps.\<close>

definition options_ok :: "ProcessVoteOptions option \<Rightarrow> bool" where
  "options_ok vo = (case vo of None \<Rightarrow> False
     | Some opts \<Rightarrow> MaxCount opts \<noteq> 0 \<and> unat (MaxCount opts) \<le> MaxQuestions \<and> unat (MaxValue opts) \<le> MaxOptions)"

definition matrix_ok :: "Results \<Rightarrow> bool" where
  "matrix_ok r \<longleftrightarrow> r_Votes r = [] \<or>
     (case r_VoteOpts r of None \<Rightarrow> False
      | Some opts \<Rightarrow> shape (unat (MaxCount opts)) (Suc (unat (MaxValue opts))) (r_Votes r))"

definition tables_ok :: "(bytes \<rightharpoonup> IndexerProcess) \<Rightarrow> (bytes \<rightharpoonup> Results) \<Rightarrow> bool" where
  "tables_ok processes results \<longleftrightarrow>
     (\<forall>pid p. processes pid = Some p \<longrightarrow> ip_ID p = pid \<and> options_ok (ip_VoteOpts p) \<and>
        ip_Envelope p \<noteq> None \<and> results pid \<noteq> None) \<and>
     (\<forall>pid r. results pid = Some r \<longrightarrow> matrix_ok r)"

abbreviation tables_wf :: "Scrutinizer \<Rightarrow> bool" where
  "tables_wf ix \<equiv> tables_ok (map_of (ix_processes ix)) (map_of (ix_results ix))"

lemma tables_ok_result: "tables_ok ps rs \<Longrightarrow> matrix_ok r \<Longrightarrow> tables_ok ps (rs(pid \<mapsto> r))"
  by (auto simp: tables_ok_def)

lemma tables_ok_process:
  "tables_ok ps rs \<Longrightarrow> ip_ID p = pid \<Longrightarrow> options_ok (ip_VoteOpts p) \<Longrightarrow> ip_Envelope p \<noteq> None \<Longrightarrow>
     rs pid \<noteq> None \<Longrightarrow> tables_ok (ps(pid \<mapsto> p)) rs"
  by (auto simp: tables_ok_def)

lemma tables_okD:
  "tables_ok ps rs \<Longrightarrow> ps pid = Some p \<Longrightarrow> ip_ID p = pid \<and> options_ok (ip_VoteOpts p) \<and> ip_Envelope p \<noteq> None \<and> rs pid \<noteq> None"
  "tables_ok ps rs \<Longrightarrow> rs pid = Some r \<Longrightarrow> matrix_ok r"
  by (auto simp: tables_ok_def)

lemma map_add_new: "m k = None \<Longrightarrow> [k \<mapsto> v] ++ m = m(k \<mapsto> v)"
  by (auto simp: map_add_def fun_eq_iff split: option.split)

lemma map_of_put_some: "map_of t k \<noteq> None \<Longrightarrow> map_of (put t k v) = (map_of t)(k \<mapsto> v)"
  by (auto simp: fun_eq_iff)

definition txs_wf :: "Scrutinizer \<Rightarrow> bool" where
  "txs_wf ix \<longleftrightarrow>
     (\<forall>i. map_of (ix_txs ix) i \<noteq> None \<longleftrightarrow> 0 < unat i \<and> unat i \<le> unat (ix_countTransactions ix))"

definition same_txs :: "Scrutinizer \<Rightarrow> Scrutinizer \<Rightarrow> bool" where
  "same_txs ix ix' \<longleftrightarrow> ix_txs ix' = ix_txs ix \<and> ix_countTransactions ix' = ix_countTransactions ix \<and>
     ix_newTxPool ix' = ix_newTxPool ix"

lemma same_txs_wf: "same_txs ix ix' \<Longrightarrow> txs_wf ix \<Longrightarrow> txs_wf ix'"
  by (simp add: same_txs_def txs_wf_def)

lemma same_txs_trans: "same_txs ix ix' \<Longrightarrow> same_txs ix' ix'' \<Longrightarrow> same_txs ix ix''"
  by (simp add: same_txs_def)

lemma same_txs_refl: "same_txs ix ix"
  by (simp add: same_txs_def)

subsection \<open>Processes\<close>

lemma empty_results_ok: "MaxCount opts \<noteq> 0 \<Longrightarrow> matrix_ok (empty_results pid opts et)"
  using shape_NewEmptyVotes [of "unat (MaxCount opts)" "unat (MaxValue opts)"]
  by (simp add: matrix_ok_def empty_results_def unat_gt_0)

lemma isOpenProcess_type: "Process_get pid False s = Ok p \<Longrightarrow> isOpenProcess pid s = Ok b \<Longrightarrow> EnvelopeTypeOf p \<noteq> None"
  by (auto simp: isOpenProcess_def split: option.splits)

lemma newEmptyProcess_keeps:
  assumes "tables_wf ix"
  shows "tables_wf (snd (newEmptyProcess pid s ix)) \<and> same_txs ix (snd (newEmptyProcess pid s ix))"
proof (cases "Process_get pid False s")
  case (Ok p)
  show ?thesis
  proof (cases "VoteOptions p")
    case (Some opts)
    let ?bad = "MaxCount opts = 0 \<or> MaxQuestions < unat (MaxCount opts) \<or> MaxOptions < unat (MaxValue opts) \<or>
       map_of (ix_results ix) pid \<noteq> None"
    show ?thesis
    proof (cases ?bad)
      case True
      then show ?thesis
        using assms Ok Some by (auto simp: newEmptyProcess_def db_Insert_def same_txs_refl)
    next
      case False
      let ?r = "empty_results pid opts (EnvelopeTypeOf p)"
      have r: "tables_ok (map_of (ix_processes ix)) ((map_of (ix_results ix))(pid \<mapsto> ?r))"
        by (rule tables_ok_result [OF assms empty_results_ok]) (use False in simp)
      have n: "tables_ok ((map_of (ix_processes ix))(pid \<mapsto> new_indexer_process pid p h)) ((map_of (ix_results ix))(pid \<mapsto> ?r))"
        if "EnvelopeTypeOf p \<noteq> None" for h
        by (rule tables_ok_process [OF r]) (use False Some that in \<open>auto simp: new_indexer_process_def options_ok_def\<close>)
      show ?thesis
        using Ok Some False r n isOpenProcess_type [OF Ok]
        by (cases "isOpenProcess pid s"; cases "map_of (ix_processes ix) pid")
          (auto simp: newEmptyProcess_def db_Insert_def Let_def same_txs_def map_add_new)
    qed
  qed (use assms Ok in \<open>simp add: newEmptyProcess_def same_txs_refl\<close>)
qed (use assms in \<open>simp_all add: newEmptyProcess_def same_txs_refl\<close>)

lemma sync_process_sel [simp]:
  "ip_ID (sync_process p u) = ip_ID u" "ip_VoteOpts (sync_process p u) = ip_VoteOpts u"
  "ip_Envelope (sync_process p u) = ip_Envelope u"
  by (simp_all add: sync_process_def Let_def)

lemma Indexer_updateProcess_keeps:
  assumes "tables_wf ix"
  shows "tables_wf (snd (Indexer_updateProcess pid s ix)) \<and> same_txs ix (snd (Indexer_updateProcess pid s ix))"
proof (cases "Process_get pid False s")
  case (Ok p)
  show ?thesis
  proof (cases "map_of (ix_processes ix) pid")
    case (Some u)
    note u = tables_okD(1) [OF assms Some]
    have r: "tables_ok (map_of (ix_processes ix)) (map_of (db_Update (ix_results ix) pid cancel_results))"
    proof (cases "map_of (ix_results ix) pid")
      case (Some r)
      then have "tables_ok (map_of (ix_processes ix)) ((map_of (ix_results ix))(pid \<mapsto> cancel_results r))"
        by (intro tables_ok_result [OF assms]) (simp add: matrix_ok_def cancel_results_def)
      then show ?thesis using Some by (simp add: db_Update_def map_of_put_some)
    qed (use u in simp)
    have "tables_ok (map_of (put (ix_processes ix) pid (sync_process p u))) rs"
      if "tables_ok (map_of (ix_processes ix)) rs" "rs pid \<noteq> None" for rs
      using tables_ok_process [OF that(1), of "sync_process p u" pid] u that Some by (simp add: map_of_put_some)
    then show ?thesis
      using assms Ok Some u r by (auto simp: Indexer_updateProcess_def same_txs_def)
  qed (use assms Ok in \<open>simp add: Indexer_updateProcess_def same_txs_refl\<close>)
qed (use assms in \<open>simp_all add: Indexer_updateProcess_def same_txs_refl\<close>)

lemma create_all_keeps:
  "tables_wf ix \<Longrightarrow> create_all E pids s ix = Ok ix' \<Longrightarrow> tables_wf ix' \<and> same_txs ix ix'"
proof (induction pids arbitrary: ix)
  case (Cons pid pids)
  obtain e ix1 where e: "newEmptyProcess pid s ix = (e, ix1)" by force
  note k = newEmptyProcess_keeps [OF Cons.prems(1), of pid s, unfolded e, simplified]
  let ?ix = "case e of Ok _ \<Rightarrow> if ie_Synchronizing E then ix1 else addProcessToLiveResults pid ix1 | _ \<Rightarrow> ix1"
  have "create_all E pids s ?ix = Ok ix'" using Cons.prems(2) e by (cases e) simp_all
  moreover have "tables_wf ?ix" "same_txs ix ?ix"
    using k by (auto simp: addProcessToLiveResults_def same_txs_def split: res.split)
  ultimately show ?case using Cons.IH [of ?ix] same_txs_trans by blast
qed (simp add: same_txs_refl)

lemma update_all_keeps:
  "tables_wf ix \<Longrightarrow> update_all pids s ix = Ok ix' \<Longrightarrow> tables_wf ix' \<and> same_txs ix ix'"
proof (induction pids arbitrary: ix)
  case (Cons pid pids)
  obtain e ix1 where e: "Indexer_updateProcess pid s ix = (e, ix1)" by force
  have "update_all pids s ix1 = Ok ix'" using Cons.prems(2) e by (cases e) simp_all
  then show ?case
    using Cons.IH [of ix1] Indexer_updateProcess_keeps [OF Cons.prems(1), of pid s] e same_txs_trans by auto
qed (simp add: same_txs_refl)

lemma schedule_all_keeps:
  "tables_wf ix \<Longrightarrow> schedule_all h pids ix = Ok ix' \<Longrightarrow> tables_wf ix' \<and> same_txs ix ix'"
proof (induction pids arbitrary: ix)
  case (Cons pid pids)
  let ?ps = "db_Update (ix_processes ix) pid (ip_Rheight_update (\<lambda>_. h + 1))"
  let ?ix = "delProcessFromLiveResults pid (ix\<lparr>ix_processes := ?ps\<rparr>)"
  have s: "schedule_all h pids ?ix = Ok ix'"
    using Cons.prems(2) by (simp add: setResultsHeight_def split: if_splits)
  have "tables_ok (map_of ?ps) (map_of (ix_results ix))"
  proof (cases "map_of (ix_processes ix) pid")
    case (Some u)
    note u = tables_okD(1) [OF Cons.prems(1) Some]
    have "tables_ok ((map_of (ix_processes ix))(pid \<mapsto> u\<lparr>ip_Rheight := h + 1\<rparr>)) (map_of (ix_results ix))"
      by (rule tables_ok_process [OF Cons.prems(1)]) (use u in simp_all)
    then show ?thesis using Some by (simp add: db_Update_def map_of_put_some)
  qed (use Cons.prems(1) in \<open>simp add: db_Update_def\<close>)
  then have "tables_wf ?ix" "same_txs ix ?ix"
    by (simp_all add: delProcessFromLiveResults_def same_txs_def)
  with Cons.IH [OF _ s] show ?case using same_txs_trans by blast
qed (simp add: same_txs_refl)

subsection \<open>Results\<close>

lemma add_questions_lengths: "map length (snd (add_questions new old)) = map length old"
  by (induction new old rule: add_questions.induct) (auto simp: Let_def split: prod.split)

lemma shape_iff: "shape m n A \<longleftrightarrow> map length A = replicate m n"
proof -
  have "map length A = replicate m n \<longleftrightarrow> length A = m \<and> map length A = map (\<lambda>_. n) A"
    by (metis map_replicate_const length_map length_replicate)
  then show ?thesis by (auto simp: shape_def)
qed

lemma matrix_ok_lengths:
  assumes "matrix_ok r" "map length (r_Votes r') = map length (r_Votes r)" "r_VoteOpts r' = r_VoteOpts r"
  shows "matrix_ok r'"
proof -
  have "r_Votes r' = [] \<longleftrightarrow> r_Votes r = []" using assms(2) by (metis map_is_Nil_conv)
  then show ?thesis using assms by (cases "r_VoteOpts r") (simp_all add: matrix_ok_def shape_iff)
qed

lemma Results_Add_ok: "matrix_ok r \<Longrightarrow> matrix_ok (snd (Results_Add new r))"
proof (erule matrix_ok_lengths)
  show "map length (r_Votes (snd (Results_Add new r))) = map length (r_Votes r)"
    using add_questions_lengths [of "r_Votes new" "r_Votes r"]
    by (auto simp: Results_Add_def Let_def split: prod.split)
  show "r_VoteOpts (snd (Results_Add new r)) = r_VoteOpts r"
    by (simp add: Results_Add_def Let_def split: prod.split)
qed

lemma commitVotes_keeps:
  assumes "tables_wf ix"
  shows "tables_wf (snd (commitVotes pid new ix)) \<and> same_txs ix (snd (commitVotes pid new ix))"
proof (cases "map_of (ix_results ix) pid")
  case (Some r)
  obtain e r' where e: "Results_Add new r = (e, r')" by force
  have "tables_ok (map_of (ix_processes ix)) ((map_of (ix_results ix))(pid \<mapsto> r'))"
    using tables_ok_result [OF assms Results_Add_ok [OF tables_okD(2) [OF assms Some], of new]] e by simp
  then show ?thesis
    using assms Some e by (cases e) (auto simp: commitVotes_def same_txs_def map_of_put_some)
qed (use assms in \<open>simp add: commitVotes_def same_txs_refl\<close>)

lemma commit_pool_keeps:
  "tables_wf ix \<Longrightarrow> commit_pool P E s pool ix = Ok ix' \<Longrightarrow> tables_wf ix' \<and> same_txs ix ix'"
proof (induction pool arbitrary: ix)
  case (Cons x pool)
  obtain pid votes where x: "x = (pid, votes)" by force
  have "\<exists>ix1. commit_pool P E s pool ix1 = Ok ix' \<and> tables_wf ix1 \<and> same_txs ix ix1"
  proof (cases "ProcessInfo pid ix")
    case (Ok p)
    then show ?thesis
      using Cons.prems x commitVotes_keeps [OF Cons.prems(1)] by (auto simp: rbind_Ok_iff)
  qed (use Cons.prems x same_txs_refl in auto)
  then show ?case using Cons.IH same_txs_trans by blast
qed (simp add: same_txs_refl)

subsection \<open>Transactions\<close>

lemma unat_index: "unat (n :: u64) + k < 2 ^ 64 \<Longrightarrow> unat (n + of_nat k) = unat n + k"
  by (simp add: unat_word_ariths unat_of_nat)

lemma insert_txs_dense:
  assumes "\<forall>i. map_of t i \<noteq> None \<longleftrightarrow> 0 < unat i \<and> unat i \<le> unat (n :: u64)" "unat n + length txs < 2 ^ 64"
  shows "\<exists>t'. insert_txs n txs t = (t', True) \<and>
    (\<forall>i. map_of t' i \<noteq> None \<longleftrightarrow> 0 < unat i \<and> unat i \<le> unat n + length txs) \<and>
    (\<forall>k < length txs. map_of t' (n + of_nat (Suc k)) = Some ((txs ! k)\<lparr>tr_Index := n + of_nat (Suc k)\<rparr>)) \<and>
    (\<forall>i. unat i \<le> unat n \<longrightarrow> map_of t' i = map_of t i)"
  using assms
proof (induction txs arbitrary: n t)
  case (Cons tx txs)
  have u: "unat (n + 1) = unat n + 1" using Cons.prems(2) unat_index [of n 1] by simp
  have new: "map_of t (n + 1) = None" using Cons.prems(1) u by (metis not_less_eq_eq Suc_eq_plus1 order_refl)
  let ?t = "t @ [(n + 1, tx\<lparr>tr_Index := n + 1\<rparr>)]"
  have eq: "i = n + 1 \<longleftrightarrow> unat i = Suc (unat n)" for i using u by (metis Suc_eq_plus1 unsigned_word_eqI)
  have t: "\<forall>i. map_of ?t i \<noteq> None \<longleftrightarrow> 0 < unat i \<and> unat i \<le> unat (n + 1)"
  proof -
    have "map_of ?t i \<noteq> None \<longleftrightarrow> map_of t i \<noteq> None \<or> i = n + 1" for i
      by (auto simp: map_add_def split: option.split)
    then have "map_of ?t i \<noteq> None \<longleftrightarrow> (0 < unat i \<and> unat i \<le> unat n) \<or> unat i = Suc (unat n)" for i
      using Cons.prems(1) eq by metis
    moreover have "(0 < unat i \<and> unat i \<le> unat n) \<or> unat i = Suc (unat n) \<longleftrightarrow> 0 < unat i \<and> unat i \<le> unat (n + 1)" for i :: u64
      unfolding u by auto
    ultimately show ?thesis by blast
  qed
  obtain t' where t': "insert_txs (n + 1) txs ?t = (t', True)"
    "\<forall>i. map_of t' i \<noteq> None \<longleftrightarrow> 0 < unat i \<and> unat i \<le> unat (n + 1) + length txs"
    "\<forall>k < length txs. map_of t' (n + 1 + of_nat (Suc k)) = Some ((txs ! k)\<lparr>tr_Index := n + 1 + of_nat (Suc k)\<rparr>)"
    "\<forall>i. unat i \<le> unat (n + 1) \<longrightarrow> map_of t' i = map_of ?t i"
    using Cons.IH [OF t] Cons.prems(2) u by auto
  have "insert_txs n (tx # txs) t = (t', True)" using t'(1) new by (simp add: db_Insert_def)
  moreover have "map_of t' (n + of_nat (Suc k)) = Some (((tx # txs) ! k)\<lparr>tr_Index := n + of_nat (Suc k)\<rparr>)"
    if "k < length (tx # txs)" for k
  proof (cases k)
    case 0
    have "map_of t' (n + 1) = map_of ?t (n + 1)" using t'(4) by blast
    then show ?thesis using 0 new by (simp add: map_add_def)
  next
    case (Suc j)
    have "n + 1 + of_nat (Suc j) = n + of_nat (Suc k)" using Suc by (simp add: add.commute)
    then show ?thesis using Suc that t'(3) by (metis length_Cons not_less_eq nth_Cons_Suc)
  qed
  moreover have "map_of t' i = map_of t i" if "unat i \<le> unat n" for i
  proof -
    have "i \<noteq> n + 1" using that u by auto
    moreover have "map_of t' i = map_of ?t i" using that u t'(4) by simp
    ultimately show ?thesis by (simp add: map_add_def split: option.split)
  qed
  ultimately show ?case using t'(2) u by auto
qed simp

lemma indexNewTxs_keeps:
  assumes "txs_wf ix" "unat (ix_countTransactions ix) + length txs < 2 ^ 64"
  shows "txs_wf (indexNewTxs txs ix)"
    "\<forall>k < length txs. map_of (ix_txs (indexNewTxs txs ix)) (ix_countTransactions ix + of_nat (Suc k))
       = Some ((txs ! k)\<lparr>tr_Index := ix_countTransactions ix + of_nat (Suc k)\<rparr>)"
    "map_of (ix_txs ix) i = Some tx \<Longrightarrow> map_of (ix_txs (indexNewTxs txs ix)) i = Some tx"
    "ix_countTransactions (indexNewTxs txs ix) = ix_countTransactions ix + of_nat (length txs)"
proof -
  obtain t' where t': "insert_txs (ix_countTransactions ix) txs (ix_txs ix) = (t', True)"
    "\<forall>i. map_of t' i \<noteq> None \<longleftrightarrow> 0 < unat i \<and> unat i \<le> unat (ix_countTransactions ix) + length txs"
    "\<forall>k < length txs. map_of t' (ix_countTransactions ix + of_nat (Suc k))
       = Some ((txs ! k)\<lparr>tr_Index := ix_countTransactions ix + of_nat (Suc k)\<rparr>)"
    "\<forall>i. unat i \<le> unat (ix_countTransactions ix) \<longrightarrow> map_of t' i = map_of (ix_txs ix) i"
    using insert_txs_dense [of "ix_txs ix" "ix_countTransactions ix" txs] assms by (auto simp: txs_wf_def)
  have ix: "indexNewTxs txs ix = ix\<lparr>ix_txs := t', ix_countTransactions := ix_countTransactions ix + of_nat (length txs)\<rparr>"
    using t'(1) by (cases "txs = []") (simp_all add: indexNewTxs_def)
  show "txs_wf (indexNewTxs txs ix)"
    using t'(2) unat_index [OF assms(2)] by (simp add: ix txs_wf_def)
  show "\<forall>k < length txs. map_of (ix_txs (indexNewTxs txs ix)) (ix_countTransactions ix + of_nat (Suc k))
       = Some ((txs ! k)\<lparr>tr_Index := ix_countTransactions ix + of_nat (Suc k)\<rparr>)"
    using t'(3) by (simp add: ix)
  show "map_of (ix_txs (indexNewTxs txs ix)) i = Some tx" if "map_of (ix_txs ix) i = Some tx"
  proof -
    have "map_of (ix_txs ix) i \<noteq> None" using that by simp
    then have "unat i \<le> unat (ix_countTransactions ix)" using assms(1) unfolding txs_wf_def by blast
    then show ?thesis using t'(4) that by (simp add: ix)
  qed
  show "ix_countTransactions (indexNewTxs txs ix) = ix_countTransactions ix + of_nat (length txs)"
    by (simp add: ix)
qed

lemma indexNewTxs_tables [simp]:
  "ix_processes (indexNewTxs txs ix) = ix_processes ix" "ix_results (indexNewTxs txs ix) = ix_results ix"
  "ix_resultsPool (indexNewTxs txs ix) = ix_resultsPool ix" "ix_votes (indexNewTxs txs ix) = ix_votes ix"
  "ix_voteIndexPool (indexNewTxs txs ix) = ix_voteIndexPool ix" "ix_votePool (indexNewTxs txs ix) = ix_votePool ix"
  by (simp_all add: indexNewTxs_def Let_def split: prod.split)

definition votes_only :: "Scrutinizer \<Rightarrow> Scrutinizer \<Rightarrow> bool" where
  "votes_only ix ix' \<longleftrightarrow> ix_processes ix' = ix_processes ix \<and> ix_results ix' = ix_results ix \<and>
     same_txs ix ix' \<and> ix_votePool ix' = ix_votePool ix"

lemma votes_only_trans: "votes_only ix ix' \<Longrightarrow> votes_only ix' ix'' \<Longrightarrow> votes_only ix ix''"
  by (simp add: votes_only_def same_txs_def)

lemma votes_only_fold: "votes_only ix (fold (\<lambda>v ix. snd (addVoteIndex h v ix)) pool ix)"
proof (induction pool arbitrary: ix)
  case (Cons v pool)
  have "votes_only ix (snd (addVoteIndex h v ix))"
    by (simp add: votes_only_def addVoteIndex_def db_Insert_def same_txs_def)
  from votes_only_trans [OF this Cons] show ?case by simp
qed (simp add: votes_only_def same_txs_def)

lemma index_votes_same [simp]:
  "ix_processes (index_votes h ix) = ix_processes ix" "ix_results (index_votes h ix) = ix_results ix"
  "same_txs ix (index_votes h ix)" "ix_votePool (index_votes h ix) = ix_votePool ix"
  using votes_only_fold [of ix h "ix_voteIndexPool ix"]
  by (simp_all add: index_votes_def Let_def votes_only_def same_txs_def)

lemma Indexer_Commit_keeps:
  assumes "tables_wf ix" "txs_wf ix" "unat (ix_countTransactions ix) + length (ix_newTxPool ix) < 2 ^ 64"
    and "Indexer_Commit P E order h s ix = Ok ix'"
  shows "tables_wf ix' \<and> txs_wf ix'"
proof -
  obtain ix1 ix2 ix3 where c: "create_all E (ix_newProcessPool ix) s ix = Ok ix1"
    "update_all (ix_updateProcessPool ix1) s ix1 = Ok ix2"
    "schedule_all h (ix_resultsPool ix2) (indexNewTxs (ix_newTxPool ix2) ix2) = Ok ix3"
    "commit_pool P E s (order (ix_votePool ix3)) (index_votes h ix3) = Ok ix'"
    using assms(4) by (auto simp: Indexer_Commit_def rbind_Ok_iff)
  have 1: "tables_wf ix1" "same_txs ix ix1" using create_all_keeps [OF assms(1) c(1)] by auto
  have 2: "tables_wf ix2" "same_txs ix ix2"
    using update_all_keeps [OF 1(1) c(2)] same_txs_trans [OF 1(2)] by auto
  let ?ix = "indexNewTxs (ix_newTxPool ix2) ix2"
  have i: "txs_wf ?ix"
    using indexNewTxs_keeps(1) [OF same_txs_wf [OF 2(2) assms(2)]] 2(2) assms(3) by (simp add: same_txs_def)
  have 3: "tables_wf ix3" "same_txs ?ix ix3" using schedule_all_keeps [of ?ix] 2(1) c(3) by auto
  have 4: "tables_wf ix'" "same_txs (index_votes h ix3) ix'"
    using commit_pool_keeps [OF _ c(4)] 3(1) by auto
  have "same_txs ?ix ix'" by (meson same_txs_trans 3(2) 4(2) index_votes_same(3))
  then show ?thesis using 4(1) i same_txs_wf by blast
qed

subsection \<open>Final results\<close>

lemma ComputeResult_keeps:
  assumes "tables_wf ix"
  shows "tables_wf (snd (ComputeResult P E pid ix)) \<and> same_txs ix (snd (ComputeResult P E pid ix))"
proof (cases "map_of (ix_processes ix) pid")
  case (Some p)
  note p = tables_okD(1) [OF assms Some]
  let ?f = "computeFinalResults P (ie_OpenAnonymous E) (ie_json E) (ie_getTx E) (ie_Height E)
      (filter (\<lambda>v. vr_ProcessID v = pid) (map snd (ix_votes ix))) (Some p)"
  show ?thesis
  proof (cases ?f)
    case (Ok r)
    obtain opts et where o: "ip_VoteOpts p = Some opts" "ip_Envelope p = Some et" "MaxCount opts \<noteq> 0"
      "unat (MaxCount opts) \<le> MaxQuestions" "unat (MaxValue opts) \<le> MaxOptions"
      using p by (auto simp: options_ok_def split: option.splits)
    have v: "MaxValue opts \<noteq> 0" using Ok o(1) by (auto simp: computeFinalResults_def split: if_splits)
    have "r_Votes r = tally (read_vote P (ie_OpenAnonymous E) (ie_json E) (ie_getTx E) p) opts et
        (filter (\<lambda>v. vr_ProcessID v = pid) (map snd (ix_votes ix))) \<and> r_VoteOpts r = Some opts"
      using Ok o v by (simp add: computeFinalResults_Ok [OF o(1,2) _ o(4) _ o(5) refl] unat_gt_0)
    then have "matrix_ok r" by (simp add: matrix_ok_def)
    then have "tables_ok (map_of (ix_processes ix)) ((map_of (ix_results ix))(pid \<mapsto> r))"
      by (rule tables_ok_result [OF assms])
    then have "tables_ok ((map_of (ix_processes ix))(pid \<mapsto> p\<lparr>ip_HaveResults := True, ip_FinalResults := True\<rparr>))
        ((map_of (ix_results ix))(pid \<mapsto> r))"
      by (rule tables_ok_process) (use p in simp_all)
    moreover have "map_of (db_Upsert (ix_results ix) pid r) = (map_of (ix_results ix))(pid \<mapsto> r)"
      by (simp add: fun_eq_iff)
    moreover have "map_of (db_Update (ix_processes ix) pid (\<lambda>u. u\<lparr>ip_HaveResults := True, ip_FinalResults := True\<rparr>))
        = (map_of (ix_processes ix))(pid \<mapsto> p\<lparr>ip_HaveResults := True, ip_FinalResults := True\<rparr>)"
      using Some by (simp add: fun_eq_iff)
    ultimately show ?thesis
      using Some Ok by (simp add: ComputeResult_def ProcessInfo_def of_option_def same_txs_def)
  qed (use assms Some in \<open>simp_all add: ComputeResult_def ProcessInfo_def of_option_def same_txs_refl\<close>)
qed (use assms in \<open>simp add: ComputeResult_def ProcessInfo_def of_option_def same_txs_refl\<close>)

lemma compute_all_keeps:
  "tables_wf ix \<Longrightarrow> compute_all P E pids ix = Ok ix' \<Longrightarrow> tables_wf ix' \<and> same_txs ix ix'"
proof (induction pids arbitrary: ix)
  case (Cons pid pids)
  obtain e ix1 where e: "ComputeResult P E pid ix = (e, ix1)" by force
  have "compute_all P E pids ix1 = Ok ix'" using Cons.prems(2) e by (cases e) simp_all
  then show ?case
    using Cons.IH [of ix1] ComputeResult_keeps [OF Cons.prems(1), of P E pid] e same_txs_trans by auto
qed (simp add: same_txs_refl)

text \<open>C20. The indexer's database keeps its invariant through every callback of the state and through the
  computation of final results.\<close>

theorem indexer_invariant:
  assumes "tables_wf ix" "txs_wf ix" "unat (ix_countTransactions ix) + length (ix_newTxPool ix) < 2 ^ 64"
    and "Indexer_event P E order ev s ix = Ok ix' \<or> computePendingProcesses P E height ix = Ok ix'"
  shows "tables_wf ix' \<and> txs_wf ix'"
  using assms(4)
proof
  assume "computePendingProcesses P E height ix = Ok ix'"
  then show ?thesis
    unfolding computePendingProcesses_def using compute_all_keeps [OF assms(1)] same_txs_wf [OF _ assms(2)] by blast
next
  assume ev: "Indexer_event P E order ev s ix = Ok ix'"
  have pool: "tables_wf (update_pool pid ix)" "txs_wf (update_pool pid ix)" for pid
    using assms(1,2) by (simp_all add: update_pool_def txs_wf_def)
  show ?thesis
  proof (cases ev)
    case (OnCommit h)
    then show ?thesis using Indexer_Commit_keeps [OF assms(1-3)] ev by (simp add: Indexer_event_def)
  next
    case (OnProcessesStart pids)
    then show ?thesis
      using update_all_keeps [OF assms(1), of pids s ix'] same_txs_wf [OF _ assms(2), of ix'] ev
      by (simp add: Indexer_event_def)
  qed (use ev assms(1,2) pool in \<open>auto simp: Indexer_event_def Indexer_OnVote_def Indexer_OnNewTx_def
        Indexer_OnProcess_def Indexer_OnProcessStatusChange_def Indexer_OnRevealKeys_def
        Indexer_OnProcessResults_def Indexer_Rollback_def update_pool_def txs_wf_def Let_def
        split: if_splits res.splits option.splits\<close>)
qed

section \<open>Final results of scheduled processes\<close>

definition final_count :: "params \<Rightarrow> indexer_env \<Rightarrow> bytes \<Rightarrow> Scrutinizer \<Rightarrow> IndexerProcess \<Rightarrow> Results res" where
  "final_count P E pid ix p =
     computeFinalResults P (ie_OpenAnonymous E) (ie_json E) (ie_getTx E) (ie_Height E)
       (filter (\<lambda>v. vr_ProcessID v = pid) (map snd (ix_votes ix))) (Some p)"

definition countable :: "params \<Rightarrow> indexer_env \<Rightarrow> Scrutinizer \<Rightarrow> bytes \<Rightarrow> bool" where
  "countable P E ix pid \<longleftrightarrow>
     (case map_of (ix_processes ix) pid of None \<Rightarrow> False | Some p \<Rightarrow> is_ok (final_count P E pid ix p))"

definition has_final_results :: "Scrutinizer \<Rightarrow> bytes \<Rightarrow> bool" where
  "has_final_results ix pid \<longleftrightarrow>
     (case (map_of (ix_processes ix) pid, map_of (ix_results ix) pid) of
        (Some p, Some r) \<Rightarrow> ip_FinalResults p \<and> ip_HaveResults p \<and> r_Final r | _ \<Rightarrow> False)"

lemma envelope_vote_flags [simp]:
  "envelope_vote P OpenA json (p\<lparr>ip_HaveResults := a, ip_FinalResults := b\<rparr>) = envelope_vote P OpenA json p"
  by (simp add: envelope_vote_def fun_eq_iff)

lemma final_callback_flags [simp]:
  "final_callback P OpenA json (p\<lparr>ip_HaveResults := a, ip_FinalResults := b\<rparr>) = final_callback P OpenA json p"
  by (simp add: final_callback_def fun_eq_iff)

lemma computeFinalResults_flags:
  "computeFinalResults P OpenA json getTx h refs (Some (p\<lparr>ip_HaveResults := a, ip_FinalResults := b\<rparr>))
     = computeFinalResults P OpenA json getTx h refs (Some p)"
  by (cases "ip_VoteOpts p") (simp_all add: computeFinalResults_def)

lemma computeFinalResults_Final:
  assumes "computeFinalResults P OpenA json getTx h refs (Some p) = Ok r"
  shows "r_Final r"
proof -
  have add: "r_Final (snd (Results_AddVote vs w r)) = r_Final r" for vs w r
    by (cases "check_ballot (the (r_VoteOpts r)) (the (r_EnvelopeType r)) w vs")
      (auto simp: Results_AddVote_def count_ballot_def Let_def split: option.split prod.split)
  have "WalkEnvelopes P getTx (final_callback P OpenA json p) refs s = Ok s' \<Longrightarrow> r_Final (fst s') = r_Final (fst s)" for s s'
  proof (induction refs arbitrary: s)
    case (Cons x refs)
    have "final_callback P OpenA json p v w s = Ok t \<Longrightarrow> r_Final (fst t) = r_Final (fst s)" for v w t
      using add [of "vp_Votes (case envelope_vote P OpenA json p v of Ok vp \<Rightarrow> vp)" "Some w" "fst s"]
      by (auto simp: final_callback_def split: res.splits prod.splits)
    with Cons show ?case by (fastforce simp: rbind_Ok_iff split: option.splits)
  qed simp
  then show ?thesis
    using assms by (fastforce simp: computeFinalResults_def rbind_Ok_iff split: option.splits if_splits)
qed

lemma ComputeResult_Ok:
  assumes "countable P E ix pid"
  shows "\<exists>ix'. ComputeResult P E pid ix = (Ok (), ix') \<and> has_final_results ix' pid \<and>
    (\<forall>q. countable P E ix' q = countable P E ix q) \<and>
    (\<forall>q. has_final_results ix q \<longrightarrow> has_final_results ix' q)"
proof -
  obtain p r where p: "map_of (ix_processes ix) pid = Some p" "final_count P E pid ix p = Ok r"
    using assms by (auto simp: countable_def is_ok_iff split: option.splits)
  let ?ix = "ix\<lparr>ix_processes := db_Update (ix_processes ix) pid (\<lambda>u. u\<lparr>ip_HaveResults := True, ip_FinalResults := True\<rparr>),
      ix_results := db_Upsert (ix_results ix) pid r\<rparr>"
  have "ComputeResult P E pid ix = (Ok (), ?ix)"
    using p by (simp add: ComputeResult_def ProcessInfo_def of_option_def final_count_def)
  moreover have "r_Final r" using p(2) computeFinalResults_Final by (simp add: final_count_def)
  moreover have "final_count P E q ?ix (p\<lparr>ip_HaveResults := True, ip_FinalResults := True\<rparr>) = final_count P E q ix p" for q
    by (simp add: final_count_def computeFinalResults_flags)
  moreover have "final_count P E q ?ix p' = final_count P E q ix p'" for q p'
    by (simp add: final_count_def)
  ultimately show ?thesis
    using p(1) by (auto simp: has_final_results_def countable_def split: option.split option.split_asm)
qed

lemma compute_all_Ok:
  assumes "\<forall>q \<in> set pids. countable P E ix q"
  shows "\<exists>ix'. compute_all P E pids ix = Ok ix' \<and> (\<forall>q \<in> set pids. has_final_results ix' q) \<and>
    (\<forall>q. has_final_results ix q \<longrightarrow> has_final_results ix' q)"
  using assms
proof (induction pids arbitrary: ix)
  case (Cons pid pids)
  obtain ix1 where 1: "ComputeResult P E pid ix = (Ok (), ix1)" "has_final_results ix1 pid"
    "\<forall>q. countable P E ix1 q = countable P E ix q" "\<forall>q. has_final_results ix q \<longrightarrow> has_final_results ix1 q"
    using ComputeResult_Ok [of P E ix pid] Cons.prems by auto
  obtain ix2 where "compute_all P E pids ix1 = Ok ix2" "\<forall>q \<in> set pids. has_final_results ix2 q"
    "\<forall>q. has_final_results ix1 q \<longrightarrow> has_final_results ix2 q"
    using Cons.IH [of ix1] Cons.prems 1(3) by auto
  then show ?case using 1 by auto
qed simp

text \<open>What a commit leaves of a process row that was there, and of the pool of scheduled processes.\<close>

definition rows_stay :: "Scrutinizer \<Rightarrow> Scrutinizer \<Rightarrow> bool" where
  "rows_stay ix ix' \<longleftrightarrow> dom (map_of (ix_processes ix)) \<subseteq> dom (map_of (ix_processes ix')) \<and>
     ix_resultsPool ix' = ix_resultsPool ix"

lemma rows_stay_refl: "rows_stay ix ix"
  by (simp add: rows_stay_def)

lemma rows_stay_trans: "rows_stay ix ix' \<Longrightarrow> rows_stay ix' ix'' \<Longrightarrow> rows_stay ix ix''"
  by (auto simp: rows_stay_def)

lemma newEmptyProcess_stay: "rows_stay ix (snd (newEmptyProcess pid s ix))"
  by (cases "Process_get pid False s"; cases "isOpenProcess pid s")
    (auto simp: newEmptyProcess_def db_Insert_def rows_stay_def Let_def map_add_def
      split: option.splits if_splits)

lemma Indexer_updateProcess_stay: "rows_stay ix (snd (Indexer_updateProcess pid s ix))"
  by (cases "Process_get pid False s")
    (auto simp: Indexer_updateProcess_def rows_stay_def split: option.split)

lemma create_all_stay: "create_all E pids s ix = Ok ix' \<Longrightarrow> rows_stay ix ix'"
proof (induction pids arbitrary: ix)
  case (Cons pid pids)
  obtain e ix1 where e: "newEmptyProcess pid s ix = (e, ix1)" by force
  let ?ix = "case e of Ok _ \<Rightarrow> if ie_Synchronizing E then ix1 else addProcessToLiveResults pid ix1 | _ \<Rightarrow> ix1"
  have "create_all E pids s ?ix = Ok ix'" using Cons.prems e by (cases e) simp_all
  moreover have "rows_stay ix ?ix"
    using newEmptyProcess_stay [of ix pid s] e by (cases e) (auto simp: addProcessToLiveResults_def rows_stay_def)
  ultimately show ?case using Cons.IH rows_stay_trans by blast
qed (simp add: rows_stay_refl)

lemma update_all_stay: "update_all pids s ix = Ok ix' \<Longrightarrow> rows_stay ix ix'"
proof (induction pids arbitrary: ix)
  case (Cons pid pids)
  obtain e ix1 where e: "Indexer_updateProcess pid s ix = (e, ix1)" by force
  have "update_all pids s ix1 = Ok ix'" using Cons.prems e by (cases e) simp_all
  then show ?case using Cons.IH Indexer_updateProcess_stay [of ix pid s] e rows_stay_trans by auto
qed (simp add: rows_stay_refl)

lemma commit_pool_processes: "commit_pool P E s pool ix = Ok ix' \<Longrightarrow> ix_processes ix' = ix_processes ix"
proof (induction pool arbitrary: ix)
  case (Cons x pool)
  obtain pid votes where x: "x = (pid, votes)" by force
  have c: "ix_processes (snd (commitVotes pid r ix)) = ix_processes ix" for r
    by (auto simp: commitVotes_def Let_def split: option.splits prod.splits res.splits)
  show ?case
    using Cons.prems x Cons.IH c by (cases "ProcessInfo pid ix") (auto simp: rbind_Ok_iff)
qed simp

lemma commit_schedules:
  assumes "Indexer_Commit P E order h s ix = Ok ix'" "h + 1 \<noteq> 0"
    and "pid \<in> set (ix_resultsPool ix)" "map_of (ix_processes ix) pid \<noteq> None"
  shows "\<exists>p. map_of (ix_processes ix') pid = Some p \<and> ip_Rheight p = h + 1"
proof -
  obtain ix1 ix2 ix3 where c: "create_all E (ix_newProcessPool ix) s ix = Ok ix1"
    "update_all (ix_updateProcessPool ix1) s ix1 = Ok ix2"
    "schedule_all h (ix_resultsPool ix2) (indexNewTxs (ix_newTxPool ix2) ix2) = Ok ix3"
    "commit_pool P E s (order (ix_votePool ix3)) (index_votes h ix3) = Ok ix'"
    using assms(1) by (auto simp: Indexer_Commit_def rbind_Ok_iff)
  have "rows_stay ix ix2" using create_all_stay [OF c(1)] update_all_stay [OF c(2)] rows_stay_trans by blast
  then obtain p where "map_of (ix_processes ix2) pid = Some p" "pid \<in> set (ix_resultsPool ix2)"
    using assms(3,4) by (auto simp: rows_stay_def)
  then have "map_of (ix_processes ix3) pid = Some (p\<lparr>ip_Rheight := h + 1\<rparr>)"
    using schedule_all_row [OF assms(2) c(3), of pid] by simp
  then show ?thesis using commit_pool_processes [OF c(4)] by simp
qed

text \<open>C21. When the last key of a process is revealed in a block, the process has final results after the
  pending computation of the next height, provided the scheduled processes can be counted.\<close>

theorem final_results_after_reveal:
  assumes "Process_get pid False s = Ok p" "KeyIndex p = Some 0" "map_of (ix_processes ix) pid \<noteq> None"
    and "Indexer_Commit P E order h s (Indexer_OnRevealKeys pid s ix) = Ok ix'" "h + 1 \<noteq> 0"
    and "\<forall>(q, row) \<in> set (ix_processes ix'). ip_Rheight row = h + 1 \<longrightarrow> countable P E' ix' q"
  shows "\<exists>ix''. computePendingProcesses P E' (h + 1) ix' = Ok ix'' \<and> has_final_results ix'' pid"
proof -
  let ?ix = "Indexer_OnRevealKeys pid s ix"
  have "pid \<in> set (ix_resultsPool ?ix)" "map_of (ix_processes ?ix) pid \<noteq> None"
    using assms(1-3) by (simp_all add: Indexer_OnRevealKeys_def update_pool_def)
  then obtain row where "map_of (ix_processes ix') pid = Some row" "ip_Rheight row = h + 1"
    using commit_schedules [OF assms(4,5)] by blast
  then have "(pid, row) \<in> set (ix_processes ix')" "ip_Rheight row = h + 1" by (auto dest: map_of_SomeD)
  then have pid: "pid \<in> set (map fst (filter (\<lambda>(q, row). ip_Rheight row = h + 1) (ix_processes ix')))"
    by force
  have "\<forall>q \<in> set (map fst (filter (\<lambda>(q, row). ip_Rheight row = h + 1) (ix_processes ix'))). countable P E' ix' q"
    using assms(6) by auto
  from compute_all_Ok [OF this] pid show ?thesis unfolding computePendingProcesses_def by blast
qed

text \<open>A process with \<^verbatim>\<open>maxValue\<close> zero (values are added, as in quadratic voting) is indexed and its votes
  are counted as they arrive, but its final results are never computed.\<close>

theorem zero_maxvalue_never_final:
  assumes "Process_get pid False s = Ok p" "VoteOptions p = Some opts" "EnvelopeTypeOf p = Some et"
    and "MaxCount opts \<noteq> 0" "unat (MaxCount opts) \<le> MaxQuestions" "MaxValue opts = 0"
    and "map_of (ix_processes ix) pid = None" "map_of (ix_results ix) pid = None"
  shows "fst (newEmptyProcess pid s ix) = Ok () \<and>
    fst (ComputeResult P E pid (snd (newEmptyProcess pid s ix)))
      = Fail (Errf ''computeNonLiveResults: maxCount and/or maxValue is zero'')"
  using assms
  by (simp add: newEmptyProcess_def db_Insert_def isOpenProcess_def Let_def ComputeResult_def ProcessInfo_def
      of_option_def computeFinalResults_def new_indexer_process_def map_add_def)

section \<open>Concrete runs\<close>

definition state_with :: "Process \<Rightarrow> state" where
  "state_with p = proc_state\<lparr>st_Tx := (st_Tx proc_state)\<lparr>tr_Processes := [(pid0, \<lparr>sp_Process = p, sp_VotesRoot = empty_root\<rparr>)]\<rparr>\<rparr>"

lemma state_with_get [simp]: "Process_get pid0 False (state_with p) = Ok p"
  by (simp add: Process_get_Ok state_with_def)

definition live_env :: indexer_env where
  "live_env = \<lparr>ie_OpenAnonymous = (\<lambda>pub priv c. None), ie_json = tally_json, ie_getTx = tally_store,
     ie_Height = 20, ie_Synchronizing = False\<rparr>"

definition live_index :: Scrutinizer where
  "live_index = (NewScrutinizer True)\<lparr>ix_processes := [(pid0, tally_process)],
     ix_results := [(pid0, empty_results pid0 tally_opts (Some tally_type))]\<rparr>"

definition live_vote :: "u8 \<Rightarrow> u8 \<Rightarrow> Vote" where
  "live_vote choice weight = \<lparr>v_Height = 0, v_ProcessId = pid0, v_Nullifier = Some [choice], v_VotePackage = [choice],
     v_Weight = [weight], v_EncryptionKeyIndexes = []\<rparr>"

lemma live_env_sel [simp]:
  "ie_OpenAnonymous live_env = (\<lambda>pub priv c. None)" "ie_json live_env = tally_json"
  "ie_getTx live_env = tally_store" "ie_Height live_env = 20" "\<not> ie_Synchronizing live_env"
  by (simp_all add: live_env_def)

lemma proc0_open: "isOpenProcess pid0 proc_state = Ok True"
  by (simp add: isOpenProcess_def, simp add: proc0_def)

lemma recorded_live: "recorded tally_params live_env (tally_ref (uint c) (int (unat w))) (live_vote c w)"
  by (simp add: recorded_def reference_envelope_def tally_store_def tally_params_def tally_ref_def live_vote_def
      big_SetBytes_def)

lemma tally_two: "tally tally_read tally_opts tally_type [tally_ref 1 5, tally_ref 2 3] = [[0, 5, 3]]"
proof -
  have "total_of tally_read tally_opts tally_type f [tally_ref 1 5, tally_ref 2 3] =
      f (tally_ref 1 5) [1] + f (tally_ref 2 3) [2]" for f
    by (simp add: total_of_def tally_harmless)
  then show ?thesis
    by (simp add: tally_def tally_weight, simp add: tally_opts_def upt_rec ballot_matrix_def ballot_cell_def)
qed

theorem live_results_equal_final_witness:
  "\<exists>ix' r. commit_blocks tally_params live_env pid0 [(proc_state, [live_vote 1 5]), (proc_state, [live_vote 2 3])] live_index = Ok ix' \<and>
     map_of (ix_results ix') pid0 = Some r \<and> r_Votes r = [[0, 5, 3]]"
proof -
  let ?refs = "[tally_ref 1 5, tally_ref 2 3]"
  let ?blocks = "[(proc_state, [live_vote 1 5]), (proc_state, [live_vote 2 3])]"
  have "\<forall>x \<in> set ?refs. harmless tally_read tally_opts tally_type x" by (simp add: tally_harmless)
  then obtain final where final: "computeFinalResults tally_params (ie_OpenAnonymous live_env) (ie_json live_env)
      (ie_getTx live_env) 20 ?refs (Some tally_process) = Ok final" "r_Votes final = [[0, 5, 3]]"
    using computeFinalResults_Ok [OF tally_opts_ok(5,6,1-4) refl] tally_two by auto
  have rec: "list_all2 (recorded tally_params live_env) ?refs (concat (map snd ?blocks))"
    using recorded_live [of 1 5] recorded_live [of 2 3] by simp
  have op: "\<forall>(s, votes) \<in> set ?blocks. \<forall>v \<in> set votes. isOpenProcess (v_ProcessId v) s = Ok True"
    by (simp add: live_vote_def proc0_open)
  have "\<not> EncryptedVotes tally_type" "map_of (ix_processes live_index) pid0 = Some tally_process"
    "map_of (ix_results live_index) pid0 = Some (empty_results pid0 tally_opts (Some tally_type))"
    by (simp_all add: tally_type_def live_index_def)
  from live_results_equal_final [OF tally_opts_ok(5,6,1-4) this rec op final(1)] final(2)
  show ?thesis by simp
qed

lemma Process_get_not_Panic: "Process_get pid c s \<noteq> Panic m"
  by (auto simp: Process_get_def getProcess_def Tree_Get_def of_option_def split: option.split res.splits if_splits)

lemma newEmptyProcess_not_Panic: "fst (newEmptyProcess pid s ix) \<noteq> Panic m"
  using Process_get_not_Panic [of pid False s]
  by (cases "Process_get pid False s")
    (auto simp: newEmptyProcess_def db_Insert_def Let_def isOpenProcess_def split: option.split if_splits)

lemma Indexer_updateProcess_not_Panic: "fst (Indexer_updateProcess pid s ix) \<noteq> Panic m"
  using Process_get_not_Panic [of pid False s]
  by (cases "Process_get pid False s") (auto simp: Indexer_updateProcess_def split: option.split)

lemma create_all_Ok: "\<exists>ix'. create_all E pids s ix = Ok ix' \<and> ix_votePool ix' = ix_votePool ix"
proof (induction pids arbitrary: ix)
  case (Cons pid pids)
  have pool: "ix_votePool (snd (newEmptyProcess pid s ix)) = ix_votePool ix"
    by (cases "Process_get pid False s"; cases "isOpenProcess pid s")
      (auto simp: newEmptyProcess_def db_Insert_def Let_def split: option.split)
  obtain e ix1 where e: "newEmptyProcess pid s ix = (e, ix1)" by force
  show ?case
    using Cons [of ix1] Cons [of "addProcessToLiveResults pid ix1"] pool e newEmptyProcess_not_Panic [of pid s ix]
    by (cases e) (auto simp: addProcessToLiveResults_def)
qed simp

lemma update_all_Ok: "\<exists>ix'. update_all pids s ix = Ok ix' \<and> ix_votePool ix' = ix_votePool ix"
proof (induction pids arbitrary: ix)
  case (Cons pid pids)
  have pool: "ix_votePool (snd (Indexer_updateProcess pid s ix)) = ix_votePool ix"
    by (cases "Process_get pid False s") (auto simp: Indexer_updateProcess_def split: option.split)
  obtain e ix1 where e: "Indexer_updateProcess pid s ix = (e, ix1)" by force
  show ?case
    using Cons [of ix1] pool e Indexer_updateProcess_not_Panic [of pid s ix] by (cases e) auto
qed simp

text \<open>Without pooled votes a commit always returns.\<close>

lemma Indexer_Commit_Ok:
  assumes "h + 1 \<noteq> 0" "ix_votePool ix = []" "order [] = []"
  shows "is_ok (Indexer_Commit P E order h s ix)"
proof -
  obtain ix1 where 1: "create_all E (ix_newProcessPool ix) s ix = Ok ix1" "ix_votePool ix1 = []"
    using create_all_Ok assms(2) by metis
  obtain ix2 where 2: "update_all (ix_updateProcessPool ix1) s ix1 = Ok ix2" "ix_votePool ix2 = []"
    using update_all_Ok 1(2) by metis
  obtain ix3 where 3: "schedule_all h (ix_resultsPool ix2) (indexNewTxs (ix_newTxPool ix2) ix2) = Ok ix3"
    using schedule_all_Ok [OF assms(1)] by blast
  have "ix_votePool ix3 = []" using schedule_all_row [OF assms(1) 3] 2(2) by simp
  then show ?thesis using 1 2 3 assms(3) by (simp add: Indexer_Commit_def)
qed

definition busy_index :: Scrutinizer where
  "busy_index = Indexer_OnNewTx [1] 5 0 (Indexer_OnProcess pid0 (NewScrutinizer True))"

theorem indexer_invariant_witness:
  "\<exists>ix'. Indexer_event params0 live_env id (OnCommit 5) proc_state busy_index = Ok ix' \<and> tables_wf ix' \<and> txs_wf ix'"
proof -
  have wf: "tables_wf busy_index" "txs_wf busy_index"
    "unat (ix_countTransactions busy_index) + length (ix_newTxPool busy_index) < 2 ^ 64"
    by (auto simp: busy_index_def Indexer_OnNewTx_def Indexer_OnProcess_def NewScrutinizer_def tables_ok_def txs_wf_def)
  have "ix_votePool busy_index = []"
    by (simp add: busy_index_def Indexer_OnNewTx_def Indexer_OnProcess_def NewScrutinizer_def)
  then have "is_ok (Indexer_event params0 live_env id (OnCommit 5) proc_state busy_index)"
    using Indexer_Commit_Ok [of 5 busy_index id] by (simp add: Indexer_event_def)
  then show ?thesis using indexer_invariant [OF wf disjI1] by (fastforce simp: is_ok_iff)
qed

definition revealed :: Process where
  "revealed = proc0\<lparr>KeyIndex := Some 0\<rparr>"

theorem final_results_after_reveal_witness:
  "\<exists>ix' ix''. Indexer_Commit tally_params live_env id 20 (state_with revealed) (Indexer_OnRevealKeys pid0 (state_with revealed) live_index) = Ok ix' \<and>
     computePendingProcesses tally_params live_env 21 ix' = Ok ix'' \<and> has_final_results ix'' pid0"
proof -
  let ?s = "state_with revealed"
  let ?ix = "Indexer_OnRevealKeys pid0 ?s live_index"
  have r: "Process_get pid0 False ?s = Ok revealed" "KeyIndex revealed = Some 0"
    "map_of (ix_processes live_index) pid0 \<noteq> None"
    by (simp_all add: revealed_def live_index_def)
  obtain ix' where c: "Indexer_Commit tally_params live_env id 20 ?s ?ix = Ok ix'"
    using Indexer_Commit_Ok [of 20 ?ix id tally_params live_env ?s] r
    by (auto simp: is_ok_iff Indexer_OnRevealKeys_def update_pool_def live_index_def NewScrutinizer_def)
  have rows: "\<forall>(q, row) \<in> set (ix_processes ix'). ip_Rheight row = 20 + 1 \<longrightarrow> countable tally_params live_env ix' q"
    using c r by (simp add: Indexer_Commit_def Indexer_OnRevealKeys_def live_index_def NewScrutinizer_def update_pool_def
     Indexer_updateProcess_def indexNewTxs_def setResultsHeight_def delProcessFromLiveResults_def index_votes_def put_def db_Update_def
     countable_def, auto simp: final_count_def computeFinalResults_def tally_opts_ok tally_opts_def MaxQuestions_def MaxOptions_def)
  from final_results_after_reveal [OF r c _ rows] c show ?thesis by simp
qed

theorem zero_maxvalue_never_final_witness:
  "let s = state_with (proc0\<lparr>VoteOptions := Some (tally_opts\<lparr>MaxValue := 0\<rparr>)\<rparr>)
   in fst (newEmptyProcess pid0 s (NewScrutinizer True)) = Ok () \<and>
      fst (ComputeResult tally_params live_env pid0 (snd (newEmptyProcess pid0 s (NewScrutinizer True))))
        = Fail (Errf ''computeNonLiveResults: maxCount and/or maxValue is zero'')"
proof -
  let ?p = "proc0\<lparr>VoteOptions := Some (tally_opts\<lparr>MaxValue := 0\<rparr>)\<rparr>"
  have "Process_get pid0 False (state_with ?p) = Ok ?p" by simp
  from zero_maxvalue_never_final [OF this, of "tally_opts\<lparr>MaxValue := 0\<rparr>" _ "NewScrutinizer True" tally_params live_env]
  show ?thesis
    unfolding Let_def by (simp add: tally_opts_def MaxQuestions_def NewScrutinizer_def) (simp add: proc0_def)
qed

end
