(* ===== verification/Key_Keeper.thy ===== *)
theory Key_Keeper
  imports Indexer
begin

text \<open>
  The key keeper (\<^verbatim>\<open>vochain/keykeeper/keykeeper.go\<close>), a listener of the state run by the oracles: it
  derives a key pair for every process that needs one, publishes the public key with a transaction
  and reveals the private one when the process ends. Its database is two tables, one for each of
  the key prefixes \<^verbatim>\<open>p_\<close> and \<^verbatim>\<open>b_\<close>. Signing a transaction and handing it to the mempool is the argument
  \<open>send\<close>; \<open>kk_sent\<close> collects the transactions that were accepted there. The goroutines of \<^verbatim>\<open>Commit\<close> hold the
  same mutex and run one after the other.
\<close>

section \<open>State\<close>

record processKeys =
  pk_pubKey :: bytes
  pk_privKey :: bytes
  pk_index :: u8

record KeyKeeper =
  kk_signer :: bytes
  kk_myIndex :: u8
  kk_keyPool :: "(bytes \<times> processKeys option) list"
  kk_blockPool :: "(bytes \<times> int) list"
  kk_processes :: "(bytes \<times> bytes) list"
  kk_blocks :: "(int \<times> bytes list) list"
  kk_sent :: "AdminTx list"

text \<open>\<^verbatim>\<open>copy(data[i:], src)\<close> of at most the rest of the slice.\<close>

definition copy_at :: "bytes \<Rightarrow> nat \<Rightarrow> bytes \<Rightarrow> bytes" where
  "copy_at data i src = take i data @ take (length data - i) src @ drop (i + length src) data"

definition processKeys_Encode :: "processKeys \<Rightarrow> bytes" where
  "processKeys_Encode pk =
     (let data = replicate (2 * nacl_KeyLength + 1) 0;
          data = copy_at data 0 (pk_pubKey pk);
          data = copy_at data nacl_KeyLength (pk_privKey pk)
      in data[2 * nacl_KeyLength := pk_index pk])"

definition processKeys_Decode :: "bytes \<Rightarrow> processKeys res" where
  "processKeys_Decode data =
     (if length data < 2 * nacl_KeyLength + 1 then Fail (Errf ''cannot decode, data too small'')
      else Ok \<lparr>pk_pubKey = take nacl_KeyLength data,
               pk_privKey = take nacl_KeyLength (drop nacl_KeyLength data),
               pk_index = data ! (2 * nacl_KeyLength)\<rparr>)"

definition NewKeyKeeper :: "bytes \<Rightarrow> u8 \<Rightarrow> KeyKeeper res" where
  "NewKeyKeeper signer index =
     (if index = 0 then Fail (Errf ''index 0 cannot be used'')
      else Ok \<lparr>kk_signer = signer, kk_myIndex = index, kk_keyPool = [], kk_blockPool = [],
               kk_processes = [], kk_blocks = [], kk_sent = []\<rparr>)"

section \<open>Keys\<close>

definition generateKeys :: "params \<Rightarrow> KeyKeeper \<Rightarrow> bytes \<Rightarrow> processKeys res" where
  "generateKeys P k pid =
     rbind (hide ''cannot generate encryption key: (%s)''
        (DecodePrivate P (hex (HashRaw P (kk_signer k @ pid @ [kk_myIndex k]))))) (\<lambda>(pub, priv).
       Ok \<lparr>pk_pubKey = pub, pk_privKey = priv, pk_index = kk_myIndex k\<rparr>)"

definition admin_key_tx :: "TxType \<Rightarrow> u8 \<Rightarrow> u32 \<Rightarrow> bytes \<Rightarrow> bytes option \<Rightarrow> bytes option \<Rightarrow> AdminTx" where
  "admin_key_tx t index nonce pid priv pub =
     \<lparr>ad_Txtype = t, ad_ProcessId = Some pid, ad_Address = [], ad_EncryptionPrivateKey = priv,
      ad_EncryptionPublicKey = pub, ad_KeyIndex = Some (scast index), ad_Power = None, ad_PublicKey = None,
      ad_Nonce = nonce\<rparr>"

definition signAndSendTx :: "(AdminTx \<Rightarrow> unit res) \<Rightarrow> AdminTx \<Rightarrow> KeyKeeper \<Rightarrow> unit res \<times> KeyKeeper" where
  "signAndSendTx send tx k = with_res (send tx) k (\<lambda>_. (Ok (), k\<lparr>kk_sent := kk_sent k @ [tx]\<rparr>))"

definition publishKeys ::
  "(AdminTx \<Rightarrow> unit res) \<Rightarrow> u32 \<Rightarrow> processKeys \<Rightarrow> bytes \<Rightarrow> KeyKeeper \<Rightarrow> unit res \<times> KeyKeeper" where
  "publishKeys send nonce pk pid k =
     and_then (signAndSendTx send (admin_key_tx ADD_PROCESS_KEYS (pk_index pk) nonce pid None (Some (pk_pubKey pk))) k) (\<lambda>_ k.
       if map_of (kk_processes k) pid = None
       then (Ok (), k\<lparr>kk_processes := kk_processes k @ [(pid, processKeys_Encode pk)]\<rparr>)
       else (Fail (Errf ''keys for process %x already exist or error fetching storage: (%s)''), k))"

definition revealKeys ::
  "params \<Rightarrow> (AdminTx \<Rightarrow> unit res) \<Rightarrow> u32 \<Rightarrow> bytes \<Rightarrow> KeyKeeper \<Rightarrow> unit res \<times> KeyKeeper" where
  "revealKeys P send nonce pid k =
     with_res (generateKeys P k pid) k (\<lambda>pk.
     and_then (signAndSendTx send (admin_key_tx REVEAL_PROCESS_KEYS (pk_index pk) nonce pid (Some (pk_privKey pk)) None) k) (\<lambda>_ k.
       (Ok (), k\<lparr>kk_processes := filter (\<lambda>(q, v). q \<noteq> pid) (kk_processes k)\<rparr>)))"

section \<open>Callbacks\<close>

definition KeyKeeper_Rollback :: "KeyKeeper \<Rightarrow> KeyKeeper" where
  "KeyKeeper_Rollback k = k\<lparr>kk_keyPool := [], kk_blockPool := []\<rparr>"

text \<open>Whether a process needs keys, and the slot of this keeper: an index out of range panics, and a
  negative \<^verbatim>\<open>int8\<close> is one.\<close>

definition needs_keys :: "Process \<Rightarrow> bool res" where
  "needs_keys p = (case EnvelopeTypeOf p of None \<Rightarrow> Panic ''nil pointer dereference''
     | Some et \<Rightarrow> Ok (Anonymous et \<or> EncryptedVotes et))"

definition my_slot :: "KeyKeeper \<Rightarrow> Process \<Rightarrow> string res" where
  "my_slot k p =
     (if sint (kk_myIndex k) < 0 then Panic ''index out of range''
      else index_at (EncryptionPublicKeys p) (unat (kk_myIndex k)))"

text \<open>A pair that could not be generated leaves a nil entry in the pool.\<close>

definition KeyKeeper_OnProcess :: "params \<Rightarrow> bytes \<Rightarrow> state \<Rightarrow> KeyKeeper \<Rightarrow> KeyKeeper res" where
  "KeyKeeper_OnProcess P pid s k =
     (case Process_get pid False s of
        Ok p \<Rightarrow>
          rbind (needs_keys p) (\<lambda>needed.
            if \<not> needed then Ok k
            else rbind (my_slot k p) (\<lambda>slot.
              if 0 < length slot then Ok k
              else if map_of (kk_keyPool k) pid \<noteq> None then Ok k
              else case generateKeys P k pid of
                Ok pk \<Rightarrow> Ok (k\<lparr>kk_keyPool := kk_keyPool k @ [(pid, Some pk)],
                                kk_blockPool := db_Upsert (kk_blockPool k) pid (uint (StartBlock p + BlockCount p))\<rparr>)
              | Fail e \<Rightarrow> Ok (k\<lparr>kk_keyPool := kk_keyPool k @ [(pid, None)]\<rparr>)
              | Panic m \<Rightarrow> Panic m))
      | Fail e \<Rightarrow> Ok k
      | Panic m \<Rightarrow> Panic m)"

definition schedule_next_block :: "bytes \<Rightarrow> bool \<Rightarrow> state \<Rightarrow> KeyKeeper \<Rightarrow> KeyKeeper res" where
  "schedule_next_block pid ended s k =
     (case Process_get pid False s of
        Ok p \<Rightarrow>
          rbind (needs_keys p) (\<lambda>needed.
            if \<not> needed then Ok k
            else rbind (my_slot k p) (\<lambda>slot.
              if slot \<noteq> [] \<and> ended
              then Ok (k\<lparr>kk_blockPool := db_Upsert (kk_blockPool k) pid (uint (st_height s) + 1)\<rparr>)
              else Ok k))
      | Fail e \<Rightarrow> Ok k
      | Panic m \<Rightarrow> Panic m)"

definition KeyKeeper_OnCancel :: "bytes \<Rightarrow> state \<Rightarrow> KeyKeeper \<Rightarrow> KeyKeeper res" where
  "KeyKeeper_OnCancel pid s k = schedule_next_block pid True s k"

definition KeyKeeper_OnProcessStatusChange :: "bytes \<Rightarrow> ProcessStatus \<Rightarrow> state \<Rightarrow> KeyKeeper \<Rightarrow> KeyKeeper res" where
  "KeyKeeper_OnProcessStatusChange pid status s k = schedule_next_block pid (status = ENDED) s k"

section \<open>Commit\<close>

definition scheduled :: "KeyKeeper \<Rightarrow> int \<Rightarrow> bytes list" where
  "scheduled k h = (case map_of (kk_blocks k) h of None \<Rightarrow> [] | Some pids \<Rightarrow> pids)"

definition schedule_pid :: "bytes \<times> int \<Rightarrow> KeyKeeper \<Rightarrow> KeyKeeper" where
  "schedule_pid e k = k\<lparr>kk_blocks := db_Upsert (kk_blocks k) (snd e) (scheduled k (snd e) @ [fst e])\<rparr>"

definition scheduleRevealKeys :: "((bytes \<times> int) list \<Rightarrow> (bytes \<times> int) list) \<Rightarrow> KeyKeeper \<Rightarrow> KeyKeeper" where
  "scheduleRevealKeys order k = fold schedule_pid (order (kk_blockPool k)) k"

text \<open>The loop over the processes of a block returns whether it reached its end: a process that needs
  no keys returns from the whole function.\<close>

fun reveal_loop ::
  "params \<Rightarrow> (AdminTx \<Rightarrow> unit res) \<Rightarrow> (bytes \<Rightarrow> u32) \<Rightarrow> state \<Rightarrow> bytes list \<Rightarrow> KeyKeeper \<Rightarrow> (bool \<times> KeyKeeper) res" where
  "reveal_loop P send nonce s [] k = Ok (True, k)"
| "reveal_loop P send nonce s (pid # pids) k =
     (case Process_get pid False s of
        Panic m \<Rightarrow> Panic m
      | Fail e \<Rightarrow> reveal_loop P send nonce s pids k
      | Ok p \<Rightarrow>
          rbind (needs_keys p) (\<lambda>needed.
            if \<not> needed then Ok (False, k)
            else rbind (my_slot k p) (\<lambda>slot.
              if slot = [] then reveal_loop P send nonce s pids k
              else case revealKeys P send (nonce pid) pid k of
                (Panic m, k') \<Rightarrow> Panic m
              | (_, k') \<Rightarrow> reveal_loop P send nonce s pids k')))"

definition checkRevealProcess ::
  "params \<Rightarrow> (AdminTx \<Rightarrow> unit res) \<Rightarrow> (bytes \<Rightarrow> u32) \<Rightarrow> u32 \<Rightarrow> state \<Rightarrow> KeyKeeper \<Rightarrow> KeyKeeper res" where
  "checkRevealProcess P send nonce height s k =
     (case map_of (kk_blocks k) (uint height) of
        None \<Rightarrow> Ok k
      | Some pids \<Rightarrow>
          rbind (reveal_loop P send nonce s pids k) (\<lambda>(finished, k).
            Ok (if finished then k\<lparr>kk_blocks := filter (\<lambda>(h, v). h \<noteq> uint height) (kk_blocks k)\<rparr> else k)))"

fun publish_loop ::
  "(AdminTx \<Rightarrow> unit res) \<Rightarrow> (bytes \<Rightarrow> u32) \<Rightarrow> (bytes \<times> processKeys option) list \<Rightarrow> KeyKeeper \<Rightarrow> KeyKeeper res" where
  "publish_loop send nonce [] k = Ok k"
| "publish_loop send nonce ((pid, pk) # pool) k =
     (case pk of
        None \<Rightarrow> Panic ''nil pointer dereference''
      | Some pk \<Rightarrow>
          (case publishKeys send (nonce pid) pk pid k of
             (Panic m, k') \<Rightarrow> Panic m
           | (_, k') \<Rightarrow> publish_loop send nonce pool k'))"

definition publishPendingKeys ::
  "(AdminTx \<Rightarrow> unit res) \<Rightarrow> (bytes \<Rightarrow> u32) \<Rightarrow> ((bytes \<times> processKeys option) list \<Rightarrow> (bytes \<times> processKeys option) list) \<Rightarrow>
     KeyKeeper \<Rightarrow> KeyKeeper res" where
  "publishPendingKeys send nonce order k = publish_loop send nonce (order (kk_keyPool k)) k"

definition KeyKeeper_Commit ::
  "params \<Rightarrow> (AdminTx \<Rightarrow> unit res) \<Rightarrow> (bytes \<Rightarrow> u32) \<Rightarrow> ((bytes \<times> int) list \<Rightarrow> (bytes \<times> int) list) \<Rightarrow>
     ((bytes \<times> processKeys option) list \<Rightarrow> (bytes \<times> processKeys option) list) \<Rightarrow> u32 \<Rightarrow> state \<Rightarrow> KeyKeeper \<Rightarrow> KeyKeeper res" where
  "KeyKeeper_Commit P send nonce blockOrder keyOrder height s k =
     rbind (checkRevealProcess P send nonce height s (scheduleRevealKeys blockOrder k))
       (publishPendingKeys send nonce keyOrder)"

section \<open>Recovery\<close>

text \<open>\<open>RevealUnpublished\<close>: first the blocks that have passed, then the processes that are cancelled or
  ended. \<open>reveal_all\<close> is the loop over the processes of one block.\<close>

fun reveal_all ::
  "params \<Rightarrow> (AdminTx \<Rightarrow> unit res) \<Rightarrow> (bytes \<Rightarrow> u32) \<Rightarrow> bytes list \<Rightarrow> KeyKeeper \<Rightarrow> KeyKeeper res" where
  "reveal_all P send nonce [] k = Ok k"
| "reveal_all P send nonce (pid # pids) k =
     (case revealKeys P send (nonce pid) pid k of
        (Panic m, k') \<Rightarrow> Panic m
      | (_, k') \<Rightarrow> reveal_all P send nonce pids k')"

definition finished_processes :: "state \<Rightarrow> (bytes \<times> bytes) list \<Rightarrow> bytes list" where
  "finished_processes s t =
     filter (\<lambda>pid. case Process_get pid True s of Ok p \<Rightarrow> Status p = CANCELED \<or> Status p = ENDED | _ \<Rightarrow> False)
       (map fst t)"

definition RevealUnpublished ::
  "params \<Rightarrow> (AdminTx \<Rightarrow> unit res) \<Rightarrow> (bytes \<Rightarrow> u32) \<Rightarrow> u32 \<Rightarrow> state \<Rightarrow> KeyKeeper \<Rightarrow> KeyKeeper res" where
  "RevealUnpublished P send nonce lastHeight s k =
     (let due = filter (\<lambda>(h, pids). \<not> uint lastHeight \<le> h + 1) (kk_blocks k)
      in rbind (reveal_all P send nonce (concat (map snd due)) k) (\<lambda>k.
         let k = k\<lparr>kk_blocks := filter (\<lambda>(h, pids). uint lastHeight \<le> h + 1) (kk_blocks k)\<rparr>
         in reveal_all P send nonce (finished_processes s (kk_processes k)) k))"

section \<open>Stored keys\<close>

lemma copy_at_exact: "i + length src \<le> length data \<Longrightarrow> copy_at data i src = take i data @ src @ drop (i + length src) data"
  by (simp add: copy_at_def)

text \<open>The stored form of a key pair is read back.\<close>

theorem process_keys_roundtrip:
  assumes "length (pk_pubKey pk) = nacl_KeyLength" "length (pk_privKey pk) = nacl_KeyLength"
  shows "processKeys_Decode (processKeys_Encode pk) = Ok pk"
proof -
  let ?d = "pk_pubKey pk @ pk_privKey pk @ [0]"
  have "copy_at (copy_at (replicate (2 * nacl_KeyLength + 1) 0) 0 (pk_pubKey pk)) nacl_KeyLength (pk_privKey pk) = ?d"
    using assms by (simp add: copy_at_exact replicate_append_same [symmetric] mult_2)
  then have "processKeys_Encode pk = (pk_pubKey pk @ pk_privKey pk) @ [pk_index pk]"
    using assms by (simp add: processKeys_Encode_def Let_def list_update_append mult_2)
  then show ?thesis using assms by (simp add: processKeys_Decode_def nth_append mult_2)
qed

theorem process_keys_roundtrip_witness:
  "processKeys_Decode (processKeys_Encode \<lparr>pk_pubKey = replicate 32 1, pk_privKey = replicate 32 2, pk_index = 3\<rparr>)
     = Ok \<lparr>pk_pubKey = replicate 32 1, pk_privKey = replicate 32 2, pk_index = 3\<rparr>"
  by (rule process_keys_roundtrip) (simp_all add: nacl_KeyLength_def)

section \<open>A published key is revealed\<close>

lemma key_index_word: "unat (i :: u8) < 16 \<Longrightarrow> unat (scast i :: u32) = unat i \<and> 0 \<le> sint i"
proof -
  assume i: "unat i < 16"
  have n: "\<forall>n \<in> set [0..<16]. unat (scast (of_nat n :: u8) :: u32) = n \<and> 0 \<le> sint (of_nat n :: u8)"
    by (simp add: upt_rec)
  show ?thesis using bspec [OF n, of "unat i"] i by simp
qed

lemma generateKeys_Ok:
  assumes "generateKeys P k pid = Ok pk"
  shows "pk_index pk = kk_myIndex k \<and> length (pk_privKey pk) = nacl_KeyLength \<and>
    box_PublicKey P (pk_privKey pk) = Some (pk_pubKey pk)"
  using assms by (auto simp: generateKeys_def DecodePrivate_def DecodePrivate_Public_def res_simps split: if_splits)


section \<open>Scheduled keys are revealed\<close>

text \<open>What the operations that send transactions leave alone.\<close>

definition same_keeper :: "KeyKeeper \<Rightarrow> KeyKeeper \<Rightarrow> bool" where
  "same_keeper k k' \<longleftrightarrow> kk_signer k' = kk_signer k \<and> kk_myIndex k' = kk_myIndex k \<and> kk_blocks k' = kk_blocks k \<and>
     set (kk_sent k) \<subseteq> set (kk_sent k')"

lemma same_keeper_refl: "same_keeper k k"
  by (simp add: same_keeper_def)

lemma same_keeper_trans: "same_keeper k k' \<Longrightarrow> same_keeper k' k'' \<Longrightarrow> same_keeper k k''"
  by (auto simp: same_keeper_def)

lemma signAndSendTx_same: "same_keeper k (snd (signAndSendTx send tx k))"
  by (cases "send tx") (auto simp: signAndSendTx_def same_keeper_def)

lemma revealKeys_same: "same_keeper k (snd (revealKeys P send n pid k))"
proof (cases "generateKeys P k pid")
  case (Ok pk)
  let ?tx = "admin_key_tx REVEAL_PROCESS_KEYS (pk_index pk) n pid (Some (pk_privKey pk)) None"
  show ?thesis
    using Ok signAndSendTx_same [of k send ?tx]
    by (cases "send ?tx") (auto simp: revealKeys_def signAndSendTx_def same_keeper_def)
qed (simp_all add: revealKeys_def same_keeper_refl)

lemma publishKeys_same: "same_keeper k (snd (publishKeys send n pk pid k))"
  by (cases "send (admin_key_tx ADD_PROCESS_KEYS (pk_index pk) n pid None (Some (pk_pubKey pk)))")
    (auto simp: publishKeys_def signAndSendTx_def same_keeper_def)

lemma reveal_loop_same: "reveal_loop P send nonce s pids k = Ok (b, k') \<Longrightarrow> same_keeper k k'"
proof (induction pids arbitrary: k)
  case (Cons pid pids)
  obtain e k1 where r: "revealKeys P send (nonce pid) pid k = (e, k1)" by force
  have "same_keeper k k1" using revealKeys_same [of k P send "nonce pid" pid] r by simp
  then show ?case
    using Cons r same_keeper_trans [of k k1 k'] same_keeper_refl
    by (cases e) (fastforce simp: rbind_Ok_iff split: res.splits if_splits)+
qed (simp add: same_keeper_refl)

lemma publish_loop_same: "publish_loop send nonce pool k = Ok k' \<Longrightarrow> same_keeper k k'"
proof (induction pool arbitrary: k)
  case (Cons e pool)
  obtain pid opk where e: "e = (pid, opk)" by force
  show ?case
  proof (cases opk)
    case (Some pk)
    obtain r k1 where r: "publishKeys send (nonce pid) pk pid k = (r, k1)" by force
    have "publish_loop send nonce pool k1 = Ok k'" using Cons.prems e Some r by (cases r) simp_all
    then show ?thesis
      using Cons.IH publishKeys_same [of k send "nonce pid" pk pid] r same_keeper_trans by fastforce
  qed (use Cons.prems e in simp)
qed (simp add: same_keeper_refl)

definition wants_reveal :: "params \<Rightarrow> KeyKeeper \<Rightarrow> state \<Rightarrow> bytes \<Rightarrow> bool" where
  "wants_reveal P k s pid \<longleftrightarrow>
     (case Process_get pid False s of
        Ok p \<Rightarrow> needs_keys p = Ok True \<and> (case my_slot k p of Ok slot \<Rightarrow> slot \<noteq> [] | _ \<Rightarrow> False)
      | _ \<Rightarrow> False) \<and> is_ok (generateKeys P k pid)"

definition reveal_tx :: "params \<Rightarrow> KeyKeeper \<Rightarrow> u32 \<Rightarrow> bytes \<Rightarrow> AdminTx" where
  "reveal_tx P k n pid =
     (case generateKeys P k pid of
        Ok pk \<Rightarrow> admin_key_tx REVEAL_PROCESS_KEYS (pk_index pk) n pid (Some (pk_privKey pk)) None)"

lemma same_keeper_wants:
  assumes "same_keeper k k'"
  shows "wants_reveal P k' s pid = wants_reveal P k s pid" "reveal_tx P k' n pid = reveal_tx P k n pid"
proof -
  have "generateKeys P k' pid = generateKeys P k pid" "my_slot k' = my_slot k"
    using assms by (simp_all add: generateKeys_def my_slot_def same_keeper_def fun_eq_iff)
  then show "wants_reveal P k' s pid = wants_reveal P k s pid" "reveal_tx P k' n pid = reveal_tx P k n pid"
    by (cases "Process_get pid False s"; simp add: wants_reveal_def reveal_tx_def)+
qed

lemma reveal_loop_sends:
  assumes "\<forall>pid \<in> set pids. wants_reveal P k s pid" "\<forall>tx. send tx = Ok ()"
  shows "\<exists>k'. reveal_loop P send nonce s pids k = Ok (True, k') \<and> same_keeper k k' \<and>
    (\<forall>pid \<in> set pids. reveal_tx P k (nonce pid) pid \<in> set (kk_sent k'))"
  using assms(1)
proof (induction pids arbitrary: k)
  case (Cons pid pids)
  obtain p slot pk where w: "Process_get pid False s = Ok p" "needs_keys p = Ok True" "my_slot k p = Ok slot"
    "slot \<noteq> []" "generateKeys P k pid = Ok pk"
    using Cons.prems by (auto simp: wants_reveal_def is_ok_iff split: res.splits)
  obtain k1 where r: "revealKeys P send (nonce pid) pid k = (Ok (), k1)" "reveal_tx P k (nonce pid) pid \<in> set (kk_sent k1)"
    using w(5) assms(2) by (simp add: revealKeys_def signAndSendTx_def reveal_tx_def)
  have s1: "same_keeper k k1" using revealKeys_same [of k P send "nonce pid" pid] r(1) by simp
  have "\<forall>q \<in> set pids. wants_reveal P k1 s q" using Cons.prems same_keeper_wants(1) [OF s1] by simp
  then obtain k2 where k2: "reveal_loop P send nonce s pids k1 = Ok (True, k2)" "same_keeper k1 k2"
    "\<forall>q \<in> set pids. reveal_tx P k1 (nonce q) q \<in> set (kk_sent k2)"
    using Cons.IH by blast
  have "reveal_loop P send nonce s (pid # pids) k = Ok (True, k2)"
    using w r(1) k2(1) by simp
  moreover have "\<forall>q \<in> set (pid # pids). reveal_tx P k (nonce q) q \<in> set (kk_sent k2)"
    using k2(2,3) r(2) same_keeper_wants(2) [OF s1] by (auto simp: same_keeper_def)
  ultimately show ?case using same_keeper_trans [OF s1 k2(2)] by blast
qed (simp add: same_keeper_refl)

lemma scheduled_schedule_pid:
  "scheduled (schedule_pid e k) h = (if h = snd e then scheduled k h @ [fst e] else scheduled k h)"
  by (simp add: scheduled_def schedule_pid_def)

lemma scheduled_fold:
  "set (scheduled (fold schedule_pid pool k) h) = set (scheduled k h) \<union> {pid. (pid, h) \<in> set pool}"
  by (induction pool arbitrary: k) (auto simp: scheduled_schedule_pid)

lemma map_of_filter_keys: "map_of (filter (\<lambda>(x, v). x \<noteq> a) t) y = (if y = a then None else map_of t y)"
  by (induction t) auto

lemma checkRevealProcess_blocks:
  assumes "checkRevealProcess P send nonce height s k = Ok k'" "h \<noteq> uint height"
  shows "scheduled k' h = scheduled k h \<and> kk_signer k' = kk_signer k \<and> kk_myIndex k' = kk_myIndex k"
proof (cases "map_of (kk_blocks k) (uint height)")
  case (Some pids)
  then obtain b k1 where "reveal_loop P send nonce s pids k = Ok (b, k1)"
    "k' = (if b then k1\<lparr>kk_blocks := filter (\<lambda>(h, v). h \<noteq> uint height) (kk_blocks k1)\<rparr> else k1)"
    using assms(1) by (fastforce simp: checkRevealProcess_def rbind_Ok_iff)
  then show ?thesis
    using reveal_loop_same [of P send nonce s pids k b k1] assms(2)
    by (simp add: same_keeper_def scheduled_def map_of_filter_keys)
qed (use assms in \<open>simp add: checkRevealProcess_def\<close>)

lemma fold_schedule_sel:
  "kk_signer (fold schedule_pid pool k) = kk_signer k \<and> kk_myIndex (fold schedule_pid pool k) = kk_myIndex k"
  by (induction pool arbitrary: k) (auto simp: schedule_pid_def)

lemma KeyKeeper_Commit_blocks:
  assumes "KeyKeeper_Commit P send nonce bo ko height s k = Ok k'" "h \<noteq> uint height"
  shows "set (scheduled k' h) = set (scheduled k h) \<union> {pid. (pid, h) \<in> set (bo (kk_blockPool k))} \<and>
    kk_signer k' = kk_signer k \<and> kk_myIndex k' = kk_myIndex k"
proof -
  obtain k1 where "checkRevealProcess P send nonce height s (scheduleRevealKeys bo k) = Ok k1"
    "publish_loop send nonce (ko (kk_keyPool k1)) k1 = Ok k'"
    using assms(1) by (auto simp: KeyKeeper_Commit_def rbind_Ok_iff publishPendingKeys_def)
  note c = checkRevealProcess_blocks [OF this(1) assms(2)] publish_loop_same [OF this(2)]
  have "scheduled k' h = scheduled k1 h" using c(2) by (simp add: scheduled_def same_keeper_def)
  then show ?thesis
    using c by (simp add: scheduleRevealKeys_def scheduled_fold fold_schedule_sel same_keeper_def)
qed

text \<open>C11. When a process that has this keeper's key ends, the commit of its block schedules the key and the
  next block reveals it.\<close>

theorem ended_process_reveals_key:
  assumes "wants_reveal P k s pid" "KeyKeeper_OnProcessStatusChange pid ENDED s k = Ok k1"
    and "KeyKeeper_Commit P send nonce bo ko (st_height s) s k1 = Ok k2" "\<forall>xs. set (bo xs) = set xs"
    and "st_height s + 1 \<noteq> 0"
    and "\<forall>q \<in> set (scheduled k2 (uint (st_height s) + 1)). wants_reveal P k2 s2 q" "\<forall>tx. send tx = Ok ()"
  shows "\<exists>k3. checkRevealProcess P send nonce (st_height s + 1) s2 k2 = Ok k3 \<and>
    reveal_tx P k (nonce pid) pid \<in> set (kk_sent k3) \<and> scheduled k3 (uint (st_height s) + 1) = []"
proof -
  let ?h = "uint (st_height s) + 1"
  have "unat (1 + st_height s) = Suc (unat (st_height s))"
    by (rule unatSuc) (use assms(5) in \<open>simp add: add.commute\<close>)
  then have h: "uint (st_height s + 1) = ?h" by (simp only: uint_nat add.commute of_nat_Suc)
  obtain p slot where p: "Process_get pid False s = Ok p" "needs_keys p = Ok True" "my_slot k p = Ok slot" "slot \<noteq> []"
    using assms(1) by (auto simp: wants_reveal_def split: res.splits)
  then have k1: "k1 = k\<lparr>kk_blockPool := db_Upsert (kk_blockPool k) pid ?h\<rparr>"
    using assms(2) by (simp add: KeyKeeper_OnProcessStatusChange_def schedule_next_block_def)
  have "map_of (kk_blockPool k1) pid = Some ?h" by (simp add: k1)
  then have "(pid, ?h) \<in> set (bo (kk_blockPool k1))" using assms(4) by (auto dest: map_of_SomeD)
  then have pid: "pid \<in> set (scheduled k2 ?h)" and k2: "kk_signer k2 = kk_signer k" "kk_myIndex k2 = kk_myIndex k"
    using KeyKeeper_Commit_blocks [OF assms(3), of ?h] by (auto simp: k1)
  obtain pids where pids: "map_of (kk_blocks k2) ?h = Some pids" "scheduled k2 ?h = pids"
    using pid by (cases "map_of (kk_blocks k2) ?h") (simp_all add: scheduled_def)
  obtain k3 where k3: "reveal_loop P send nonce s2 pids k2 = Ok (True, k3)" "same_keeper k2 k3"
    "\<forall>q \<in> set pids. reveal_tx P k2 (nonce q) q \<in> set (kk_sent k3)"
    using reveal_loop_sends [of pids P k2 s2 send nonce] assms(6,7) pids(2) by auto
  have "reveal_tx P k2 n pid = reveal_tx P k n pid" for n
    using k2 by (simp add: reveal_tx_def generateKeys_def)
  then have "reveal_tx P k (nonce pid) pid \<in> set (kk_sent k3)" using k3(3) pid pids(2) by metis
  then show ?thesis
    using k3 pids pid h by (simp add: checkRevealProcess_def scheduled_def map_of_filter_keys)
qed

section \<open>A concrete keeper\<close>

definition keeper0 :: KeyKeeper where
  "keeper0 = \<lparr>kk_signer = [1], kk_myIndex = 1, kk_keyPool = [], kk_blockPool = [], kk_processes = [],
     kk_blocks = [], kk_sent = []\<rparr>"

definition secret0 :: Process where
  "secret0 = proc0\<lparr>EnvelopeTypeOf := Some \<lparr>Serial = False, Anonymous = False, EncryptedVotes = True,
       UniqueValues = False, CostFromWeight = False\<rparr>,
     EncryptionPublicKeys := replicate 16 [], EncryptionPrivateKeys := replicate 16 []\<rparr>"

definition secret_key :: bytes where
  "secret_key = take 32 (([1] @ pid0 @ [1]) @ replicate 32 0)"

lemma keeper0_keys: "generateKeys params0 keeper0 pid0 = Ok \<lparr>pk_pubKey = secret_key, pk_privKey = secret_key, pk_index = 1\<rparr>"
  by (simp add: generateKeys_def keeper0_def DecodePrivate_def DecodePrivate_Public_def HashRaw_def
      nacl_KeyLength_def of_option_def secret_key_def)

lemma secret_state_wf: "processes_wf params0 (state_with (secret0\<lparr>EncryptionPublicKeys := ks\<rparr>))"
  by (simp add: processes_wf_def state_with_def leaf_wf_def empty_root_def secret0_def)


theorem ended_process_reveals_key_witness:
  "let s = state_with (secret0\<lparr>EncryptionPublicKeys := (replicate 16 [])[1 := hex secret_key]\<rparr>)
   in \<exists>k1 k2 k3. KeyKeeper_OnProcessStatusChange pid0 ENDED s keeper0 = Ok k1 \<and>
        KeyKeeper_Commit params0 (\<lambda>tx. Ok ()) (\<lambda>pid. 3) id id (st_height s) s k1 = Ok k2 \<and>
        checkRevealProcess params0 (\<lambda>tx. Ok ()) (\<lambda>pid. 3) (st_height s + 1) s k2 = Ok k3 \<and>
        admin_key_tx REVEAL_PROCESS_KEYS 1 3 pid0 (Some secret_key) None \<in> set (kk_sent k3)"
proof -
  let ?p = "secret0\<lparr>EncryptionPublicKeys := (replicate 16 [])[1 := hex secret_key]\<rparr>"
  let ?s = "state_with ?p"
  let ?k1 = "keeper0\<lparr>kk_blockPool := [(pid0, 16)]\<rparr>"
  let ?k2 = "?k1\<lparr>kk_blocks := [(16, [pid0])]\<rparr>"
  have h: "st_height ?s = 15" by (simp add: state_with_def proc_state_def)
  have slot: "needs_keys ?p = Ok True" "my_slot k ?p = Ok (hex secret_key)" "hex secret_key \<noteq> []"
    if "kk_myIndex k = 1" for k
    using that by (simp_all add: needs_keys_def my_slot_def index_at_def secret0_def) (simp add: secret_key_def)
  have w: "wants_reveal params0 k ?s pid0" if "kk_myIndex k = 1" "kk_signer k = [1]" for k
  proof -
    have "generateKeys params0 k pid0 = generateKeys params0 keeper0 pid0"
      using that by (simp add: generateKeys_def keeper0_def)
    then show ?thesis using slot that by (simp add: wants_reveal_def keeper0_keys)
  qed
  have k1: "KeyKeeper_OnProcessStatusChange pid0 ENDED ?s keeper0 = Ok ?k1"
    using slot [of keeper0] h
    by (simp add: KeyKeeper_OnProcessStatusChange_def schedule_next_block_def keeper0_def db_Upsert_def)
  have k2: "KeyKeeper_Commit params0 (\<lambda>tx. Ok ()) (\<lambda>pid. 3) id id (st_height ?s) ?s ?k1 = Ok ?k2"
    using h by (simp add: KeyKeeper_Commit_def scheduleRevealKeys_def schedule_pid_def scheduled_def keeper0_def
        db_Upsert_def checkRevealProcess_def publishPendingKeys_def)
  have m: "kk_myIndex keeper0 = 1" "kk_signer keeper0 = [1]" by (simp_all add: keeper0_def)
  have "st_height ?s + 1 \<noteq> 0" using h by simp
  moreover have "\<forall>q \<in> set (scheduled ?k2 (uint (st_height ?s) + 1)). wants_reveal params0 ?k2 ?s q"
    using h w [of ?k2] m by (simp add: scheduled_def)
  ultimately obtain k3 where "checkRevealProcess params0 (\<lambda>tx. Ok ()) (\<lambda>pid. 3) (st_height ?s + 1) ?s ?k2 = Ok k3"
    "reveal_tx params0 keeper0 3 pid0 \<in> set (kk_sent k3)"
    using ended_process_reveals_key [OF w [OF m] k1 k2] by auto
  moreover have "reveal_tx params0 keeper0 3 pid0 = admin_key_tx REVEAL_PROCESS_KEYS 1 3 pid0 (Some secret_key) None"
    by (simp add: reveal_tx_def keeper0_keys)
  ultimately show ?thesis unfolding Let_def using k1 k2 by auto
qed

end
