(* ===== verification/Key_Value.thy ===== *)
theory Key_Value
  imports Prelude "HOL-Library.Sublist"
begin

text \<open>
  The key-value databases of the node (\<^verbatim>\<open>src/db\<close>): the interface of \<^verbatim>\<open>interface.go\<close>, the transactions and the
  iteration of \<^verbatim>\<open>pebbledb\<close> and \<^verbatim>\<open>badgerdb\<close>, the wrappers of \<^verbatim>\<open>prefixeddb\<close> and the \<^verbatim>\<open>Batch\<close> that commits when it is
  full. A database is the list of its entries in the order of their keys. A transaction of the
  store behind the wrappers is the log of its writes, the last one first, read over the database; the
  wrappers are the constructors of one type, since Go tells them apart by type assertions. When such
  a transaction refuses a write as too big is the argument \<open>full\<close>. The locale \<open>write_tx\<close> is the contract
  of \<^verbatim>\<open>db.WriteTx\<close> its clients rely on, interpreted on every transaction of the model.
\<close>

section \<open>Entries in the order of keys\<close>

text \<open>\<^verbatim>\<open>bytes.Compare\<close>.\<close>

fun bytes_less :: "bytes \<Rightarrow> bytes \<Rightarrow> bool" where
  "bytes_less k [] = False"
| "bytes_less [] (b # bs) = True"
| "bytes_less (a # as) (b # bs) = (a < b \<or> a = b \<and> bytes_less as bs)"

type_synonym database = "(bytes \<times> bytes) list"

fun db_put :: "bytes \<Rightarrow> bytes \<Rightarrow> database \<Rightarrow> database" where
  "db_put k v [] = [(k, v)]"
| "db_put k v (e # d) =
     (if bytes_less (fst e) k then e # db_put k v d
      else if fst e = k then (k, v) # d
      else (k, v) # e # d)"

definition db_del :: "bytes \<Rightarrow> database \<Rightarrow> database" where
  "db_del k d = filter (\<lambda>e. fst e \<noteq> k) d"

definition db_sorted :: "database \<Rightarrow> bool" where
  "db_sorted d = sorted_wrt (\<lambda>e f. bytes_less (fst e) (fst f)) d"

section \<open>Transactions\<close>

text \<open>A write is a value, or a deletion.\<close>

type_synonym write_log = "(bytes \<times> bytes option) list"

fun apply_write :: "bytes \<times> bytes option \<Rightarrow> database \<Rightarrow> database" where
  "apply_write (k, Some v) d = db_put k v d"
| "apply_write (k, None) d = db_del k d"

definition ErrTxnTooBig :: err where "ErrTxnTooBig = Errf ''txn too big''"

datatype Database = RawDB | PrefixedDatabase bytes Database

datatype WriteTx =
    RawTx write_log
  | PrefixedWriteTx bytes WriteTx
  | Batch WriteTx Database u64 u64

definition prefixSlice :: "bytes \<Rightarrow> bytes \<Rightarrow> bytes" where
  "prefixSlice pfx v = pfx @ v"

fun NewPrefixedDatabase :: "Database \<Rightarrow> bytes \<Rightarrow> Database" where
  "NewPrefixedDatabase (PrefixedDatabase p db) pfx = PrefixedDatabase (prefixSlice p pfx) db"
| "NewPrefixedDatabase db pfx = PrefixedDatabase pfx db"

fun NewPrefixedWriteTx :: "WriteTx \<Rightarrow> bytes \<Rightarrow> WriteTx" where
  "NewPrefixedWriteTx (PrefixedWriteTx p tx) pfx = PrefixedWriteTx (prefixSlice p pfx) tx"
| "NewPrefixedWriteTx tx pfx = PrefixedWriteTx pfx tx"

fun Database_WriteTx :: "Database \<Rightarrow> WriteTx" where
  "Database_WriteTx RawDB = RawTx []"
| "Database_WriteTx (PrefixedDatabase p db) = NewPrefixedWriteTx (Database_WriteTx db) p"

definition DefaultBatchMaxSize :: u64 where "DefaultBatchMaxSize = 1024 * 1024"

definition NewBatch :: "Database \<Rightarrow> WriteTx" where
  "NewBatch db = Batch (Database_WriteTx db) db DefaultBatchMaxSize 0"

definition NewBatchMaxSize :: "Database \<Rightarrow> u64 \<Rightarrow> WriteTx" where
  "NewBatchMaxSize db maxSize = Batch (Database_WriteTx db) db maxSize 0"

definition raw_get :: "write_log \<Rightarrow> database \<Rightarrow> bytes \<Rightarrow> bytes option" where
  "raw_get w d k = (case map_of w k of None \<Rightarrow> map_of d k | Some v \<Rightarrow> v)"

fun Tx_Get :: "bytes \<Rightarrow> WriteTx \<Rightarrow> database \<Rightarrow> bytes res" where
  "Tx_Get k (RawTx w) d = of_option ErrKeyNotFound (raw_get w d k)"
| "Tx_Get k (PrefixedWriteTx p tx) d = Tx_Get (prefixSlice p k) tx d"
| "Tx_Get k (Batch tx db maxSize n) d = Tx_Get k tx d"

text \<open>Committing writes the log of the innermost transaction to the database.\<close>

fun Tx_Commit :: "WriteTx \<Rightarrow> database \<Rightarrow> database" where
  "Tx_Commit (RawTx w) d = foldr apply_write w d"
| "Tx_Commit (PrefixedWriteTx p tx) d = Tx_Commit tx d"
| "Tx_Commit (Batch tx db maxSize n) d = Tx_Commit tx d"

text \<open>\<^verbatim>\<open>Set\<close> and \<^verbatim>\<open>Delete\<close> are the write of a value and of a deletion. The batch writes a second time, in the
  new transaction, what it has just committed. The recursion goes into the wrapped transaction and into
  the new one, whose wrappers are those of the batch's database.\<close>

fun db_size :: "Database \<Rightarrow> nat" where
  "db_size RawDB = 0"
| "db_size (PrefixedDatabase p db) = Suc (db_size db)"

fun tx_size :: "WriteTx \<Rightarrow> nat" where
  "tx_size (RawTx w) = 0"
| "tx_size (PrefixedWriteTx p tx) = Suc (tx_size tx)"
| "tx_size (Batch tx db maxSize n) = Suc (tx_size tx + db_size db)"

lemma tx_size_NewPrefixed: "tx_size (NewPrefixedWriteTx tx p) \<le> Suc (tx_size tx)"
  by (cases tx) auto

lemma tx_size_Database: "tx_size (Database_WriteTx db) \<le> db_size db"
proof (induction db)
  case (PrefixedDatabase p db)
  then show ?case using tx_size_NewPrefixed [of "Database_WriteTx db" p] by simp
qed simp

function Tx_Write ::
  "(write_log \<Rightarrow> bool) \<Rightarrow> bytes \<Rightarrow> bytes option \<Rightarrow> WriteTx \<Rightarrow> database \<Rightarrow> unit res \<times> WriteTx \<times> database" where
  "Tx_Write full k v (RawTx w) d =
     (if full w then (Fail ErrTxnTooBig, RawTx w, d) else (Ok (), RawTx ((k, v) # w), d))"
| "Tx_Write full k v (PrefixedWriteTx p tx) d =
     (let (e, tx', d') = Tx_Write full (prefixSlice p k) v tx d in (e, PrefixedWriteTx p tx', d'))"
| "Tx_Write full k v (Batch tx db maxSize n) d =
     (let (e, tx', d') = Tx_Write full k v tx d
      in if (case e of Fail f \<Rightarrow> errors_is f ErrTxnTooBig | _ \<Rightarrow> False) \<or> n + 1 = maxSize
         then let (e2, tx2, d2) = Tx_Write full k v (Database_WriteTx db) (Tx_Commit tx' d')
              in (e2, Batch tx2 db maxSize (if is_ok e2 then 1 else 0), d2)
         else (e, Batch tx' db maxSize (if is_ok e then n + 1 else n), d'))"
  by pat_completeness auto
termination by (relation "measure (\<lambda>(full, k, v, tx, d). tx_size tx)")
    (auto simp: le_imp_less_Suc trans_le_add2 tx_size_Database)

abbreviation Tx_Set ::
  "(write_log \<Rightarrow> bool) \<Rightarrow> bytes \<Rightarrow> bytes \<Rightarrow> WriteTx \<Rightarrow> database \<Rightarrow> unit res \<times> WriteTx \<times> database" where
  "Tx_Set full k v \<equiv> Tx_Write full k (Some v)"

abbreviation Tx_Delete ::
  "(write_log \<Rightarrow> bool) \<Rightarrow> bytes \<Rightarrow> WriteTx \<Rightarrow> database \<Rightarrow> unit res \<times> WriteTx \<times> database" where
  "Tx_Delete full k \<equiv> Tx_Write full k None"

text \<open>The loop of \<open>UnwrapWriteTx\<close>, and \<^verbatim>\<open>Apply\<close> as the pebble store has it.\<close>

fun Unwrap :: "WriteTx \<Rightarrow> WriteTx option" where
  "Unwrap (RawTx w) = None"
| "Unwrap (PrefixedWriteTx p tx) = Some tx"
| "Unwrap (Batch tx db maxSize n) = Some tx"

partial_function (option) UnwrapWriteTx :: "WriteTx \<Rightarrow> WriteTx option" where
  "UnwrapWriteTx tx = (case Unwrap tx of None \<Rightarrow> Some tx | Some t \<Rightarrow> UnwrapWriteTx t)"

fun Tx_Apply :: "WriteTx \<Rightarrow> WriteTx \<Rightarrow> WriteTx" where
  "Tx_Apply other (RawTx w) =
     (case UnwrapWriteTx other of Some (RawTx w') \<Rightarrow> RawTx (w' @ w) | _ \<Rightarrow> RawTx w)"
| "Tx_Apply other (PrefixedWriteTx p tx) = PrefixedWriteTx p (Tx_Apply other tx)"
| "Tx_Apply other (Batch tx db maxSize n) = Batch (Tx_Apply other tx) db maxSize n"

section \<open>Iteration\<close>

text \<open>The callback folds an accumulator and returns whether to go on.\<close>

fun iterate :: "('a \<Rightarrow> bytes \<Rightarrow> bytes \<Rightarrow> 'a \<times> bool) \<Rightarrow> 'a \<Rightarrow> database \<Rightarrow> 'a" where
  "iterate f a [] = a"
| "iterate f a ((k, v) # d) = (let (a', cont) = f a k v in if cont then iterate f a' d else a')"

text \<open>\<^verbatim>\<open>keyUpperBound\<close> runs over the bytes from the last to the first.\<close>

fun upper_loop :: "bytes \<Rightarrow> bytes option" where
  "upper_loop [] = None"
| "upper_loop (b # bs) = (if b + 1 \<noteq> 0 then Some (rev ((b + 1) # bs)) else upper_loop bs)"

definition keyUpperBound :: "bytes \<Rightarrow> bytes option" where
  "keyUpperBound b = upper_loop (rev b)"

definition in_bounds :: "bytes \<Rightarrow> bytes \<Rightarrow> bool" where
  "in_bounds p k = (\<not> bytes_less k p \<and> (case keyUpperBound p of None \<Rightarrow> True | Some e \<Rightarrow> bytes_less k e))"

definition pebble_Iterate :: "bytes \<Rightarrow> ('a \<Rightarrow> bytes \<Rightarrow> bytes \<Rightarrow> 'a \<times> bool) \<Rightarrow> 'a \<Rightarrow> database \<Rightarrow> 'a" where
  "pebble_Iterate p f a d =
     iterate (\<lambda>a k v. f a (drop (length p) k) v) a (filter (\<lambda>e. in_bounds p (fst e)) d)"

definition badger_Iterate :: "bytes \<Rightarrow> ('a \<Rightarrow> bytes \<Rightarrow> bytes \<Rightarrow> 'a \<times> bool) \<Rightarrow> 'a \<Rightarrow> database \<Rightarrow> 'a" where
  "badger_Iterate p f a d = iterate f a (filter (\<lambda>e. prefix p (fst e)) d)"

definition bytes_TrimPrefix :: "bytes \<Rightarrow> bytes \<Rightarrow> bytes" where
  "bytes_TrimPrefix k p = (if prefix p k then drop (length p) k else k)"

definition Prefixed_Iterate ::
  "(bytes \<Rightarrow> ('a \<Rightarrow> bytes \<Rightarrow> bytes \<Rightarrow> 'a \<times> bool) \<Rightarrow> 'a \<Rightarrow> database \<Rightarrow> 'a) \<Rightarrow> bytes \<Rightarrow>
     bytes \<Rightarrow> ('a \<Rightarrow> bytes \<Rightarrow> bytes \<Rightarrow> 'a \<times> bool) \<Rightarrow> 'a \<Rightarrow> database \<Rightarrow> 'a" where
  "Prefixed_Iterate iter q p f a d = iter (prefixSlice q p) (\<lambda>a k v. f a (bytes_TrimPrefix k q) v) a d"

section \<open>Entries\<close>

lemma bytes_less_irrefl [simp]: "\<not> bytes_less k k"
  by (induction k) auto

lemma bytes_less_trans: "bytes_less a b \<Longrightarrow> bytes_less b c \<Longrightarrow> bytes_less a c"
proof (induction a c arbitrary: b rule: bytes_less.induct)
  case (1 k)
  then show ?case by simp
next
  case (2 x xs)
  then show ?case by simp
next
  case (3 x xs y ys)
  then obtain z zs where "b = z # zs" by (cases b) auto
  with 3 show ?case by auto
qed

lemma bytes_less_linear: "bytes_less a b \<or> a = b \<or> bytes_less b a"
  by (induction a b rule: bytes_less.induct) (auto, metis bytes_less.simps(2) list.exhaust)

lemma map_of_db_put [simp]: "map_of (db_put k v d) = (map_of d)(k \<mapsto> v)"
  by (induction d) (auto simp: fun_eq_iff)

lemma map_of_db_del [simp]: "map_of (db_del k d) = (map_of d)(k := None)"
  by (induction d) (auto simp: db_del_def fun_eq_iff)

lemma map_of_apply_write [simp]: "map_of (apply_write e d) = (map_of d)(fst e := snd e)"
  by (cases "(e, d)" rule: apply_write.cases) auto

lemma set_db_put: "e \<in> set (db_put k v d) \<Longrightarrow> e = (k, v) \<or> e \<in> set d"
  by (induction d) (auto split: if_splits)

lemma db_sorted_put: "db_sorted d \<Longrightarrow> db_sorted (db_put k v d)"
proof (induction d)
  case (Cons e d)
  then have s: "db_sorted d" "\<forall>f \<in> set d. bytes_less (fst e) (fst f)" by (auto simp: db_sorted_def)
  show ?case
  proof (cases "bytes_less (fst e) k")
    case True
    with Cons s show ?thesis by (fastforce simp: db_sorted_def dest: set_db_put)
  next
    case False
    then have "fst e = k \<or> bytes_less k (fst e)" using bytes_less_linear by blast
    with Cons.prems s False show ?thesis by (auto simp: db_sorted_def intro: bytes_less_trans)
  qed
qed (simp add: db_sorted_def)

lemma db_sorted_write [simp]: "db_sorted d \<Longrightarrow> db_sorted (apply_write e d)"
proof -
  assume s: "db_sorted d"
  then have "db_sorted (db_del k d)" for k by (auto simp: db_del_def db_sorted_def intro: sorted_wrt_filter)
  with s show ?thesis by (cases "(e, d)" rule: apply_write.cases) (auto simp: db_sorted_put)
qed

lemma db_sorted_Cons: "db_sorted (e # d) \<Longrightarrow> db_sorted d \<and> (\<forall>f \<in> set d. bytes_less (fst e) (fst f))"
  by (auto simp: db_sorted_def)

text \<open>A database is determined by what its keys hold.\<close>

lemma db_sorted_lookup: "db_sorted ((k, v) # d) \<Longrightarrow> map_of d k = None"
  by (metis bytes_less_irrefl db_sorted_Cons fst_conv map_of_SomeD not_None_eq)

lemma db_sorted_least: "db_sorted ((k, v) # d) \<Longrightarrow> map_of ((k, v) # d) k' = Some u \<Longrightarrow> k' = k \<or> bytes_less k k'"
  by (auto split: if_splits dest!: db_sorted_Cons map_of_SomeD)

lemma db_eqI:
  assumes "db_sorted d" "db_sorted d'" "map_of d = map_of d'"
  shows "d = d'"
  using assms
proof (induction d arbitrary: d')
  case Nil
  then show ?case by (cases d') (auto simp: fun_eq_iff, metis option.distinct(1))
next
  case (Cons e d)
  obtain k v where e: "e = (k, v)" by force
  obtain k' v' r where d': "d' = (k', v') # r"
    using Cons.prems(3) e by (cases d') (auto simp: fun_eq_iff, metis option.distinct(1))
  have "map_of (e # d) k = Some v" "map_of d' k' = Some v'" using e d' by simp_all
  then have "map_of d' k = Some v" "map_of (e # d) k' = Some v'" using Cons.prems(3) by metis+
  then have "k = k'"
    using db_sorted_least [of k v d k'] db_sorted_least [of k' v' r k] Cons.prems e d'
    by (metis bytes_less_irrefl bytes_less_trans)
  moreover have "v = v'" using \<open>map_of d' k = Some v\<close> d' calculation by simp
  moreover have "map_of d = map_of r"
  proof
    fix x show "map_of d x = map_of r x"
      using Cons.prems e d' calculation db_sorted_lookup [of k v d] db_sorted_lookup [of k v r]
      by (auto dest: fun_cong [of _ _ x] split: if_splits)
  qed
  ultimately show ?case
    using Cons.IH [of r] Cons.prems e d' by (auto dest: db_sorted_Cons)
qed

section \<open>What a transaction shows\<close>

text \<open>The log and the prefix of the innermost transaction behind the wrappers, and what it shows of the
  keys of the whole database. A batch is sound when its transaction is one of its database.\<close>

fun tx_log :: "WriteTx \<Rightarrow> write_log" where
  "tx_log (RawTx w) = w"
| "tx_log (PrefixedWriteTx p tx) = tx_log tx"
| "tx_log (Batch tx db maxSize n) = tx_log tx"

fun tx_path :: "WriteTx \<Rightarrow> bytes" where
  "tx_path (RawTx w) = []"
| "tx_path (PrefixedWriteTx p tx) = tx_path tx @ p"
| "tx_path (Batch tx db maxSize n) = tx_path tx"

fun db_path :: "Database \<Rightarrow> bytes" where
  "db_path RawDB = []"
| "db_path (PrefixedDatabase p db) = db_path db @ p"

fun tx_ok :: "WriteTx \<Rightarrow> bool" where
  "tx_ok (RawTx w) = True"
| "tx_ok (PrefixedWriteTx p tx) = tx_ok tx"
| "tx_ok (Batch tx db maxSize n) = (tx_ok tx \<and> tx_path tx = db_path db)"

definition tx_view :: "WriteTx \<Rightarrow> database \<Rightarrow> bytes \<rightharpoonup> bytes" where
  "tx_view tx d = raw_get (tx_log tx) d"

lemma raw_get_Nil [simp]: "raw_get [] d = map_of d"
  by (auto simp: raw_get_def)

lemma raw_get_Cons [simp]: "raw_get (e # w) d = (raw_get w d)(fst e := snd e)"
  by (auto simp: raw_get_def)

lemma map_of_writes: "map_of (foldr apply_write w d) = raw_get w d"
  by (induction w) auto

lemma Tx_Get_view: "Tx_Get k tx d = of_option ErrKeyNotFound (tx_view tx d (tx_path tx @ k))"
  by (induction k tx d rule: Tx_Get.induct) (auto simp: tx_view_def prefixSlice_def)

lemma map_of_Commit: "map_of (Tx_Commit tx d) = tx_view tx d"
  by (induction tx d rule: Tx_Commit.induct) (auto simp: tx_view_def map_of_writes)

lemma NewPrefixed_path [simp]: "tx_path (NewPrefixedWriteTx tx p) = tx_path tx @ p"
  by (cases tx) (auto simp: prefixSlice_def)

lemma NewPrefixed_log [simp]: "tx_log (NewPrefixedWriteTx tx p) = tx_log tx"
  by (cases tx) auto

lemma NewPrefixed_ok [simp]: "tx_ok (NewPrefixedWriteTx tx p) = tx_ok tx"
  by (cases tx) auto

lemma Database_path [simp]: "tx_path (Database_WriteTx db) = db_path db"
  by (induction db) auto

lemma Database_log [simp]: "tx_log (Database_WriteTx db) = []"
  by (induction db) auto

lemma Database_ok [simp]: "tx_ok (Database_WriteTx db)"
  by (induction db) auto

lemma NewPrefixedDatabase_path [simp]: "db_path (NewPrefixedDatabase db p) = db_path db @ p"
  by (cases db) (auto simp: prefixSlice_def)

text \<open>A write shows at its key and nowhere else, through any wrappers and whether or not a batch
  commits on the way.\<close>

lemma Tx_Write_keeps:
  "Tx_Write full k v tx d = (e, tx', d') \<Longrightarrow> tx_ok tx \<Longrightarrow> tx_ok tx' \<and> tx_path tx' = tx_path tx"
proof (induction full k v tx d arbitrary: e tx' d' rule: Tx_Write.induct)
  case (3 full k v tx db maxSize n d)
  obtain e1 t1 d1 where 1: "Tx_Write full k v tx d = (e1, t1, d1)" by (metis prod_cases3)
  obtain e2 t2 d2 where 2: "Tx_Write full k v (Database_WriteTx db) (Tx_Commit t1 d1) = (e2, t2, d2)"
    by (metis prod_cases3)
  have a: "tx_ok t1 \<and> tx_path t1 = tx_path tx" using "3.IH"(1) [OF 1] "3.prems" by simp
  show ?case
  proof (cases "(case e1 of Fail f \<Rightarrow> errors_is f ErrTxnTooBig | _ \<Rightarrow> False) \<or> n + 1 = maxSize")
    case True
    then have "tx_ok t2 \<and> tx_path t2 = db_path db"
      using "3.IH"(2) [OF 1 [symmetric] refl refl True 2] by simp
    with True show ?thesis using "3.prems" 1 2 by auto
  next
    case False
    with a show ?thesis using "3.prems" 1 by auto
  qed
qed (auto split: prod.splits if_splits)


lemma Tx_Write_outcome: "fst (Tx_Write full k v tx d) = Ok () \<or> fst (Tx_Write full k v tx d) = Fail ErrTxnTooBig"
proof (induction full k v tx d rule: Tx_Write.induct)
  case (2 full k v p tx d)
  then show ?case by (auto simp: split_def Let_def)
next
  case (3 full k v tx db maxSize n d)
  obtain e1 t1 d1 where 1: "Tx_Write full k v tx d = (e1, t1, d1)" by (metis prod_cases3)
  obtain e2 t2 d2 where 2: "Tx_Write full k v (Database_WriteTx db) (Tx_Commit t1 d1) = (e2, t2, d2)"
    by (metis prod_cases3)
  show ?case
    using "3.IH"(1) "3.IH"(2) [OF 1 [symmetric] refl refl] 1 2 by auto
qed simp

text \<open>A write that a batch refuses may still have been committed by it.\<close>

definition wrote :: "bool \<Rightarrow> bytes \<Rightarrow> bytes option \<Rightarrow> (bytes \<rightharpoonup> bytes) \<Rightarrow> (bytes \<rightharpoonup> bytes) \<Rightarrow> bool" where
  "wrote ok k v old new = (new = old(k := v) \<or> \<not> ok \<and> new = old)"

lemma wrote_again: "wrote a k v x y \<Longrightarrow> wrote b k v y z \<Longrightarrow> wrote b k v x z"
  by (auto simp: wrote_def)

lemma Tx_Write_wrote:
  "Tx_Write full k v tx d = (e, tx', d') \<Longrightarrow> tx_ok tx \<Longrightarrow>
     wrote (is_ok e) (tx_path tx @ k) v (tx_view tx d) (tx_view tx' d')"
proof (induction full k v tx d arbitrary: e tx' d' rule: Tx_Write.induct)
  case (1 full k v w d)
  then show ?case by (auto simp: tx_view_def wrote_def split: if_splits)
next
  case (2 full k v p tx d)
  then show ?case by (auto simp: tx_view_def prefixSlice_def split: prod.splits)
next
  case (3 full k v tx db maxSize n d)
  obtain e1 t1 d1 where 1: "Tx_Write full k v tx d = (e1, t1, d1)" by (metis prod_cases3)
  obtain e2 t2 d2 where 2: "Tx_Write full k v (Database_WriteTx db) (Tx_Commit t1 d1) = (e2, t2, d2)"
    by (metis prod_cases3)
  have v: "tx_view (Batch t db m c) d = tx_view t d" for t m c d by (simp add: tx_view_def)
  have a: "wrote (is_ok e1) (tx_path tx @ k) v (tx_view tx d) (tx_view t1 d1)"
    using "3.IH"(1) [OF 1] "3.prems" by simp
  have b: "tx_view (Database_WriteTx db) (Tx_Commit t1 d1) = tx_view t1 d1"
    by (simp add: tx_view_def map_of_Commit)
  show ?case
  proof (cases "(case e1 of Fail f \<Rightarrow> errors_is f ErrTxnTooBig | _ \<Rightarrow> False) \<or> n + 1 = maxSize")
    case True
    have "wrote (is_ok e2) (tx_path tx @ k) v (tx_view t1 d1) (tx_view t2 d2)"
      using "3.IH"(2) [OF 1 [symmetric] refl refl True 2] "3.prems"(2) by (simp add: b)
    with True wrote_again [OF a this] show ?thesis using "3.prems" 1 2 by (auto simp: v)
  next
    case False
    with a show ?thesis using "3.prems" 1 by (auto simp: v split: if_splits)
  qed
qed

lemma Tx_Write_view:
  "Tx_Write full k v tx d = (Ok u, tx', d') \<Longrightarrow> tx_ok tx \<Longrightarrow>
     tx_view tx' d' = (tx_view tx d)(tx_path tx @ k := v)"
  by (drule (1) Tx_Write_wrote) (simp add: wrote_def)

section \<open>The contract of a transaction\<close>

locale write_tx =
  fixes get :: "bytes \<Rightarrow> 's \<Rightarrow> bytes res"
    and write_key :: "bytes \<Rightarrow> bytes option \<Rightarrow> 's \<Rightarrow> unit res \<times> 's"
    and look :: "'s \<Rightarrow> bytes \<rightharpoonup> bytes"
    and sound :: "'s \<Rightarrow> bool"
  assumes get_look: "get k s = of_option ErrKeyNotFound (look s k)"
    and write_look: "sound s \<Longrightarrow> write_key k v s = (Ok u, s') \<Longrightarrow> look s' = (look s)(k := v)"
    and write_sound: "sound s \<Longrightarrow> write_key k v s = (e, s') \<Longrightarrow> sound s'"
begin

lemma get_write:
  assumes "sound s" "write_key k (Some v) s = (Ok u, s')"
  shows "get k' s' = (if k' = k then Ok v else get k' s)"
  using write_look [OF assms] by (simp add: get_look of_option_def)

lemma get_delete:
  assumes "sound s" "write_key k None s = (Ok u, s')"
  shows "get k' s' = (if k' = k then Fail ErrKeyNotFound else get k' s)"
  using write_look [OF assms] by (simp add: get_look of_option_def)

text \<open>Keys under two prefixes do not meet when neither prefix starts the other.\<close>

lemma get_other_prefix:
  assumes "sound s" "write_key (p @ k) v s = (Ok u, s')" "p \<parallel> q"
  shows "get (q @ k') s' = get (q @ k') s"
proof -
  have "q @ k' \<noteq> p @ k"
    using assms(3) by (metis prefix_same_cases prefixI parallelD1 parallelD2)
  then show ?thesis using write_look [OF assms(1,2)] by (simp add: get_look)
qed

end

text \<open>A transaction and the database behind it.\<close>

type_synonym tx_state = "WriteTx \<times> database"

definition get_tx :: "bytes \<Rightarrow> tx_state \<Rightarrow> bytes res" where
  "get_tx k s = Tx_Get k (fst s) (snd s)"

definition write_tx_key :: "(write_log \<Rightarrow> bool) \<Rightarrow> bytes \<Rightarrow> bytes option \<Rightarrow> tx_state \<Rightarrow> unit res \<times> tx_state" where
  "write_tx_key full k v s = Tx_Write full k v (fst s) (snd s)"

definition look_tx :: "tx_state \<Rightarrow> bytes \<rightharpoonup> bytes" where
  "look_tx s k = tx_view (fst s) (snd s) (tx_path (fst s) @ k)"

interpretation tx: write_tx get_tx "write_tx_key full" look_tx "\<lambda>s. tx_ok (fst s)" for full
proof unfold_locales
  fix k s show "get_tx k s = of_option ErrKeyNotFound (look_tx s k)"
    by (simp add: get_tx_def look_tx_def Tx_Get_view)
next
  fix s :: tx_state and k v u s' assume a: "tx_ok (fst s)" "write_tx_key full k v s = (Ok u, s')"
  then have "Tx_Write full k v (fst s) (snd s) = (Ok u, fst s', snd s')" by (simp add: write_tx_key_def)
  from Tx_Write_keeps [OF this a(1)] Tx_Write_view [OF this a(1)]
  show "look_tx s' = (look_tx s)(k := v)" by (simp add: look_tx_def fun_eq_iff)
next
  fix s :: tx_state and k v e s' assume "tx_ok (fst s)" "write_tx_key full k v s = (e, s')"
  then show "tx_ok (fst s')"
    using Tx_Write_keeps [of full k v "fst s" "snd s" e "fst s'" "snd s'"] by (simp add: write_tx_key_def)
qed

text \<open>A wrapper shares the transaction it wraps: what a write through \<^verbatim>\<open>NewPrefixedWriteTx(tx, p)\<close> leaves
  in \<^verbatim>\<open>tx\<close>.\<close>

fun shared_tx :: "WriteTx \<Rightarrow> WriteTx \<Rightarrow> WriteTx" where
  "shared_tx (PrefixedWriteTx q tx) (PrefixedWriteTx p tx') = PrefixedWriteTx q tx'"
| "shared_tx tx (PrefixedWriteTx p tx') = tx'"
| "shared_tx tx tx' = tx'"

definition write_under ::
  "(write_log \<Rightarrow> bool) \<Rightarrow> bytes \<Rightarrow> bytes \<Rightarrow> bytes option \<Rightarrow> tx_state \<Rightarrow> unit res \<times> tx_state" where
  "write_under full p k v s =
     (let (e, tx', d') = Tx_Write full k v (NewPrefixedWriteTx (fst s) p) (snd s)
      in (e, shared_tx (fst s) tx', d'))"

definition get_under :: "bytes \<Rightarrow> bytes \<Rightarrow> tx_state \<Rightarrow> bytes res" where
  "get_under p k s = Tx_Get k (NewPrefixedWriteTx (fst s) p) (snd s)"

lemma write_under_eq: "write_under full p k v s = write_tx_key full (p @ k) v s"
proof -
  obtain tx d where s: "s = (tx, d)" by force
  show ?thesis
  proof (cases tx)
    case (RawTx w)
    then show ?thesis by (simp add: s write_under_def write_tx_key_def prefixSlice_def)
  next
    case (PrefixedWriteTx q t)
    then show ?thesis
      by (simp add: s write_under_def write_tx_key_def prefixSlice_def split: prod.split)
  next
    case (Batch t db m n)
    have "shared_tx tx (PrefixedWriteTx p' t') = t'" for p' t' by (simp add: Batch)
    moreover have "NewPrefixedWriteTx tx p = PrefixedWriteTx p tx" by (simp add: Batch)
    ultimately show ?thesis
      by (simp add: s write_under_def write_tx_key_def prefixSlice_def split: prod.split del: Tx_Write.simps(3))
  qed
qed

lemma get_under_eq: "get_under p k s = get_tx (p @ k) s"
  by (simp add: get_under_def get_tx_def Tx_Get_view tx_view_def)

text \<open>C32. What is set under a key is read back under it, a deleted key is not found and every other key
  reads as before, for every transaction of the node: plain, prefixed any number of times or batched.
  Writes under a prefix leave every key under another one alone when neither prefix starts the other.\<close>

theorem transaction_reads_writes:
  assumes "tx_ok tx"
  shows "(Tx_Set full k v tx d = (Ok (), tx1, d1) \<longrightarrow>
            Tx_Get k' tx1 d1 = (if k' = k then Ok v else Tx_Get k' tx d)) \<and>
         (Tx_Delete full k tx d = (Ok (), tx2, d2) \<longrightarrow>
            Tx_Get k' tx2 d2 = (if k' = k then Fail ErrKeyNotFound else Tx_Get k' tx d)) \<and>
         (p \<parallel> q \<and> write_under full p k w (tx, d) = (Ok (), tx3, d3) \<longrightarrow>
            get_under q k' (tx3, d3) = get_under q k' (tx, d))"
  using tx.get_write [of "(tx, d)" full k v "()" "(tx1, d1)" k'] assms
    tx.get_delete [of "(tx, d)" full k "()" "(tx2, d2)" k']
    tx.get_other_prefix [of "(tx, d)" full p k w "()" "(tx3, d3)" q k']
  by (auto simp: write_under_eq get_under_eq get_tx_def write_tx_key_def)

text \<open>Appending the prefixes of a transaction that is already prefixed, instead of wrapping it again,
  changes neither what it reads nor what its writes do.\<close>

theorem prefixes_appended:
  "Tx_Get k (NewPrefixedWriteTx tx p) d = Tx_Get k (PrefixedWriteTx p tx) d \<and>
   fst (write_under full p k v (tx, d)) = fst (Tx_Write full k v (PrefixedWriteTx p tx) d) \<and>
   (\<exists>tx' d'. snd (write_under full p k v (tx, d)) = (tx', d') \<and>
             snd (Tx_Write full k v (PrefixedWriteTx p tx) d) = (PrefixedWriteTx p tx', d'))"
  unfolding write_under_eq
  by (simp add: Tx_Get_view tx_view_def write_tx_key_def prefixSlice_def split: prod.split)


theorem transaction_reads_writes_witness:
  "Tx_Get [5] (PrefixedWriteTx [1] (RawTx [([1, 5], Some [9])])) [] = Ok [9] \<and>
   Tx_Get [6] (PrefixedWriteTx [1] (RawTx [([1, 5], Some [9])])) [([1, 6], [8])] = Ok [8]"
proof -
  let ?t = "PrefixedWriteTx [1 :: u8] (RawTx [])"
  have ok: "tx_ok ?t" by simp
  show ?thesis
    using transaction_reads_writes [OF ok, of "\<lambda>w. False" "[5]" "[9]" "[]"
        "PrefixedWriteTx [1] (RawTx [([1, 5], Some [9])])" "[]" "[5]"]
      transaction_reads_writes [OF ok, of "\<lambda>w. False" "[5]" "[9]" "[([1, 6], [8])]"
        "PrefixedWriteTx [1] (RawTx [([1, 5], Some [9])])" "[([1, 6], [8])]" "[6]"]
    by (simp add: prefixSlice_def raw_get_def of_option_def)
qed

section \<open>Batches\<close>

text \<open>A sequence of writes, and what it means for the database.\<close>

fun write_all ::
  "(write_log \<Rightarrow> bool) \<Rightarrow> (bytes \<times> bytes option) list \<Rightarrow> tx_state \<Rightarrow> unit res \<times> tx_state" where
  "write_all full [] s = (Ok (), s)"
| "write_all full ((k, v) # ops) s = and_then (write_tx_key full k v s) (\<lambda>_ s. write_all full ops s)"

definition written :: "bytes \<Rightarrow> (bytes \<times> bytes option) list \<Rightarrow> database \<Rightarrow> database" where
  "written p ops d = fold (\<lambda>(k, v). apply_write (p @ k, v)) ops d"

fun flat_tx :: "WriteTx \<Rightarrow> bool" where
  "flat_tx (RawTx w) = True"
| "flat_tx (PrefixedWriteTx p tx) = flat_tx tx"
| "flat_tx (Batch tx db maxSize n) = False"

fun log_write :: "bytes \<times> bytes option \<Rightarrow> WriteTx \<Rightarrow> WriteTx" where
  "log_write e (RawTx w) = RawTx (e # w)"
| "log_write e (PrefixedWriteTx p tx) = PrefixedWriteTx p (log_write e tx)"
| "log_write e (Batch tx db maxSize n) = Batch (log_write e tx) db maxSize n"

lemma log_write_simps [simp]:
  "tx_log (log_write e tx) = e # tx_log tx" "tx_path (log_write e tx) = tx_path tx"
  "flat_tx (log_write e tx) = flat_tx tx"
  by (induction tx) auto

lemma flat_Database [simp]: "flat_tx (Database_WriteTx db)"
proof (induction db)
  case (PrefixedDatabase p db)
  then show ?case by (cases "Database_WriteTx db") auto
qed simp

lemma Tx_Write_flat:
  "flat_tx tx \<Longrightarrow> Tx_Write full k v tx d =
     (if full (tx_log tx) then (Fail ErrTxnTooBig, tx, d) else (Ok (), log_write (tx_path tx @ k, v) tx, d))"
  by (induction tx arbitrary: k) (auto simp: prefixSlice_def)

lemma Tx_Commit_log: "Tx_Commit tx d = foldr apply_write (tx_log tx) d"
  by (induction tx) auto

lemma word_count_Suc:
  fixes n m :: u64
  assumes "n < m"
  shows "unat (n + 1) = Suc (unat n)"
proof -
  have "unat n < unat m" "unat m < 2 ^ 64"
    using assms unsigned_less [of m, where ?'a = nat] by (simp_all add: word_less_nat_alt)
  then show ?thesis by (simp add: unat_word_ariths)
qed

text \<open>One write of a batch over a database, whose transaction is flat.\<close>

lemma Tx_Write_batch:
  assumes "flat_tx tx" "\<not> full []"
  shows "Tx_Write full k v (Batch tx db maxSize n) d =
    (if full (tx_log tx)
     then (Ok (), Batch (log_write (db_path db @ k, v) (Database_WriteTx db)) db maxSize 1, Tx_Commit tx d)
     else if n + 1 = maxSize
     then (Ok (), Batch (log_write (db_path db @ k, v) (Database_WriteTx db)) db maxSize 1,
           apply_write (tx_path tx @ k, v) (Tx_Commit tx d))
     else (Ok (), Batch (log_write (tx_path tx @ k, v) tx) db maxSize (n + 1), d))"
  using assms by (simp add: Tx_Write_flat ErrTxnTooBig_def Tx_Commit_log)

text \<open>The writes so far are those committed and those pending, and the count bounds the pending ones.\<close>

definition batch_inv :: "Database \<Rightarrow> u64 \<Rightarrow> (bytes \<times> bytes option) list \<Rightarrow> database \<Rightarrow> tx_state \<Rightarrow> bool" where
  "batch_inv db maxSize ops d0 s = (\<exists>tx n m.
     fst s = Batch tx db maxSize n \<and> flat_tx tx \<and> tx_path tx = db_path db \<and> m \<le> length ops \<and>
     snd s = written (db_path db) (take m ops) d0 \<and> Tx_Commit tx (snd s) = written (db_path db) ops d0 \<and>
     (2 \<le> maxSize \<longrightarrow> n < maxSize \<and> length ops \<le> m + unat n))"

lemma written_snoc: "written p (ops @ [(k, v)]) d = apply_write (p @ k, v) (written p ops d)"
  by (simp add: written_def)

lemma db_sorted_written [simp]: "db_sorted d \<Longrightarrow> db_sorted (written p ops d)"
  by (induction ops arbitrary: d) (auto simp: written_def)

text \<open>Writing a value that is there, or deleting what is not, changes nothing.\<close>

lemma apply_write_same: "db_sorted d \<Longrightarrow> map_of d (fst e) = snd e \<Longrightarrow> apply_write e d = d"
  by (rule db_eqI) auto

lemma apply_write_twice: "db_sorted d \<Longrightarrow> apply_write e (apply_write e d) = apply_write e d"
  by (rule apply_write_same) auto

lemma batch_inv_write:
  assumes "batch_inv db maxSize ops d0 s" "\<not> full []" "db_sorted d0"
  shows "\<exists>s'. write_tx_key full k v s = (Ok (), s') \<and> batch_inv db maxSize (ops @ [(k, v)]) d0 s'"
proof -
  obtain tx n m where i: "fst s = Batch tx db maxSize n" "flat_tx tx" "tx_path tx = db_path db" "m \<le> length ops"
     "snd s = written (db_path db) (take m ops) d0" "Tx_Commit tx (snd s) = written (db_path db) ops d0"
     "2 \<le> maxSize \<longrightarrow> n < maxSize \<and> length ops \<le> m + unat n"
    using assms(1) by (auto simp: batch_inv_def)
  let ?e = "(db_path db @ k, v)" and ?new = "log_write (db_path db @ k, v) (Database_WriteTx db)"
  have w: "Tx_Commit ?new d = apply_write ?e d" "Tx_Commit (log_write ?e tx) d = apply_write ?e (Tx_Commit tx d)" for d
    by (simp_all add: Tx_Commit_log)
  have new: "flat_tx ?new" "tx_path ?new = db_path db" by simp_all
  have one: "2 \<le> maxSize \<longrightarrow> 1 < maxSize"
    by (simp add: word_less_nat_alt word_le_nat_alt)
  consider (full) "full (tx_log tx)" | (count) "\<not> full (tx_log tx)" "n + 1 = maxSize"
    | (plain) "\<not> full (tx_log tx)" "n + 1 \<noteq> maxSize" by blast
  then show ?thesis
  proof cases
    case full
    then have "write_tx_key full k v s = (Ok (), Batch ?new db maxSize 1, written (db_path db) ops d0)"
      using assms(2) i by (simp add: write_tx_key_def Tx_Write_batch del: Tx_Write.simps(3))
    moreover have "batch_inv db maxSize (ops @ [(k, v)]) d0 (Batch ?new db maxSize 1, written (db_path db) ops d0)"
      unfolding batch_inv_def
      by (intro exI [of _ ?new] exI [of _ 1] exI [of _ "length ops"]) (simp add: w written_snoc one)
    ultimately show ?thesis by blast
  next
    case count
    then have "write_tx_key full k v s = (Ok (), Batch ?new db maxSize 1, written (db_path db) (ops @ [(k, v)]) d0)"
      using assms(2) i by (simp add: write_tx_key_def Tx_Write_batch written_snoc del: Tx_Write.simps(3))
    moreover have "batch_inv db maxSize (ops @ [(k, v)]) d0 (Batch ?new db maxSize 1, written (db_path db) (ops @ [(k, v)]) d0)"
      unfolding batch_inv_def
      by (intro exI [of _ ?new] exI [of _ 1] exI [of _ "Suc (length ops)"])
        (simp add: w written_snoc one assms(3) apply_write_twice)
    ultimately show ?thesis by blast
  next
    case plain
    then have "write_tx_key full k v s = (Ok (), Batch (log_write ?e tx) db maxSize (n + 1), snd s)"
      using assms(2) i(1-3) by (simp add: write_tx_key_def Tx_Write_batch del: Tx_Write.simps(3))
    moreover have "2 \<le> maxSize \<longrightarrow> n + 1 < maxSize \<and> Suc (length ops) \<le> m + unat (n + 1)"
      using i(7) word_count_Suc [of n maxSize] plain(2) by (auto simp: word_less_nat_alt word_le_nat_alt word_unat_eq_iff)
    then have "batch_inv db maxSize (ops @ [(k, v)]) d0 (Batch (log_write ?e tx) db maxSize (n + 1), snd s)"
      unfolding batch_inv_def using i
      by (intro exI [of _ "log_write ?e tx"] exI [of _ "n + 1"] exI [of _ m]) (simp add: w written_snoc)
    ultimately show ?thesis by blast
  qed
qed

lemma written_Nil [simp]: "written p [] d = d"
  by (simp add: written_def)

lemma batch_inv_new: "batch_inv db maxSize [] d (NewBatchMaxSize db maxSize, d)"
  unfolding batch_inv_def NewBatchMaxSize_def
  by (intro exI [of _ "Database_WriteTx db"] exI [of _ 0] exI) (auto simp: Tx_Commit_log word_less_nat_alt word_le_nat_alt)

lemma batch_inv_all:
  assumes "\<not> full []" "db_sorted d0"
  shows "batch_inv db maxSize ops d0 s \<Longrightarrow>
    \<exists>s'. write_all full more s = (Ok (), s') \<and> batch_inv db maxSize (ops @ more) d0 s'"
proof (induction more arbitrary: ops s)
  case (Cons e more)
  obtain k v where e: "e = (k, v)" by force
  obtain s1 where "write_tx_key full k v s = (Ok (), s1)" "batch_inv db maxSize (ops @ [(k, v)]) d0 s1"
    using batch_inv_write [where full = full, OF Cons.prems assms] by blast
  then show ?case using Cons.IH [of "ops @ [(k, v)]" s1] e by auto
qed simp

text \<open>C19. A batch accepts every write, whatever its size and whenever the transactions of the store are
  full, and its commit leaves the database that the writes leave one by one, in their order, under the
  prefix of the batch's database.\<close>

theorem batch_equals_writes:
  assumes "\<not> full []" "db_sorted d"
  shows "\<exists>tx' d'. write_all full ops (NewBatchMaxSize db maxSize, d) = (Ok (), tx', d') \<and>
    Tx_Commit tx' d' = written (db_path db) ops d"
proof -
  obtain s' where "write_all full ops (NewBatchMaxSize db maxSize, d) = (Ok (), s')" "batch_inv db maxSize ops d s'"
    using batch_inv_all [where full = full, OF assms batch_inv_new] by fastforce
  then show ?thesis by (cases s') (auto simp: batch_inv_def)
qed

theorem batch_equals_writes_witness:
  "\<exists>tx' d'. write_all (\<lambda>w. 2 \<le> length w) [([1], Some [7]), ([2], Some [8]), ([1], None), ([3], Some [9])]
       (NewBatchMaxSize (PrefixedDatabase [0] RawDB) 3, [([5], [5])]) = (Ok (), tx', d') \<and>
     Tx_Commit tx' d' = [([0, 2], [8]), ([0, 3], [9]), ([5], [5])]"
  using batch_equals_writes [of "\<lambda>w. 2 \<le> length w" "[([5], [5])]"
      "[([1], Some [7]), ([2], Some [8]), ([1], None), ([3], Some [9])]" "PrefixedDatabase [0] RawDB" 3]
  by (simp add: db_sorted_def written_def db_del_def)



section \<open>Bounds of an iteration\<close>

lemma upper_loop_snoc:
  "upper_loop (xs @ [b]) = (case upper_loop xs of
     Some e \<Rightarrow> Some (b # e) | None \<Rightarrow> if b + 1 \<noteq> 0 then Some [b + 1] else None)"
  by (induction xs) auto

lemma keyUpperBound_Cons:
  "keyUpperBound (b # bs) = (case keyUpperBound bs of
     Some e \<Rightarrow> Some (b # e) | None \<Rightarrow> if b + 1 \<noteq> 0 then Some [b + 1] else None)"
  by (simp add: keyUpperBound_def upper_loop_snoc)

lemma byte_le_less:
  fixes b c :: u8
  assumes "b + 1 \<noteq> 0"
  shows "c < b + 1 \<longleftrightarrow> c \<le> b"
proof -
  have "unat b < 256" using unsigned_less [of b, where ?'a = nat] by simp
  moreover have "unat (b + 1) = (unat b + 1) mod 256" by (simp add: unat_word_ariths)
  moreover have "unat (b + 1) \<noteq> 0" using assms by (simp add: unat_eq_0)
  ultimately have "unat (b + 1) = Suc (unat b)" by (cases "unat b = 255") auto
  then show ?thesis by (simp add: word_less_nat_alt word_le_nat_alt less_Suc_eq_le)
qed

lemma byte_max_le: "b + 1 = 0 \<Longrightarrow> c \<le> b" for b c :: u8
  by (metis add_eq_0_iff2 word_order.extremum)

lemma in_bounds_prefix: "in_bounds p k \<longleftrightarrow> prefix p k"
proof (induction p arbitrary: k)
  case Nil
  then show ?case by (simp add: in_bounds_def keyUpperBound_def)
next
  case (Cons b bs)
  show ?case
  proof (cases k)
    case Nil
    then show ?thesis by (simp add: in_bounds_def)
  next
    case (Cons c cs)
    have "in_bounds (b # bs) (c # cs) \<longleftrightarrow> c = b \<and> in_bounds bs cs"
    proof (cases "keyUpperBound bs")
      case None
      have "c < b \<or> c = b" if "b + 1 = 0" using byte_max_le [OF that, of c] by (simp add: le_less)
      with None show ?thesis
        by (cases "b + 1 = 0") (auto simp: in_bounds_def keyUpperBound_Cons byte_le_less)
    next
      case (Some e)
      then show ?thesis by (auto simp: in_bounds_def keyUpperBound_Cons)
    qed
    with Cons.IH show ?thesis by (auto simp: Cons)
  qed
qed


text \<open>The bounds of an iteration over a prefix hold exactly the keys that start with the prefix, also
  when bytes of the prefix are 255 and no upper bound is left.\<close>

theorem upper_bound_exact:
  "\<not> bytes_less k p \<and> (case keyUpperBound p of None \<Rightarrow> True | Some e \<Rightarrow> bytes_less k e) \<longleftrightarrow> prefix p k"
  using in_bounds_prefix [of p k] by (simp add: in_bounds_def)

text \<open>What a callback that never stops sees: the keys and values in order.\<close>

definition seen :: "(bytes \<times> bytes) list \<Rightarrow> bytes \<Rightarrow> bytes \<Rightarrow> (bytes \<times> bytes) list \<times> bool" where
  "seen a k v = (a @ [(k, v)], True)"

lemma iterate_seen: "iterate (\<lambda>a k v. seen a (g k) v) a d = a @ map (\<lambda>(k, v). (g k, v)) d"
  by (induction d arbitrary: a) (auto simp: seen_def)

text \<open>What a prefixed database holds, by its own keys.\<close>

definition entries_under :: "bytes \<Rightarrow> database \<Rightarrow> database" where
  "entries_under q d = map (\<lambda>(k, v). (drop (length q) k, v)) (filter (\<lambda>e. prefix q (fst e)) d)"

lemma prefix_drop: "prefix (q @ p) k \<longleftrightarrow> prefix q k \<and> prefix p (drop (length q) k)"
  by (auto simp: prefix_def)

text \<open>Iterating over a prefixed database of the badger store shows its entries with the prefix in
  question under their own keys. The pebble store hands out keys without the prefix asked for, so that
  the same iteration shows them cut, and cut once more when the rest starts with the prefix of the
  database.\<close>

theorem prefixed_iteration:
  "Prefixed_Iterate badger_Iterate q p seen [] d = filter (\<lambda>e. prefix p (fst e)) (entries_under q d) \<and>
   Prefixed_Iterate pebble_Iterate q p seen [] d =
     map (\<lambda>(k, v). (bytes_TrimPrefix (drop (length p) k) q, v)) (filter (\<lambda>e. prefix p (fst e)) (entries_under q d))"
proof -
  have t: "bytes_TrimPrefix k q = drop (length q) k" if "prefix (q @ p) k" for k
    using that by (simp add: bytes_TrimPrefix_def prefix_drop)
  have f: "filter (\<lambda>e. prefix p (fst e)) (entries_under q d) =
      map (\<lambda>(k, v). (drop (length q) k, v)) (filter (\<lambda>e. prefix (q @ p) (fst e)) d)"
    by (induction d) (auto simp: entries_under_def prefix_drop)
  have "map (\<lambda>(k, v). (bytes_TrimPrefix k q, v)) (filter (\<lambda>e. prefix (q @ p) (fst e)) d) =
      map (\<lambda>(k, v). (drop (length q) k, v)) (filter (\<lambda>e. prefix (q @ p) (fst e)) d)"
    by (rule map_cong) (auto simp: t)
  then show ?thesis
    by (simp add: Prefixed_Iterate_def badger_Iterate_def pebble_Iterate_def in_bounds_prefix prefixSlice_def
      iterate_seen f comp_def split_def ac_simps)
qed

end
