(* ===== verification/State_DB.thy ===== *)
theory State_DB
  imports Key_Value Go_Path Trees
begin

text \<open>
  The state database (\<^verbatim>\<open>src/statedb\<close>): the versions of the state and their roots in the metadata of the
  database, the hierarchy of trees opened by a transaction, and the propagation of roots to the parent
  leaves when it is committed. A tree is the list of its leaves (theory \<open>Trees\<close>) of any type \<open>'v\<close>; the
  root of a tree and the opening of the tree with a given root, which Arbo computes from its nodes in
  the database, are the arguments \<open>root_of\<close> and \<open>load\<close>. The open subtrees of a tree are a list, in the
  order in which the iteration over the \<^verbatim>\<open>sync.Map\<close> visits them. Opening a subtree that is open returns it:
  a subtree is updated in place in its parent.
\<close>

section \<open>Versions\<close>

definition subKeyTree :: bytes where "subKeyTree = str ''t''"
definition subKeyMeta :: bytes where "subKeyMeta = str ''m''"
definition subKeyNoState :: bytes where "subKeyNoState = str ''n''"
definition subKeySubTree :: bytes where "subKeySubTree = str ''s''"
definition pathVersion :: bytes where "pathVersion = str ''v''"
definition keyCurVersion :: bytes where "keyCurVersion = str ''current''"

definition uint32ToBytes :: "u32 \<Rightarrow> bytes" where "uint32ToBytes v = PutUint32LE v"

definition Uint32LE :: "bytes \<Rightarrow> u32 res" where
  "Uint32LE b = (if length b < 4 then Panic ''index out of range'' else Ok (of_nat (get_le (take 4 b))))"

text \<open>The prefix of \<^verbatim>\<open>subWriteTx\<close>, \<^verbatim>\<open>subReadTx\<close> and \<^verbatim>\<open>subDB\<close>.\<close>

definition sub_prefix :: "bytes \<Rightarrow> bytes" where "sub_prefix path = path @ [slash]"

definition versions_prefix :: bytes where
  "versions_prefix = sub_prefix (path_Join [subKeyMeta, pathVersion])"

definition setVersionRoot :: "(write_log \<Rightarrow> bool) \<Rightarrow> u32 \<Rightarrow> bytes \<Rightarrow> tx_state \<Rightarrow> unit res \<times> tx_state" where
  "setVersionRoot full version root s =
     and_then (write_under full versions_prefix (uint32ToBytes version) (Some root) s) (\<lambda>_ s.
       write_under full versions_prefix keyCurVersion (Some (uint32ToBytes version)) s)"

definition getVersion :: "tx_state \<Rightarrow> u32 res" where
  "getVersion s =
     (case get_under versions_prefix keyCurVersion s of
        Fail e \<Rightarrow> if errors_is e ErrKeyNotFound then Ok 0 else Fail e
      | Panic m \<Rightarrow> Panic m
      | Ok versionLE \<Rightarrow> Uint32LE versionLE)"

definition getVersionRoot :: "nat \<Rightarrow> tx_state \<Rightarrow> u32 \<Rightarrow> bytes res" where
  "getVersionRoot hashLen s version =
     (case get_under versions_prefix (uint32ToBytes version) s of
        Fail e \<Rightarrow> if errors_is e ErrKeyNotFound \<and> version = 0 then Ok (replicate hashLen 0) else Fail e
      | Panic m \<Rightarrow> Panic m
      | Ok root \<Rightarrow> Ok root)"

definition getRoot :: "nat \<Rightarrow> tx_state \<Rightarrow> bytes res" where
  "getRoot hashLen s = rbind (getVersion s) (getVersionRoot hashLen s)"

text \<open>The methods of \<^verbatim>\<open>StateDB\<close> read in a transaction of their own.\<close>

definition StateDB_Version :: "database \<Rightarrow> u32 res" where
  "StateDB_Version d = getVersion (Database_WriteTx RawDB, d)"

definition StateDB_VersionRoot :: "nat \<Rightarrow> u32 \<Rightarrow> database \<Rightarrow> bytes res" where
  "StateDB_VersionRoot hashLen v d = getVersionRoot hashLen (Database_WriteTx RawDB, d) v"

definition StateDB_Hash :: "nat \<Rightarrow> database \<Rightarrow> bytes res" where
  "StateDB_Hash hashLen d = getRoot hashLen (Database_WriteTx RawDB, d)"

section \<open>Open trees\<close>

record 'v TreeConfig =
  tc_parentLeafKey :: bytes
  tc_prefix :: bytes
  tc_kindID :: bytes
  tc_maxLevels :: nat
  tc_getRoot :: "'v \<Rightarrow> bytes res"
  tc_setRoot :: "'v \<Rightarrow> bytes \<Rightarrow> 'v res"

record 'v TreeParams =
  tp_KindID :: bytes
  tp_MaxLevels :: nat
  tp_ParentLeafGetRoot :: "'v \<Rightarrow> bytes res"
  tp_ParentLeafSetRoot :: "'v \<Rightarrow> bytes \<Rightarrow> 'v res"

definition WithKey :: "'v TreeParams \<Rightarrow> bytes \<Rightarrow> 'v TreeConfig" where
  "WithKey c key = \<lparr>tc_parentLeafKey = key, tc_prefix = tp_KindID c @ key, tc_kindID = tp_KindID c,
     tc_maxLevels = tp_MaxLevels c, tc_getRoot = tp_ParentLeafGetRoot c, tc_setRoot = tp_ParentLeafSetRoot c\<rparr>"

definition NewTreeSingletonConfig :: "'v TreeParams \<Rightarrow> 'v TreeConfig" where
  "NewTreeSingletonConfig c = \<lparr>tc_parentLeafKey = tp_KindID c, tc_prefix = tp_KindID c, tc_kindID = tp_KindID c,
     tc_maxLevels = tp_MaxLevels c, tc_getRoot = tp_ParentLeafGetRoot c, tc_setRoot = tp_ParentLeafSetRoot c\<rparr>"

text \<open>The functions of the main tree are nil, and calling one panics.\<close>

definition mainTreeCfg :: "'v TreeConfig" where
  "mainTreeCfg = NewTreeSingletonConfig
     \<lparr>tp_KindID = [], tp_MaxLevels = 256, tp_ParentLeafGetRoot = \<lambda>leaf. Panic ''nil pointer dereference'',
      tp_ParentLeafSetRoot = \<lambda>leaf root. Panic ''nil pointer dereference''\<rparr>"

datatype (dead 'v) TreeUpdate =
  TreeUpdate (tu_cfg: "'v TreeConfig") (tu_dirty: bool) (tu_tree: "(bytes \<times> 'v) list") (tu_subs: "'v TreeUpdate list")

definition tu_prefix :: "'v TreeUpdate \<Rightarrow> bytes" where "tu_prefix u = tc_prefix (tu_cfg u)"

definition TU_Get :: "bytes \<Rightarrow> 'v TreeUpdate \<Rightarrow> 'v res \<times> 'v TreeUpdate" where
  "TU_Get key u = (Tree_Get (tu_tree u) key, u)"

text \<open>\<^verbatim>\<open>Add\<close> and \<^verbatim>\<open>Set\<close> mark the tree even when they fail.\<close>

definition with_tree :: "'v TreeUpdate \<Rightarrow> 'v tree res \<Rightarrow> unit res \<times> 'v TreeUpdate" where
  "with_tree u r =
     (case r of
        Ok t \<Rightarrow> (Ok (), TreeUpdate (tu_cfg u) True t (tu_subs u))
      | Fail e \<Rightarrow> (Fail e, TreeUpdate (tu_cfg u) True (tu_tree u) (tu_subs u))
      | Panic m \<Rightarrow> (Panic m, TreeUpdate (tu_cfg u) True (tu_tree u) (tu_subs u)))"

definition TU_Add :: "params \<Rightarrow> bytes \<Rightarrow> 'v \<Rightarrow> 'v TreeUpdate \<Rightarrow> unit res \<times> 'v TreeUpdate" where
  "TU_Add P key v u = with_tree u (Tree_Add P (tc_maxLevels (tu_cfg u)) (tu_tree u) key v)"

definition TU_Set :: "params \<Rightarrow> bytes \<Rightarrow> 'v \<Rightarrow> 'v TreeUpdate \<Rightarrow> unit res \<times> 'v TreeUpdate" where
  "TU_Set P key v u = with_tree u (Tree_Set P (tc_maxLevels (tu_cfg u)) (tu_tree u) key v)"

definition open_sub :: "bytes \<Rightarrow> 'v TreeUpdate \<Rightarrow> 'v TreeUpdate option" where
  "open_sub pfx u = List.find (\<lambda>w. tu_prefix w = pfx) (tu_subs u)"

definition set_sub :: "'v TreeUpdate \<Rightarrow> 'v TreeUpdate \<Rightarrow> 'v TreeUpdate" where
  "set_sub w u = TreeUpdate (tu_cfg u) (tu_dirty u) (tu_tree u)
     (map (\<lambda>x. if tu_prefix x = tu_prefix w then w else x) (tu_subs u))"

definition SubTree ::
  "('v TreeConfig \<Rightarrow> bytes \<Rightarrow> 'v tree res) \<Rightarrow> 'v TreeConfig \<Rightarrow> 'v TreeUpdate \<Rightarrow> 'v TreeUpdate res \<times> 'v TreeUpdate" where
  "SubTree load cfg u =
     (case open_sub (tc_prefix cfg) u of
        Some w \<Rightarrow> (Ok w, u)
      | None \<Rightarrow>
          with_res (Tree_Get (tu_tree u) (tc_parentLeafKey cfg)) u (\<lambda>parentLeaf.
          with_res (tc_getRoot cfg parentLeaf) u (\<lambda>root.
          with_res (load cfg root) u (\<lambda>t.
            let w = TreeUpdate cfg False t []
            in (Ok w, TreeUpdate (tu_cfg u) (tu_dirty u) (tu_tree u) (tu_subs u @ [w]))))))"

text \<open>\<^verbatim>\<open>DeepSubTree\<close> followed by an operation on the last subtree.\<close>

fun DeepSubTree ::
  "('v TreeConfig \<Rightarrow> bytes \<Rightarrow> 'v tree res) \<Rightarrow> 'v TreeConfig list \<Rightarrow> ('v TreeUpdate \<Rightarrow> 'a res \<times> 'v TreeUpdate) \<Rightarrow>
     'v TreeUpdate \<Rightarrow> 'a res \<times> 'v TreeUpdate" where
  "DeepSubTree load [] f u = f u"
| "DeepSubTree load (cfg # cfgs) f u =
     and_then (SubTree load cfg u) (\<lambda>w u.
       let (r, w') = DeepSubTree load cfgs f w in (r, set_sub w' u))"

definition TU_DeepGet where
  "TU_DeepGet load key cfgs u = DeepSubTree load cfgs (TU_Get key) u"

definition TU_DeepAdd where
  "TU_DeepAdd P load key v cfgs u = DeepSubTree load cfgs (TU_Add P key v) u"

definition TU_DeepSet where
  "TU_DeepSet P load key v cfgs u = DeepSubTree load cfgs (TU_Set P key v) u"

section \<open>Propagation of roots\<close>

record 'v update =
  up_setRoot :: "'v \<Rightarrow> bytes \<Rightarrow> 'v res"
  up_root :: bytes

fun set_roots :: "'v update list \<Rightarrow> 'v \<Rightarrow> 'v res" where
  "set_roots [] leaf = Ok leaf"
| "set_roots (up # ups) leaf = rbind (up_setRoot up leaf (up_root up)) (set_roots ups)"

text \<open>The updates by key, the keys in the order of their first update.\<close>

definition updates_of :: "bytes \<Rightarrow> (bytes \<times> 'v update) list \<Rightarrow> 'v update list" where
  "updates_of key ups = map snd (filter (\<lambda>e. fst e = key) ups)"

fun apply_keys :: "params \<Rightarrow> nat \<Rightarrow> (bytes \<times> 'v update) list \<Rightarrow> bytes list \<Rightarrow> 'v tree \<Rightarrow> 'v tree res" where
  "apply_keys P lv ups [] t = Ok t"
| "apply_keys P lv ups (key # keys) t =
     rbind (Tree_Get t key) (\<lambda>leaf.
     rbind (set_roots (updates_of key ups) leaf) (\<lambda>leaf.
     rbind (Tree_Set P lv t key leaf) (apply_keys P lv ups keys)))"

fun propagateRoot ::
    "params \<Rightarrow> ('v tree \<Rightarrow> bytes) \<Rightarrow> 'v TreeUpdate \<Rightarrow> (bytes option \<times> 'v TreeUpdate) res"
  and propagate_subs ::
    "params \<Rightarrow> ('v tree \<Rightarrow> bytes) \<Rightarrow> 'v TreeUpdate list \<Rightarrow> ((bytes \<times> 'v update) list \<times> 'v TreeUpdate list) res" where
  "propagateRoot P root_of (TreeUpdate cfg dirty t subs) =
     (if subs = [] then Ok (if dirty then Some (root_of t) else None, TreeUpdate cfg dirty t subs)
      else rbind (propagate_subs P root_of subs) (\<lambda>(ups, subs').
        if ups = [] \<and> \<not> dirty then Ok (None, TreeUpdate cfg dirty t subs')
        else rbind (apply_keys P (tc_maxLevels cfg) ups (remdups (map fst ups)) t) (\<lambda>t'.
          Ok (Some (root_of t'), TreeUpdate cfg dirty t' subs'))))"
| "propagate_subs P root_of [] = Ok ([], [])"
| "propagate_subs P root_of (w # ws) =
     rbind (propagateRoot P root_of w) (\<lambda>(r, w').
     rbind (propagate_subs P root_of ws) (\<lambda>(ups, ws').
       Ok (case r of
             None \<Rightarrow> ups
           | Some root \<Rightarrow> (tc_parentLeafKey (tu_cfg w), \<lparr>up_setRoot = tc_setRoot (tu_cfg w), up_root = root\<rparr>) # ups,
           w' # ws')))"

section \<open>Transactions\<close>

record 'v TreeTx =
  tt_update :: "'v TreeUpdate"
  tt_tx :: tx_state

definition BeginTx :: "nat \<Rightarrow> ('v TreeConfig \<Rightarrow> bytes \<Rightarrow> 'v tree res) \<Rightarrow> database \<Rightarrow> 'v TreeTx res" where
  "BeginTx hashLen load d =
     (let s = (Database_WriteTx RawDB, d)
      in rbind (getRoot hashLen s) (\<lambda>root.
         rbind (load mainTreeCfg root) (\<lambda>t.
           Ok \<lparr>tt_update = TreeUpdate mainTreeCfg False t [], tt_tx = s\<rparr>)))"

definition StateDB_Commit ::
  "params \<Rightarrow> (write_log \<Rightarrow> bool) \<Rightarrow> nat \<Rightarrow> ('v tree \<Rightarrow> bytes) \<Rightarrow> u32 \<Rightarrow> 'v TreeTx \<Rightarrow> ('v TreeUpdate \<times> database) res" where
  "StateDB_Commit P full hashLen root_of version t =
     rbind (propagateRoot P root_of (tt_update t)) (\<lambda>(root, u).
     rbind (getVersion (tt_tx t)) (\<lambda>curVersion.
     rbind (case root of None \<Rightarrow> getVersionRoot hashLen (tt_tx t) curVersion | Some r \<Rightarrow> Ok r) (\<lambda>root.
       case setVersionRoot full version root (tt_tx t) of
         (Ok _, s) \<Rightarrow> Ok (u, Tx_Commit (fst s) (snd s))
       | (Fail e, s) \<Rightarrow> Fail e
       | (Panic m, s) \<Rightarrow> Panic m)))"

section \<open>Versions and roots\<close>

lemma Uint32LE_bytes [simp]: "Uint32LE (uint32ToBytes w) = Ok w"
proof -
  have "unat w mod 256 ^ 4 = unat w" using unsigned_less [of w, where ?'a = nat] by simp
  then show ?thesis by (simp add: Uint32LE_def uint32ToBytes_def PutUint32LE_def get_put_le)
qed

lemma uint32ToBytes_inject [simp]: "uint32ToBytes a = uint32ToBytes b \<longleftrightarrow> a = b"
  by (metis Uint32LE_bytes res.inject(1))

text \<open>The key of the current version has seven bytes, that of a version four.\<close>

lemma version_keys [simp]: "uint32ToBytes v \<noteq> keyCurVersion" "keyCurVersion \<noteq> uint32ToBytes v"
  by (auto simp: uint32ToBytes_def keyCurVersion_def dest!: arg_cong [where f = length])

lemma setVersionRoot_look:
  assumes "setVersionRoot full version root s = (Ok u, s')" "tx_ok (fst s)"
  shows "look_tx s' = (look_tx s)(versions_prefix @ uint32ToBytes version \<mapsto> root,
           versions_prefix @ keyCurVersion \<mapsto> uint32ToBytes version)" "tx_ok (fst s')"
proof -
  obtain s1 where 1: "write_tx_key full (versions_prefix @ uint32ToBytes version) (Some root) s = (Ok (), s1)"
    "write_tx_key full (versions_prefix @ keyCurVersion) (Some (uint32ToBytes version)) s1 = (Ok u, s')"
    using assms(1) by (auto simp: setVersionRoot_def write_under_eq res_simps)
  have ok: "tx_ok (fst s1)" using tx.write_sound [OF assms(2) 1(1)] .
  show "look_tx s' = (look_tx s)(versions_prefix @ uint32ToBytes version \<mapsto> root,
           versions_prefix @ keyCurVersion \<mapsto> uint32ToBytes version)"
    using tx.write_look [OF assms(2) 1(1)] tx.write_look [OF ok 1(2)] by simp
  show "tx_ok (fst s')" using tx.write_sound [OF ok 1(2)] .
qed

lemma getVersion_look: "getVersion s = (case look_tx s (versions_prefix @ keyCurVersion) of
    None \<Rightarrow> Ok 0 | Some b \<Rightarrow> Uint32LE b)"
  by (simp add: getVersion_def get_under_eq tx.get_look of_option_def split: option.split)

lemma getVersionRoot_look: "getVersionRoot hashLen s v = (case look_tx s (versions_prefix @ uint32ToBytes v) of
    None \<Rightarrow> if v = 0 then Ok (replicate hashLen 0) else Fail ErrKeyNotFound | Some r \<Rightarrow> Ok r)"
  by (simp add: getVersionRoot_def get_under_eq tx.get_look of_option_def split: option.split)

lemma getVersion_set [simp]:
  "setVersionRoot full version root s = (Ok u, s') \<Longrightarrow> tx_ok (fst s) \<Longrightarrow> getVersion s' = Ok version"
  by (simp add: getVersion_look setVersionRoot_look)

lemma getVersionRoot_set [simp]:
  "setVersionRoot full version root s = (Ok u, s') \<Longrightarrow> tx_ok (fst s) \<Longrightarrow>
     getVersionRoot hashLen s' v = (if v = version then Ok root else getVersionRoot hashLen s v)"
  by (simp add: getVersionRoot_look setVersionRoot_look)

text \<open>What is read in a new transaction after a commit.\<close>

lemma look_fresh: "look_tx (RawTx [], d) = map_of d"
  by (simp add: look_tx_def tx_view_def fun_eq_iff)

lemma look_commit: "tx_path (fst s) = [] \<Longrightarrow> look_tx (RawTx [], Tx_Commit (fst s) (snd s)) = look_tx s"
  by (simp add: look_fresh map_of_Commit look_tx_def fun_eq_iff)

text \<open>Saving versions one after the other.\<close>

definition save_version :: "u32 \<times> bytes \<Rightarrow> database \<Rightarrow> database" where
  "save_version c d = (let (e, s) = setVersionRoot (\<lambda>w. False) (fst c) (snd c) (Database_WriteTx RawDB, d)
     in Tx_Commit (fst s) (snd s))"

lemma setVersionRoot_raw:
  "setVersionRoot (\<lambda>w. False) version root (RawTx w, d) =
     (Ok (), RawTx ((versions_prefix @ keyCurVersion, Some (uint32ToBytes version)) #
                    (versions_prefix @ uint32ToBytes version, Some root) # w), d)"
  by (simp add: setVersionRoot_def write_under_eq write_tx_key_def)

lemma map_of_save_version:
  "map_of (save_version c d) = (map_of d)(versions_prefix @ uint32ToBytes (fst c) \<mapsto> snd c,
     versions_prefix @ keyCurVersion \<mapsto> uint32ToBytes (fst c))"
  by (simp add: save_version_def setVersionRoot_raw map_of_Commit tx_view_def)

text \<open>C34. After any sequence of versions has been saved, the version of the database is the last one,
  the root of a version is the one it was last saved with, and a version that was not saved reads as
  before; a new database has version zero with the empty root.\<close>

theorem version_history:
  "StateDB_Version (fold save_version cs d) =
     (if cs = [] then StateDB_Version d else Ok (fst (last cs))) \<and>
   StateDB_VersionRoot hashLen v (fold save_version cs d) =
     (case map_of (rev cs) v of Some root \<Rightarrow> Ok root | None \<Rightarrow> StateDB_VersionRoot hashLen v d) \<and>
   StateDB_Version [] = Ok 0 \<and> StateDB_Hash hashLen [] = Ok (replicate hashLen 0)"
proof (induction cs rule: rev_induct)
  case Nil
  show ?case
    by (simp add: StateDB_Version_def StateDB_Hash_def getRoot_def getVersion_look getVersionRoot_look look_fresh)
next
  case (snoc c cs)
  have "StateDB_Version (save_version c e) = Ok (fst c)"
    "StateDB_VersionRoot hashLen v (save_version c e) =
       (if v = fst c then Ok (snd c) else StateDB_VersionRoot hashLen v e)" for e
    by (simp_all add: StateDB_Version_def StateDB_VersionRoot_def getVersion_look getVersionRoot_look look_fresh
          map_of_save_version)
  with snoc show ?case by (cases c) auto
qed

section \<open>Roots in parent leaves\<close>

text \<open>The root a leaf of the parent holds for a subtree.\<close>

definition leaf_root :: "'v tree \<Rightarrow> 'v TreeConfig \<Rightarrow> bytes option" where
  "leaf_root t c =
     (case map_of t (tc_parentLeafKey c) of
        None \<Rightarrow> None
      | Some leaf \<Rightarrow> (case tc_getRoot c leaf of Ok r \<Rightarrow> Some r | _ \<Rightarrow> None))"

text \<open>What the functions of the configurations under one tree promise: a root that is set is read
  back, and the roots of other subtrees in the same leaf stay.\<close>

definition roots_independent :: "'v TreeConfig list \<Rightarrow> bool" where
  "roots_independent cs = (inj_on tc_prefix (set cs) \<and>
     (\<forall>c \<in> set cs. \<forall>leaf r x. tc_getRoot c leaf = Ok x \<longrightarrow>
       (\<exists>leaf'. tc_setRoot c leaf r = Ok leaf' \<and> tc_getRoot c leaf' = Ok r \<and>
          (\<forall>d \<in> set cs. d \<noteq> c \<longrightarrow> tc_parentLeafKey d = tc_parentLeafKey c \<longrightarrow> tc_getRoot d leaf' = tc_getRoot d leaf))))"

fun changed :: "'v TreeUpdate \<Rightarrow> bool" where
  "changed (TreeUpdate cfg dirty t subs) = (dirty \<or> (\<exists>w \<in> set subs. changed w))"

fun linked :: "('v tree \<Rightarrow> bytes) \<Rightarrow> 'v TreeUpdate \<Rightarrow> bool" where
  "linked root_of (TreeUpdate cfg dirty t subs) =
     (\<forall>w \<in> set subs. leaf_root t (tu_cfg w) = Some (root_of (tu_tree w)) \<and> linked root_of w)"

text \<open>The invariant of open trees: a subtree without changes has the root its parent's leaf holds.\<close>

definition sub_ok :: "params \<Rightarrow> ('v tree \<Rightarrow> bytes) \<Rightarrow> 'v TreeConfig \<Rightarrow> 'v tree \<Rightarrow> 'v TreeUpdate \<Rightarrow> bool" where
  "sub_ok P root_of cfg t w =
     (arbo_key_ok P (tc_maxLevels cfg) (tc_parentLeafKey (tu_cfg w)) \<and> leaf_root t (tu_cfg w) \<noteq> None \<and>
      (changed w \<or> leaf_root t (tu_cfg w) = Some (root_of (tu_tree w))))"

fun consistent :: "params \<Rightarrow> ('v tree \<Rightarrow> bytes) \<Rightarrow> 'v TreeUpdate \<Rightarrow> bool" where
  "consistent P root_of (TreeUpdate cfg dirty t subs) =
     (distinct (map tu_prefix subs) \<and> roots_independent (map tu_cfg subs) \<and>
      (\<forall>w \<in> set subs. sub_ok P root_of cfg t w \<and> consistent P root_of w))"

definition new_setting :: "'v TreeConfig \<times> bytes \<Rightarrow> 'v update" where
  "new_setting e = \<lparr>up_setRoot = tc_setRoot (fst e), up_root = snd e\<rparr>"

definition new_update :: "'v TreeConfig \<times> bytes \<Rightarrow> bytes \<times> 'v update" where
  "new_update e = (tc_parentLeafKey (fst e), new_setting e)"

text \<open>The root that a list of updates has for a configuration.\<close>

definition root_in :: "('v TreeConfig \<times> bytes) list \<Rightarrow> 'v TreeConfig \<Rightarrow> bytes option" where
  "root_in xs c = map_of xs c"

lemma new_setting_simps [simp]: "up_setRoot (new_setting e) = tc_setRoot (fst e)" "up_root (new_setting e) = snd e"
  by (simp_all add: new_setting_def)

lemma set_roots_Ok:
  assumes "roots_independent cs"
  shows "fst ` set xs \<subseteq> set cs \<Longrightarrow> distinct (map fst xs) \<Longrightarrow> \<forall>e \<in> set xs. tc_parentLeafKey (fst e) = k \<Longrightarrow>
    \<forall>c \<in> set cs. tc_parentLeafKey c = k \<longrightarrow> (\<exists>x. tc_getRoot c leaf = Ok x) \<Longrightarrow>
    \<exists>leaf'. set_roots (map new_setting xs) leaf = Ok leaf' \<and>
      (\<forall>c \<in> set cs. tc_parentLeafKey c = k \<longrightarrow>
         tc_getRoot c leaf' = (case root_in xs c of Some r \<Rightarrow> Ok r | None \<Rightarrow> tc_getRoot c leaf))"
proof (induction xs arbitrary: leaf)
  case Nil
  then show ?case by (simp add: root_in_def)
next
  case (Cons e xs)
  obtain c r where e: "e = (c, r)" by force
  have c: "c \<in> set cs" "tc_parentLeafKey c = k" using Cons.prems e by auto
  then obtain l where l: "tc_setRoot c leaf r = Ok l" "tc_getRoot c l = Ok r"
     "\<forall>d \<in> set cs. d \<noteq> c \<longrightarrow> tc_parentLeafKey d = k \<longrightarrow> tc_getRoot d l = tc_getRoot d leaf"
    using assms Cons.prems(4) unfolding roots_independent_def by metis
  have "\<forall>d \<in> set cs. tc_parentLeafKey d = k \<longrightarrow> (\<exists>x. tc_getRoot d l = Ok x)"
    using l Cons.prems(4) by metis
  then obtain l' where l': "set_roots (map new_setting xs) l = Ok l'"
      "\<forall>d \<in> set cs. tc_parentLeafKey d = k \<longrightarrow>
         tc_getRoot d l' = (case root_in xs d of Some r \<Rightarrow> Ok r | None \<Rightarrow> tc_getRoot d l)"
    using Cons.IH [of l] Cons.prems by auto
  have "root_in xs c = None" using Cons.prems(2) e by (auto simp: root_in_def map_of_eq_None_iff)
  then have "\<forall>d \<in> set cs. tc_parentLeafKey d = k \<longrightarrow>
      tc_getRoot d l' = (case root_in (e # xs) d of Some r \<Rightarrow> Ok r | None \<Rightarrow> tc_getRoot d leaf)"
    using l' l e by (auto simp: root_in_def split: option.splits)
  moreover have "set_roots (map new_setting (e # xs)) leaf = set_roots (map new_setting xs) l"
    using l(1) e by simp
  ultimately show ?case using l'(1) by (intro exI [of _ l']) simp
qed

lemma updates_of_new: "updates_of k (map new_update xs) =
    map new_setting (filter (\<lambda>e. tc_parentLeafKey (fst e) = k) xs)"
  by (induction xs) (auto simp: updates_of_def new_update_def)

lemma root_in_filter:
  "root_in (filter (\<lambda>e. tc_parentLeafKey (fst e) = tc_parentLeafKey c) xs) c = root_in xs c"
  by (induction xs) (auto simp: root_in_def)

lemma apply_keys_Ok:
  assumes "roots_independent cs" "fst ` set xs \<subseteq> set cs" "distinct (map fst xs)"
  shows "distinct keys \<Longrightarrow> set keys \<subseteq> tc_parentLeafKey ` fst ` set xs \<Longrightarrow>
    \<forall>c \<in> set cs. leaf_root t c \<noteq> None \<and> arbo_key_ok P lv (tc_parentLeafKey c) \<Longrightarrow>
    \<exists>t'. apply_keys P lv (map new_update xs) keys t = Ok t' \<and>
      (\<forall>c \<in> set cs. leaf_root t' c =
         (if tc_parentLeafKey c \<in> set keys \<and> root_in xs c \<noteq> None then root_in xs c else leaf_root t c))"
proof (induction keys arbitrary: t)
  case (Cons k keys)
  let ?xs = "filter (\<lambda>e. tc_parentLeafKey (fst e) = k) xs"
  obtain e where "e \<in> set xs" "tc_parentLeafKey (fst e) = k" using Cons.prems(2) by auto
  then have k: "arbo_key_ok P lv k" "map_of t k \<noteq> None"
    using Cons.prems(3) assms(2) by (auto simp: leaf_root_def split: option.splits)
  then obtain leaf where leaf: "map_of t k = Some leaf" by auto
  have "\<forall>c \<in> set cs. tc_parentLeafKey c = k \<longrightarrow> (\<exists>x. tc_getRoot c leaf = Ok x)"
    using Cons.prems(3) leaf by (auto simp: leaf_root_def split: res.splits)
  moreover have "fst ` set ?xs \<subseteq> set cs" "distinct (map fst ?xs)" "\<forall>e \<in> set ?xs. tc_parentLeafKey (fst e) = k"
    using assms(2,3) by (auto simp: distinct_map_filter)
  ultimately obtain l where "set_roots (map new_setting ?xs) leaf = Ok l"
      "\<forall>c \<in> set cs. tc_parentLeafKey c = k \<longrightarrow>
         tc_getRoot c l = (case root_in ?xs c of Some r \<Rightarrow> Ok r | None \<Rightarrow> tc_getRoot c leaf)"
    using set_roots_Ok [OF assms(1), of ?xs k leaf] by blast
  moreover have "root_in ?xs c = root_in xs c" if "tc_parentLeafKey c = k" for c
    using root_in_filter [of c xs] that by simp
  ultimately have l: "set_roots (updates_of k (map new_update xs)) leaf = Ok l"
      "\<forall>c \<in> set cs. tc_parentLeafKey c = k \<longrightarrow>
         tc_getRoot c l = (case root_in xs c of Some r \<Rightarrow> Ok r | None \<Rightarrow> tc_getRoot c leaf)"
    by (simp_all add: updates_of_new)
  obtain t1 where t1: "Tree_Set P lv t k l = Ok t1" using Tree_Set_succeeds [OF k(1), of t l] by blast
  then have m: "map_of t1 = (map_of t)(k \<mapsto> l)" by (rule Tree_Set_lookup)
  have r1: "leaf_root t1 c = (if tc_parentLeafKey c = k \<and> root_in xs c \<noteq> None then root_in xs c else leaf_root t c)"
    if "c \<in> set cs" for c
    using that l(2) leaf by (auto simp: leaf_root_def m split: option.splits)
  then have "\<forall>c \<in> set cs. leaf_root t1 c \<noteq> None \<and> arbo_key_ok P lv (tc_parentLeafKey c)"
    using Cons.prems(3) by auto
  then obtain t' where "apply_keys P lv (map new_update xs) keys t1 = Ok t'"
      "\<forall>c \<in> set cs. leaf_root t' c =
         (if tc_parentLeafKey c \<in> set keys \<and> root_in xs c \<noteq> None then root_in xs c else leaf_root t1 c)"
    using Cons.IH [of t1] Cons.prems by auto
  then show ?case using r1 leaf l(1) t1 Cons.prems(1) by (auto simp: Tree_Get_def of_option_def)
qed simp

text \<open>The outcome of propagating a tree.\<close>

definition propagated :: "('v tree \<Rightarrow> bytes) \<Rightarrow> 'v TreeUpdate \<Rightarrow> bytes option \<Rightarrow> 'v TreeUpdate \<Rightarrow> bool" where
  "propagated root_of u r u' = (tu_cfg u' = tu_cfg u \<and> changed u' = changed u \<and> linked root_of u' \<and>
     r = (if changed u then Some (root_of (tu_tree u')) else None) \<and> (\<not> changed u \<longrightarrow> tu_tree u' = tu_tree u))"

definition sub_root :: "('v tree \<Rightarrow> bytes) \<Rightarrow> 'v TreeUpdate \<Rightarrow> 'v TreeConfig \<times> bytes" where
  "sub_root root_of w = (tu_cfg w, root_of (tu_tree w))"

lemma distinct_cfgs: "distinct (map tu_prefix ws) \<Longrightarrow> distinct (map tu_cfg ws)"
  by (metis (no_types, lifting) distinct_map inj_on_def tu_prefix_def)

lemma root_in_changed:
  assumes "distinct (map tu_cfg ws)" "w \<in> set ws"
  shows "root_in (map (sub_root root_of) (filter changed ws)) (tu_cfg w) =
    (if changed w then Some (root_of (tu_tree w)) else None)"
proof (cases "changed w")
  case True
  have "(tu_cfg w, root_of (tu_tree w)) \<in> set (map (sub_root root_of) (filter changed ws))"
    using True assms(2) by (auto simp: sub_root_def)
  moreover have "distinct (map fst (map (sub_root root_of) (filter changed ws)))"
    using assms(1) by (simp add: comp_def sub_root_def distinct_map_filter)
  ultimately show ?thesis using True by (simp add: root_in_def map_of_is_SomeI)
next
  case False
  have "w' = w" if "w' \<in> set ws" "tu_cfg w' = tu_cfg w" for w'
    using assms that by (auto simp: distinct_map inj_on_def)
  then have "tu_cfg w \<notin> fst ` set (map (sub_root root_of) (filter changed ws))"
    using False by (auto simp: sub_root_def)
  with False show ?thesis by (simp add: root_in_def map_of_eq_None_iff)
qed

text \<open>Updating the leaves of the propagated subtrees links them.\<close>

lemma apply_links:
  assumes "distinct (map tu_prefix ws)" "roots_independent (map tu_cfg ws)"
    and "\<forall>w \<in> set ws. arbo_key_ok P lv (tc_parentLeafKey (tu_cfg w)) \<and> leaf_root t (tu_cfg w) \<noteq> None \<and>
           (changed w \<or> leaf_root t (tu_cfg w) = Some (root_of (tu_tree w)))"
    and "ups = map new_update (map (sub_root root_of) (filter changed ws))"
  shows "\<exists>t'. apply_keys P lv ups (remdups (map fst ups)) t = Ok t' \<and>
    (\<forall>w \<in> set ws. leaf_root t' (tu_cfg w) = Some (root_of (tu_tree w)))"
proof -
  let ?xs = "map (sub_root root_of) (filter changed ws)"
  have d: "distinct (map tu_cfg ws)" using assms(1) by (rule distinct_cfgs)
  have xs: "fst ` set ?xs \<subseteq> set (map tu_cfg ws)" "distinct (map fst ?xs)"
    using d by (auto simp: sub_root_def comp_def distinct_map_filter)
  have keys: "set (remdups (map fst ups)) = tc_parentLeafKey ` fst ` set ?xs"
    unfolding assms(4) by (auto simp: new_update_def image_image)
  have leaves: "\<forall>c \<in> set (map tu_cfg ws). leaf_root t c \<noteq> None \<and> arbo_key_ok P lv (tc_parentLeafKey c)"
    using assms(3) by auto
  obtain t' where t': "apply_keys P lv ups (remdups (map fst ups)) t = Ok t'"
    "\<forall>c \<in> set (map tu_cfg ws). leaf_root t' c =
       (if tc_parentLeafKey c \<in> set (remdups (map fst ups)) \<and> root_in ?xs c \<noteq> None then root_in ?xs c else leaf_root t c)"
    using apply_keys_Ok [OF assms(2) xs distinct_remdups eq_refl [OF keys] leaves] unfolding assms(4) by blast
  have "tc_parentLeafKey c \<in> set (remdups (map fst ups))" if "root_in ?xs c \<noteq> None" for c
    unfolding keys using that map_of_eq_None_iff [of ?xs c] by (metis imageI root_in_def)
  then have "leaf_root t' (tu_cfg w) = Some (root_of (tu_tree w))" if "w \<in> set ws" for w
    using t'(2) that assms(3) root_in_changed [OF d that, of root_of] by auto
  with t'(1) show ?thesis by blast
qed

lemma list_all2_right: "list_all2 R xs ys \<Longrightarrow> y \<in> set ys \<Longrightarrow> \<exists>x \<in> set xs. R x y"
  by (induction rule: list_all2_induct) auto

lemma propagateRoot_Ok:
  "consistent P root_of u \<Longrightarrow> \<exists>r u'. propagateRoot P root_of u = Ok (r, u') \<and> propagated root_of u r u'"
  "\<forall>w \<in> set ws. consistent P root_of w \<Longrightarrow>
     \<exists>ws'. propagate_subs P root_of ws = Ok (map new_update (map (sub_root root_of) (filter changed ws')), ws') \<and>
       list_all2 (\<lambda>w w'. \<exists>r. propagated root_of w r w') ws ws'"
proof (induction P root_of u and P root_of ws rule: propagateRoot_propagate_subs.induct)
  case (1 P root_of cfg dirty t subs)
  show ?case
  proof (cases "subs = []")
    case True
    then show ?thesis by (auto simp: propagated_def)
  next
    case False
    have c: "distinct (map tu_prefix subs)" "roots_independent (map tu_cfg subs)"
      "\<forall>w \<in> set subs. sub_ok P root_of cfg t w \<and> consistent P root_of w" using "1.prems" by auto
    obtain ws where ws: "propagate_subs P root_of subs = Ok (map new_update (map (sub_root root_of) (filter changed ws)), ws)"
       "list_all2 (\<lambda>w w'. \<exists>r. propagated root_of w r w') subs ws"
      using "1.IH" [OF False] c(3) by blast
    have cfgs: "map tu_cfg ws = map tu_cfg subs" "map changed ws = map changed subs"
      using ws(2) by (induction rule: list_all2_induct) (auto simp: propagated_def)
    have pre: "map tu_prefix ws = map tu_prefix subs"
      using cfgs(1) unfolding tu_prefix_def by (metis (no_types, lifting) map_map comp_def map_eq_conv list.map_comp)
    have any: "(\<exists>w \<in> set ws. changed w) = (\<exists>w \<in> set subs. changed w)"
      using arg_cong [OF cfgs(2), of "\<lambda>l. True \<in> set l"] by auto
    have lk: "linked root_of w'" if "w' \<in> set ws" for w'
      using list_all2_right [OF ws(2) that] by (auto simp: propagated_def)
    have each: "arbo_key_ok P (tc_maxLevels cfg) (tc_parentLeafKey (tu_cfg w')) \<and> leaf_root t (tu_cfg w') \<noteq> None \<and>
        (changed w' \<or> leaf_root t (tu_cfg w') = Some (root_of (tu_tree w')))" if m: "w' \<in> set ws" for w'
    proof -
      obtain w where "w \<in> set subs" "\<exists>r. propagated root_of w r w'"
        using list_all2_right [OF ws(2) m] by blast
      then show ?thesis using c(3) by (auto simp: propagated_def sub_ok_def)
    qed
    let ?ups = "map new_update (map (sub_root root_of) (filter changed ws))"
    have ups: "?ups = [] \<longleftrightarrow> \<not> (\<exists>w \<in> set subs. changed w)" using any by (auto simp: filter_empty_conv)
    obtain t' where t': "apply_keys P (tc_maxLevels cfg) ?ups (remdups (map fst ?ups)) t = Ok t'"
       "\<forall>w \<in> set ws. leaf_root t' (tu_cfg w) = Some (root_of (tu_tree w))"
      using apply_links [of ws P "tc_maxLevels cfg" t root_of ?ups] c(1,2) each by (auto simp: pre cfgs)
    show ?thesis
    proof (cases "?ups = [] \<and> \<not> dirty")
      case True
      then have "linked root_of (TreeUpdate cfg dirty t ws)"
        using each lk any ups by auto
      with True False ws(1) any ups show ?thesis by (auto simp: propagated_def)
    next
      case False
      have "linked root_of (TreeUpdate cfg dirty t' ws)" using t'(2) lk by simp
      with False \<open>subs \<noteq> []\<close> ws(1) any ups t'(1) show ?thesis
        by (auto simp: propagated_def simp del: map_map)
    qed
  qed
next
  case (2 P root_of)
  then show ?case by simp
next
  case (3 P root_of w ws)
  obtain r w' where w': "propagateRoot P root_of w = Ok (r, w')" "propagated root_of w r w'"
    using "3.IH"(1) "3.prems" by auto
  obtain ws' where ws': "propagate_subs P root_of ws = Ok (map new_update (map (sub_root root_of) (filter changed ws')), ws')"
       "list_all2 (\<lambda>w w'. \<exists>r. propagated root_of w r w') ws ws'"
    using "3.IH"(2) "3.prems" by auto
  have "(case r of None \<Rightarrow> ups | Some root \<Rightarrow> (tc_parentLeafKey (tu_cfg w), \<lparr>up_setRoot = tc_setRoot (tu_cfg w), up_root = root\<rparr>) # ups) =
      (if changed w' then [new_update (sub_root root_of w')] else []) @ ups" for ups
    using w'(2) by (auto simp: propagated_def new_update_def new_setting_def sub_root_def)
  then show ?case using w' ws' by auto
qed

section \<open>Steps of a transaction on its trees\<close>

text \<open>A leaf that holds roots of open subtrees is overwritten only by one with the same roots.\<close>

definition keeps_roots :: "bytes \<Rightarrow> 'v \<Rightarrow> 'v TreeUpdate \<Rightarrow> bool" where
  "keeps_roots k v u = (\<forall>w \<in> set (tu_subs u). tc_parentLeafKey (tu_cfg w) = k \<longrightarrow>
     (\<forall>leaf. map_of (tu_tree u) k = Some leaf \<longrightarrow> tc_getRoot (tu_cfg w) v = tc_getRoot (tu_cfg w) leaf))"

definition allowed_cfgs :: "params \<Rightarrow> 'v TreeUpdate \<Rightarrow> bool" where
  "allowed_cfgs P u = (roots_independent (map tu_cfg (tu_subs u)) \<and>
     (\<forall>w \<in> set (tu_subs u). arbo_key_ok P (tc_maxLevels (tu_cfg u)) (tc_parentLeafKey (tu_cfg w))))"

inductive tree_step ::
  "params \<Rightarrow> ('v TreeConfig \<Rightarrow> bytes \<Rightarrow> 'v tree res) \<Rightarrow> 'v TreeUpdate \<Rightarrow> 'v TreeUpdate \<Rightarrow> bool"
  for P load where
  step_open: "SubTree load c u = (Ok w, u') \<Longrightarrow> allowed_cfgs P u' \<Longrightarrow> tree_step P load u u'"
| step_add: "TU_Add P k v u = (r, u') \<Longrightarrow> tree_step P load u u'"
| step_set: "keeps_roots k v u \<Longrightarrow> TU_Set P k v u = (r, u') \<Longrightarrow> tree_step P load u u'"
| step_inside: "w \<in> set (tu_subs u) \<Longrightarrow> tree_step P load w w' \<Longrightarrow> tree_step P load u (set_sub w' u)"

text \<open>What \<^verbatim>\<open>load\<close> promises: the tree opened at a root has that root.\<close>

definition loads_root :: "('v TreeConfig \<Rightarrow> bytes \<Rightarrow> 'v tree res) \<Rightarrow> ('v tree \<Rightarrow> bytes) \<Rightarrow> bool" where
  "loads_root load root_of = (\<forall>c r t. load c r = Ok t \<longrightarrow> root_of t = r)"

text \<open>Steps change a tree only by marking it.\<close>

definition marked :: "'v TreeUpdate \<Rightarrow> 'v TreeUpdate \<Rightarrow> bool" where
  "marked u u' = (tu_cfg u' = tu_cfg u \<and> (changed u \<longrightarrow> changed u') \<and> (changed u' \<or> tu_tree u' = tu_tree u))"

lemma marked_refl [simp]: "marked u u" by (simp add: marked_def)

lemma marked_trans: "marked u v \<Longrightarrow> marked v w \<Longrightarrow> marked u w"
  by (auto simp: marked_def)

lemma changed_iff: "changed u \<longleftrightarrow> tu_dirty u \<or> (\<exists>w \<in> set (tu_subs u). changed w)"
  by (cases u) simp

lemma consistent_iff:
  "consistent P root_of u \<longleftrightarrow> distinct (map tu_prefix (tu_subs u)) \<and> roots_independent (map tu_cfg (tu_subs u)) \<and>
     (\<forall>w \<in> set (tu_subs u). sub_ok P root_of (tu_cfg u) (tu_tree u) w \<and> consistent P root_of w)"
  by (cases u) simp

lemma set_sub_same [simp]: "tu_cfg (set_sub w u) = tu_cfg u" "tu_tree (set_sub w u) = tu_tree u" "tu_dirty (set_sub w u) = tu_dirty u"
  by (simp_all add: set_sub_def)

lemma tu_subs_set_sub: "tu_subs (set_sub w u) = map (\<lambda>x. if tu_prefix x = tu_prefix w then w else x) (tu_subs u)"
  by (simp add: set_sub_def)

lemma with_tree_cases:
  "\<exists>t. with_tree u r = ((case r of Ok _ \<Rightarrow> Ok () | Fail e \<Rightarrow> Fail e | Panic m \<Rightarrow> Panic m),
         TreeUpdate (tu_cfg u) True t (tu_subs u)) \<and> (t = tu_tree u \<or> r = Ok t)"
  by (cases r) (auto simp: with_tree_def)

lemma leaf_root_cong: "map_of t (tc_parentLeafKey c) = map_of t' (tc_parentLeafKey c) \<Longrightarrow> leaf_root t c = leaf_root t' c"
  by (simp add: leaf_root_def)

text \<open>A write that leaves the roots of the open subtrees.\<close>

lemma consistent_with_tree:
  assumes "consistent P root_of u" "with_tree u r = (e, u')"
    and "\<And>t w. r = Ok t \<Longrightarrow> w \<in> set (tu_subs u) \<Longrightarrow> leaf_root t (tu_cfg w) = leaf_root (tu_tree u) (tu_cfg w)"
  shows "consistent P root_of u' \<and> marked u u'"
proof -
  obtain t where t: "u' = TreeUpdate (tu_cfg u) True t (tu_subs u)" "t = tu_tree u \<or> r = Ok t"
    using with_tree_cases [of u r] assms(2) by auto
  then have "\<forall>w \<in> set (tu_subs u). leaf_root t (tu_cfg w) = leaf_root (tu_tree u) (tu_cfg w)"
    using assms(3) by auto
  then show ?thesis
    using assms(1) t(1) by (auto simp: consistent_iff [of P root_of u] sub_ok_def marked_def)
qed

lemma sub_leaf_present: "consistent P root_of u \<Longrightarrow> w \<in> set (tu_subs u) \<Longrightarrow> map_of (tu_tree u) (tc_parentLeafKey (tu_cfg w)) \<noteq> None"
  by (auto simp: consistent_iff [of P root_of u] sub_ok_def leaf_root_def split: option.splits)

lemma consistent_Add:
  assumes "consistent P root_of u" "TU_Add P k v u = (r, u')"
  shows "consistent P root_of u' \<and> marked u u'"
  using assms(1) assms(2) [unfolded TU_Add_def]
proof (rule consistent_with_tree)
  fix t w assume "Tree_Add P (tc_maxLevels (tu_cfg u)) (tu_tree u) k v = Ok t" "w \<in> set (tu_subs u)"
  then show "leaf_root t (tu_cfg w) = leaf_root (tu_tree u) (tu_cfg w)"
    using sub_leaf_present [OF assms(1), of w] by (intro leaf_root_cong) (auto simp: Tree_Add_Ok)
qed

lemma consistent_Set:
  assumes "consistent P root_of u" "TU_Set P k v u = (r, u')" "keeps_roots k v u"
  shows "consistent P root_of u' \<and> marked u u'"
  using assms(1) assms(2) [unfolded TU_Set_def]
proof (rule consistent_with_tree)
  fix t w assume t: "Tree_Set P (tc_maxLevels (tu_cfg u)) (tu_tree u) k v = Ok t" and w: "w \<in> set (tu_subs u)"
  have m: "map_of t = (map_of (tu_tree u))(k \<mapsto> v)" using t by (rule Tree_Set_lookup)
  show "leaf_root t (tu_cfg w) = leaf_root (tu_tree u) (tu_cfg w)"
  proof (cases "tc_parentLeafKey (tu_cfg w) = k")
    case True
    then obtain leaf where "map_of (tu_tree u) k = Some leaf" using sub_leaf_present [OF assms(1) w] by auto
    moreover from this have "tc_getRoot (tu_cfg w) v = tc_getRoot (tu_cfg w) leaf"
      using assms(3) w True by (simp add: keeps_roots_def)
    ultimately show ?thesis using True m by (simp add: leaf_root_def)
  next
    case False
    then show ?thesis using m by (intro leaf_root_cong) simp
  qed
qed

lemma SubTree_cases:
  assumes "SubTree load c u = (Ok w, u')"
  obtains (already) "open_sub (tc_prefix c) u = Some w" "u' = u"
    | (new) leaf r t where "open_sub (tc_prefix c) u = None" "map_of (tu_tree u) (tc_parentLeafKey c) = Some leaf"
        "tc_getRoot c leaf = Ok r" "load c r = Ok t" "w = TreeUpdate c False t []"
        "u' = TreeUpdate (tu_cfg u) (tu_dirty u) (tu_tree u) (tu_subs u @ [w])"
  using assms by (auto simp: SubTree_def res_simps Let_def split: option.splits)

lemma consistent_open:
  assumes "consistent P root_of u" "SubTree load c u = (Ok w, u')" "allowed_cfgs P u'" "loads_root load root_of"
  shows "consistent P root_of u' \<and> marked u u'"
  using assms(2)
proof (cases rule: SubTree_cases)
  case already
  then show ?thesis using assms(1) by simp
next
  case (new leaf r t)
  then have "tc_prefix c \<notin> tu_prefix ` set (tu_subs u)"
    by (auto simp: open_sub_def find_None_iff)
  moreover have "tu_prefix w = tc_prefix c" using new by (simp add: tu_prefix_def)
  ultimately have "distinct (map tu_prefix (tu_subs u @ [w]))"
    using assms(1) by (auto simp: consistent_iff [of P root_of u])
  moreover have "sub_ok P root_of (tu_cfg u) (tu_tree u) w" "consistent P root_of w"
    using new assms(3,4) by (auto simp: sub_ok_def leaf_root_def loads_root_def allowed_cfgs_def roots_independent_def)
  moreover have "roots_independent (map tu_cfg (tu_subs u @ [w]))" using assms(3) new(6) by (simp add: allowed_cfgs_def)
  ultimately have "consistent P root_of u'" using new(6) assms(1) by (auto simp: consistent_iff [of P root_of u])
  moreover have "marked u u'" using new(5,6) by (auto simp: marked_def changed_iff [of u])
  ultimately show ?thesis ..
qed

lemma consistent_inside:
  assumes "consistent P root_of u" "w \<in> set (tu_subs u)" "consistent P root_of w'" "marked w w'"
  shows "consistent P root_of (set_sub w' u) \<and> marked u (set_sub w' u)"
proof -
  have p: "tu_prefix w' = tu_prefix w" "tu_cfg w' = tu_cfg w" using assms(4) by (auto simp: marked_def tu_prefix_def)
  have u: "x = w" if "x \<in> set (tu_subs u)" "tu_prefix x = tu_prefix w" for x
    using assms(1,2) that by (auto simp: consistent_iff [of P root_of u] distinct_map inj_on_def)
  have cfgs: "map tu_cfg (tu_subs (set_sub w' u)) = map tu_cfg (tu_subs u)"
    "map tu_prefix (tu_subs (set_sub w' u)) = map tu_prefix (tu_subs u)"
    using u p by (auto simp: tu_subs_set_sub)
  have "sub_ok P root_of (tu_cfg u) (tu_tree u) w'"
    using assms(1,2,4) by (auto simp: consistent_iff [of P root_of u] sub_ok_def marked_def)
  then have "\<forall>x \<in> set (tu_subs (set_sub w' u)). sub_ok P root_of (tu_cfg u) (tu_tree u) x \<and> consistent P root_of x"
    using assms(1,3) by (auto simp: tu_subs_set_sub consistent_iff [of P root_of u])
  then have "consistent P root_of (set_sub w' u)"
    using assms(1) cfgs by (simp add: consistent_iff [of P root_of "set_sub w' u"] consistent_iff [of P root_of u])
  moreover have "changed (set_sub w' u)" if "changed u"
    using that assms(2,4) u p
    by (auto simp: changed_iff [of u] changed_iff [of "set_sub w' u"] tu_subs_set_sub marked_def)
  ultimately show ?thesis by (auto simp: marked_def)
qed

lemma tree_step_consistent:
  "tree_step P load u u' \<Longrightarrow> loads_root load root_of \<Longrightarrow> consistent P root_of u \<Longrightarrow>
     consistent P root_of u' \<and> marked u u'"
proof (induction rule: tree_step.induct)
  case (step_inside w u w')
  then show ?case using consistent_inside [of P root_of u w w'] by (auto simp: consistent_iff [of P root_of u])
qed (blast dest: consistent_open consistent_Add consistent_Set)+

lemma tree_steps_consistent:
  "(tree_step P load)\<^sup>*\<^sup>* u u' \<Longrightarrow> loads_root load root_of \<Longrightarrow> consistent P root_of u \<Longrightarrow>
     consistent P root_of u' \<and> marked u u'"
  by (induction rule: rtranclp_induct) (auto dest: tree_step_consistent intro: marked_trans)

section \<open>Nested subtrees\<close>

lemma open_sub_prefix: "open_sub p u = Some w \<Longrightarrow> tu_prefix w = p"
  by (auto simp: open_sub_def find_Some_iff)

lemma SubTree_open:
  assumes "SubTree load c u = (Ok w, u')"
  shows "open_sub (tc_prefix c) u' = Some w \<and> tu_cfg u' = tu_cfg u"
  using assms
proof (cases rule: SubTree_cases)
  case (new leaf r t)
  have "List.find Q (xs @ [x]) = (case List.find Q xs of None \<Rightarrow> if Q x then Some x else None | Some y \<Rightarrow> Some y)" for Q xs and x :: "'a TreeUpdate"
    by (induction xs) auto
  then show ?thesis using new by (auto simp: open_sub_def tu_prefix_def)
qed simp_all

lemma open_sub_set_sub:
  assumes "open_sub p u = Some w" "tu_prefix w' = p"
  shows "open_sub p (set_sub w' u) = Some w'"
proof -
  have "List.find (\<lambda>x. tu_prefix x = p) xs = Some w \<Longrightarrow>
    List.find (\<lambda>x. tu_prefix x = p) (map (\<lambda>x. if tu_prefix x = tu_prefix w' then w' else x) xs) = Some w'" for xs
    using assms(2) by (induction xs) (auto split: if_splits)
  then show ?thesis using assms by (simp add: open_sub_def tu_subs_set_sub)
qed

text \<open>An operation on a nested subtree acts on the subtree the later ones see.\<close>

lemma DeepSubTree_after:
  assumes "\<And>w. tu_cfg (snd (f w)) = tu_cfg w"
  shows "DeepSubTree load cfgs f u = (Ok x, u') \<Longrightarrow>
    tu_cfg u' = tu_cfg u \<and>
    (\<exists>w w'. f w = (Ok x, w') \<and> (\<forall>g. fst (DeepSubTree load cfgs g u) = (fst (g w) :: 'b res)) \<and>
       (\<forall>g. fst (DeepSubTree load cfgs g u') = (fst (g w') :: 'b res)))"
proof (induction cfgs arbitrary: u u')
  case Nil
  then show ?case using assms [of u] by auto
next
  case (Cons c cfgs)
  obtain w0 u1 w1 where 1: "SubTree load c u = (Ok w0, u1)" "DeepSubTree load cfgs f w0 = (Ok x, w1)" "u' = set_sub w1 u1"
  proof -
    obtain w0 u1 where a: "SubTree load c u = (Ok w0, u1)"
      "(let (r, w') = DeepSubTree load cfgs f w0 in (r, set_sub w' u1)) = (Ok x, u')"
      using Cons.prems unfolding DeepSubTree.simps and_then_Ok_iff by blast
    then show thesis using that by (cases "DeepSubTree load cfgs f w0") simp
  qed
  have o: "open_sub (tc_prefix c) u1 = Some w0" "tu_cfg u1 = tu_cfg u" using SubTree_open [OF 1(1)] by auto
  obtain w w' where w: "tu_cfg w1 = tu_cfg w0" "f w = (Ok x, w')"
      "\<forall>g. fst (DeepSubTree load cfgs g w0) = (fst (g w) :: 'b res)" "\<forall>g. fst (DeepSubTree load cfgs g w1) = (fst (g w') :: 'b res)"
    using Cons.IH [OF 1(2)] by blast
  have "tu_prefix w1 = tc_prefix c" using w(1) open_sub_prefix [OF o(1)] by (simp add: tu_prefix_def)
  then have "SubTree load c u' = (Ok w1, u')" using open_sub_set_sub [OF o(1)] 1(3) by (simp add: SubTree_def)
  then have "\<forall>g. fst (DeepSubTree load (c # cfgs) g u') = (fst (g w') :: 'b res)"
    using w(4) by (simp add: split_def Let_def)
  moreover have "\<forall>g. fst (DeepSubTree load (c # cfgs) g u) = (fst (g w) :: 'b res)"
    using w(3) 1(1) by (simp add: split_def Let_def)
  moreover have "tu_cfg u' = tu_cfg u" using 1(3) o(2) by simp
  ultimately show ?case using w(2) by blast
qed

lemma with_tree_cfg [simp]: "tu_cfg (snd (with_tree u r)) = tu_cfg u"
  by (cases r) (auto simp: with_tree_def)

lemma TU_Set_get: "TU_Set P k v w = (Ok x, w') \<Longrightarrow> fst (TU_Get k' w') = (if k' = k then Ok v else fst (TU_Get k' w))"
  by (cases "Tree_Set P (tc_maxLevels (tu_cfg w)) (tu_tree w) k v")
    (auto simp: TU_Set_def with_tree_def TU_Get_def Tree_Get_def of_option_def dest: Tree_Set_lookup)

text \<open>C35. A value set in a nested subtree is read back there, whether the subtrees on the way were open or
  are opened by the operation, and every other key of the subtree reads as before.\<close>

theorem deep_set_get:
  assumes "TU_DeepSet P load k v cfgs u = (Ok (), u')"
  shows "fst (TU_DeepGet load k' cfgs u') = (if k' = k then Ok v else fst (TU_DeepGet load k' cfgs u))"
proof -
  have cfg: "tu_cfg (snd (TU_Set P k v w)) = tu_cfg w" for w by (simp add: TU_Set_def)
  obtain w w' where "TU_Set P k v w = (Ok (), w')"
    "fst (DeepSubTree load cfgs (TU_Get k') u) = fst (TU_Get k' w)"
    "fst (DeepSubTree load cfgs (TU_Get k') u') = fst (TU_Get k' w')"
    using DeepSubTree_after [OF cfg assms [unfolded TU_DeepSet_def]] by blast
  then show ?thesis by (simp add: TU_DeepGet_def TU_Set_get)
qed

section \<open>Commits\<close>

text \<open>The metadata of the versions is apart from the nodes of the trees, the subtrees and the data
  outside the state.\<close>

lemma versions_prefix_eq: "versions_prefix = str ''m/v/''"
  by (simp add: versions_prefix_def sub_prefix_def path_Join_def path_Clean_def subKeyMeta_def pathVersion_def str_def slash_def dot_def Let_def)

lemma versions_apart:
  "sub_prefix subKeyTree \<parallel> versions_prefix" "sub_prefix subKeyNoState \<parallel> versions_prefix"
  "sub_prefix (subKeySubTree @ rest) \<parallel> versions_prefix"
  by (auto simp: versions_prefix_eq sub_prefix_def subKeyTree_def subKeyNoState_def subKeySubTree_def str_def slash_def parallel_def)

definition same_versions :: "tx_state \<Rightarrow> database \<Rightarrow> bool" where
  "same_versions s d = (\<forall>k. look_tx s (versions_prefix @ k) = map_of d (versions_prefix @ k))"

lemma same_versions_get:
  "same_versions s d \<Longrightarrow> getVersion s = StateDB_Version d"
  "same_versions s d \<Longrightarrow> getVersionRoot hashLen s v = StateDB_VersionRoot hashLen v d"
  by (simp_all add: same_versions_def getVersion_look getVersionRoot_look StateDB_Version_def StateDB_VersionRoot_def look_fresh)

text \<open>Writes of the trees and of the data outside the state leave the versions.\<close>

lemma same_versions_write:
  assumes "same_versions s d" "tx_ok (fst s)" "write_under full p k v s = (Ok u, s')" "p \<parallel> versions_prefix"
  shows "same_versions s' d"
proof -
  have "versions_prefix @ x \<noteq> p @ k" for x
    using assms(4) by (metis parallelD1 parallelD2 prefixI prefix_same_cases)
  then show ?thesis
    using tx.write_look [OF assms(2) assms(3) [unfolded write_under_eq]] assms(1) by (simp add: same_versions_def)
qed

lemma StateDB_Hash_eq: "StateDB_Hash hashLen d = rbind (StateDB_Version d) (\<lambda>v. StateDB_VersionRoot hashLen v d)"
  by (simp add: StateDB_Hash_def getRoot_def StateDB_Version_def StateDB_VersionRoot_def)

lemma StateDB_after_commit:
  assumes "tx_path (fst s) = []"
  shows "StateDB_Version (Tx_Commit (fst s) (snd s)) = getVersion s"
    and "StateDB_VersionRoot hashLen v (Tx_Commit (fst s) (snd s)) = getVersionRoot hashLen s v"
    and "StateDB_Hash hashLen (Tx_Commit (fst s) (snd s)) = getRoot hashLen s"
proof -
  have "same_versions s (Tx_Commit (fst s) (snd s))"
    using look_commit [OF assms] by (simp add: same_versions_def look_fresh)
  note g = same_versions_get [OF this]
  show "StateDB_Version (Tx_Commit (fst s) (snd s)) = getVersion s"
    "StateDB_VersionRoot hashLen v (Tx_Commit (fst s) (snd s)) = getVersionRoot hashLen s v" for v by (simp_all add: g)
  then show "StateDB_Hash hashLen (Tx_Commit (fst s) (snd s)) = getRoot hashLen s"
    by (simp add: StateDB_Hash_eq getRoot_def)
qed

lemma Tx_Write_Ok_or_full: "fst (Tx_Write full k v tx d) = Ok () \<or> (\<exists>w. full w)"
proof (induction full k v tx d rule: Tx_Write.induct)
  case (2 full k v p tx d)
  then show ?case by (auto simp: split_def Let_def)
next
  case (3 full k v tx db maxSize n d)
  obtain e1 t1 d1 where 1: "Tx_Write full k v tx d = (e1, t1, d1)" by (metis prod_cases3)
  obtain e2 t2 d2 where 2: "Tx_Write full k v (Database_WriteTx db) (Tx_Commit t1 d1) = (e2, t2, d2)"
    by (metis prod_cases3)
  show ?case using "3.IH"(1) "3.IH"(2) [OF 1 [symmetric] refl refl] 1 2 by auto
qed auto

lemma setVersionRoot_succeeds:
  assumes "\<And>w. \<not> full w"
  obtains s' where "setVersionRoot full version root s = (Ok (), s')"
proof -
  have w: "\<exists>s'. write_tx_key full k v s = (Ok (), s')" for k v s
    using Tx_Write_Ok_or_full [of full k v "fst s" "snd s"] assms
    by (metis prod.collapse write_tx_key_def)
  obtain s1 where "write_tx_key full (versions_prefix @ uint32ToBytes version) (Some root) s = (Ok (), s1)"
    using w by blast
  moreover obtain s2 where "write_tx_key full (versions_prefix @ keyCurVersion) (Some (uint32ToBytes version)) s1 = (Ok (), s2)"
    using w by blast
  ultimately show ?thesis using that by (auto simp: setVersionRoot_def write_under_eq)
qed

lemma write_tx_key_path: "write_tx_key full k v s = (e, s') \<Longrightarrow> tx_ok (fst s) \<Longrightarrow> tx_ok (fst s') \<and> tx_path (fst s') = tx_path (fst s)"
  using Tx_Write_keeps [of full k v "fst s" "snd s" e "fst s'" "snd s'"] by (simp add: write_tx_key_def)

lemma setVersionRoot_path:
  "setVersionRoot full version root s = (Ok u, s') \<Longrightarrow> tx_ok (fst s) \<Longrightarrow> tx_path (fst s') = tx_path (fst s)"
  by (auto simp: setVersionRoot_def write_under_eq res_simps dest!: write_tx_key_path)

lemma consistent_BeginTx: "BeginTx hashLen load d = Ok t \<Longrightarrow> consistent P root_of (tt_update t)"
  by (auto simp: BeginTx_def res_simps Let_def roots_independent_def)

lemma BeginTx_root:
  assumes "BeginTx hashLen load d = Ok t" "loads_root load root_of"
  shows "StateDB_Hash hashLen d = Ok (root_of (tu_tree (tt_update t)))" "\<not> changed (tt_update t)"
  using assms by (auto simp: BeginTx_def res_simps Let_def loads_root_def StateDB_Hash_def)

text \<open>C18. Whatever subtrees a transaction of the state database opens and whatever it writes in them, its
  commit succeeds; then every open subtree has its root in the leaf of its parent, up to the main tree,
  the version of the database is the committed one and its hash is the root of the main tree, also when
  nothing was written, and the roots of all other versions stay. The transaction of the store may hold
  any writes outside the versions, as those of the nodes of the trees are.\<close>

theorem commit_links_trees:
  assumes "BeginTx hashLen load d = Ok t" "loads_root load root_of" "\<And>w. \<not> full w"
    and "(tree_step P load)\<^sup>*\<^sup>* (tt_update t) u"
    and "tx_ok (fst s)" "tx_path (fst s) = []" "same_versions s d"
  shows "\<exists>u' d'. StateDB_Commit P full hashLen root_of version \<lparr>tt_update = u, tt_tx = s\<rparr> = Ok (u', d') \<and>
    linked root_of u' \<and> StateDB_Version d' = Ok version \<and> StateDB_Hash hashLen d' = Ok (root_of (tu_tree u')) \<and>
    (\<forall>v. StateDB_VersionRoot hashLen v d' =
       (if v = version then Ok (root_of (tu_tree u')) else StateDB_VersionRoot hashLen v d))"
proof -
  have c: "consistent P root_of u" "marked (tt_update t) u"
    using tree_steps_consistent [OF assms(4,2) consistent_BeginTx [OF assms(1)]] by auto
  obtain r u' where p: "propagateRoot P root_of u = Ok (r, u')" "propagated root_of u r u'"
    using propagateRoot_Ok(1) [OF c(1)] by blast
  let ?root = "root_of (tu_tree u')"
  obtain cur where cur: "getVersion s = Ok cur" "getVersionRoot hashLen s cur = Ok (root_of (tu_tree (tt_update t)))"
    using BeginTx_root(1) [OF assms(1,2)] by (auto simp: StateDB_Hash_eq same_versions_get [OF assms(7)] res_simps)
  have "r = Some ?root \<or> r = None \<and> tu_tree u' = tu_tree (tt_update t)"
    using p(2) c(2) BeginTx_root(2) [OF assms(1,2)] by (auto simp: propagated_def marked_def)
  then have r: "(case r of None \<Rightarrow> getVersionRoot hashLen s cur | Some r \<Rightarrow> Ok r) = Ok ?root" using cur(2) by auto
  obtain s' where s': "setVersionRoot full version ?root s = (Ok (), s')"
    using setVersionRoot_succeeds [where full = full] assms(3) by blast
  have "tx_path (fst s') = []" using setVersionRoot_path [OF s' assms(5)] assms(6) by simp
  moreover have "StateDB_Commit P full hashLen root_of version \<lparr>tt_update = u, tt_tx = s\<rparr> = Ok (u', Tx_Commit (fst s') (snd s'))"
    using p(1) cur(1) r s' by (cases r) (simp_all add: StateDB_Commit_def)
  moreover have "linked root_of u'" using p(2) by (simp add: propagated_def)
  ultimately show ?thesis
    using s' assms(5) by (simp add: StateDB_after_commit getRoot_def same_versions_get(2) [OF assms(7)])
qed

text \<open>A main tree with one leaf, the root of a subtree with one leaf.\<close>

definition size_root :: "bytes tree \<Rightarrow> bytes" where
  "size_root t = [of_nat (length t)]"

definition load_empty :: "bytes TreeConfig \<Rightarrow> bytes \<Rightarrow> bytes tree res" where
  "load_empty c r = (if r = [0] then Ok [] else Fail ErrKeyNotFound)"

definition child_cfg :: "bytes TreeConfig" where
  "child_cfg = NewTreeSingletonConfig \<lparr>tp_KindID = [1], tp_MaxLevels = 256, tp_ParentLeafGetRoot = Ok,
     tp_ParentLeafSetRoot = \<lambda>leaf root. Ok root\<rparr>"

definition example_trees :: "bytes TreeUpdate" where
  "example_trees = TreeUpdate mainTreeCfg True [([1], [0])] [TreeUpdate child_cfg True [([2], [9])] []]"

lemma load_empty_root: "loads_root load_empty size_root"
  by (auto simp: loads_root_def load_empty_def size_root_def)

lemma example_steps: "(tree_step params0 load_empty)\<^sup>*\<^sup>* (TreeUpdate mainTreeCfg False [] []) example_trees"
proof -
  let ?u1 = "TreeUpdate mainTreeCfg True [([1], [0])] [] :: bytes TreeUpdate"
  let ?w = "TreeUpdate child_cfg False [] []" and ?w' = "TreeUpdate child_cfg True [([2], [9])] []"
  let ?u2 = "TreeUpdate mainTreeCfg True [([1], [0])] [?w]"
  note defs = mainTreeCfg_def NewTreeSingletonConfig_def child_cfg_def params0_def with_tree_def Let_def
  have "tree_step params0 load_empty (TreeUpdate mainTreeCfg False [] []) ?u1"
    by (rule step_set [of "[1]" "[0]"]) (auto simp: keeps_roots_def TU_Set_def Tree_Set_def Tree_Add_def defs)
  moreover have "tree_step params0 load_empty ?u1 ?u2"
    by (rule step_open [of _ child_cfg _ ?w])
      (auto simp: SubTree_def open_sub_def Tree_Get_def of_option_def load_empty_def allowed_cfgs_def roots_independent_def defs)
  moreover have "tree_step params0 load_empty ?u2 (set_sub ?w' ?u2)"
    by (rule step_inside [of ?w], simp, rule step_set [of "[2]" "[9]"])
      (auto simp: keeps_roots_def TU_Set_def Tree_Set_def Tree_Add_def defs)
  moreover have "set_sub ?w' ?u2 = example_trees" by (simp add: set_sub_def example_trees_def tu_prefix_def)
  ultimately show ?thesis by (metis (no_types, lifting) rtranclp.rtrancl_into_rtrancl rtranclp.rtrancl_refl)
qed

theorem commit_links_trees_witness:
  "\<exists>u' d'. StateDB_Commit params0 (\<lambda>w. False) 1 size_root 7 \<lparr>tt_update = example_trees, tt_tx = (RawTx [], [])\<rparr> = Ok (u', d') \<and>
     linked size_root u' \<and> StateDB_Version d' = Ok 7 \<and> StateDB_Hash 1 d' = Ok (size_root (tu_tree u'))"
proof -
  have "BeginTx 1 load_empty [] = Ok \<lparr>tt_update = TreeUpdate mainTreeCfg False [] [], tt_tx = (RawTx [], [])\<rparr>"
    by (simp add: BeginTx_def getRoot_def getVersion_look getVersionRoot_look look_fresh load_empty_def)
  then show ?thesis
    using commit_links_trees [OF _ load_empty_root, of 1 "[]" _ "\<lambda>w. False" params0 example_trees "(RawTx [], [])" 7]
      example_steps by (fastforce simp: same_versions_def look_fresh)
qed

theorem deep_set_get_witness:
  "fst (TU_DeepGet load_empty [3] [child_cfg] (snd (TU_DeepSet params0 load_empty [3] [4] [child_cfg] example_trees))) = Ok [4]"
proof -
  have "fst (TU_DeepSet params0 load_empty [3] [4] [child_cfg] example_trees) = Ok ()"
    by (simp add: TU_DeepSet_def SubTree_def open_sub_def example_trees_def tu_prefix_def TU_Set_def with_tree_def
          Tree_Set_def Tree_Add_def child_cfg_def NewTreeSingletonConfig_def params0_def)
  then show ?thesis
    using deep_set_get [of params0 load_empty "[3]" "[4]" "[child_cfg]" example_trees _ "[3]"]
    by (metis prod.collapse)
qed

section \<open>Prefixes of subtrees\<close>

text \<open>The prefix under which \<^verbatim>\<open>SubTree\<close> stores a subtree within its parent.\<close>

definition subtree_prefix :: "'v TreeConfig \<Rightarrow> bytes" where
  "subtree_prefix cfg = sub_prefix (path_Join [subKeySubTree, tc_prefix cfg])"

definition plain_name :: "bytes \<Rightarrow> bool" where
  "plain_name e = (e \<noteq> [] \<and> slash \<notin> set e \<and> e \<noteq> [dot] \<and> e \<noteq> [dot, dot])"

lemma split_slash_plain: "slash \<notin> set e \<Longrightarrow> split_slash e = [e]"
  by (induction e) auto

lemma split_slash_append: "slash \<notin> set a \<Longrightarrow> split_slash (a @ slash # b) = a # split_slash b"
  by (induction a) auto

lemma path_Join_plain:
  assumes "plain_name e" "plain_name f"
  shows "path_Join [e, f] = e @ [slash] @ f"
proof -
  have "hd (e @ slash # f) \<noteq> slash" using assms(1) by (cases e) (auto simp: plain_name_def)
  then show ?thesis
    using assms by (simp add: path_Join_def path_Clean_def plain_name_def split_slash_append split_slash_plain)
qed

lemma plain_subKey [simp]: "plain_name subKeySubTree"
  by (simp add: plain_name_def subKeySubTree_def str_def slash_def dot_def)

lemma path_Join_dots:
  assumes "plain_name e"
  shows "path_Join [subKeySubTree, e @ [slash, 120, slash, dot]] = path_Join [subKeySubTree, e @ [slash, slash, 120, slash]]"
proof -
  have s: "slash \<notin> set subKeySubTree" "slash \<notin> set e" "subKeySubTree \<noteq> []" "hd subKeySubTree \<noteq> slash"
    using assms by (simp_all add: plain_name_def subKeySubTree_def str_def slash_def)
  have a: "split_slash [slash, 120, slash, dot] = [[], [120], [dot]]" "split_slash [120, slash, dot] = [[120], [dot]]"
    "split_slash [slash, 120, slash] = [[], [120], []]"
    by (simp_all add: slash_def dot_def)
  have "split_slash (subKeySubTree @ slash # e @ [slash, 120, slash, dot]) = [subKeySubTree, e, [120], [dot]]"
    "split_slash (subKeySubTree @ slash # e @ [slash, slash, 120, slash]) = [subKeySubTree, e, [], [120], []]"
    using split_slash_append [OF s(1)] split_slash_append [OF s(2)] a by simp_all
  then show ?thesis
    using s assms by (simp add: path_Join_def path_Clean_def hd_append Let_def)
qed

lemma until_slash: "slash \<notin> set a \<Longrightarrow> takeWhile (\<lambda>c. c \<noteq> slash) (a @ slash # r) = a"
  by (induction a) auto

lemma prefix_slash: "prefix (a @ [slash]) (b @ slash # r) \<Longrightarrow> slash \<notin> set a \<Longrightarrow> slash \<notin> set b \<Longrightarrow> a = b"
  using until_slash [of a] until_slash [of b r] by (auto simp: prefix_def)

lemma plain_apart:
  assumes "plain_name a" "plain_name b" "a \<noteq> b"
  shows "sub_prefix (path_Join [subKeySubTree, a]) \<parallel> sub_prefix (path_Join [subKeySubTree, b])"
proof -
  have "\<not> prefix (a @ [slash]) (b @ [slash])" "\<not> prefix (b @ [slash]) (a @ [slash])"
    using prefix_slash [of a b "[]"] prefix_slash [of b a "[]"] assms by (auto simp: plain_name_def)
  then show ?thesis using assms by (simp add: sub_prefix_def path_Join_plain parallel_def del: prefix_snoc)
qed

text \<open>Two subtrees under one parent whose names have no slash and are not dots are stored under
  prefixes of which neither starts the other, so that no write of one shows in the other. Names with
  slashes may meet: the names of the votes of two processes have one prefix.\<close>

theorem subtree_prefixes:
  "(plain_name (tc_prefix c) \<and> plain_name (tc_prefix c') \<and> tc_prefix c \<noteq> tc_prefix c' \<longrightarrow>
      subtree_prefix c \<parallel> subtree_prefix c') \<and>
   (\<exists>pid pid'. length pid = 32 \<and> length pid' = 32 \<and> pid \<noteq> pid' \<and>
      subtree_prefix (WithKey \<lparr>tp_KindID = str ''votes'', tp_MaxLevels = 256,
         tp_ParentLeafGetRoot = g, tp_ParentLeafSetRoot = h\<rparr> pid) =
      subtree_prefix (WithKey \<lparr>tp_KindID = str ''votes'', tp_MaxLevels = 256,
         tp_ParentLeafGetRoot = g, tp_ParentLeafSetRoot = h\<rparr> pid'))"
proof
  show "plain_name (tc_prefix c) \<and> plain_name (tc_prefix c') \<and> tc_prefix c \<noteq> tc_prefix c' \<longrightarrow>
      subtree_prefix c \<parallel> subtree_prefix c'"
    by (simp add: subtree_prefix_def plain_apart)
  let ?p = "replicate 28 (97 :: u8)"
  have "plain_name (str ''votes'' @ ?p)" by (simp add: plain_name_def str_def slash_def dot_def)
  then have "path_Join [subKeySubTree, str ''votes'' @ ?p @ [slash, 120, slash, dot]] =
        path_Join [subKeySubTree, str ''votes'' @ ?p @ [slash, slash, 120, slash]]"
    using path_Join_dots by (metis append_assoc)
  then show "\<exists>pid pid'. length pid = 32 \<and> length pid' = 32 \<and> pid \<noteq> pid' \<and>
      subtree_prefix (WithKey \<lparr>tp_KindID = str ''votes'', tp_MaxLevels = 256,
         tp_ParentLeafGetRoot = g, tp_ParentLeafSetRoot = h\<rparr> pid) =
      subtree_prefix (WithKey \<lparr>tp_KindID = str ''votes'', tp_MaxLevels = 256,
         tp_ParentLeafGetRoot = g, tp_ParentLeafSetRoot = h\<rparr> pid')"
    by (intro exI [of _ "?p @ [slash, 120, slash, dot]"] exI [of _ "?p @ [slash, slash, 120, slash]"])
      (simp add: subtree_prefix_def WithKey_def slash_def dot_def)
qed


theorem subtree_prefixes_witness:
  "subtree_prefix (WithKey \<lparr>tp_KindID = str ''votes'', tp_MaxLevels = 256, tp_ParentLeafGetRoot = Ok,
       tp_ParentLeafSetRoot = \<lambda>leaf root. Ok (root :: bytes)\<rparr> [1]) \<parallel>
   subtree_prefix (WithKey \<lparr>tp_KindID = str ''votes'', tp_MaxLevels = 256, tp_ParentLeafGetRoot = Ok,
       tp_ParentLeafSetRoot = \<lambda>leaf root. Ok (root :: bytes)\<rparr> [2])"
  by (rule subtree_prefixes [THEN conjunct1, rule_format])
    (simp add: WithKey_def plain_name_def str_def slash_def dot_def)

end
