(* ===== verification/Census_Tree.thy ===== *)
theory Census_Tree
  imports State_DB "HOL-Library.Multiset"
begin

text \<open>
  The census trees outside the chain (\<^verbatim>\<open>src/censustree/censustree.go\<close> and the wrappers of \<^verbatim>\<open>src/tree/tree.go\<close> it
  calls): a Merkle tree of keys and weights with its number of leaves, its total weight and, when keys are
  stored under consecutive indexes, the index of each key, kept beside the nodes in a database under the
  name of the census (theory \<open>Key_Value\<close>). What the nodes under a name hold is the list of its leaves in
  \<open>cs_leaves\<close>; two trees opened under one name share it. Arbo's batches, dumps, proofs, roots and snapshots
  are fields of \<open>census_env\<close>. A tree opens its transactions with \<open>ct_newTx\<close>: a prefixed one of the store, or one
  on a batch, as \<^verbatim>\<open>census.DBBatched\<close> makes them. An operation that fails leaves what a batch has committed
  on the way. The keys of two censuses meet when the name of one starts that of the other.
\<close>

section \<open>State\<close>

datatype census_type = Census_UNKNOWN | Census_ARBO_BLAKE2B | Census_ARBO_POSEIDON | Census_other int

record CensusTree =
  ct_newTx :: WriteTx
  ct_snapshot :: "bytes tree option"
  ct_public :: u32
  ct_censusType :: census_type
  ct_hashFunc :: bool
  ct_hashLen :: nat
  ct_indexAsKeys :: bool

record census_store =
  cs_db :: database
  cs_leaves :: "bytes \<Rightarrow> bytes tree"

text \<open>What Arbo gives: the hash functions and their lengths, the root of a tree and the tree of a root, adding a
  batch (the positions that could not be added, and the tree), dumps, and proofs with the value of the
  leaf, the siblings and whether the leaf exists.\<close>

record census_env =
  ce_Hash :: "census_type \<Rightarrow> bytes \<Rightarrow> bytes res"
  ce_HashLen :: "census_type \<Rightarrow> nat"
  ce_Root :: "census_type \<Rightarrow> bytes tree \<Rightarrow> bytes res"
  ce_Snapshot :: "census_type \<Rightarrow> bytes \<Rightarrow> bytes tree res"
  ce_AddBatch :: "census_type \<Rightarrow> bytes tree \<Rightarrow> bytes list \<Rightarrow> bytes list option \<Rightarrow> (nat list \<times> bytes tree) res"
  ce_ImportDump :: "census_type \<Rightarrow> bytes \<Rightarrow> bytes tree \<Rightarrow> bytes tree res"
  ce_Dump :: "bytes tree \<Rightarrow> bytes res"
  ce_GenProof :: "census_type \<Rightarrow> bytes tree \<Rightarrow> bytes \<Rightarrow> (bytes \<times> bytes \<times> bool) res"
  ce_CheckProof :: "census_type \<Rightarrow> bytes \<Rightarrow> bytes \<Rightarrow> bytes \<Rightarrow> bytes \<Rightarrow> bool res"

definition censusWeightKey :: bytes where "censusWeightKey = str ''censusWeight''"
definition censusIndexKey :: bytes where "censusIndexKey = str ''censusIndex''"
definition isIndexAsKeysCensus :: bytes where "isIndexAsKeysCensus = str ''isIndexAsKey''"
definition censusKeysToIndexPrefix :: bytes where "censusKeysToIndexPrefix = str ''keyIndex''"

definition nLevels :: nat where "nLevels = 256"

text \<open>The transactions of the store grow as needed.\<close>

abbreviation set_key :: "bytes \<Rightarrow> bytes \<Rightarrow> tx_state \<Rightarrow> unit res \<times> tx_state" where
  "set_key k v \<equiv> write_tx_key (\<lambda>w. False) k (Some v)"

definition ct_begin :: "CensusTree \<Rightarrow> census_store \<Rightarrow> tx_state" where
  "ct_begin t c = (ct_newTx t, cs_db c)"

text \<open>The leaves a tree reads: those of its snapshot, or those under its name.\<close>

definition ct_leaves :: "CensusTree \<Rightarrow> census_store \<Rightarrow> bytes tree" where
  "ct_leaves t c = (case ct_snapshot t of Some l \<Rightarrow> l | None \<Rightarrow> cs_leaves c (tx_path (ct_newTx t)))"

definition set_leaves :: "CensusTree \<Rightarrow> bytes tree \<Rightarrow> census_store \<Rightarrow> census_store" where
  "set_leaves t l c = c\<lparr>cs_leaves := (cs_leaves c)(tx_path (ct_newTx t) := l)\<rparr>"

definition ct_commit :: "CensusTree \<Rightarrow> bytes tree \<Rightarrow> tx_state \<Rightarrow> census_store \<Rightarrow> census_store" where
  "ct_commit t l s c = set_leaves t l (c\<lparr>cs_db := Tx_Commit (fst s) (snd s)\<rparr>)"

definition ct_discard :: "tx_state \<Rightarrow> census_store \<Rightarrow> census_store" where
  "ct_discard s c = c\<lparr>cs_db := snd s\<rparr>"

definition CensusTree_Hash :: "census_env \<Rightarrow> CensusTree \<Rightarrow> bytes \<Rightarrow> bytes res" where
  "CensusTree_Hash E t b =
     (if ct_hashFunc t then ce_Hash E (ct_censusType t) b
      else Panic ''invalid memory address or nil pointer dereference'')"

text \<open>A negative number is written by its absolute value.\<close>

definition CensusTree_BigIntToBytes :: "params \<Rightarrow> CensusTree \<Rightarrow> int \<Rightarrow> bytes" where
  "CensusTree_BigIntToBytes P t x = arbo_BigIntToBytes P (ct_hashLen t) (nat \<bar>x\<bar>)"

definition FromRoot :: "census_env \<Rightarrow> bytes \<Rightarrow> CensusTree \<Rightarrow> CensusTree res" where
  "FromRoot E root t =
     rbind (ce_Snapshot E (ct_censusType t) root) (\<lambda>l.
       Ok \<lparr>ct_newTx = ct_newTx t, ct_snapshot = Some l, ct_public = 0, ct_censusType = ct_censusType t,
           ct_hashFunc = False, ct_hashLen = 0, ct_indexAsKeys = False\<rparr>)"

definition Publish :: "CensusTree \<Rightarrow> CensusTree" where "Publish t = t\<lparr>ct_public := 1\<rparr>"
definition Unpublish :: "CensusTree \<Rightarrow> CensusTree" where "Unpublish t = t\<lparr>ct_public := 0\<rparr>"
definition IsPublic :: "CensusTree \<Rightarrow> bool" where "IsPublic t = (ct_public t = 1)"

definition CensusTree_Root :: "census_env \<Rightarrow> CensusTree \<Rightarrow> census_store \<Rightarrow> bytes res" where
  "CensusTree_Root E t c = ce_Root E (ct_censusType t) (ct_leaves t c)"

definition CensusTree_Get :: "bytes \<Rightarrow> CensusTree \<Rightarrow> census_store \<Rightarrow> bytes res" where
  "CensusTree_Get k t c = Tree_Get (ct_leaves t c) k"

definition CensusTree_Size :: "CensusTree \<Rightarrow> census_store \<Rightarrow> u64" where
  "CensusTree_Size t c = of_nat (length (ct_leaves t c))"

definition CensusTree_Dump :: "census_env \<Rightarrow> CensusTree \<Rightarrow> census_store \<Rightarrow> bytes res" where
  "CensusTree_Dump E t c = ce_Dump E (ct_leaves t c)"

section \<open>Index and weight\<close>

text \<open>\<^verbatim>\<open>Get\<close> of a key that may be missing.\<close>

definition get_opt :: "bytes \<Rightarrow> tx_state \<Rightarrow> bytes option res" where
  "get_opt k s =
     (case get_tx k s of
        Ok v \<Rightarrow> Ok (Some v)
      | Fail e \<Rightarrow> if errors_is e ErrKeyNotFound then Ok None else Fail e
      | Panic m \<Rightarrow> Panic m)"

definition updateCensusWeight :: "params \<Rightarrow> CensusTree \<Rightarrow> bytes \<Rightarrow> tx_state \<Rightarrow> unit res \<times> tx_state" where
  "updateCensusWeight P t w s =
     with_res (wrap ''could not get census weight: %w'' (get_opt censusWeightKey s)) s (\<lambda>weightBytes.
       let weight = arbo_BytesToBigInt P (bz weightBytes) + arbo_BytesToBigInt P w
       in wrap_st ''could not set census weight: %w''
            (set_key censusWeightKey (CensusTree_BigIntToBytes P t (int weight)) s))"

definition updateCensusIndex :: "params \<Rightarrow> CensusTree \<Rightarrow> u32 \<Rightarrow> tx_state \<Rightarrow> u64 res \<times> tx_state" where
  "updateCensusIndex P t delta s =
     with_res (wrap ''could not get census index: %w'' (get_opt censusIndexKey s)) s (\<lambda>indexBytes.
       let currentIndex = (case indexBytes of None \<Rightarrow> 0 | Some b \<Rightarrow> arbo_BytesToBigInt P b);
           index = currentIndex + unat delta
       in and_then (wrap_st ''could not set census index: %w''
                      (set_key censusIndexKey (CensusTree_BigIntToBytes P t (int index)) s))
            (\<lambda>_ s. (Ok (of_nat currentIndex), s)))"

definition GetCensusWeight :: "params \<Rightarrow> CensusTree \<Rightarrow> census_store \<Rightarrow> nat res" where
  "GetCensusWeight P t c =
     rbind (wrap ''could not get census weight: %w'' (get_opt censusWeightKey (ct_begin t c))) (\<lambda>w.
       Ok (case w of None \<Rightarrow> 0 | Some b \<Rightarrow> arbo_BytesToBigInt P b))"

definition GetCensusIndex :: "params \<Rightarrow> CensusTree \<Rightarrow> census_store \<Rightarrow> u32 res" where
  "GetCensusIndex P t c =
     rbind (wrap ''could not get census index: %w'' (get_opt censusIndexKey (ct_begin t c))) (\<lambda>i.
       Ok (case i of None \<Rightarrow> 0 | Some b \<Rightarrow> of_nat (arbo_BytesToBigInt P b)))"

definition keyToIndex :: "bytes \<Rightarrow> CensusTree \<Rightarrow> census_store \<Rightarrow> bytes res" where
  "keyToIndex key t c = get_tx (censusKeysToIndexPrefix @ key) (ct_begin t c)"

definition indexKey :: "bytes \<Rightarrow> bytes \<Rightarrow> tx_state \<Rightarrow> unit res \<times> tx_state" where
  "indexKey key index s = set_key (censusKeysToIndexPrefix @ key) index s"

section \<open>Creation\<close>

text \<open>The transaction of the option is committed when the function returns, after that of the index: \<open>deferred\<close>.\<close>

definition ensure_index ::
  "params \<Rightarrow> CensusTree \<Rightarrow> (database \<Rightarrow> database) \<Rightarrow> census_store \<Rightarrow> CensusTree res \<times> census_store" where
  "ensure_index P t deferred c =
     (case wrap_st ''cannot update census index: %w'' (updateCensusIndex P t 0 (ct_begin t c)) of
        (Ok _, s) \<Rightarrow> (Ok t, c\<lparr>cs_db := deferred (Tx_Commit (fst s) (snd s))\<rparr>)
      | (Fail e, s) \<Rightarrow> (Fail e, c\<lparr>cs_db := deferred (snd s)\<rparr>)
      | (Panic m, s) \<Rightarrow> (Panic m, c\<lparr>cs_db := deferred (snd s)\<rparr>))"

definition New_Census ::
  "params \<Rightarrow> census_env \<Rightarrow> WriteTx \<Rightarrow> census_type \<Rightarrow> bool \<Rightarrow> census_store \<Rightarrow> CensusTree res \<times> census_store" where
  "New_Census P E newTx ty asKeys c =
     (if ty \<noteq> Census_ARBO_BLAKE2B \<and> ty \<noteq> Census_ARBO_POSEIDON
      then (Fail (Errf ''unrecognized census type (%d)''), c)
      else let tree = (\<lambda>indexed. \<lparr>ct_newTx = newTx, ct_snapshot = None, ct_public = 0, ct_censusType = ty,
                 ct_hashFunc = True, ct_hashLen = ce_HashLen E ty, ct_indexAsKeys = indexed\<rparr>)
           in with_res (get_opt isIndexAsKeysCensus (newTx, cs_db c)) c (\<lambda>indexAsKeysBytes.
                case indexAsKeysBytes of
                  None \<Rightarrow>
                    (case set_key isIndexAsKeysCensus (if asKeys then [255] else [0]) (newTx, cs_db c) of
                       (Ok _, s) \<Rightarrow> ensure_index P (tree asKeys) (Tx_Commit (fst s)) (c\<lparr>cs_db := snd s\<rparr>)
                     | (Fail e, s) \<Rightarrow> (Fail e, c\<lparr>cs_db := Tx_Commit (fst s) (snd s)\<rparr>)
                     | (Panic m, s) \<Rightarrow> (Panic m, c\<lparr>cs_db := Tx_Commit (fst s) (snd s)\<rparr>))
                | Some b \<Rightarrow>
                    if asKeys \<and> b = [0]
                    then (Fail (Errf ''census tree was not created with indexAsKeys option enabled''), c)
                    else ensure_index P (tree (b = [255])) (\<lambda>d. d) c))"

section \<open>Adding keys\<close>

text \<open>Arbo's \<^verbatim>\<open>Add\<close>: with Poseidon, the values must be in its field.\<close>

definition tree_add :: "params \<Rightarrow> census_type \<Rightarrow> bytes tree \<Rightarrow> bytes \<Rightarrow> bytes \<Rightarrow> bytes tree res" where
  "tree_add P ty l k v =
     (if ty = Census_ARBO_POSEIDON \<and> \<not> arbo_poseidon_ok P v
      then Fail (Errf ''inputs values not inside Finite Field'')
      else Tree_Add P nLevels l k v)"

definition CensusTree_Add ::
  "params \<Rightarrow> bytes \<Rightarrow> bytes option \<Rightarrow> CensusTree \<Rightarrow> census_store \<Rightarrow> unit res \<times> census_store" where
  "CensusTree_Add P key val t c =
     (case and_then (updateCensusIndex P t 1 (ct_begin t c)) (\<lambda>index s.
        and_then
          (if ct_indexAsKeys t
           then if val \<noteq> None
             then (Fail (Errf ''index as keys is enabled for this census tree, values are not allowed''), s)
             else with_res (wrap ''cannot add (%x) to census: %w''
                    (tree_add P (ct_censusType t) (ct_leaves t c) (PutUint64LE index) key)) s (\<lambda>l.
                  and_then (indexKey key (PutUint64LE index) s) (\<lambda>_ s. (Ok l, s)))
           else with_res (wrap ''cannot add (%x) to census: %w''
                  (tree_add P (ct_censusType t) (ct_leaves t c) key (bz val))) s (\<lambda>l. (Ok l, s)))
          (\<lambda>l s.
            and_then (case val of
                Some w \<Rightarrow> if ct_indexAsKeys t then (Ok (), s) else updateCensusWeight P t w s
              | None \<Rightarrow> (Ok (), s)) (\<lambda>_ s. (Ok l, s)))) of
        (Ok l, s) \<Rightarrow> (Ok (), ct_commit t l s c)
      | (Fail e, s) \<Rightarrow> (Fail e, ct_discard s c)
      | (Panic m, s) \<Rightarrow> (Panic m, ct_discard s c))"

text \<open>The keys of an indexed batch get consecutive 32-bit indexes in eight bytes.\<close>

fun index_keys :: "u32 \<Rightarrow> bytes list \<Rightarrow> tx_state \<Rightarrow> bytes list res \<times> tx_state" where
  "index_keys index [] s = (Ok [], s)"
| "index_keys index (k # keys) s =
     (let indexBytes = PutUint32LE index @ [0, 0, 0, 0]
      in and_then (indexKey k indexBytes s) (\<lambda>_ s.
         and_then (index_keys (index + 1) keys s) (\<lambda>newKeys s. (Ok (indexBytes # newKeys), s))))"

text \<open>The weight of the values at some positions.\<close>

fun weight_at :: "params \<Rightarrow> bytes list \<Rightarrow> nat list \<Rightarrow> int res" where
  "weight_at P vs [] = Ok 0"
| "weight_at P vs (i # is) =
     rbind (index_at vs i) (\<lambda>v. rbind (weight_at P vs is) (\<lambda>w. Ok (int (arbo_BytesToBigInt P v) + w)))"

definition addedWeight :: "params \<Rightarrow> nat \<Rightarrow> bytes list \<Rightarrow> nat list \<Rightarrow> int res" where
  "addedWeight P n vs invalids =
     rbind (weight_at P vs [0..<n]) (\<lambda>w. rbind (weight_at P vs invalids) (\<lambda>u. Ok (w - u)))"

text \<open>The parts of \<^verbatim>\<open>AddBatch\<close> before and after Arbo's: the keys and values of an indexed census are rewritten, and
  the weight of one that is not is raised.\<close>

definition rewrite_batch ::
  "params \<Rightarrow> bytes list \<Rightarrow> bytes list option \<Rightarrow> CensusTree \<Rightarrow> census_store \<Rightarrow> (bytes list \<times> bytes list option) res \<times> tx_state" where
  "rewrite_batch P keys values t c =
     (if ct_indexAsKeys t
      then if values \<noteq> None
        then (Fail (Errf ''index as keys is enabled for this census tree, values are not allowed''), ct_begin t c)
        else with_res (GetCensusIndex P t c) (ct_begin t c) (\<lambda>index.
          and_then (index_keys index keys (ct_begin t c)) (\<lambda>newKeys s.
            (Ok (newKeys, if keys = [] then None else Some keys), s)))
      else (Ok (keys, values), ct_begin t c))"

definition weigh_batch ::
  "params \<Rightarrow> nat \<Rightarrow> bytes list option \<Rightarrow> nat list \<Rightarrow> CensusTree \<Rightarrow> tx_state \<Rightarrow> unit res \<times> tx_state" where
  "weigh_batch P n values invalids t s =
     (case values of
        Some vs \<Rightarrow>
          if ct_indexAsKeys t then (Ok (), s)
          else with_res (addedWeight P n vs invalids) s (\<lambda>w.
                 updateCensusWeight P t (CensusTree_BigIntToBytes P t w) s)
      | None \<Rightarrow> (Ok (), s))"

definition CensusTree_AddBatch ::
  "params \<Rightarrow> census_env \<Rightarrow> bytes list \<Rightarrow> bytes list option \<Rightarrow> CensusTree \<Rightarrow> census_store \<Rightarrow> nat list res \<times> census_store" where
  "CensusTree_AddBatch P E keys values t c =
     (case and_then (rewrite_batch P keys values t c) (\<lambda>(newKeys, newValues) s.
        with_res (ce_AddBatch E (ct_censusType t) (ct_leaves t c) newKeys newValues) s (\<lambda>(invalids, l).
        and_then (updateCensusIndex P t (word_of_int (int (length keys) - int (length invalids))) s) (\<lambda>_ s.
        and_then (weigh_batch P (length keys) values invalids t s) (\<lambda>_ s. (Ok (invalids, l), s))))) of
        (Ok (invalids, l), s) \<Rightarrow> (Ok invalids, ct_commit t l s c)
      | (Fail e, s) \<Rightarrow> (Fail e, ct_discard s c)
      | (Panic m, s) \<Rightarrow> (Panic m, ct_discard s c))"

section \<open>Imports and proofs\<close>

fun index_leaves :: "(bytes \<times> bytes) list \<Rightarrow> tx_state \<Rightarrow> unit res \<times> tx_state" where
  "index_leaves [] s = (Ok (), s)"
| "index_leaves ((indexLE, key) # rest) s =
     and_then (wrap_st ''error storing census key index by key: %w''
                 (indexKey key (take 8 (indexLE @ replicate 8 0)) s)) (\<lambda>_ s. index_leaves rest s)"

definition collect_leaves :: "params \<Rightarrow> bytes tree \<Rightarrow> (bytes \<times> bytes) list" where
  "collect_leaves P l = Tree_IterateLeaves P (\<lambda>a k v. (a @ [(k, v)], False)) [] l"

definition fillKeyToIndex :: "params \<Rightarrow> CensusTree \<Rightarrow> census_store \<Rightarrow> tx_state \<Rightarrow> unit res \<times> tx_state" where
  "fillKeyToIndex P t c s =
     (let indexKeys = collect_leaves P (ct_leaves t c)
      in and_then (index_leaves indexKeys s) (\<lambda>_ s.
         with_res (GetCensusIndex P t c) s (\<lambda>currentIndex.
         and_then (updateCensusIndex P t (word_of_int (int (length indexKeys) - uint currentIndex)) s)
           (\<lambda>_ s. (Ok (), s)))))"

definition leaves_weight :: "params \<Rightarrow> bytes tree \<Rightarrow> nat" where
  "leaves_weight P l = Tree_IterateLeaves P (\<lambda>a k v. (a + arbo_BytesToBigInt P v, False)) 0 l"

text \<open>The import is committed by Arbo before the rest.\<close>

definition CensusTree_ImportDump ::
  "params \<Rightarrow> census_env \<Rightarrow> bytes \<Rightarrow> CensusTree \<Rightarrow> census_store \<Rightarrow> unit res \<times> census_store" where
  "CensusTree_ImportDump P E b t c =
     with_res (wrap ''could not import dump: %w'' (ce_ImportDump E (ct_censusType t) b (ct_leaves t c))) c (\<lambda>l.
       let c = set_leaves t l c
       in case (if ct_indexAsKeys t
                then hide_st ''could not generate key to index mapping'' (fillKeyToIndex P t c (ct_begin t c))
                else wrap_st ''could not update census weight: %w''
                       (updateCensusWeight P t
                          (CensusTree_BigIntToBytes P t (int (leaves_weight P (ct_leaves t c)))) (ct_begin t c))) of
            (Ok _, s) \<Rightarrow> (Ok (), ct_commit t l s c)
          | (Fail e, s) \<Rightarrow> (Fail e, ct_discard s c)
          | (Panic m, s) \<Rightarrow> (Panic m, ct_discard s c))"

definition tree_GenProof :: "census_env \<Rightarrow> bytes \<Rightarrow> CensusTree \<Rightarrow> census_store \<Rightarrow> (bytes \<times> bytes) res" where
  "tree_GenProof E key t c =
     rbind (ce_GenProof E (ct_censusType t) (ct_leaves t c) key) (\<lambda>(leafV, siblings, existence).
       if \<not> existence then Fail (Errf ''key does not exist %s'') else Ok (leafV, siblings))"

definition CensusTree_GenProof :: "census_env \<Rightarrow> bytes \<Rightarrow> CensusTree \<Rightarrow> census_store \<Rightarrow> (bytes \<times> bytes) res" where
  "CensusTree_GenProof E key t c =
     (if ct_indexAsKeys t
      then rbind (hide ''cannot get index key'' (keyToIndex key t c)) (\<lambda>index. tree_GenProof E index t c)
      else tree_GenProof E key t c)"

definition CensusTree_VerifyProof ::
  "census_env \<Rightarrow> bytes \<Rightarrow> bytes \<Rightarrow> bytes \<Rightarrow> bytes option \<Rightarrow> CensusTree \<Rightarrow> census_store \<Rightarrow> bool res" where
  "CensusTree_VerifyProof E key val prf root t c =
     rbind (case root of None \<Rightarrow> wrap ''cannot get tree root: %w'' (CensusTree_Root E t c) | Some r \<Rightarrow> Ok r) (\<lambda>root.
     rbind (if ct_indexAsKeys t then hide ''cannot get index key'' (keyToIndex val t c) else Ok key) (\<lambda>indexedKey.
       ce_CheckProof E (ct_censusType t) indexedKey val root prf))"

section \<open>Removal\<close>

text \<open>Every key of the iteration is deleted in one transaction; \<open>iter\<close> is the iteration of the store. The
  nodes of the tree are among the entries removed.\<close>

fun delete_keys :: "bytes list \<Rightarrow> nat \<Rightarrow> tx_state \<Rightarrow> nat \<times> tx_state" where
  "delete_keys [] n s = (n, s)"
| "delete_keys (k # ks) n s =
     (let (e, s') = write_tx_key (\<lambda>w. False) k None s
      in delete_keys ks (if is_ok e then Suc n else n) s')"

definition DeleteCensusTreeFromDatabase ::
  "(bytes \<Rightarrow> (bytes list \<Rightarrow> bytes \<Rightarrow> bytes \<Rightarrow> bytes list \<times> bool) \<Rightarrow> bytes list \<Rightarrow> database \<Rightarrow> bytes list) \<Rightarrow>
     bytes \<Rightarrow> database \<Rightarrow> nat \<times> database" where
  "DeleteCensusTreeFromDatabase iter name d =
     (let keys = Prefixed_Iterate iter name [] (\<lambda>a k v. (a @ [k], True)) [] d;
          (i, s) = delete_keys keys 0 (Database_WriteTx (NewPrefixedDatabase RawDB name), d)
      in (i, Tx_Commit (fst s) (snd s)))"

section \<open>Transactions that grow as needed\<close>

text \<open>A transaction with room for \<open>n\<close> more writes before a batch behind it commits.\<close>

fun room :: "nat \<Rightarrow> WriteTx \<Rightarrow> bool" where
  "room n (RawTx w) = True"
| "room n (PrefixedWriteTx p tx) = room n tx"
| "room n (Batch tx db maxSize m) = (flat_tx tx \<and> unat m + n < unat maxSize)"

lemma flat_room: "flat_tx tx \<Longrightarrow> room n tx"
  by (induction tx) auto

lemma room_mono: "room n tx \<Longrightarrow> m \<le> n \<Longrightarrow> room m tx"
  by (induction tx) auto

lemma room_NewPrefixed [simp]: "room n (NewPrefixedWriteTx tx p) = room n tx"
  by (cases tx) auto

lemma Tx_Write_fits: "fst (Tx_Write (\<lambda>w. False) k v tx d) = Ok ()"
proof (induction "\<lambda>w :: write_log. False" k v tx d rule: Tx_Write.induct)
  case (1 k v w d)
  then show ?case by simp
next
  case (2 k v p tx d)
  then show ?case by (auto split: prod.split)
next
  case (3 k v tx db maxSize n d)
  obtain e t d' where w: "Tx_Write (\<lambda>w. False) k v tx d = (e, t, d')" by (metis prod_cases3)
  have e: "e = Ok ()" using 3(1) w by simp
  show ?case
  proof (cases "n + 1 = maxSize")
    case True
    have "fst (Tx_Write (\<lambda>w. False) k v (Database_WriteTx db) (Tx_Commit t d')) = Ok ()"
      using 3(2) [OF w [symmetric] refl refl] True by simp
    then show ?thesis using True w e by (auto split: prod.split)
  next
    case False
    then show ?thesis using w e by (auto split: prod.split)
  qed
qed

lemma Tx_Write_room:
  "room (Suc n) tx \<Longrightarrow> \<exists>tx'. Tx_Write (\<lambda>w. False) k v tx d = (Ok (), tx', d) \<and> room n tx'"
proof (induction tx arbitrary: k)
  case (PrefixedWriteTx p tx)
  from PrefixedWriteTx.IH [of "prefixSlice p k"] PrefixedWriteTx.prems show ?case by auto
next
  case (Batch tx db maxSize m)
  then have m: "unat m + 1 < unat maxSize" and f: "flat_tx tx" by auto
  then have "m < maxSize" by (simp add: word_less_nat_alt)
  then have s: "unat (m + 1) = Suc (unat m)" by (rule word_count_Suc)
  then have "m + 1 \<noteq> maxSize" using m by auto
  then show ?case using Batch.prems s by (simp add: Tx_Write_flat f)
qed simp

text \<open>From one state of a transaction to a later one, with \<open>n\<close> writes under its prefix in between.\<close>

definition evolve :: "nat \<Rightarrow> tx_state \<Rightarrow> tx_state \<Rightarrow> bool" where
  "evolve n s s' =
     (tx_ok (fst s') \<and> tx_path (fst s') = tx_path (fst s) \<and>
      (\<forall>q. \<not> prefix (tx_path (fst s)) q \<longrightarrow> tx_view (fst s') (snd s') q = tx_view (fst s) (snd s) q) \<and>
      (\<forall>i. room (n + i) (fst s) \<longrightarrow> room i (fst s') \<and> snd s' = snd s))"

lemma evolve_refl: "tx_ok (fst s) \<Longrightarrow> evolve 0 s s"
  by (simp add: evolve_def)

lemma evolve_trans: "evolve n s s' \<Longrightarrow> evolve m s' s'' \<Longrightarrow> evolve (n + m) s s''"
  by (simp add: evolve_def add.assoc) metis

lemma evolve_ok: "evolve n s s' \<Longrightarrow> tx_ok (fst s')"
  by (simp add: evolve_def)

lemma write_key_evolve:
  assumes "tx_ok (fst s)"
  obtains s' where "write_tx_key (\<lambda>w. False) k v s = (Ok (), s')" "evolve 1 s s'" "look_tx s' = (look_tx s)(k := v)"
proof -
  obtain tx' d' where w: "Tx_Write (\<lambda>w. False) k v (fst s) (snd s) = (Ok (), tx', d')"
    using Tx_Write_fits [of k v "fst s" "snd s"] by (metis fst_conv prod_cases3)
  have r: "room i tx' \<and> d' = snd s" if "room (Suc i) (fst s)" for i
    using Tx_Write_room [OF that, of k v "snd s"] w by auto
  have "evolve 1 s (tx', d')"
    using Tx_Write_keeps [OF w assms] Tx_Write_view [OF w assms] r by (auto simp: evolve_def)
  moreover have e: "write_tx_key (\<lambda>w. False) k v s = (Ok (), (tx', d'))" by (simp add: write_tx_key_def w)
  ultimately show thesis using that tx.write_look [OF assms e] by blast
qed

lemma get_opt_look: "get_opt k s = Ok (look_tx s k)"
  by (simp add: get_opt_def tx.get_look of_option_def split: option.split)

section \<open>What the operations write\<close>

text \<open>Arbo's encoding of numbers: little endian, in a given number of bytes.\<close>

definition codec :: "params \<Rightarrow> nat \<Rightarrow> bool" where
  "codec P n = (arbo_BytesToBigInt P [] = 0 \<and>
     (\<forall>x < 256 ^ n. arbo_BytesToBigInt P (arbo_BigIntToBytes P n x) = x))"

abbreviation index_of :: "params \<Rightarrow> (bytes \<rightharpoonup> bytes) \<Rightarrow> nat" where
  "index_of P m \<equiv> arbo_BytesToBigInt P (bz (m censusIndexKey))"

abbreviation weight_of :: "params \<Rightarrow> (bytes \<rightharpoonup> bytes) \<Rightarrow> nat" where
  "weight_of P m \<equiv> arbo_BytesToBigInt P (bz (m censusWeightKey))"

lemma updateCensusIndex_does:
  assumes "tx_ok (fst s)" "arbo_BytesToBigInt P [] = 0"
  obtains s' where "updateCensusIndex P t delta s = (Ok (of_nat (index_of P (look_tx s))), s')" "evolve 1 s s'"
    "look_tx s' = (look_tx s)(censusIndexKey \<mapsto>
       arbo_BigIntToBytes P (ct_hashLen t) (index_of P (look_tx s) + unat delta))"
proof -
  let ?i = "index_of P (look_tx s)"
  have i: "(case look_tx s censusIndexKey of None \<Rightarrow> 0 | Some b \<Rightarrow> arbo_BytesToBigInt P b) = ?i"
    using assms(2) by (simp split: option.split)
  obtain s' where w: "set_key censusIndexKey (arbo_BigIntToBytes P (ct_hashLen t) (?i + unat delta)) s = (Ok (), s')"
    and "evolve 1 s s'"
    and "look_tx s' = (look_tx s)(censusIndexKey \<mapsto> arbo_BigIntToBytes P (ct_hashLen t) (?i + unat delta))"
    using write_key_evolve [OF assms(1)] by metis
  moreover have "updateCensusIndex P t delta s = (Ok (of_nat ?i), s')"
    by (simp add: updateCensusIndex_def get_opt_look Let_def i CensusTree_BigIntToBytes_def nat_int_add w wrap_st_def)
  ultimately show thesis using that by blast
qed

lemma updateCensusWeight_does:
  assumes "tx_ok (fst s)"
  obtains s' where "updateCensusWeight P t w s = (Ok (), s')" "evolve 1 s s'"
    "look_tx s' = (look_tx s)(censusWeightKey \<mapsto>
       arbo_BigIntToBytes P (ct_hashLen t) (weight_of P (look_tx s) + arbo_BytesToBigInt P w))"
proof -
  let ?w = "weight_of P (look_tx s) + arbo_BytesToBigInt P w"
  obtain s' where w: "set_key censusWeightKey (arbo_BigIntToBytes P (ct_hashLen t) ?w) s = (Ok (), s')"
    and "evolve 1 s s'" and "look_tx s' = (look_tx s)(censusWeightKey \<mapsto> arbo_BigIntToBytes P (ct_hashLen t) ?w)"
    using write_key_evolve [OF assms(1)] by metis
  moreover have "updateCensusWeight P t w s = (Ok (), s')"
    by (simp add: updateCensusWeight_def get_opt_look Let_def CensusTree_BigIntToBytes_def nat_int_add w wrap_st_def)
  ultimately show thesis using that by blast
qed

lemma evolve_le:
  assumes "evolve n s s'" "n \<le> m"
  shows "evolve m s s'"
proof -
  have "room (n + i) (fst s)" if "room (m + i) (fst s)" for i
    using room_mono [OF that, of "n + i"] assms(2) by simp
  then show ?thesis using assms(1) by (auto simp: evolve_def)
qed

lemma indexKey_does:
  assumes "tx_ok (fst s)"
  obtains s' where "indexKey key index s = (Ok (), s')" "evolve 1 s s'"
    "look_tx s' = (look_tx s)(censusKeysToIndexPrefix @ key \<mapsto> index)"
  using write_key_evolve [OF assms] unfolding indexKey_def by metis

text \<open>The leaf that \<^verbatim>\<open>Add\<close> adds, and what it leaves beside the tree.\<close>

definition add_leaf :: "params \<Rightarrow> CensusTree \<Rightarrow> bytes \<Rightarrow> bytes option \<Rightarrow> (bytes \<rightharpoonup> bytes) \<Rightarrow> bytes \<times> bytes" where
  "add_leaf P t key val m =
     (if ct_indexAsKeys t then (PutUint64LE (of_nat (index_of P m)), key) else (key, bz val))"

definition add_aux :: "params \<Rightarrow> CensusTree \<Rightarrow> bytes \<Rightarrow> bytes option \<Rightarrow> (bytes \<rightharpoonup> bytes) \<Rightarrow> (bytes \<rightharpoonup> bytes)" where
  "add_aux P t key val m =
     (let m' = m(censusIndexKey \<mapsto> arbo_BigIntToBytes P (ct_hashLen t) (index_of P m + 1))
      in if ct_indexAsKeys t
         then m'(censusKeysToIndexPrefix @ key \<mapsto> PutUint64LE (of_nat (index_of P m)))
         else case val of
                None \<Rightarrow> m'
              | Some w \<Rightarrow> m'(censusWeightKey \<mapsto>
                           arbo_BigIntToBytes P (ct_hashLen t) (weight_of P m + arbo_BytesToBigInt P w)))"

lemma key_differs [simp]:
  "censusWeightKey \<noteq> censusIndexKey" "censusIndexKey \<noteq> censusWeightKey"
  "censusKeysToIndexPrefix @ k \<noteq> censusIndexKey" "censusIndexKey \<noteq> censusKeysToIndexPrefix @ k"
  "censusKeysToIndexPrefix @ k \<noteq> censusWeightKey" "censusWeightKey \<noteq> censusKeysToIndexPrefix @ k"
  by (simp_all add: censusWeightKey_def censusIndexKey_def censusKeysToIndexPrefix_def str_def)

lemma weigh_add:
  assumes "tx_ok (fst s)" "\<not> ct_indexAsKeys t"
    and "look_tx s = m(censusIndexKey \<mapsto> arbo_BigIntToBytes P (ct_hashLen t) (index_of P m + 1))"
  obtains s' where "(case val of None \<Rightarrow> (Ok (), s) | Some w \<Rightarrow> updateCensusWeight P t w s) = (Ok (), s')"
    "evolve 1 s s'" "look_tx s' = add_aux P t key val m"
proof (cases val)
  case None
  then show thesis using that [of s] assms evolve_le [OF evolve_refl [OF assms(1)], of 1] by (simp add: add_aux_def)
next
  case (Some w)
  obtain s' where "updateCensusWeight P t w s = (Ok (), s')" "evolve 1 s s'"
    "look_tx s' = (look_tx s)(censusWeightKey \<mapsto>
       arbo_BigIntToBytes P (ct_hashLen t) (weight_of P (look_tx s) + arbo_BytesToBigInt P w))"
    by (rule updateCensusWeight_does [OF assms(1)])
  then show thesis using that [of s'] Some assms by (simp add: add_aux_def)
qed

abbreviation add_tree :: "params \<Rightarrow> CensusTree \<Rightarrow> bytes \<Rightarrow> bytes option \<Rightarrow> census_store \<Rightarrow> bytes tree res" where
  "add_tree P t key val c \<equiv>
     (case add_leaf P t key val (look_tx (ct_begin t c)) of (k, v) \<Rightarrow> tree_add P (ct_censusType t) (ct_leaves t c) k v)"

lemma Add_outcome:
  assumes ok: "tx_ok (ct_newTx t)" and z: "arbo_BytesToBigInt P [] = 0"
    and a: "CensusTree_Add P key val t c = (e, c')"
  obtains
    (fails) x s where "e = Fail x" "evolve 3 (ct_begin t c) s" "c' = ct_discard s c"
      "ct_indexAsKeys t \<and> val \<noteq> None \<or> \<not> is_ok (add_tree P t key val c)"
  | (adds) l s where "e = Ok ()" "evolve 3 (ct_begin t c) s" "c' = ct_commit t l s c"
      "ct_indexAsKeys t \<Longrightarrow> val = None" "add_tree P t key val c = Ok l"
      "look_tx s = add_aux P t key val (look_tx (ct_begin t c))"
proof -
  let ?m = "look_tx (ct_begin t c)"
  have o0: "tx_ok (fst (ct_begin t c))" by (simp add: ok ct_begin_def)
  obtain s1 where u: "updateCensusIndex P t 1 (ct_begin t c) = (Ok (of_nat (index_of P ?m)), s1)"
    and e1: "evolve 1 (ct_begin t c) s1"
    and l1: "look_tx s1 = ?m(censusIndexKey \<mapsto> arbo_BigIntToBytes P (ct_hashLen t) (index_of P ?m + unat (1 :: u32)))"
    by (rule updateCensusIndex_does [OF o0 z])
  have np: "tree_add P ty l k v \<noteq> Panic m" for ty l k v m by (simp add: tree_add_def Tree_Add_def)
  note e3 = evolve_le [OF e1, of 3, simplified]
  show thesis
  proof (cases "add_tree P t key val c")
    case (Ok l)
    consider "ct_indexAsKeys t" "val \<noteq> None" | (ix) "ct_indexAsKeys t" "val = None" | (wt) "\<not> ct_indexAsKeys t" by blast
    then show thesis
    proof cases
      case 1
      then show thesis using fails [OF _ e3] a u by (auto simp: CensusTree_Add_def)
    next
      case ix
      let ?i = "PutUint64LE (of_nat (index_of P ?m))"
      obtain s2 where k: "indexKey key ?i s1 = (Ok (), s2)" and e2: "evolve 1 s1 s2"
        and l2: "look_tx s2 = (look_tx s1)(censusKeysToIndexPrefix @ key \<mapsto> ?i)"
        by (rule indexKey_does [OF evolve_ok [OF e1]])
      have "evolve 3 (ct_begin t c) s2" using evolve_le [OF evolve_trans [OF e1 e2], of 3] by simp
      then show thesis using adds [of s2 l] ix Ok k u a l1 l2
        by (auto simp: CensusTree_Add_def add_leaf_def add_aux_def)
    next
      case wt
      obtain s2 where w: "(case val of None \<Rightarrow> (Ok (), s1) | Some w \<Rightarrow> updateCensusWeight P t w s1) = (Ok (), s2)"
        and e2: "evolve 1 s1 s2" and l2: "look_tx s2 = add_aux P t key val ?m"
        by (rule weigh_add [OF evolve_ok [OF e1] wt l1 [unfolded unsigned_1]])
      have "evolve 3 (ct_begin t c) s2" using evolve_le [OF evolve_trans [OF e1 e2], of 3] by simp
      moreover have "CensusTree_Add P key val t c = (Ok (), ct_commit t l s2 c)"
        using wt Ok u w by (simp add: CensusTree_Add_def add_leaf_def cong: option.case_cong)
      ultimately show thesis using adds [of s2 l] wt Ok a l2 by simp
    qed
  next
    case (Fail x)
    then have "\<exists>x. e = Fail x \<and> c' = ct_discard s1 c"
      using a u by (cases "ct_indexAsKeys t") (auto simp: CensusTree_Add_def add_leaf_def split: if_splits)
    then show thesis using fails [OF _ e3] Fail by auto
  qed (simp add: np split: prod.splits)
qed

lemma Add_ok:
  assumes "tx_ok (ct_newTx t)" "arbo_BytesToBigInt P [] = 0" "ct_indexAsKeys t \<Longrightarrow> val = None"
    and "add_tree P t key val c = Ok l" "ct_snapshot t = None"
  shows "\<exists>c'. CensusTree_Add P key val t c = (Ok (), c') \<and> ct_leaves t c' = l"
proof -
  obtain e c' where a: "CensusTree_Add P key val t c = (e, c')" by force
  from assms(1,2) a show ?thesis
  proof (cases rule: Add_outcome)
    case (adds l' s)
    then show ?thesis using a assms(4,5) by (simp add: ct_leaves_def ct_commit_def set_leaves_def)
  qed (use assms in auto)
qed

fun index_map :: "u32 \<Rightarrow> bytes list \<Rightarrow> (bytes \<rightharpoonup> bytes) \<Rightarrow> (bytes \<rightharpoonup> bytes)" where
  "index_map i [] m = m"
| "index_map i (k # ks) m =
     index_map (i + 1) ks (m(censusKeysToIndexPrefix @ k \<mapsto> PutUint32LE i @ [0, 0, 0, 0]))"

fun batch_keys :: "u32 \<Rightarrow> bytes list \<Rightarrow> bytes list" where
  "batch_keys i [] = []"
| "batch_keys i (k # ks) = (PutUint32LE i @ [0, 0, 0, 0]) # batch_keys (i + 1) ks"

lemma length_batch_keys [simp]: "length (batch_keys i ks) = length ks"
  by (induction i ks rule: batch_keys.induct) auto

lemma index_map_other [simp]:
  "index_map i ks m censusIndexKey = m censusIndexKey" "index_map i ks m censusWeightKey = m censusWeightKey"
  by (induction i ks m rule: index_map.induct) auto

lemma index_keys_does:
  assumes "tx_ok (fst s)"
  shows "\<exists>s'. index_keys i ks s = (Ok (batch_keys i ks), s') \<and> evolve (length ks) s s' \<and>
           look_tx s' = index_map i ks (look_tx s)"
  using assms
proof (induction ks arbitrary: i s)
  case Nil
  then show ?case by (simp add: evolve_refl)
next
  case (Cons k ks)
  obtain s1 where k: "indexKey k (PutUint32LE i @ [0, 0, 0, 0]) s = (Ok (), s1)" and e: "evolve 1 s s1"
    and l: "look_tx s1 = (look_tx s)(censusKeysToIndexPrefix @ k \<mapsto> PutUint32LE i @ [0, 0, 0, 0])"
    using indexKey_does [OF Cons.prems] by metis
  from Cons.IH [OF evolve_ok [OF e], of "i + 1"] obtain s2 where
    "index_keys (i + 1) ks s1 = (Ok (batch_keys (i + 1) ks), s2)" "evolve (length ks) s1 s2"
    "look_tx s2 = index_map (i + 1) ks (look_tx s1)" by blast
  then show ?case using k l evolve_trans [OF e, of "length ks" s2] by (simp add: Let_def)
qed

lemma weight_at_sum:
  "(\<forall>i \<in> set is. i < length vs) \<Longrightarrow> weight_at P vs is = Ok (\<Sum>i\<leftarrow>is. int (arbo_BytesToBigInt P (vs ! i)))"
  by (induction "is") (auto simp: index_at_def)

lemma weight_at_short: "\<exists>i \<in> set is. length vs \<le> i \<Longrightarrow> \<exists>m. weight_at P vs is = Panic m"
proof (induction "is")
  case (Cons i "is")
  then show ?case by (cases "i < length vs") (force simp: index_at_def)+
qed simp

text \<open>Arbo's \<^verbatim>\<open>AddBatch\<close> as documented: every position of the batch is added or among the invalid ones, and a
  missing value stands for the empty one.\<close>

definition batch_value :: "bytes list option \<Rightarrow> nat \<Rightarrow> bytes" where
  "batch_value vs i = (case vs of None \<Rightarrow> [] | Some v \<Rightarrow> if i < length v then v ! i else [])"

definition batch_law :: "census_env \<Rightarrow> bool" where
  "batch_law E = (\<forall>ty l ks vs bad l'. ce_AddBatch E ty l ks vs = Ok (bad, l') \<longrightarrow>
     distinct bad \<and> set bad \<subseteq> {..<length ks} \<and>
     (\<exists>new. mset l' = mset l + mset new \<and>
        map snd new = map (batch_value vs) (filter (\<lambda>i. i \<notin> set bad) [0..<length ks]) \<and>
        map fst new = map ((!) ks) (filter (\<lambda>i. i \<notin> set bad) [0..<length ks])))"

lemma sum_valid:
  assumes "distinct bad" "set bad \<subseteq> {..<n}"
  shows "(\<Sum>i\<leftarrow>[0..<n]. f i) - (\<Sum>i\<leftarrow>bad. f i) = (\<Sum>i\<leftarrow>filter (\<lambda>i. i \<notin> set bad) [0..<n]. f i :: int)"
proof -
  have "(\<Sum>i\<leftarrow>[0..<n]. f i) = sum f {..<n}" by (simp add: interv_sum_list_conv_sum_set_nat atLeast0LessThan)
  moreover have "(\<Sum>i\<leftarrow>bad. f i) = sum f (set bad)" by (simp add: assms(1) sum_list_distinct_conv_sum_set)
  moreover have "(\<Sum>i\<leftarrow>filter (\<lambda>i. i \<notin> set bad) [0..<n]. f i) = sum f ({..<n} - set bad)"
    by (subst sum_list_distinct_conv_sum_set) (auto intro!: sum.cong)
  ultimately show ?thesis using assms(2) by (simp add: sum_diff)
qed

lemma length_valid:
  assumes "distinct bad" "set bad \<subseteq> {..<n}"
  shows "length (filter (\<lambda>i. i \<notin> set bad) [0..<n]) + length bad = n"
  using sum_valid [OF assms, of "\<lambda>_. 1"] by (simp add: sum_list_triv)

lemma int_sum_list: "int (\<Sum>i\<leftarrow>xs. f i) = (\<Sum>i\<leftarrow>xs. int (f i))"
  by (induction xs) auto

lemma addedWeight_valid:
  assumes "distinct bad" "set bad \<subseteq> {..<n}" "addedWeight P n vs bad = Ok w"
  shows "w = int (\<Sum>i\<leftarrow>filter (\<lambda>i. i \<notin> set bad) [0..<n]. arbo_BytesToBigInt P (batch_value (Some vs) i)) \<and> n \<le> length vs"
proof -
  have n: "n \<le> length vs"
  proof (rule ccontr)
    assume "\<not> n \<le> length vs"
    then have "length vs \<in> set [0..<n]" by simp
    then obtain m where "weight_at P vs [0..<n] = Panic m" using weight_at_short [of "[0..<n]" vs P] by blast
    with assms(3) show False by (simp add: addedWeight_def)
  qed
  have 1: "weight_at P vs [0..<n] = Ok (\<Sum>i\<leftarrow>[0..<n]. int (arbo_BytesToBigInt P (vs ! i)))"
    by (rule weight_at_sum) (use n in auto)
  have 2: "weight_at P vs bad = Ok (\<Sum>i\<leftarrow>bad. int (arbo_BytesToBigInt P (vs ! i)))"
    by (rule weight_at_sum) (use n assms(2) in auto)
  have "w = (\<Sum>i\<leftarrow>filter (\<lambda>i. i \<notin> set bad) [0..<n]. int (arbo_BytesToBigInt P (vs ! i)))"
    using assms(3) sum_valid [OF assms(1,2), of "\<lambda>i. int (arbo_BytesToBigInt P (vs ! i))"]
    by (simp only: addedWeight_def 1 2 rbind.simps res.inject)
  also have "\<dots> = (\<Sum>i\<leftarrow>filter (\<lambda>i. i \<notin> set bad) [0..<n]. int (arbo_BytesToBigInt P (batch_value (Some vs) i)))"
    by (rule arg_cong [of _ _ sum_list], rule map_cong) (use n in \<open>auto simp: batch_value_def\<close>)
  finally show ?thesis using n by (simp add: int_sum_list)
qed

text \<open>The rewriting of the keys and values of an indexed batch, and what the batch leaves beside the tree.\<close>

definition batch_aux ::
  "params \<Rightarrow> CensusTree \<Rightarrow> bytes list \<Rightarrow> bytes list option \<Rightarrow> nat list \<Rightarrow> (bytes \<rightharpoonup> bytes) \<Rightarrow> (bytes \<rightharpoonup> bytes)" where
  "batch_aux P t keys vals bad m =
     (let m1 = (if ct_indexAsKeys t then index_map (of_nat (index_of P m)) keys m else m);
          m2 = m1(censusIndexKey \<mapsto> arbo_BigIntToBytes P (ct_hashLen t)
                   (index_of P m + unat (word_of_int (int (length keys) - int (length bad)) :: u32)))
      in case vals of
           None \<Rightarrow> m2
         | Some vs \<Rightarrow>
             m2(censusWeightKey \<mapsto> arbo_BigIntToBytes P (ct_hashLen t)
                  (weight_of P m + arbo_BytesToBigInt P (arbo_BigIntToBytes P (ct_hashLen t)
                     (\<Sum>i\<leftarrow>filter (\<lambda>i. i \<notin> set bad) [0..<length keys]. arbo_BytesToBigInt P (batch_value vals i))))))"

definition batch_leaves :: "params \<Rightarrow> CensusTree \<Rightarrow> bytes list \<Rightarrow> bytes list option \<Rightarrow> (bytes \<rightharpoonup> bytes) \<Rightarrow> bytes list \<times> bytes list option" where
  "batch_leaves P t keys vals m =
     (if ct_indexAsKeys t
      then (batch_keys (of_nat (index_of P m)) keys, if keys = [] then None else Some keys)
      else (keys, vals))"

lemma GetCensusIndex_look:
  "arbo_BytesToBigInt P [] = 0 \<Longrightarrow> GetCensusIndex P t c = Ok (of_nat (index_of P (look_tx (ct_begin t c))))"
  by (auto simp: GetCensusIndex_def get_opt_look split: option.split)

lemma GetCensusWeight_look:
  "arbo_BytesToBigInt P [] = 0 \<Longrightarrow> GetCensusWeight P t c = Ok (weight_of P (look_tx (ct_begin t c)))"
  by (auto simp: GetCensusWeight_def get_opt_look split: option.split)

lemma rewrite_outcome:
  fixes P t c keys vals
  defines "m \<equiv> look_tx (ct_begin t c)"
  assumes ok: "tx_ok (ct_newTx t)" and z: "arbo_BytesToBigInt P [] = 0" and v: "ct_indexAsKeys t \<Longrightarrow> vals = None"
  shows "\<exists>s. rewrite_batch P keys vals t c = (Ok (batch_leaves P t keys vals m), s) \<and>
      evolve (length keys) (ct_begin t c) s \<and>
      look_tx s = (if ct_indexAsKeys t then index_map (of_nat (index_of P m)) keys m else m)"
proof (cases "ct_indexAsKeys t")
  case True
  have "tx_ok (fst (ct_begin t c))" by (simp add: ok ct_begin_def)
  from index_keys_does [OF this, of "of_nat (index_of P m)" keys] True v
  show ?thesis by (auto simp: GetCensusIndex_look [OF z] rewrite_batch_def batch_leaves_def m_def)
next
  case False
  moreover have "tx_ok (fst (ct_begin t c))" by (simp add: ok ct_begin_def)
  ultimately show ?thesis using evolve_le [OF evolve_refl] by (simp add: rewrite_batch_def batch_leaves_def m_def)
qed

lemma weigh_outcome:
  assumes ok: "tx_ok (fst s)" and b: "distinct bad" "set bad \<subseteq> {..<n}" and v: "ct_indexAsKeys t \<Longrightarrow> vals = None"
    and r: "weigh_batch P n vals bad t s = (e, s')"
  obtains (fails) "\<not> is_ok e" "s' = s"
  | (weighs) "e = Ok ()" "evolve 1 s s'"
      "look_tx s' = (case vals of None \<Rightarrow> look_tx s
         | Some vs \<Rightarrow> (look_tx s)(censusWeightKey \<mapsto> arbo_BigIntToBytes P (ct_hashLen t)
             (weight_of P (look_tx s) + arbo_BytesToBigInt P (arbo_BigIntToBytes P (ct_hashLen t)
                (\<Sum>i\<leftarrow>filter (\<lambda>i. i \<notin> set bad) [0..<n]. arbo_BytesToBigInt P (batch_value vals i))))))"
proof (cases vals)
  case None
  then show thesis using r weighs evolve_le [OF evolve_refl [OF ok], of 1] by (simp add: weigh_batch_def)
next
  case (Some vs)
  then have i: "\<not> ct_indexAsKeys t" using v by auto
  show thesis
  proof (cases "addedWeight P n vs bad")
    case (Ok w)
    note w = addedWeight_valid [OF b Ok]
    obtain s2 where "updateCensusWeight P t (CensusTree_BigIntToBytes P t w) s = (Ok (), s2)" "evolve 1 s s2"
      "look_tx s2 = (look_tx s)(censusWeightKey \<mapsto> arbo_BigIntToBytes P (ct_hashLen t)
         (weight_of P (look_tx s) + arbo_BytesToBigInt P (CensusTree_BigIntToBytes P t w)))"
      by (rule updateCensusWeight_does [OF ok])
    then show thesis using r weighs Some i Ok w by (simp add: weigh_batch_def CensusTree_BigIntToBytes_def)
  qed (use r fails Some i in \<open>auto simp: weigh_batch_def\<close>)
qed

lemma AddBatch_outcome:
  fixes P t c keys vals
  defines "m \<equiv> look_tx (ct_begin t c)"
  assumes ok: "tx_ok (ct_newTx t)" and z: "arbo_BytesToBigInt P [] = 0" and law: "batch_law E"
    and a: "CensusTree_AddBatch P E keys vals t c = (e, c')"
  obtains
    (fails) s where "\<not> is_ok e" "evolve (length keys + 2) (ct_begin t c) s" "c' = ct_discard s c"
  | (adds) bad l s where "e = Ok bad" "evolve (length keys + 2) (ct_begin t c) s" "c' = ct_commit t l s c"
      "ct_indexAsKeys t \<Longrightarrow> vals = None"
      "(case batch_leaves P t keys vals m of (ks, vs) \<Rightarrow> ce_AddBatch E (ct_censusType t) (ct_leaves t c) ks vs) = Ok (bad, l)"
      "look_tx s = batch_aux P t keys vals bad m"
proof (cases "ct_indexAsKeys t \<longrightarrow> vals = None")
  case v: True
  obtain s1 where r: "rewrite_batch P keys vals t c = (Ok (batch_leaves P t keys vals m), s1)"
    and e1: "evolve (length keys) (ct_begin t c) s1"
    and l1: "look_tx s1 = (if ct_indexAsKeys t then index_map (of_nat (index_of P m)) keys m else m)"
    using rewrite_outcome [where P = P and t = t and c = c and keys = keys and vals = vals, OF ok z] v unfolding m_def by blast
  obtain ks vs where kv: "batch_leaves P t keys vals m = (ks, vs)" by force
  have len: "length ks = length keys" using kv by (auto simp: batch_leaves_def split: if_splits)
  show thesis
  proof (cases "ce_AddBatch E (ct_censusType t) (ct_leaves t c) ks vs")
    case (Ok x)
    obtain bad l where x: "x = (bad, l)" by force
    have b: "distinct bad" "set bad \<subseteq> {..<length keys}"
      using law Ok x len unfolding batch_law_def by metis+
    obtain s2 where u: "updateCensusIndex P t (word_of_int (int (length keys) - int (length bad))) s1 =
          (Ok (of_nat (index_of P (look_tx s1))), s2)"
      and e2: "evolve 1 s1 s2"
      and l2: "look_tx s2 = (look_tx s1)(censusIndexKey \<mapsto> arbo_BigIntToBytes P (ct_hashLen t)
         (index_of P (look_tx s1) + unat (word_of_int (int (length keys) - int (length bad)) :: u32)))"
      by (rule updateCensusIndex_does [OF evolve_ok [OF e1] z])
    obtain f s3 where w: "weigh_batch P (length keys) vals bad t s2 = (f, s3)" by (cases "weigh_batch P (length keys) vals bad t s2")
    have e12: "evolve (length keys + 1) (ct_begin t c) s2" by (rule evolve_trans [OF e1 e2])
    have vi: "ct_indexAsKeys t \<Longrightarrow> vals = None" using v by blast
    show thesis
    proof (rule weigh_outcome [OF evolve_ok [OF e2] b vi w], assumption)
      assume fails: "\<not> is_ok f" "s3 = s2"
      then have "\<not> is_ok e \<and> c' = ct_discard s2 c" using a r kv Ok x u w
        by (cases f) (auto simp: CensusTree_AddBatch_def)
      then show thesis using that(1) evolve_le [OF e12, of "length keys + 2"] by simp
    next
      assume weighs: "f = Ok ()" "evolve 1 s2 s3" "look_tx s3 = (case vals of None \<Rightarrow> look_tx s2
         | Some vs \<Rightarrow> (look_tx s2)(censusWeightKey \<mapsto> arbo_BigIntToBytes P (ct_hashLen t)
             (weight_of P (look_tx s2) + arbo_BytesToBigInt P (arbo_BigIntToBytes P (ct_hashLen t)
                (\<Sum>i\<leftarrow>filter (\<lambda>i. i \<notin> set bad) [0..<length keys]. arbo_BytesToBigInt P (batch_value vals i))))))"
      have "evolve (length keys + 2) (ct_begin t c) s3" using evolve_trans [OF e12 weighs(2)] by simp
      moreover have "e = Ok bad \<and> c' = ct_commit t l s3 c" using a r kv Ok x u w weighs(1)
        by (simp add: CensusTree_AddBatch_def)
      moreover have "look_tx s3 = batch_aux P t keys vals bad m"
        using weighs(3) l1 l2 by (cases "ct_indexAsKeys t") (auto simp: batch_aux_def Let_def split: option.split)
      ultimately show thesis using that(2) vi kv Ok x by simp
    qed
  next
    case (Fail x)
    then show thesis using that(1) [of s1] evolve_le [OF e1, of "length keys + 2"] a r kv
      by (auto simp: CensusTree_AddBatch_def)
  next
    case (Panic x)
    then show thesis using that(1) [of s1] evolve_le [OF e1, of "length keys + 2"] a r kv
      by (auto simp: CensusTree_AddBatch_def)
  qed
next
  case False
  then show thesis using that(1) [of "ct_begin t c"] evolve_le [OF evolve_refl, of "ct_begin t c"] ok a
    by (auto simp: CensusTree_AddBatch_def rewrite_batch_def ct_begin_def)
qed

section \<open>What a census keeps\<close>

text \<open>A tree whose transactions start empty.\<close>

definition fresh :: "CensusTree \<Rightarrow> bool" where
  "fresh t = (tx_ok (ct_newTx t) \<and> tx_log (ct_newTx t) = [])"

lemma look_begin: "fresh t \<Longrightarrow> look_tx (ct_begin t c) k = map_of (cs_db c) (tx_path (ct_newTx t) @ k)"
  by (simp add: look_tx_def ct_begin_def tx_view_def fresh_def)

lemma census_look_commit:
  assumes "fresh t" "evolve n (ct_begin t c) s"
  shows "look_tx (ct_begin t (ct_commit t l s c)) = look_tx s"
proof
  fix k
  have "tx_path (fst s) = tx_path (ct_newTx t)" using assms(2) by (simp add: evolve_def ct_begin_def)
  then show "look_tx (ct_begin t (ct_commit t l s c)) k = look_tx s k"
    unfolding look_begin [OF assms(1)] by (simp add: ct_commit_def set_leaves_def map_of_Commit look_tx_def)
qed

lemma commit_other:
  assumes "fresh u" "fresh t" "evolve n (ct_begin t c) s" "tx_path (ct_newTx u) \<parallel> tx_path (ct_newTx t)"
  shows "look_tx (ct_begin u (ct_commit t l s c)) = look_tx (ct_begin u c) \<and>
         ct_leaves u (ct_commit t l s c) = ct_leaves u c"
proof
  have p: "\<not> prefix (tx_path (ct_newTx t)) (tx_path (ct_newTx u) @ k)" for k
    using assms(4) by (metis prefix_same_cases prefixI parallelD1 parallelD2)
  then have "tx_view (fst s) (snd s) (tx_path (ct_newTx u) @ k) = map_of (cs_db c) (tx_path (ct_newTx u) @ k)" for k
    using assms(2,3) by (simp add: evolve_def ct_begin_def fresh_def tx_view_def)
  then show "look_tx (ct_begin u (ct_commit t l s c)) = look_tx (ct_begin u c)"
    by (auto simp: look_begin [OF assms(1)] ct_commit_def set_leaves_def map_of_Commit)
  show "ct_leaves u (ct_commit t l s c) = ct_leaves u c"
    using assms(4) by (auto simp: ct_leaves_def ct_commit_def set_leaves_def split: option.split)
qed

lemma leaves_commit [simp]: "ct_snapshot t = None \<Longrightarrow> ct_leaves t (ct_commit t l s c) = l"
  by (simp add: ct_leaves_def ct_commit_def set_leaves_def)

lemma discard_same: "evolve n (ct_begin t c) s \<Longrightarrow> room n (ct_newTx t) \<Longrightarrow> ct_discard s c = c"
  by (auto simp: evolve_def ct_begin_def ct_discard_def dest: spec [of _ 0])

inductive census_run :: "params \<Rightarrow> census_env \<Rightarrow> CensusTree \<Rightarrow> census_store \<Rightarrow> census_store \<Rightarrow> bool"
  for P E t c0 where
  run_start: "census_run P E t c0 c0"
| run_Add: "census_run P E t c0 c \<Longrightarrow> CensusTree_Add P key val t c = (e, c') \<Longrightarrow> census_run P E t c0 c'"
| run_AddBatch: "census_run P E t c0 c \<Longrightarrow> length keys < 2 ^ 32 \<Longrightarrow> room (length keys + 2) (ct_newTx t) \<Longrightarrow>
    CensusTree_AddBatch P E keys vals t c = (e, c') \<Longrightarrow> census_run P E t c0 c'"

abbreviation total_weight :: "params \<Rightarrow> bytes tree \<Rightarrow> nat" where
  "total_weight P l \<equiv> sum_vals (arbo_BytesToBigInt P) l"

definition census_fits :: "params \<Rightarrow> CensusTree \<Rightarrow> bytes tree \<Rightarrow> bool" where
  "census_fits P t l = (length l < 256 ^ ct_hashLen t \<and> (ct_indexAsKeys t \<or> total_weight P l < 256 ^ ct_hashLen t))"

definition census_sums :: "params \<Rightarrow> CensusTree \<Rightarrow> bytes tree \<Rightarrow> (bytes \<rightharpoonup> bytes) \<Rightarrow> bool" where
  "census_sums P t l m =
     (index_of P m = length l \<and> weight_of P m = (if ct_indexAsKeys t then 0 else total_weight P l))"

lemma tree_add_grows:
  "tree_add P ty l k v = Ok l' \<Longrightarrow> length l' = Suc (length l) \<and> total_weight P l' = total_weight P l + arbo_BytesToBigInt P v"
  by (auto simp: tree_add_def Tree_Add_def split: if_splits)

lemma total_mset: "mset l' = mset l + mset new \<Longrightarrow> total_weight P l' = total_weight P l + total_weight P new"
  unfolding sum_vals_def by (metis mset_append mset_map sum_list_append map_append sum_mset_sum_list)

lemma batch_grows:
  assumes "batch_law E" "ce_AddBatch E ty l ks vs = Ok (bad, l')"
  shows "length bad \<le> length ks \<and> length l' = length l + (length ks - length bad) \<and>
    total_weight P l' = total_weight P l +
      (\<Sum>i\<leftarrow>filter (\<lambda>i. i \<notin> set bad) [0..<length ks]. arbo_BytesToBigInt P (batch_value vs i))"
proof -
  let ?ok = "filter (\<lambda>i. i \<notin> set bad) [0..<length ks]"
  obtain new where b: "distinct bad" "set bad \<subseteq> {..<length ks}" and n: "mset l' = mset l + mset new"
    and v: "map snd new = map (batch_value vs) ?ok"
    using assms unfolding batch_law_def by meson
  have "length l' = length l + length new" using n by (metis size_mset size_union)
  moreover have "length new = length ?ok" using v by (metis length_map)
  moreover have "total_weight P new = (\<Sum>i\<leftarrow>?ok. arbo_BytesToBigInt P (batch_value vs i))"
    using arg_cong [OF v, of "\<lambda>xs. sum_list (map (arbo_BytesToBigInt P) xs)"] by (simp add: sum_vals_def o_def)
  ultimately show ?thesis using length_valid [OF b] total_mset [OF n, of P] by simp
qed

lemma sums_add:
  assumes c: "codec P (ct_hashLen t)" and s: "census_sums P t l m" and i: "ct_indexAsKeys t \<Longrightarrow> val = None"
    and a: "(case add_leaf P t key val m of (k, v) \<Rightarrow> tree_add P ty l k v) = Ok l'" and f: "census_fits P t l'"
  shows "census_sums P t l' (add_aux P t key val m)"
proof (cases "ct_indexAsKeys t")
  case True
  then show ?thesis using s a f c tree_add_grows [of P ty l _ _ l']
    by (auto simp: census_sums_def census_fits_def add_aux_def add_leaf_def codec_def Let_def)
next
  case False
  then show ?thesis using s a f c tree_add_grows [of P ty l _ _ l']
    by (auto simp: census_sums_def census_fits_def add_aux_def add_leaf_def codec_def Let_def split: option.split)
qed

lemma batch_delta: "n \<le> k \<Longrightarrow> k < 2 ^ 32 \<Longrightarrow> unat (word_of_int (int k - int n) :: u32) = k - n"
  by (simp add: of_nat_diff [symmetric] unat_of_nat del: of_nat_diff)

lemma batch_aux_index:
  "batch_aux P t keys vals bad m censusIndexKey = Some (arbo_BigIntToBytes P (ct_hashLen t)
     (index_of P m + unat (word_of_int (int (length keys) - int (length bad)) :: u32)))"
  by (simp add: batch_aux_def Let_def split: option.split)

lemma batch_aux_weight:
  "batch_aux P t keys vals bad m censusWeightKey = (case vals of None \<Rightarrow> m censusWeightKey
     | Some vs \<Rightarrow> Some (arbo_BigIntToBytes P (ct_hashLen t)
         (weight_of P m + arbo_BytesToBigInt P (arbo_BigIntToBytes P (ct_hashLen t)
            (\<Sum>i\<leftarrow>filter (\<lambda>i. i \<notin> set bad) [0..<length keys]. arbo_BytesToBigInt P (batch_value vals i))))))"
  by (simp add: batch_aux_def Let_def split: option.split)

lemma sums_batch:
  assumes c: "codec P (ct_hashLen t)" and law: "batch_law E" and k: "length keys < 2 ^ 32"
    and s: "census_sums P t l m" and i: "ct_indexAsKeys t \<Longrightarrow> vals = None"
    and a: "(case batch_leaves P t keys vals m of (ks, vs) \<Rightarrow> ce_AddBatch E ty l ks vs) = Ok (bad, l')"
    and f: "census_fits P t l'"
  shows "census_sums P t l' (batch_aux P t keys vals bad m)"
proof -
  obtain ks vs where kv: "batch_leaves P t keys vals m = (ks, vs)" by force
  have len: "length ks = length keys" using kv by (auto simp: batch_leaves_def split: if_splits)
  note g = batch_grows [OF law, of ty l ks vs bad l' P, unfolded len] a [unfolded kv prod.case]
  have d: "unat (word_of_int (int (length keys) - int (length bad)) :: u32) = length keys - length bad"
    using g k by (intro batch_delta) auto
  have "index_of P (batch_aux P t keys vals bad m) = length l'"
    using g s c f unfolding batch_aux_index d census_sums_def census_fits_def codec_def by simp
  moreover have "weight_of P (batch_aux P t keys vals bad m) = (if ct_indexAsKeys t then 0 else total_weight P l')"
  proof (cases "ct_indexAsKeys t")
    case True
    then show ?thesis using i s by (simp add: batch_aux_weight census_sums_def)
  next
    case False
    then have v: "vs = vals" using kv by (simp add: batch_leaves_def)
    show ?thesis
    proof (cases vals)
      case None
      then show ?thesis using False s g v c
        by (simp add: batch_aux_weight census_sums_def batch_value_def codec_def)
    next
      case (Some w)
      then show ?thesis using False s g v c f
        by (simp add: batch_aux_weight census_sums_def census_fits_def codec_def)
    qed
  qed
  ultimately show ?thesis using g by (simp add: census_sums_def)
qed

lemma run_sums:
  assumes run: "census_run P E t c0 c" and t: "fresh t" "ct_snapshot t = None" "room 3 (ct_newTx t)"
    and c: "codec P (ct_hashLen t)" and law: "batch_law E"
    and s0: "census_sums P t (ct_leaves t c0) (look_tx (ct_begin t c0))"
    and f: "census_fits P t (ct_leaves t c)"
  shows "census_sums P t (ct_leaves t c) (look_tx (ct_begin t c))"
  using run f
proof (induction rule: census_run.induct)
  case run_start
  then show ?case by (simp add: s0)
next
  case (run_Add c key val e c')
  have ok: "tx_ok (ct_newTx t)" "arbo_BytesToBigInt P [] = 0" using t c by (auto simp: fresh_def codec_def)
  from ok run_Add.hyps(2) show ?case
  proof (cases rule: Add_outcome)
    case (fails x s)
    then show ?thesis using run_Add discard_same [OF _ t(3)] by simp
  next
    case (adds l s)
    then have l: "ct_leaves t c' = l" and m: "look_tx (ct_begin t c') = look_tx s"
      using census_look_commit [OF t(1)] t(2) by simp_all
    obtain k v where kv: "add_leaf P t key val (look_tx (ct_begin t c)) = (k, v)" by force
    have "census_fits P t (ct_leaves t c)"
      using tree_add_grows [of P "ct_censusType t" "ct_leaves t c" k v l] adds(5) kv run_Add.prems l
      by (auto simp: census_fits_def)
    then show ?thesis using sums_add [OF c run_Add.IH adds(4,5)] run_Add.prems l m adds(6) by simp
  qed
next
  case (run_AddBatch c keys vals e c')
  have ok: "tx_ok (ct_newTx t)" "arbo_BytesToBigInt P [] = 0" using t c by (auto simp: fresh_def codec_def)
  from ok law run_AddBatch.hyps(4) show ?case
  proof (cases rule: AddBatch_outcome)
    case (fails s)
    then show ?thesis using run_AddBatch discard_same [OF _ run_AddBatch.hyps(3)] by simp
  next
    case (adds bad l s)
    then have l: "ct_leaves t c' = l" and m: "look_tx (ct_begin t c') = look_tx s"
      using census_look_commit [OF t(1)] t(2) by simp_all
    obtain ks vs where kv: "batch_leaves P t keys vals (look_tx (ct_begin t c)) = (ks, vs)" by force
    have "census_fits P t (ct_leaves t c)"
      using batch_grows [OF law, of "ct_censusType t" "ct_leaves t c" ks vs bad l P] adds(5) kv run_AddBatch.prems l
      by (auto simp: census_fits_def)
    then show ?thesis
      using sums_batch [OF c law run_AddBatch.hyps(2) run_AddBatch.IH adds(4,5)] run_AddBatch.prems l m adds(6) by simp
  qed
qed

lemma Tx_Write_log:
  "room 1 tx \<Longrightarrow> tx_log (fst (snd (Tx_Write (\<lambda>w. False) k v tx d))) = (tx_path tx @ k, v) # tx_log tx"
proof (induction tx arbitrary: k)
  case (PrefixedWriteTx p tx)
  from PrefixedWriteTx.IH [of "prefixSlice p k"] PrefixedWriteTx.prems show ?case
    by (auto simp: prefixSlice_def split: prod.split)
next
  case (Batch tx db maxSize m)
  then have m: "unat m + 1 < unat maxSize" and f: "flat_tx tx" by auto
  then have "m < maxSize" by (simp add: word_less_nat_alt)
  then have "m + 1 \<noteq> maxSize" using m by (metis Suc_eq_plus1 less_irrefl word_count_Suc)
  then show ?case by (simp add: Tx_Write_flat f)
qed simp

lemma key_differs_option [simp]:
  "isIndexAsKeysCensus \<noteq> censusIndexKey" "censusIndexKey \<noteq> isIndexAsKeysCensus"
  "isIndexAsKeysCensus \<noteq> censusWeightKey" "censusWeightKey \<noteq> isIndexAsKeysCensus"
  by (simp_all add: censusWeightKey_def censusIndexKey_def isIndexAsKeysCensus_def)

lemma ensure_index_does:
  assumes t: "fresh t" and r: "room 1 (ct_newTx t)" and z: "arbo_BytesToBigInt P [] = 0"
  obtains d where "ensure_index P t deferred c = (Ok t, c\<lparr>cs_db := deferred d\<rparr>)"
    "map_of d = (map_of (cs_db c))(tx_path (ct_newTx t) @ censusIndexKey \<mapsto>
       arbo_BigIntToBytes P (ct_hashLen t) (index_of P (look_tx (ct_begin t c))))"
proof -
  have ok: "tx_ok (fst (ct_begin t c))" using t by (simp add: fresh_def ct_begin_def)
  let ?v = "arbo_BigIntToBytes P (ct_hashLen t) (index_of P (look_tx (ct_begin t c)) + unat (0 :: u32))"
  obtain s where u: "updateCensusIndex P t 0 (ct_begin t c) = (Ok (of_nat (index_of P (look_tx (ct_begin t c)))), s)"
    and e: "evolve 1 (ct_begin t c) s" and l: "look_tx s = (look_tx (ct_begin t c))(censusIndexKey \<mapsto> ?v)"
    by (rule updateCensusIndex_does [OF ok z])
  let ?p = "tx_path (ct_newTx t)"
  have "map_of (Tx_Commit (fst s) (snd s)) q = ((map_of (cs_db c))(?p @ censusIndexKey \<mapsto> ?v)) q" for q
  proof (cases "prefix ?p q")
    case True
    then obtain k where q: "q = ?p @ k" by (auto elim: prefixE)
    have "tx_path (fst s) = ?p" using e by (simp add: evolve_def ct_begin_def)
    then have "map_of (Tx_Commit (fst s) (snd s)) q = look_tx s k" by (simp add: map_of_Commit look_tx_def q)
    then show ?thesis by (simp add: l look_begin [OF t] q)
  next
    case False
    then show ?thesis using e t by (auto simp: map_of_Commit evolve_def ct_begin_def tx_view_def fresh_def)
  qed
  then show thesis using that [of "Tx_Commit (fst s) (snd s)"] u by (simp add: ensure_index_def wrap_st_def fun_eq_iff)
qed

text \<open>Opening a census: an existing one keeps its leaves, its number of leaves, its weight and whether it is
  indexed.\<close>

lemma New_outcome:
  assumes n: "New_Census P E newTx ty asKeys c = (Ok t, c')" and ok: "tx_ok newTx" "tx_log newTx = []" "room 1 newTx"
    and z: "arbo_BytesToBigInt P [] = 0"
  shows "fresh t \<and> ct_newTx t = newTx \<and> ct_snapshot t = None \<and> ct_hashLen t = ce_HashLen E ty \<and> ct_censusType t = ty \<and>
    ct_indexAsKeys t = (case look_tx (newTx, cs_db c) isIndexAsKeysCensus of None \<Rightarrow> asKeys | Some b \<Rightarrow> b = [255]) \<and>
    cs_leaves c' = cs_leaves c \<and>
    look_tx (newTx, cs_db c') =
      (let m = look_tx (newTx, cs_db c);
           m' = (case m isIndexAsKeysCensus of None \<Rightarrow> m(isIndexAsKeysCensus \<mapsto> (if asKeys then [255] else [0])) | Some b \<Rightarrow> m)
       in m'(censusIndexKey \<mapsto> arbo_BigIntToBytes P (ce_HashLen E ty) (index_of P m)))"
proof -
  let ?m = "look_tx (newTx, cs_db c)" and ?p = "tx_path newTx"
  let ?t = "\<lambda>i. \<lparr>ct_newTx = newTx, ct_snapshot = None, ct_public = 0, ct_censusType = ty,
                 ct_hashFunc = True, ct_hashLen = ce_HashLen E ty, ct_indexAsKeys = i\<rparr>"
  have ty: "ty = Census_ARBO_BLAKE2B \<or> ty = Census_ARBO_POSEIDON"
    using n by (auto simp: New_Census_def split: if_splits)
  have f: "fresh (?t i)" for i using ok by (simp add: fresh_def)
  have m: "?m k = map_of (cs_db c) (?p @ k)" for k using ok by (simp add: look_tx_def tx_view_def)
  have m': "look_tx (newTx, d) k = map_of d (?p @ k)" for d k using ok by (simp add: look_tx_def tx_view_def)
  show ?thesis
  proof (cases "?m isIndexAsKeysCensus")
    case None
    obtain s where s: "set_key isIndexAsKeysCensus (if asKeys then [255] else [0]) (newTx, cs_db c) = (Ok (), s)"
      and e: "evolve 1 (newTx, cs_db c) s"
      using write_key_evolve [of "(newTx, cs_db c)"] ok(1) by (metis fst_conv)
    have d: "snd s = cs_db c" using e ok(3) by (auto simp: evolve_def dest: spec [of _ 0])
    have lg: "tx_log (fst s) = [(?p @ isIndexAsKeysCensus, Some (if asKeys then [255] else [0]))]"
      using Tx_Write_log [OF ok(3), of isIndexAsKeysCensus "Some (if asKeys then [255] else [0])" "cs_db c"] s ok(2)
      by (simp add: write_tx_key_def)
    obtain d' where "ensure_index P (?t asKeys) (Tx_Commit (fst s)) (c\<lparr>cs_db := snd s\<rparr>) =
        (Ok (?t asKeys), c\<lparr>cs_db := Tx_Commit (fst s) d'\<rparr>)"
      and dm: "map_of d' = (map_of (cs_db c))(?p @ censusIndexKey \<mapsto> arbo_BigIntToBytes P (ce_HashLen E ty) (index_of P ?m))"
      using ensure_index_does [OF f _ z, of asKeys "Tx_Commit (fst s)" "c\<lparr>cs_db := snd s\<rparr>"] ok(3)
      by (auto simp: d ct_begin_def)
    then have "t = ?t asKeys \<and> c' = c\<lparr>cs_db := Tx_Commit (fst s) d'\<rparr>"
      using n ty None s by (auto simp: New_Census_def get_opt_look Let_def)
    then show ?thesis using f None dm
      by (auto simp: Let_def fun_eq_iff m' map_of_Commit tx_view_def lg)
  next
    case (Some b)
    obtain d' where e: "ensure_index P (?t (b = [255])) (\<lambda>d. d) c = (Ok (?t (b = [255])), c\<lparr>cs_db := d'\<rparr>)"
      and dm: "map_of d' = (map_of (cs_db c))(?p @ censusIndexKey \<mapsto> arbo_BigIntToBytes P (ce_HashLen E ty) (index_of P ?m))"
      using ensure_index_does [OF f _ z, of "b = [255]" "\<lambda>d. d" c] ok(3) by (auto simp: ct_begin_def)
    then have "t = ?t (b = [255]) \<and> c' = c\<lparr>cs_db := d'\<rparr>"
      using n ty Some by (auto simp: New_Census_def get_opt_look Let_def split: if_splits)
    then show ?thesis using f Some dm by (auto simp: Let_def fun_eq_iff m')
  qed
qed

section \<open>Properties\<close>

text \<open>C14. After any sequence of additions and batches to a new census, whether they succeed or not, its index
  is the number of leaves of its tree, and its weight is the sum of the weights of the leaves (zero for an
  indexed census). Arbo adds each position of a batch or returns it as invalid, its numbers are read
  back as written, and the totals fit their encoding.\<close>

theorem census_totals:
  assumes "New_Census P E newTx ty asKeys c0 = (Ok t, c1)"
    and "tx_ok newTx" "tx_log newTx = []" "room 3 newTx"
    and "cs_leaves c0 (tx_path newTx) = []" "look_tx (newTx, cs_db c0) = Map.empty"
    and "codec P (ce_HashLen E ty)" "batch_law E"
    and "census_run P E t c1 c" "census_fits P t (ct_leaves t c)"
  shows "GetCensusIndex P t c = Ok (of_nat (length (ct_leaves t c))) \<and>
         GetCensusWeight P t c = Ok (if ct_indexAsKeys t then 0 else total_weight P (ct_leaves t c))"
proof -
  have z: "arbo_BytesToBigInt P [] = 0" using assms(7) by (simp add: codec_def)
  note n = New_outcome [OF assms(1-3) room_mono [OF assms(4)] z, simplified]
  have "census_sums P t (ct_leaves t c1) (look_tx (ct_begin t c1))"
    using n assms(5-7) by (simp add: census_sums_def ct_leaves_def ct_begin_def Let_def codec_def)
  then have "census_sums P t (ct_leaves t c) (look_tx (ct_begin t c))"
    using run_sums [OF assms(9)] n assms(4,7,8,10) by simp
  then show ?thesis by (simp add: GetCensusIndex_look [OF z] GetCensusWeight_look [OF z] census_sums_def)
qed

text \<open>An addition or a batch that fails leaves the census and the database as they were: nothing of the
  index or of the keys it had already written in its transaction stays, provided the batch behind the
  transaction has room for what the operation writes.\<close>

theorem failed_addition_changes_nothing:
  assumes "tx_ok (ct_newTx t)" "arbo_BytesToBigInt P [] = 0"
  shows "(CensusTree_Add P key val t c = (e, c') \<and> \<not> is_ok e \<and> room 3 (ct_newTx t) \<longrightarrow> c' = c) \<and>
         (batch_law E \<and> CensusTree_AddBatch P E keys vals t c = (r, c'') \<and> \<not> is_ok r \<and>
            room (length keys + 2) (ct_newTx t) \<longrightarrow> c'' = c)"
proof safe
  assume a: "CensusTree_Add P key val t c = (e, c')" "\<not> is_ok e" "room 3 (ct_newTx t)"
  from assms a(1) show "c' = c"
    by (cases rule: Add_outcome) (use a(2,3) discard_same in auto)
next
  assume a: "batch_law E" "CensusTree_AddBatch P E keys vals t c = (r, c'')" "\<not> is_ok r" "room (length keys + 2) (ct_newTx t)"
  from assms a(1,2) show "c'' = c"
    by (cases rule: AddBatch_outcome) (use a(3,4) discard_same in auto)
qed

text \<open>Censuses whose names do not start one another are independent: adding to one leaves the leaves, the
  index, the weight and the key indexes of the other.\<close>

theorem censuses_independent:
  assumes "fresh t" "fresh u" "tx_path (ct_newTx u) \<parallel> tx_path (ct_newTx t)"
    and "arbo_BytesToBigInt P [] = 0" "CensusTree_Add P key val t c = (Ok (), c')"
  shows "ct_leaves u c' = ct_leaves u c \<and> GetCensusIndex P u c' = GetCensusIndex P u c \<and>
         GetCensusWeight P u c' = GetCensusWeight P u c \<and> keyToIndex k u c' = keyToIndex k u c"
proof -
  have ok: "tx_ok (ct_newTx t)" using assms(1) by (simp add: fresh_def)
  from ok assms(4,5) show ?thesis
  proof (cases rule: Add_outcome)
    case (adds l s)
    from commit_other [OF assms(2,1) adds(2) assms(3), of l] adds(3) show ?thesis
      by (simp add: GetCensusIndex_look [OF assms(4)] GetCensusWeight_look [OF assms(4)] keyToIndex_def tx.get_look)
  qed simp
qed

section \<open>Indexed censuses\<close>

lemma put_le_append: "put_le (a + b) n = put_le a n @ put_le b (n div 256 ^ a)"
  by (induction a arbitrary: n) (auto simp: div_mult2_eq)

lemma put_le_zero: "put_le n 0 = replicate n 0"
  by (induction n) auto

lemma batch_key_put:
  assumes "n < 2 ^ 32"
  shows "PutUint32LE (of_nat n) @ [0, 0, 0, 0] = put_le 8 n"
proof -
  have "replicate 4 (0 :: u8) = [0, 0, 0, 0]" by (simp add: numeral_eq_Suc)
  moreover have "n div 256 ^ 4 = 0" using assms by simp
  moreover have "unat (of_nat n :: u32) = n" using assms by (simp add: unat_of_nat)
  ultimately show ?thesis using put_le_append [of 4 4 n] by (simp add: PutUint32LE_def put_le_zero)
qed

lemma batch_keys_put: "n + length ks \<le> 2 ^ 32 \<Longrightarrow> batch_keys (of_nat n) ks = map (put_le 8) [n..<n + length ks]"
proof (induction ks arbitrary: n)
  case (Cons k ks)
  have "batch_keys (of_nat n + 1) ks = map (put_le 8) [Suc n..<Suc n + length ks]"
    using Cons.IH [of "Suc n"] Cons.prems by (simp add: add.commute)
  moreover have "[n..<n + length (k # ks)] = n # [Suc n..<Suc n + length ks]"
    by (subst upt_conv_Cons) (auto simp del: upt_Suc)
  ultimately show ?case using batch_key_put [of n] Cons.prems by (simp del: upt_Suc)
qed simp

lemma index_map_not: "k \<notin> set ks \<Longrightarrow> index_map i ks m (censusKeysToIndexPrefix @ k) = m (censusKeysToIndexPrefix @ k)"
  by (induction i ks m rule: index_map.induct) auto

lemma index_map_in:
  "k \<in> set ks \<Longrightarrow> \<exists>j < length ks. ks ! j = k \<and> index_map i ks m (censusKeysToIndexPrefix @ k) = Some (batch_keys i ks ! j)"
proof (induction i ks m rule: index_map.induct)
  case (2 i k' ks m)
  show ?case
  proof (cases "k \<in> set ks")
    case True
    with "2.IH" obtain j where "j < length ks" "ks ! j = k"
      "index_map (i + 1) ks (m(censusKeysToIndexPrefix @ k' \<mapsto> PutUint32LE i @ [0, 0, 0, 0]))
         (censusKeysToIndexPrefix @ k) = Some (batch_keys (i + 1) ks ! j)" by blast
    then show ?thesis by (intro exI [of _ "Suc j"]) simp
  next
    case False
    then show ?thesis using "2.prems" by (auto simp: index_map_not intro: exI [of _ 0])
  qed
qed simp

text \<open>The leaves of an indexed census are under consecutive indexes, and the index kept for a key leads to a
  leaf with that key.\<close>

definition indexed_inv :: "params \<Rightarrow> CensusTree \<Rightarrow> census_store \<Rightarrow> bool" where
  "indexed_inv P t c =
     (let l = ct_leaves t c; m = look_tx (ct_begin t c)
      in fresh t \<and> ct_snapshot t = None \<and> ct_indexAsKeys t \<and> index_of P m = length l \<and>
         mset (map fst l) = mset (map (put_le 8) [0..<length l]) \<and>
         (\<forall>(i, k) \<in> set l. \<exists>j. m (censusKeysToIndexPrefix @ k) = Some j \<and> (j, k) \<in> set l))"

lemma mset_leaf_insert: "mset (leaf_insert bf k v l) = add_mset (k, v) (mset l)"
  by (induction l) auto

lemma indexed_add:
  assumes i: "indexed_inv P t c" and c: "codec P (ct_hashLen t)"
    and a: "CensusTree_Add P key None t c = (Ok (), c')"
    and b: "length (ct_leaves t c) < 2 ^ 32" "2 ^ 32 < (256 :: nat) ^ ct_hashLen t"
  shows "indexed_inv P t c' \<and> keyToIndex key t c' = Ok (put_le 8 (length (ct_leaves t c))) \<and>
         (put_le 8 (length (ct_leaves t c)), key) \<in> set (ct_leaves t c')"
proof -
  have t: "fresh t" "ct_snapshot t = None" "ct_indexAsKeys t" using i by (auto simp: indexed_inv_def Let_def)
  have ok: "tx_ok (ct_newTx t)" "arbo_BytesToBigInt P [] = 0" using t c by (auto simp: fresh_def codec_def)
  let ?n = "length (ct_leaves t c)" and ?m = "look_tx (ct_begin t c)"
  have n: "index_of P ?m = ?n" using i by (simp add: indexed_inv_def Let_def)
  have k: "PutUint64LE (of_nat ?n) = put_le 8 ?n" using b by (simp add: PutUint64LE_def unat_of_nat)
  from ok a show ?thesis
  proof (cases rule: Add_outcome)
    case (adds l s)
    then have l: "ct_leaves t c' = l" and m: "look_tx (ct_begin t c') = look_tx s"
      using census_look_commit [OF t(1)] t(2) by simp_all
    have ms: "mset l = add_mset (put_le 8 ?n, key) (mset (ct_leaves t c))"
      using adds(5) t(3) n k by (auto simp: add_leaf_def tree_add_def Tree_Add_def mset_leaf_insert split: if_splits)
    have len: "length l = Suc ?n" using arg_cong [OF ms, of size] by simp
    have st: "set l = insert (put_le 8 ?n, key) (set (ct_leaves t c))" using arg_cong [OF ms, of set_mset] by simp
    have s: "look_tx s = ?m(censusIndexKey \<mapsto> arbo_BigIntToBytes P (ct_hashLen t) (?n + 1),
                censusKeysToIndexPrefix @ key \<mapsto> put_le 8 ?n)"
      using adds(6) t(3) n k by (simp add: add_aux_def Let_def)
    have "mset (map fst l) = mset (map (put_le 8) [0..<length l])"
      using i len arg_cong [OF ms, of "image_mset fst"] by (simp add: indexed_inv_def Let_def)
    moreover have "index_of P (look_tx s) = length l" using c b len by (simp add: s codec_def)
    moreover have "\<forall>(i, k) \<in> set l. \<exists>j. look_tx s (censusKeysToIndexPrefix @ k) = Some j \<and> (j, k) \<in> set l"
      using i by (auto simp: s st indexed_inv_def Let_def)
    ultimately show ?thesis
      using t by (simp add: indexed_inv_def Let_def l m s st keyToIndex_def tx.get_look of_option_def)
  qed simp
qed

lemma batch_lawD:
  assumes "batch_law E" "ce_AddBatch E ty l ks vs = Ok (bad, l')"
  obtains new where "distinct bad" "set bad \<subseteq> {..<length ks}" "mset l' = mset l + mset new"
    "map snd new = map (batch_value vs) (filter (\<lambda>i. i \<notin> set bad) [0..<length ks])"
    "map fst new = map ((!) ks) (filter (\<lambda>i. i \<notin> set bad) [0..<length ks])"
  using assms unfolding batch_law_def by blast

text \<open>A batch of an indexed census that goes through: its new leaves, and the index it leaves.\<close>

lemma indexed_batch_leaves:
  assumes i: "indexed_inv P t c" and c: "codec P (ct_hashLen t)" and law: "batch_law E"
    and a: "CensusTree_AddBatch P E keys None t c = (Ok bad, c')"
    and b: "length (ct_leaves t c) + length keys < 2 ^ 32" "2 ^ 32 < (256 :: nat) ^ ct_hashLen t"
  obtains new where "mset (ct_leaves t c') = mset (ct_leaves t c) + mset new"
    "map snd new = map ((!) keys) (filter (\<lambda>i. i \<notin> set bad) [0..<length keys])"
    "map fst new = map (\<lambda>i. put_le 8 (length (ct_leaves t c) + i)) (filter (\<lambda>i. i \<notin> set bad) [0..<length keys])"
    "distinct bad" "set bad \<subseteq> {..<length keys}"
    "index_of P (look_tx (ct_begin t c')) = length (ct_leaves t c) + (length keys - length bad)"
    "\<And>k. look_tx (ct_begin t c') (censusKeysToIndexPrefix @ k) =
       index_map (of_nat (length (ct_leaves t c))) keys (look_tx (ct_begin t c)) (censusKeysToIndexPrefix @ k)"
proof -
  have t: "fresh t" "ct_snapshot t = None" "ct_indexAsKeys t" using i by (auto simp: indexed_inv_def Let_def)
  have ok: "tx_ok (ct_newTx t)" "arbo_BytesToBigInt P [] = 0" using t c by (auto simp: fresh_def codec_def)
  let ?n = "length (ct_leaves t c)" and ?m = "look_tx (ct_begin t c)"
  let ?ok = "filter (\<lambda>i. i \<notin> set bad) [0..<length keys]"
  have n: "index_of P ?m = ?n" using i by (simp add: indexed_inv_def Let_def)
  from ok law a show thesis
  proof (cases rule: AddBatch_outcome)
    case (adds bad' l s)
    then have bad: "bad' = bad" and l: "ct_leaves t c' = l" and m: "look_tx (ct_begin t c') = look_tx s"
      using census_look_commit [OF t(1)] t(2) by simp_all
    have ks: "batch_keys (of_nat ?n) keys = map (put_le 8) [?n..<?n + length keys]"
      using b by (intro batch_keys_put) simp
    have "ce_AddBatch E (ct_censusType t) (ct_leaves t c) (batch_keys (of_nat ?n) keys)
        (if keys = [] then None else Some keys) = Ok (bad, l)"
      using adds(5) t(3) n bad by (simp add: batch_leaves_def)
    from batch_lawD [OF law this]
    obtain new where d: "distinct bad" "set bad \<subseteq> {..<length keys}" and ms: "mset l = mset (ct_leaves t c) + mset new"
      and v: "map snd new = map (batch_value (if keys = [] then None else Some keys)) ?ok"
      and f: "map fst new = map ((!) (batch_keys (of_nat ?n) keys)) ?ok"
      by (auto simp: length_batch_keys)
    have v': "map snd new = map ((!) keys) ?ok" unfolding v by (rule map_cong) (auto simp: batch_value_def)
    have f': "map fst new = map (\<lambda>i. put_le 8 (?n + i)) ?ok" unfolding f ks by (rule map_cong) auto
    have le: "length bad \<le> length keys" using length_valid [OF d] by simp
    have dl: "unat (word_of_int (int (length keys) - int (length bad)) :: u32) = length keys - length bad"
      using b le by (intro batch_delta) auto
    have "index_of P (look_tx s) = ?n + (length keys - length bad)"
      using adds(6) c b unfolding bad by (simp only: batch_aux_index dl n) (simp add: codec_def)
    moreover have "look_tx s (censusKeysToIndexPrefix @ k) =
        index_map (of_nat ?n) keys ?m (censusKeysToIndexPrefix @ k)" for k
      using adds(6) t(3) n by (simp add: batch_aux_def Let_def)
    ultimately show thesis using that [of new] ms v' f' d l m by simp
  qed simp
qed

lemma indexed_batch:
  assumes i: "indexed_inv P t c" and c: "codec P (ct_hashLen t)" and law: "batch_law E"
    and a: "CensusTree_AddBatch P E keys None t c = (Ok [], c')"
    and b: "length (ct_leaves t c) + length keys < 2 ^ 32" "2 ^ 32 < (256 :: nat) ^ ct_hashLen t"
  shows "indexed_inv P t c' \<and> snd ` set (ct_leaves t c') = snd ` set (ct_leaves t c) \<union> set keys"
proof -
  let ?l = "ct_leaves t c" and ?l' = "ct_leaves t c'" and ?n = "length (ct_leaves t c)"
  let ?m = "look_tx (ct_begin t c)" and ?m' = "look_tx (ct_begin t c')"
  obtain new where ms: "mset ?l' = mset ?l + mset new" and v: "map snd new = keys"
    and f: "map fst new = map (\<lambda>i. put_le 8 (?n + i)) [0..<length keys]"
    and ix: "index_of P ?m' = ?n + length keys"
    and mk: "\<And>k. ?m' (censusKeysToIndexPrefix @ k) = index_map (of_nat ?n) keys ?m (censusKeysToIndexPrefix @ k)"
    by (rule indexed_batch_leaves [OF i c law a b]) (simp add: map_nth)
  have f': "map fst new = map (put_le 8) [?n..<?n + length keys]"
    unfolding f by (rule nth_equalityI) auto
  have len: "length ?l' = ?n + length keys"
    using arg_cong [OF ms, of size] arg_cong [OF v, of length] by simp
  have st: "set ?l' = set ?l \<union> set new" using arg_cong [OF ms, of set_mset] by simp
  have new: "(put_le 8 (?n + j), keys ! j) \<in> set new" if "j < length keys" for j
  proof -
    have "length new = length keys" using v by auto
    then have "new ! j = (put_le 8 (?n + j), keys ! j)"
      using that arg_cong [OF f, of "\<lambda>xs. xs ! j"] arg_cong [OF v, of "\<lambda>xs. xs ! j"] by (auto simp: prod_eq_iff)
    then show ?thesis using that \<open>length new = length keys\<close> by (metis nth_mem)
  qed
  have ks: "batch_keys (of_nat ?n) keys = map (put_le 8) [?n..<?n + length keys]"
    using b by (intro batch_keys_put) simp
  have "mset (map fst ?l') = mset (map (put_le 8) [0..<length ?l'])"
  proof -
    have "mset (map fst ?l') = mset (map fst ?l) + mset (map fst new)"
      using arg_cong [OF ms, of "image_mset fst"] by simp
    also have "\<dots> = mset (map (put_le 8) [0..<?n]) + mset (map (put_le 8) [?n..<?n + length keys])"
      using i by (simp add: f' indexed_inv_def Let_def)
    finally show ?thesis using upt_add_eq_append [of 0 ?n "length keys"] by (simp only: len map_append mset_append)
  qed
  moreover have "\<exists>j. ?m' (censusKeysToIndexPrefix @ k) = Some j \<and> (j, k) \<in> set ?l'" if "(x, k) \<in> set ?l'" for x k
  proof (cases "k \<in> set keys")
    case True
    from index_map_in [OF this, of "of_nat ?n" ?m] obtain j where "j < length keys" "keys ! j = k"
      "?m' (censusKeysToIndexPrefix @ k) = Some (put_le 8 (?n + j))" by (auto simp: mk ks)
    then show ?thesis using new [of j] by (auto simp: st)
  next
    case False
    then have "(x, k) \<in> set ?l" using that v by (force simp: st)
    then show ?thesis using i False by (auto simp: mk index_map_not st indexed_inv_def Let_def)
  qed
  ultimately have "indexed_inv P t c'" using i ix len by (auto simp: indexed_inv_def Let_def)
  moreover have "snd ` set new = set keys" using v by force
  ultimately show ?thesis by (simp add: st image_Un)
qed

inductive indexed_run :: "params \<Rightarrow> census_env \<Rightarrow> CensusTree \<Rightarrow> census_store \<Rightarrow> census_store \<Rightarrow> bool"
  for P E t c0 where
  ixrun_start: "indexed_run P E t c0 c0"
| ixrun_Add: "indexed_run P E t c0 c \<Longrightarrow> length (ct_leaves t c) + 1 < 2 ^ 32 \<Longrightarrow>
    CensusTree_Add P key val t c = (e, c') \<Longrightarrow> indexed_run P E t c0 c'"
| ixrun_AddBatch: "indexed_run P E t c0 c \<Longrightarrow> length (ct_leaves t c) + length keys < 2 ^ 32 \<Longrightarrow>
    room (length keys + 2) (ct_newTx t) \<Longrightarrow> CensusTree_AddBatch P E keys vals t c = (e, c') \<Longrightarrow>
    (\<And>bad. e = Ok bad \<Longrightarrow> bad = []) \<Longrightarrow> indexed_run P E t c0 c'"

lemma indexed_run_inv:
  assumes run: "indexed_run P E t c0 c" and i: "indexed_inv P t c0"
    and r: "room 3 (ct_newTx t)" and c: "codec P (ct_hashLen t)" and law: "batch_law E"
    and h: "2 ^ 32 < (256 :: nat) ^ ct_hashLen t" and n: "length (ct_leaves t c0) < 2 ^ 32"
  shows "indexed_inv P t c \<and> length (ct_leaves t c) < 2 ^ 32"
  using run
proof (induction rule: indexed_run.induct)
  case ixrun_start
  show ?case using i n by simp
next
  case (ixrun_Add c key val e c')
  have t: "fresh t" "ct_snapshot t = None" "ct_indexAsKeys t" using i by (auto simp: indexed_inv_def Let_def)
  have ok: "tx_ok (ct_newTx t)" "arbo_BytesToBigInt P [] = 0" using t c by (auto simp: fresh_def codec_def)
  from ok ixrun_Add.hyps(3) show ?case
  proof (cases rule: Add_outcome)
    case (fails x s)
    then show ?thesis using ixrun_Add.IH discard_same [OF _ r] by simp
  next
    case (adds l s)
    then have "CensusTree_Add P key None t c = (Ok (), c')" using ixrun_Add.hyps(3) t(3) by simp
    moreover have "length (ct_leaves t c') = Suc (length (ct_leaves t c))"
      using adds(3,5) t(2) by (auto simp: tree_add_grows [THEN conjunct1] split: prod.splits)
    ultimately show ?thesis using indexed_add [OF _ c _ _ h] ixrun_Add by auto
  qed
next
  case (ixrun_AddBatch c keys vals e c')
  have t: "fresh t" "ct_snapshot t = None" "ct_indexAsKeys t" using i by (auto simp: indexed_inv_def Let_def)
  have ok: "tx_ok (ct_newTx t)" "arbo_BytesToBigInt P [] = 0" using t c by (auto simp: fresh_def codec_def)
  from ok law ixrun_AddBatch.hyps(4) show ?case
  proof (cases rule: AddBatch_outcome)
    case (fails s)
    then show ?thesis using ixrun_AddBatch.IH discard_same [OF _ ixrun_AddBatch.hyps(3)] by simp
  next
    case (adds bad l s)
    then have "CensusTree_AddBatch P E keys None t c = (Ok [], c')"
      using ixrun_AddBatch.hyps(4,5) t(3) by simp
    from indexed_batch [OF _ c law this _ h] ixrun_AddBatch have i': "indexed_inv P t c'" by simp
    obtain ks vs where kv: "batch_leaves P t keys vals (look_tx (ct_begin t c)) = (ks, vs)" by force
    then have "length ks = length keys" by (auto simp: batch_leaves_def split: if_splits)
    then have "length (ct_leaves t c') = length (ct_leaves t c) + (length keys - length bad)"
      using batch_grows [OF law, of "ct_censusType t" "ct_leaves t c" ks vs bad l P] adds(3,5) kv t(2) by simp
    with i' show ?thesis using ixrun_AddBatch.hyps(2) by simp
  qed
qed

lemma indexed_distinct:
  assumes "indexed_inv P t c" "length (ct_leaves t c) < 2 ^ 32"
  shows "distinct (map fst (ct_leaves t c))"
proof -
  let ?n = "length (ct_leaves t c)"
  have b: "x < 256 ^ 8" if "x < ?n" for x using that assms(2) by simp
  have "distinct (map (put_le 8) [0..<?n])"
    unfolding distinct_map by (auto intro!: inj_onI simp: put_le_inject [OF b b])
  moreover have "mset (map fst (ct_leaves t c)) = mset (map (put_le 8) [0..<?n])"
    using assms(1) by (simp add: indexed_inv_def Let_def)
  ultimately show ?thesis by (metis mset_eq_imp_distinct_iff)
qed


text \<open>C39. A batch that returns invalid positions can block an indexed census for good: the indexes of the batch
  skip the invalid positions, the index of the census counts the valid ones, and when the position it
  then points at was added, every further addition fails on the existing leaf and changes nothing.\<close>

theorem invalid_key_blocks_census:
  assumes "indexed_inv P t c" "codec P (ct_hashLen t)" "batch_law E" "room 3 (ct_newTx t)"
    and "CensusTree_AddBatch P E keys None t c = (Ok bad, c')"
    and "length (ct_leaves t c) + length keys < 2 ^ 32" "2 ^ 32 < (256 :: nat) ^ ct_hashLen t"
    and "bad \<noteq> []" "length keys - length bad \<notin> set bad"
  shows "\<exists>e. CensusTree_Add P key val t c' = (Fail e, c')"
proof -
  let ?n = "length (ct_leaves t c)" and ?j = "length keys - length bad"
  let ?ok = "filter (\<lambda>i. i \<notin> set bad) [0..<length keys]"
  have t: "fresh t" "ct_snapshot t = None" "ct_indexAsKeys t" using assms(1) by (auto simp: indexed_inv_def Let_def)
  have ok: "tx_ok (ct_newTx t)" "arbo_BytesToBigInt P [] = 0" using t assms(2) by (auto simp: fresh_def codec_def)
  obtain new where ms: "mset (ct_leaves t c') = mset (ct_leaves t c) + mset new"
    and f: "map fst new = map (\<lambda>i. put_le 8 (?n + i)) ?ok"
    and d: "distinct bad" "set bad \<subseteq> {..<length keys}"
    and ix: "index_of P (look_tx (ct_begin t c')) = ?n + ?j"
    by (rule indexed_batch_leaves [OF assms(1-3,5-7)])
  have "?j \<in> set ?ok" using assms(8,9) length_valid [OF d] by (cases bad) auto
  then have "put_le 8 (?n + ?j) \<in> fst ` set new" using arg_cong [OF f, of set] by force
  then have dup: "map_of (ct_leaves t c') (put_le 8 (?n + ?j)) \<noteq> None"
    using arg_cong [OF ms, of set_mset] by (auto simp: map_of_eq_None_iff)
  have k: "PutUint64LE (of_nat (?n + ?j)) = put_le 8 (?n + ?j)"
    using assms(6) by (simp add: PutUint64LE_def unat_of_nat del: of_nat_add)
  obtain e c'' where a: "CensusTree_Add P key val t c' = (e, c'')" by force
  from ok a show ?thesis
  proof (cases rule: Add_outcome)
    case (fails x s)
    then show ?thesis using a discard_same [OF _ assms(4)] by simp
  next
    case (adds l s)
    then show ?thesis using dup t(3)
      by (auto simp: add_leaf_def ix k tree_add_def Tree_Add_def simp del: of_nat_add split: if_splits)
  qed
qed

section \<open>Imports and removal\<close>

lemma iterate_all:
  "Tree_IterateLeaves P (\<lambda>a k v. (f a k v, False)) a l = fold (\<lambda>(k, v) a. f a k v) l a"
  by (induction l arbitrary: a) auto

lemma leaves_weight_total: "leaves_weight P l = total_weight P l"
proof -
  have "fold (\<lambda>(k, v) a. a + f v) l a = a + sum_vals f l" for f :: "bytes \<Rightarrow> nat" and a
    by (induction l arbitrary: a) auto
  then show ?thesis by (simp add: leaves_weight_def iterate_all)
qed

lemma collect_leaves_all: "collect_leaves P l = l"
proof -
  have "fold (\<lambda>(k, v) a. a @ [(k, v)]) l a = a @ l" for a :: "(bytes \<times> bytes) list"
    by (induction l arbitrary: a) auto
  then show ?thesis by (simp add: collect_leaves_def iterate_all)
qed

lemma index_leaves_does:
  assumes "tx_ok (fst s)"
  shows "\<exists>s'. index_leaves ls s = (Ok (), s') \<and> evolve (length ls) s s' \<and>
    look_tx s' censusIndexKey = look_tx s censusIndexKey"
  using assms
proof (induction ls arbitrary: s)
  case Nil
  then show ?case by (simp add: evolve_refl)
next
  case (Cons e ls)
  obtain i k where e: "e = (i, k)" by force
  obtain s1 where k: "indexKey k (take 8 (i @ replicate 8 0)) s = (Ok (), s1)" and v: "evolve 1 s s1"
    and l: "look_tx s1 = (look_tx s)(censusKeysToIndexPrefix @ k \<mapsto> take 8 (i @ replicate 8 0))"
    by (rule indexKey_does [OF Cons.prems])
  from Cons.IH [OF evolve_ok [OF v]] obtain s2 where
    "index_leaves ls s1 = (Ok (), s2)" "evolve (length ls) s1 s2" "look_tx s2 censusIndexKey = look_tx s1 censusIndexKey"
    by blast
  then show ?case using k l e evolve_trans [OF v, of "length ls" s2] by (simp add: wrap_st_def)
qed

lemma begin_set_leaves [simp]: "ct_begin t (set_leaves t l c) = ct_begin t c"
  by (simp add: ct_begin_def set_leaves_def)

lemma leaves_set_leaves [simp]: "ct_snapshot t = None \<Longrightarrow> ct_leaves t (set_leaves t l c) = l"
  by (simp add: ct_leaves_def set_leaves_def)

lemma set_commit [simp]: "ct_commit t l s (set_leaves t l' c) = ct_commit t l s c"
  by (simp add: ct_commit_def set_leaves_def)

lemma import_weighted:
  assumes "CensusTree_ImportDump P E b t c = (Ok (), c')" "fresh t" "ct_snapshot t = None" "\<not> ct_indexAsKeys t"
  obtains l s where "ce_ImportDump E (ct_censusType t) b (ct_leaves t c) = Ok l" "c' = ct_commit t l s c"
    "evolve 1 (ct_begin t c) s"
    "look_tx s = (look_tx (ct_begin t c))(censusWeightKey \<mapsto> arbo_BigIntToBytes P (ct_hashLen t)
       (weight_of P (look_tx (ct_begin t c)) + arbo_BytesToBigInt P (arbo_BigIntToBytes P (ct_hashLen t) (total_weight P l))))"
proof -
  have ok: "tx_ok (fst (ct_begin t c))" using assms(2) by (auto simp: fresh_def ct_begin_def)
  obtain l where l: "ce_ImportDump E (ct_censusType t) b (ct_leaves t c) = Ok l"
    using assms(1) by (cases "ce_ImportDump E (ct_censusType t) b (ct_leaves t c)") (auto simp: CensusTree_ImportDump_def)
  let ?w = "CensusTree_BigIntToBytes P t (int (total_weight P l))"
  obtain s where s: "updateCensusWeight P t ?w (ct_begin t c) = (Ok (), s)" "evolve 1 (ct_begin t c) s"
    "look_tx s = (look_tx (ct_begin t c))(censusWeightKey \<mapsto> arbo_BigIntToBytes P (ct_hashLen t)
       (weight_of P (look_tx (ct_begin t c)) + arbo_BytesToBigInt P ?w))"
    by (rule updateCensusWeight_does [OF ok])
  moreover have "c' = ct_commit t l s c"
    using assms(1,3,4) l s(1) by (simp add: CensusTree_ImportDump_def Let_def leaves_weight_total wrap_st_def)
  ultimately show thesis using that l by (simp add: CensusTree_BigIntToBytes_def)
qed

lemma import_indexed:
  assumes "CensusTree_ImportDump P E b t c = (Ok (), c')" "fresh t" "ct_snapshot t = None" "ct_indexAsKeys t"
    and z: "arbo_BytesToBigInt P [] = 0"
  obtains l s where "ce_ImportDump E (ct_censusType t) b (ct_leaves t c) = Ok l" "c' = ct_commit t l s c"
    "evolve (length l + 1) (ct_begin t c) s"
    "look_tx s censusIndexKey = Some (arbo_BigIntToBytes P (ct_hashLen t) (index_of P (look_tx (ct_begin t c)) +
       unat (word_of_int (int (length l) - uint (of_nat (index_of P (look_tx (ct_begin t c))) :: u32)) :: u32)))"
proof -
  have ok: "tx_ok (fst (ct_begin t c))" using assms(2) by (auto simp: fresh_def ct_begin_def)
  obtain l where l: "ce_ImportDump E (ct_censusType t) b (ct_leaves t c) = Ok l"
    using assms(1) by (cases "ce_ImportDump E (ct_censusType t) b (ct_leaves t c)") (auto simp: CensusTree_ImportDump_def)
  obtain s1 where s1: "index_leaves l (ct_begin t c) = (Ok (), s1)" and e1: "evolve (length l) (ct_begin t c) s1"
    and l1: "look_tx s1 censusIndexKey = look_tx (ct_begin t c) censusIndexKey"
    using index_leaves_does [OF ok, of l] by blast
  let ?d = "word_of_int (int (length l) - uint (of_nat (index_of P (look_tx (ct_begin t c))) :: u32)) :: u32"
  obtain s where s: "updateCensusIndex P t ?d s1 = (Ok (of_nat (index_of P (look_tx s1))), s)" "evolve 1 s1 s"
    "look_tx s = (look_tx s1)(censusIndexKey \<mapsto> arbo_BigIntToBytes P (ct_hashLen t) (index_of P (look_tx s1) + unat ?d))"
    by (rule updateCensusIndex_does [OF evolve_ok [OF e1] z])
  have g: "GetCensusIndex P t (set_leaves t l c) = Ok (of_nat (index_of P (look_tx (ct_begin t c))))"
    by (simp add: GetCensusIndex_look [OF z])
  have f: "fillKeyToIndex P t (set_leaves t l c) (ct_begin t c) = (Ok (), s)"
    using assms(3) s1 s(1) by (simp only: fillKeyToIndex_def collect_leaves_all leaves_set_leaves Let_def g with_res.simps
        and_then.simps)
  have "c' = ct_commit t l s c"
    using assms(1,3,4) l f by (simp add: CensusTree_ImportDump_def Let_def hide_st_def)
  then show thesis using that l evolve_trans [OF e1 s(2)] s(3) l1 by simp
qed

text \<open>C38. A dump imported into an indexed census leaves its index at the number of leaves. Imported into a census
  with weights it leaves the index as it was, and adds the weight of all the leaves of the tree, those that
  were there before included: the weight is that of the census only when the tree was empty.\<close>

theorem import_totals:
  assumes "CensusTree_ImportDump P E b t c = (Ok (), c')" "fresh t" "ct_snapshot t = None"
    and "codec P (ct_hashLen t)" "census_fits P t (ct_leaves t c')"
  shows "ce_ImportDump E (ct_censusType t) b (ct_leaves t c) = Ok (ct_leaves t c') \<and>
    (if ct_indexAsKeys t
     then index_of P (look_tx (ct_begin t c)) \<le> length (ct_leaves t c') \<and> length (ct_leaves t c') < 2 ^ 32 \<longrightarrow>
            GetCensusIndex P t c' = Ok (of_nat (length (ct_leaves t c')))
     else GetCensusIndex P t c' = GetCensusIndex P t c \<and>
          (weight_of P (look_tx (ct_begin t c)) + total_weight P (ct_leaves t c') < 256 ^ ct_hashLen t \<longrightarrow>
             GetCensusWeight P t c' = Ok (weight_of P (look_tx (ct_begin t c)) + total_weight P (ct_leaves t c'))))"
proof -
  have z: "arbo_BytesToBigInt P [] = 0" using assms(4) by (simp add: codec_def)
  note look = GetCensusIndex_look [OF z] GetCensusWeight_look [OF z]
  show ?thesis
  proof (cases "ct_indexAsKeys t")
    case True
    obtain l s where l: "ce_ImportDump E (ct_censusType t) b (ct_leaves t c) = Ok l" "c' = ct_commit t l s c"
      "evolve (length l + 1) (ct_begin t c) s"
      and s: "look_tx s censusIndexKey = Some (arbo_BigIntToBytes P (ct_hashLen t) (index_of P (look_tx (ct_begin t c)) +
       unat (word_of_int (int (length l) - uint (of_nat (index_of P (look_tx (ct_begin t c))) :: u32)) :: u32)))"
      by (rule import_indexed [OF assms(1-3) True z])
    have c': "ct_leaves t c' = l" "look_tx (ct_begin t c') = look_tx s"
      using l census_look_commit [OF assms(2)] assms(3) by simp_all
    have "unat (word_of_int (int (length l) - uint (of_nat i :: u32)) :: u32) = length l - i"
      if "i \<le> length l" "length l < 2 ^ 32" for i
    proof -
      have "uint (of_nat i :: u32) = int i" using that by (simp add: uint_nat unat_of_nat)
      then show ?thesis using batch_delta [OF that] by simp
    qed
    then show ?thesis using True l(1) s assms(4,5) unfolding c' look by (auto simp: codec_def census_fits_def c')
  next
    case False
    obtain l s where l: "ce_ImportDump E (ct_censusType t) b (ct_leaves t c) = Ok l" "c' = ct_commit t l s c"
      "evolve 1 (ct_begin t c) s"
      and s: "look_tx s = (look_tx (ct_begin t c))(censusWeightKey \<mapsto> arbo_BigIntToBytes P (ct_hashLen t)
       (weight_of P (look_tx (ct_begin t c)) + arbo_BytesToBigInt P (arbo_BigIntToBytes P (ct_hashLen t) (total_weight P l))))"
      by (rule import_weighted [OF assms(1-3) False])
    have c': "ct_leaves t c' = l" "look_tx (ct_begin t c') = look_tx s"
      using l census_look_commit [OF assms(2)] assms(3) by simp_all
    show ?thesis using False l(1) s assms(4,5) unfolding c' look by (simp add: codec_def census_fits_def c')
  qed
qed

lemma delete_keys_does:
  assumes "tx_ok (fst s)"
  shows "\<exists>s'. delete_keys ks n s = (n + length ks, s') \<and> tx_path (fst s') = tx_path (fst s) \<and>
    tx_view (fst s') (snd s') = (\<lambda>q. if \<exists>k \<in> set ks. q = tx_path (fst s) @ k then None else tx_view (fst s) (snd s) q)"
  using assms
proof (induction ks arbitrary: n s)
  case (Cons k ks)
  obtain s1 where w: "write_tx_key (\<lambda>w. False) k None s = (Ok (), s1)" and e: "evolve 1 s s1"
    by (rule write_key_evolve [OF Cons.prems])
  have "Tx_Write (\<lambda>w. False) k None (fst s) (snd s) = (Ok (), fst s1, snd s1)" using w by (simp add: write_tx_key_def)
  from Tx_Write_view [OF this Cons.prems]
  have v: "tx_view (fst s1) (snd s1) = (tx_view (fst s) (snd s))(tx_path (fst s) @ k := None)" .
  have p: "tx_path (fst s1) = tx_path (fst s)" using e by (simp add: evolve_def)
  from Cons.IH [OF evolve_ok [OF e], of "Suc n"] show ?case by (auto simp: w v p fun_eq_iff)
qed auto

lemma iterate_keys: "iterate (\<lambda>a k v. (a @ [g k], True)) a d = a @ map (g \<circ> fst) d"
  by (induction d arbitrary: a) auto

lemma delete_does:
  assumes "Prefixed_Iterate iter name [] (\<lambda>a k v. (a @ [k], True)) [] d = map (drop (length name) \<circ> fst) (filter (\<lambda>e. prefix name (fst e)) d)"
  shows "fst (DeleteCensusTreeFromDatabase iter name d) = length (filter (\<lambda>e. prefix name (fst e)) d) \<and>
    map_of (snd (DeleteCensusTreeFromDatabase iter name d)) q = (if prefix name q then None else map_of d q)"
proof -
  let ?ks = "map (drop (length name) \<circ> fst) (filter (\<lambda>e. prefix name (fst e)) d)"
  let ?s = "(Database_WriteTx (NewPrefixedDatabase RawDB name), d)"
  have ok: "tx_ok (fst ?s)" by simp
  have v: "tx_view (fst ?s) (snd ?s) = map_of d" by (simp add: tx_view_def)
  have p: "tx_path (fst ?s) = name" by simp
  obtain s' where s': "delete_keys ?ks 0 ?s = (length ?ks, s')"
    "tx_view (fst s') (snd s') = (\<lambda>q. if \<exists>k \<in> set ?ks. q = name @ k then None else map_of d q)"
    using delete_keys_does [OF ok, of ?ks 0] unfolding v p add_0 by blast
  have "(\<exists>k \<in> set ?ks. q = name @ k) \<longleftrightarrow> prefix name q \<and> map_of d q \<noteq> None"
  proof
    assume "\<exists>k \<in> set ?ks. q = name @ k"
    then obtain e where "e \<in> set d" "prefix name (fst e)" "q = name @ drop (length name) (fst e)" by auto
    then have "q = fst e" "e \<in> set d" "prefix name (fst e)" by (auto elim!: prefixE)
    then show "prefix name q \<and> map_of d q \<noteq> None" by (auto simp: map_of_eq_None_iff)
  next
    assume a: "prefix name q \<and> map_of d q \<noteq> None"
    then obtain v where "(q, v) \<in> set d" by (auto dest: map_of_SomeD)
    with a show "\<exists>k \<in> set ?ks. q = name @ k" by (force elim!: prefixE)
  qed
  moreover have "DeleteCensusTreeFromDatabase iter name d = (length ?ks, Tx_Commit (fst s') (snd s'))"
    by (simp only: DeleteCensusTreeFromDatabase_def assms s'(1) Let_def prod.case)
  ultimately show ?thesis by (auto simp only: fst_conv snd_conv map_of_Commit s'(2) length_map split: if_split)
qed

text \<open>Deleting a census removes every entry under its name, leaves every other entry and returns how many it
  removed, with the badger store, and with the pebble store when no entry repeats the name after the name
  (its iteration cuts the prefix twice).\<close>

theorem delete_census:
  assumes "iter = badger_Iterate \<or> iter = pebble_Iterate \<and> (\<forall>e \<in> set d. \<not> prefix (name @ name) (fst e))"
  shows "fst (DeleteCensusTreeFromDatabase iter name d) = length (filter (\<lambda>e. prefix name (fst e)) d) \<and>
    map_of (snd (DeleteCensusTreeFromDatabase iter name d)) q = (if prefix name q then None else map_of d q)"
proof (rule delete_does)
  have b: "bytes_TrimPrefix k name = drop (length name) k" if "prefix name k" for k
    using that by (simp add: bytes_TrimPrefix_def)
  show "Prefixed_Iterate iter name [] (\<lambda>a k v. (a @ [k], True)) [] d =
    map (drop (length name) \<circ> fst) (filter (\<lambda>e. prefix name (fst e)) d)"
  proof (cases "iter = badger_Iterate")
    case True
    then show ?thesis
      using iterate_keys [of "\<lambda>k. bytes_TrimPrefix k name" "[]" "filter (\<lambda>e. prefix name (fst e)) d"]
      by (auto simp: Prefixed_Iterate_def badger_Iterate_def prefixSlice_def b)
  next
    case False
    with assms have p: "iter = pebble_Iterate" and d: "\<And>e. e \<in> set d \<Longrightarrow> \<not> prefix (name @ name) (fst e)" by auto
    have "bytes_TrimPrefix (drop (length name) (fst e)) name = drop (length name) (fst e)"
      if "e \<in> set d" "prefix name (fst e)" for e
      using d [OF that(1)] that(2) by (auto simp: bytes_TrimPrefix_def prefix_drop)
    then show ?thesis
      using iterate_keys [of "\<lambda>k. bytes_TrimPrefix (drop (length name) k) name" "[]" "filter (\<lambda>e. prefix name (fst e)) d"]
      by (auto simp: Prefixed_Iterate_def pebble_Iterate_def prefixSlice_def p in_bounds_prefix)
  qed
qed

theorem delete_census_witness:
  "snd (DeleteCensusTreeFromDatabase pebble_Iterate [1] [([1, 2], [7]), ([3], [8])]) = [([3], [8])]"
proof -
  let ?d = "[([1 :: u8, 2], [7 :: u8]), ([3], [8])]"
  have "\<forall>e \<in> set ?d. \<not> prefix ([1] @ [1]) (fst e)" by simp
  then have "map_of (snd (DeleteCensusTreeFromDatabase pebble_Iterate [1] ?d)) [3] = Some [8] \<and>
    map_of (snd (DeleteCensusTreeFromDatabase pebble_Iterate [1] ?d)) [1, 2] = None"
    using delete_census [of pebble_Iterate ?d "[1]" "[3]"] delete_census [of pebble_Iterate ?d "[1]" "[1, 2]"] by simp
  moreover have "snd (DeleteCensusTreeFromDatabase pebble_Iterate [1] ?d) = [([3], [8])]" by code_simp
  ultimately show ?thesis by simp
qed

section \<open>A concrete environment\<close>

text \<open>Batches add one key after the other and refuse those that are there and the empty ones; a dump is one
  leaf.\<close>

fun seq_batch :: "nat \<Rightarrow> (bytes \<times> bytes) list \<Rightarrow> bytes tree \<Rightarrow> nat list \<times> bytes tree" where
  "seq_batch i [] l = ([], l)"
| "seq_batch i ((k, v) # kvs) l =
     (if k \<in> fst ` set l \<or> v = [] then (let (bad, l') = seq_batch (Suc i) kvs l in (i # bad, l'))
      else seq_batch (Suc i) kvs (l @ [(k, v)]))"

definition census_env0 :: census_env where
  "census_env0 = \<lparr>ce_Hash = (\<lambda>ty b. Ok b), ce_HashLen = (\<lambda>ty. 32), ce_Root = (\<lambda>ty l. Ok (concat (map fst l))),
     ce_Snapshot = (\<lambda>ty r. Ok []),
     ce_AddBatch = (\<lambda>ty l ks vs. Ok (seq_batch 0 (zip ks (map (batch_value vs) [0..<length ks])) l)),
     ce_ImportDump = (\<lambda>ty b l. Ok ((b, b) # l)), ce_Dump = (\<lambda>l. Ok (concat (map fst l))),
     ce_GenProof = (\<lambda>ty l k. Ok ([], [], False)), ce_CheckProof = (\<lambda>ty k v r p. Ok (p = r))\<rparr>"

lemma seq_batch_law:
  "seq_batch i kvs l = (bad, l') \<Longrightarrow>
     distinct bad \<and> set bad \<subseteq> {i..<i + length kvs} \<and>
     mset l' = mset l + mset (map (\<lambda>j. kvs ! (j - i)) (filter (\<lambda>j. j \<notin> set bad) [i..<i + length kvs]))"
proof (induction i kvs l arbitrary: bad l' rule: seq_batch.induct)
  case (2 i k v kvs l)
  have up: "[i..<i + length ((k, v) # kvs)] = i # [Suc i..<Suc i + length kvs]"
    by (subst upt_conv_Cons) (auto simp del: upt_Suc)
  have sh: "map (\<lambda>j. ((k, v) # kvs) ! (j - i)) (filter Q [Suc i..<Suc i + length kvs]) =
      map (\<lambda>j. kvs ! (j - Suc i)) (filter Q [Suc i..<Suc i + length kvs])" for Q
    by (rule map_cong) (auto simp: nth_Cons' simp del: upt_Suc)
  show ?case
  proof (cases "k \<in> fst ` set l \<or> v = []")
    case True
    obtain b' l'' where s: "seq_batch (Suc i) kvs l = (b', l'')" by force
    note IH = "2.IH"(1) [OF True s]
    have b: "bad = i # b'" "l' = l''" using "2.prems" True s by auto
    have f: "filter (\<lambda>j. j \<notin> set bad) [i..<i + length ((k, v) # kvs)] =
        filter (\<lambda>j. j \<notin> set b') [Suc i..<Suc i + length kvs]"
      unfolding up b by (auto intro!: filter_cong simp del: upt_Suc)
    show ?thesis unfolding f sh using IH b by (auto simp del: upt_Suc)
  next
    case False
    then have s: "seq_batch (Suc i) kvs (l @ [(k, v)]) = (bad, l')" using "2.prems" by simp
    note IH = "2.IH"(2) [OF False s]
    then have "i \<notin> set bad" by auto
    then have f: "map (\<lambda>j. ((k, v) # kvs) ! (j - i)) (filter (\<lambda>j. j \<notin> set bad) [i..<i + length ((k, v) # kvs)]) =
        (k, v) # map (\<lambda>j. kvs ! (j - Suc i)) (filter (\<lambda>j. j \<notin> set bad) [Suc i..<Suc i + length kvs])"
      unfolding up by (simp add: sh del: upt_Suc)
    show ?thesis unfolding f using IH by (auto simp del: upt_Suc)
  qed
qed auto

lemma batch_law_env0: "batch_law census_env0"
proof -
  have "distinct bad \<and> set bad \<subseteq> {..<length ks} \<and>
     (\<exists>new. mset l' = mset l + mset new \<and>
        map snd new = map (batch_value vs) (filter (\<lambda>i. i \<notin> set bad) [0..<length ks]) \<and>
        map fst new = map ((!) ks) (filter (\<lambda>i. i \<notin> set bad) [0..<length ks]))"
    if "seq_batch 0 (zip ks (map (batch_value vs) [0..<length ks])) l = (bad, l')" for ks vs l bad l'
  proof -
    let ?kvs = "zip ks (map (batch_value vs) [0..<length ks])" and ?ok = "filter (\<lambda>i. i \<notin> set bad) [0..<length ks]"
    from seq_batch_law [OF that] have "distinct bad" "set bad \<subseteq> {..<length ks}"
      "mset l' = mset l + mset (map ((!) ?kvs) ?ok)" by (auto simp: atLeast0LessThan)
    moreover have "map snd (map ((!) ?kvs) ?ok) = map (batch_value vs) ?ok"
      "map fst (map ((!) ?kvs) ?ok) = map ((!) ks) ?ok" by auto
    ultimately show ?thesis by blast
  qed
  then show ?thesis by (simp add: batch_law_def census_env0_def)
qed

lemma codec_params0 [simp]: "codec params0 n"
  by (simp add: codec_def get_put_le)

text \<open>A census in an empty store, through a batch as the census manager opens it.\<close>

definition tx0 :: WriteTx where "tx0 = NewPrefixedWriteTx (NewBatch RawDB) [99]"

definition store0 :: census_store where "store0 = \<lparr>cs_db = [], cs_leaves = (\<lambda>_. [])\<rparr>"

definition tree0 :: "bool \<Rightarrow> CensusTree" where
  "tree0 asKeys = \<lparr>ct_newTx = tx0, ct_snapshot = None, ct_public = 0, ct_censusType = Census_ARBO_BLAKE2B,
     ct_hashFunc = True, ct_hashLen = 32, ct_indexAsKeys = asKeys\<rparr>"

definition opened0 :: "bool \<Rightarrow> census_store" where
  "opened0 asKeys = snd (New_Census params0 census_env0 tx0 Census_ARBO_BLAKE2B asKeys store0)"

lemma tx0_sel [simp]: "tx_ok tx0" "tx_log tx0 = []" "tx_path tx0 = [99]" "n < 1048576 \<Longrightarrow> room n tx0"
  by (simp_all add: tx0_def NewBatch_def DefaultBatchMaxSize_def)

lemma New_store0:
  "New_Census params0 census_env0 tx0 Census_ARBO_BLAKE2B asKeys store0 = (Ok (tree0 asKeys), opened0 asKeys)"
proof -
  have e: "look_tx (tx0, cs_db store0) = Map.empty" by (simp add: look_tx_def tx_view_def store0_def fun_eq_iff)
  have "\<exists>t c. New_Census params0 census_env0 tx0 Census_ARBO_BLAKE2B asKeys store0 = (Ok t, c)"
  proof -
    obtain s where s: "set_key isIndexAsKeysCensus (if asKeys then [255] else [0]) (tx0, cs_db store0) = (Ok (), s)"
      using write_key_evolve [of "(tx0, cs_db store0)"] by (metis fst_conv tx0_sel(1))
    obtain d where "ensure_index params0 (tree0 asKeys) (Tx_Commit (fst s)) (store0\<lparr>cs_db := snd s\<rparr>) =
        (Ok (tree0 asKeys), store0\<lparr>cs_db := Tx_Commit (fst s) d\<rparr>)"
      using ensure_index_does [of "tree0 asKeys" params0 "Tx_Commit (fst s)" "store0\<lparr>cs_db := snd s\<rparr>"]
      by (auto simp: fresh_def tree0_def)
    then show ?thesis using s by (simp add: New_Census_def get_opt_look e tree0_def census_env0_def Let_def)
  qed
  then obtain t c where n: "New_Census params0 census_env0 tx0 Census_ARBO_BLAKE2B asKeys store0 = (Ok t, c)" by blast
  have "t = tree0 asKeys"
    using New_outcome [OF n] n e
    by (auto simp: New_Census_def get_opt_look Let_def ensure_index_def tree0_def census_env0_def split: prod.splits res.splits)
  then show ?thesis using n by (simp add: opened0_def)
qed

lemma store0_look: "look_tx (tx0, cs_db store0) = Map.empty"
  by (simp add: look_tx_def tx_view_def store0_def fun_eq_iff)

lemma tree0_sel [simp]:
  "ct_newTx (tree0 k) = tx0" "ct_snapshot (tree0 k) = None" "ct_censusType (tree0 k) = Census_ARBO_BLAKE2B"
  "ct_hashLen (tree0 k) = 32" "ct_indexAsKeys (tree0 k) = k"
  by (simp_all add: tree0_def)

lemma opened0_outcome:
  "fresh (tree0 k)" "ct_leaves (tree0 k) (opened0 k) = []"
  "look_tx (ct_begin (tree0 k) (opened0 k)) censusIndexKey = Some (put_le 32 0)"
  "look_tx (ct_begin (tree0 k) (opened0 k)) censusWeightKey = None"
  using New_outcome [OF New_store0 [of k], unfolded store0_look]
  by (simp_all add: Let_def ct_begin_def ct_leaves_def census_env0_def) (simp add: store0_def)

theorem census_totals_witness:
  "\<exists>c. CensusTree_Add params0 [7] (Some [5]) (tree0 False) (opened0 False) = (Ok (), c) \<and>
       GetCensusIndex params0 (tree0 False) c = Ok 1 \<and> GetCensusWeight params0 (tree0 False) c = Ok 5"
proof -
  let ?t = "tree0 False"
  have "add_tree params0 ?t [7] (Some [5]) (opened0 False) = Ok [([7], [5])]"
    by (simp add: opened0_outcome add_leaf_def tree_add_def Tree_Add_def nLevels_def)
  from Add_ok [OF _ _ _ this] obtain c where a: "CensusTree_Add params0 [7] (Some [5]) ?t (opened0 False) = (Ok (), c)"
    and l: "ct_leaves ?t c = [([7], [5])]"
    by auto
  have "census_run params0 census_env0 ?t (opened0 False) c" by (rule run_Add [OF run_start a])
  moreover have "census_fits params0 ?t (ct_leaves ?t c)" by (simp add: l census_fits_def)
  ultimately show ?thesis
    using census_totals [OF New_store0 _ _ _ _ store0_look _ batch_law_env0, of False c] a l
    by (simp add: store0_def)
qed


lemma AddBatch_indexed_ok:
  assumes ok: "tx_ok (ct_newTx t)" and z: "arbo_BytesToBigInt P [] = 0" and i: "ct_indexAsKeys t"
    and a: "(case batch_leaves P t keys None (look_tx (ct_begin t c)) of (ks, vs) \<Rightarrow>
      ce_AddBatch E (ct_censusType t) (ct_leaves t c) ks vs) = Ok (bad, l)"
  shows "\<exists>c'. CensusTree_AddBatch P E keys None t c = (Ok bad, c')"
proof -
  obtain s1 where r: "rewrite_batch P keys None t c = (Ok (batch_leaves P t keys None (look_tx (ct_begin t c))), s1)"
    and e: "evolve (length keys) (ct_begin t c) s1"
    using rewrite_outcome [where P = P and t = t and c = c and keys = keys and vals = None, OF ok z] by blast
  obtain s2 where "updateCensusIndex P t (word_of_int (int (length keys) - int (length bad))) s1 =
      (Ok (of_nat (index_of P (look_tx s1))), s2)"
    by (rule updateCensusIndex_does [OF evolve_ok [OF e] z])
  then show ?thesis using r a by (auto simp: CensusTree_AddBatch_def weigh_batch_def split: prod.splits)
qed

lemma opened0_indexed: "indexed_inv params0 (tree0 True) (opened0 True)"
  by (simp add: indexed_inv_def Let_def opened0_outcome get_put_le)

theorem invalid_key_blocks_census_witness:
  "\<exists>c' e. CensusTree_AddBatch params0 census_env0 [[], [8]] None (tree0 True) (opened0 True) = (Ok [0], c') \<and>
          CensusTree_Add params0 [9] None (tree0 True) c' = (Fail e, c')"
proof -
  let ?t = "tree0 True" and ?ks = "batch_keys 0 [[] :: bytes, [8]]"
  have "batch_leaves params0 ?t [[], [8]] None (look_tx (ct_begin ?t (opened0 True))) = (?ks, Some [[], [8]])"
    by (simp add: batch_leaves_def opened0_outcome get_put_le)
  moreover have "ce_AddBatch census_env0 Census_ARBO_BLAKE2B [] ?ks (Some [[], [8]]) = Ok ([0], [(?ks ! 1, [8])])"
    by (simp add: census_env0_def batch_value_def)
  ultimately obtain c' where a: "CensusTree_AddBatch params0 census_env0 [[], [8]] None ?t (opened0 True) = (Ok [0], c')"
    using AddBatch_indexed_ok [where t = ?t and P = params0 and keys = "[[], [8]]" and c = "opened0 True" and
        E = census_env0 and bad = "[0]" and l = "[(?ks ! 1, [8])]"]
    by (auto simp: opened0_outcome)
  have "codec params0 (ct_hashLen ?t)" "room 3 (ct_newTx ?t)" by simp_all
  from invalid_key_blocks_census [OF opened0_indexed this(1) batch_law_env0 this(2) a, of "[9]" None] a
  show ?thesis by (simp add: opened0_outcome)
qed

theorem import_totals_witness:
  "\<exists>c'. CensusTree_ImportDump params0 census_env0 [5] (tree0 False) (opened0 False) = (Ok (), c') \<and>
        ct_leaves (tree0 False) c' = [([5], [5])] \<and> GetCensusWeight params0 (tree0 False) c' = Ok 5 \<and>
        GetCensusIndex params0 (tree0 False) c' = Ok 0"
proof -
  let ?t = "tree0 False" and ?c = "opened0 False"
  have l: "ce_ImportDump census_env0 Census_ARBO_BLAKE2B [5] (ct_leaves ?t ?c) = Ok [([5], [5])]"
    by (simp add: census_env0_def opened0_outcome)
  have ok: "tx_ok (fst (ct_begin ?t ?c))" by (simp add: ct_begin_def)
  have w: "leaves_weight params0 [([5], [5])] = 5" by (simp add: leaves_weight_def)
  obtain s where "updateCensusWeight params0 ?t (CensusTree_BigIntToBytes params0 ?t (int 5)) (ct_begin ?t ?c) = (Ok (), s)"
    by (rule updateCensusWeight_does [OF ok])
  then obtain c' where a: "CensusTree_ImportDump params0 census_env0 [5] ?t ?c = (Ok (), c')" "ct_leaves ?t c' = [([5], [5])]"
    using l w by (simp add: CensusTree_ImportDump_def Let_def wrap_st_def)
  have "codec params0 (ct_hashLen ?t)" "census_fits params0 ?t (ct_leaves ?t c')"
    by (simp_all add: a census_fits_def)
  from import_totals [OF a(1) opened0_outcome(1) _ this] a show ?thesis
    by (simp add: opened0_outcome GetCensusIndex_look get_put_le)
qed

end
