(* ===== verification/Census_Manager.thy ===== *)
theory Census_Manager
  imports Census_Tree "HOL-Library.AList"
begin

text \<open>
  The census manager (\<^verbatim>\<open>src/census\<close>): the namespaces and the trees of the censuses of the node
  (\<^verbatim>\<open>census.go\<close>), the requests of its API (\<^verbatim>\<open>handler.go\<close>) and the import of published censuses
  (\<^verbatim>\<open>importqueue.go\<close>). All censuses share one database through batches; a tree is opened under the name of
  its namespace. The file of the namespaces, the remote storage, zstd and JSON are fields of
  \<open>manager_env\<close>. Names and other strings are byte strings. The map of the trees is an association list, in
  the order in which it is iterated over. A response that comes with an error is dropped by the caller and
  left out.
\<close>

section \<open>State\<close>

record Namespace =
  ns_Type :: census_type
  ns_Name :: bytes
  ns_Keys :: "bytes list"
  ns_Version :: int

record Manager =
  m_store :: census_store
  m_Namespaces :: "Namespace list"
  m_Trees :: "(bytes \<times> CensusTree) list"
  m_failedQueue :: "(bytes \<times> bytes) list"
  m_queueSize :: "32 word"

record CensusDump =
  cd_Type :: census_type
  cd_RootHash :: bytes
  cd_Data :: bytes

record manager_env =
  me_census :: census_env
  me_save :: "Namespace list \<Rightarrow> unit res"
  me_RemoteStorage :: bool
  me_URIprefix :: bytes
  me_Retrieve :: "bytes \<Rightarrow> bytes res"
  me_IsTimeout :: "err \<Rightarrow> bool"
  me_Publish :: "bytes \<Rightarrow> bytes res"
  me_DecodeAll :: "bytes \<Rightarrow> bytes option"
  me_EncodeAll :: "bytes \<Rightarrow> bytes"
  me_UnmarshalDump :: "bytes \<Rightarrow> CensusDump option"
  me_MarshalDump :: "CensusDump \<Rightarrow> bytes res"

definition ErrNamespaceExist :: err where "ErrNamespaceExist = Errf ''namespace already exists''"

definition CurrentCensusVersion :: int where "CurrentCensusVersion = 1"

text \<open>A transaction of the database of the manager, and of the database of one census under its prefix.\<close>

definition DBBatched_WriteTx :: WriteTx where "DBBatched_WriteTx = NewBatch RawDB"

definition census_tx :: "bytes \<Rightarrow> WriteTx" where
  "census_tx name = NewPrefixedWriteTx DBBatched_WriteTx name"

text \<open>An operation on the store of the manager.\<close>

definition on_store :: "(census_store \<Rightarrow> 'a res \<times> census_store) \<Rightarrow> Manager \<Rightarrow> 'a res \<times> Manager" where
  "on_store f m = (let (r, c) = f (m_store m) in (r, m\<lparr>m_store := c\<rparr>))"

definition set_tree :: "bytes \<Rightarrow> CensusTree \<Rightarrow> Manager \<Rightarrow> Manager" where
  "set_tree name t m = m\<lparr>m_Trees := AList.update name t (m_Trees m)\<rparr>"

section \<open>Namespaces and trees\<close>

definition Exists :: "bytes \<Rightarrow> Manager \<Rightarrow> bool" where
  "Exists name m = list_ex (\<lambda>ns. name = ns_Name ns) (m_Namespaces m)"

definition LoadTree ::
  "params \<Rightarrow> manager_env \<Rightarrow> bytes \<Rightarrow> census_type \<Rightarrow> Manager \<Rightarrow> CensusTree res \<times> Manager" where
  "LoadTree P M name ty m =
     (case map_of (m_Trees m) name of
        Some t \<Rightarrow> (Ok t, m)
      | None \<Rightarrow>
          and_then (on_store (New_Census P (me_census M) (census_tx name) ty False) m) (\<lambda>t m.
            (Ok (Publish t), set_tree name (Publish t) m)))"

definition UnloadTree :: "bytes \<Rightarrow> Manager \<Rightarrow> Manager" where
  "UnloadTree name m = m\<lparr>m_Trees := AList.delete name (m_Trees m)\<rparr>"

definition save :: "manager_env \<Rightarrow> Manager \<Rightarrow> unit res" where
  "save M m = me_save M (m_Namespaces m)"

definition AddNamespace ::
  "params \<Rightarrow> manager_env \<Rightarrow> bytes \<Rightarrow> census_type \<Rightarrow> bytes list \<Rightarrow> Manager \<Rightarrow> CensusTree res \<times> Manager" where
  "AddNamespace P M name ty authPubKeys m =
     (if Exists name m then (Fail ErrNamespaceExist, m)
      else and_then (on_store (New_Census P (me_census M) (census_tx name) ty False) m) (\<lambda>t m.
        let m = set_tree name t m;
            m = m\<lparr>m_Namespaces := m_Namespaces m @
                   [\<lparr>ns_Type = ty, ns_Name = name, ns_Keys = authPubKeys, ns_Version = CurrentCensusVersion\<rparr>]\<rparr>
        in (rbind (save M m) (\<lambda>_. Ok t), m)))"

fun del_namespace :: "bytes \<Rightarrow> Namespace list \<Rightarrow> Namespace list" where
  "del_namespace name [] = []"
| "del_namespace name (ns # nss) = (if ns_Name ns = name then nss else ns # del_namespace name nss)"

definition DelNamespace :: "manager_env \<Rightarrow> bytes \<Rightarrow> Manager \<Rightarrow> unit res \<times> Manager" where
  "DelNamespace M name m =
     (if length name = 0 then (Fail (Errf ''no valid namespace provided''), m)
      else if \<not> Exists name m then (Ok (), m)
      else let m = m\<lparr>m_Namespaces := del_namespace name (m_Namespaces m)\<rparr> in (save M m, m))"

definition Manager_Count :: "Manager \<Rightarrow> nat \<times> nat \<times> nat" where
  "Manager_Count m =
     (length (filter (\<lambda>ns. slash \<in> set (ns_Name ns)) (m_Namespaces m)),
      length (filter (\<lambda>ns. slash \<notin> set (ns_Name ns)) (m_Namespaces m)),
      length (m_Trees m))"

text \<open>The index of the keys of an imported Poseidon census, in the database of the manager.\<close>

definition keyCensusKeyIndex :: "bytes \<Rightarrow> bytes \<Rightarrow> bytes" where
  "keyCensusKeyIndex censusID key = path_Join [str ''key'', censusID, key]"

definition keyCensusLen :: "bytes \<Rightarrow> bytes" where
  "keyCensusLen censusID = path_Join [censusID, str ''len'']"

fun store_indexes :: "bytes \<Rightarrow> (bytes \<times> bytes) list \<Rightarrow> tx_state \<Rightarrow> unit res \<times> tx_state" where
  "store_indexes censusID [] s = (Ok (), s)"
| "store_indexes censusID ((indexLE, key) # rest) s =
     and_then (wrap_st ''error storing census key index by key: %w''
                 (set_key (keyCensusKeyIndex censusID key) indexLE s)) (\<lambda>_ s. store_indexes censusID rest s)"

definition Manager_fillKeyToIndex ::
  "params \<Rightarrow> bytes \<Rightarrow> CensusTree \<Rightarrow> census_store \<Rightarrow> unit res \<times> census_store" where
  "Manager_fillKeyToIndex P censusID t c =
     (let indexKeys = collect_leaves P (ct_leaves t c)
      in case and_then (store_indexes censusID indexKeys (DBBatched_WriteTx, cs_db c)) (\<lambda>_ s.
                set_key (keyCensusLen censusID) (PutUint64LE (of_nat (length indexKeys))) s) of
           (Ok _, s) \<Rightarrow> (Ok (), c\<lparr>cs_db := Tx_Commit (fst s) (snd s)\<rparr>)
         | (Fail e, s) \<Rightarrow> (Fail e, ct_discard s c)
         | (Panic x, s) \<Rightarrow> (Panic x, ct_discard s c))"

definition KeyToIndex :: "bytes \<Rightarrow> bytes \<Rightarrow> Manager \<Rightarrow> bytes res" where
  "KeyToIndex censusID key m =
     (case map_of (m_Trees m) censusID of
        None \<Rightarrow> Fail (Errf ''census tree not loaded'')
      | Some t \<Rightarrow>
          if ct_censusType t \<noteq> Census_ARBO_POSEIDON
          then Fail (Errf ''expected Tree type to be Census_ARBO_POSEIDON, found %v'')
          else get_tx (keyCensusKeyIndex censusID key) (DBBatched_WriteTx, cs_db (m_store m)))"

section \<open>Imports\<close>

definition isZstd :: "bytes \<Rightarrow> bool" where
  "isZstd src = (4 \<le> length src \<and> src ! 0 = 0x28 \<and> src ! 1 = 0xB5 \<and> src ! 2 = 0x2f \<and> src ! 3 = 0xFD)"

definition decompressBytes :: "manager_env \<Rightarrow> bytes \<Rightarrow> bytes" where
  "decompressBytes M src = (if \<not> isZstd src then src else bz (me_DecodeAll M src))"

definition TrimHex :: "bytes \<Rightarrow> bytes" where
  "TrimHex s = (if 2 \<le> length s \<and> s ! 0 = 48 \<and> (s ! 1 = 120 \<or> s ! 1 = 88) then drop 2 s else s)"

definition slice_from :: "bytes \<Rightarrow> nat \<Rightarrow> bytes res" where
  "slice_from b n = (if n \<le> length b then Ok (drop n b) else Panic ''slice bounds out of range'')"

definition index_imported :: "params \<Rightarrow> bytes \<Rightarrow> census_type \<Rightarrow> CensusTree \<Rightarrow> Manager \<Rightarrow> unit res \<times> Manager" where
  "index_imported P censusID typ tr m =
     (if typ = Census_ARBO_POSEIDON
      then wrap_st ''error filling keyToIndex: %w'' (on_store (Manager_fillKeyToIndex P censusID tr) m)
      else (Ok (), m))"

text \<open>A tree is published in place: the map holds a pointer to it.\<close>

definition Manager_ImportDump ::
  "params \<Rightarrow> manager_env \<Rightarrow> bytes \<Rightarrow> census_type \<Rightarrow> bytes \<Rightarrow> bytes \<Rightarrow> Manager \<Rightarrow> CensusTree res \<times> Manager" where
  "Manager_ImportDump P M censusID typ dumpRoot dat m =
     and_then (wrap_st ''cannot create new census namespace: %w'' (AddNamespace P M censusID typ [] m)) (\<lambda>tr m.
     and_then (wrap_st ''error importing dump: %w''
                 (on_store (CensusTree_ImportDump P (me_census M) dat tr) m)) (\<lambda>_ m.
     with_res (wrap ''error importing dump: %w'' (CensusTree_Root (me_census M) tr (m_store m))) m (\<lambda>root.
       if root \<noteq> dumpRoot
       then (Fail (Errf ''root hash does not match imported census, aborting import.  %x (expected) != %x (got)''),
             snd (DelNamespace M censusID m))
       else and_then (index_imported P censusID typ tr m)
              (\<lambda>_ m. (Ok (Publish tr), set_tree censusID (Publish tr) m)))))"

definition importTree :: "params \<Rightarrow> manager_env \<Rightarrow> bytes \<Rightarrow> bytes \<Rightarrow> Manager \<Rightarrow> unit res \<times> Manager" where
  "importTree P M tree cid m =
     (case me_UnmarshalDump M tree of
        None \<Rightarrow> (Fail (Errf ''retrieved census does not have a valid format: (%s)''), m)
      | Some dump \<Rightarrow>
          if str (hex (cd_RootHash dump)) \<noteq> TrimHex cid
          then (Fail (Errf ''dump root Hash and census ID root hash do not match, aborting import''), m)
          else if length (cd_Data dump) = 0
          then (Fail (Errf ''no claims found on the retreived census''), m)
          else case Manager_ImportDump P M cid (cd_Type dump) (cd_RootHash dump) (cd_Data dump) m of
                 (Ok _, m') \<Rightarrow> (Ok (), m')
               | (Fail e, m') \<Rightarrow> (if errors_is e ErrNamespaceExist then Ok () else Fail e, m')
               | (Panic x, m') \<Rightarrow> (Panic x, m'))"

definition Retrieve_uri :: "manager_env \<Rightarrow> bytes \<Rightarrow> bytes res" where
  "Retrieve_uri M uri = rbind (slice_from uri (length (me_URIprefix M))) (me_Retrieve M)"

text \<open>The errors of an import are logged; a panic stops the program.\<close>

fun logged :: "unit res \<times> Manager \<Rightarrow> unit res \<times> Manager" where
  "logged (Panic x, m) = (Panic x, m)"
| "logged (r, m) = (Ok (), m)"

definition handleImport :: "params \<Rightarrow> manager_env \<Rightarrow> bytes \<Rightarrow> bytes \<Rightarrow> Manager \<Rightarrow> unit res \<times> Manager" where
  "handleImport P M cid uri m =
     (if Exists cid m then (Ok (), m)
      else let m = m\<lparr>m_queueSize := m_queueSize m + 1\<rparr>
           in case Retrieve_uri M uri of
                Panic x \<Rightarrow> (Panic x, m)
              | Fail e \<Rightarrow>
                  let m = (if me_IsTimeout M e then m\<lparr>m_failedQueue := AList.update cid uri (m_failedQueue m)\<rparr> else m)
                  in (Ok (), m\<lparr>m_queueSize := m_queueSize m - 1\<rparr>)
              | Ok censusRaw \<Rightarrow>
                  and_then (logged (importTree P M (decompressBytes M censusRaw) cid m)) (\<lambda>_ m.
                    (Ok (), m\<lparr>m_queueSize := m_queueSize m - 1\<rparr>)))"

text \<open>The retries run over a copy of the queue.\<close>

fun retry_imports ::
  "params \<Rightarrow> manager_env \<Rightarrow> (bytes \<times> bytes) list \<Rightarrow> Manager \<Rightarrow> unit res \<times> Manager" where
  "retry_imports P M [] m = (Ok (), m)"
| "retry_imports P M ((cid, uri) # fq) m =
     (case Retrieve_uri M uri of
        Panic x \<Rightarrow> (Panic x, m)
      | Fail e \<Rightarrow> retry_imports P M fq m
      | Ok censusRaw \<Rightarrow>
          and_then (logged (importTree P M (decompressBytes M censusRaw) cid m)) (\<lambda>_ m.
            retry_imports P M fq (m\<lparr>m_failedQueue := AList.delete cid (m_failedQueue m)\<rparr>)))"

definition handleImportFailedQueue :: "params \<Rightarrow> manager_env \<Rightarrow> Manager \<Rightarrow> unit res \<times> Manager" where
  "handleImportFailedQueue P M m = retry_imports P M (m_failedQueue m) m"

section \<open>Requests\<close>

record APIrequest =
  r_Method :: string
  r_CensusID :: bytes
  r_CensusType :: census_type
  r_PubKeys :: "bytes list"
  r_CensusKeys :: "bytes list"
  r_CensusKey :: "bytes option"
  r_CensusValue :: "bytes option"
  r_Weights :: "int list"
  r_Weight :: "int option"
  r_Digested :: bool
  r_RootHash :: bytes
  r_CensusDump :: bytes
  r_URI :: bytes
  r_ProofData :: bytes

record APIresponse =
  ar_Root :: bytes
  ar_CensusID :: bytes
  ar_CensusList :: "bytes list"
  ar_InvalidClaims :: "nat list"
  ar_ValidProof :: "bool option"
  ar_Siblings :: bytes
  ar_CensusValue :: bytes
  ar_Weight :: "nat option"
  ar_Size :: "64 word option"
  ar_CensusDump :: bytes
  ar_URI :: bytes

definition resp0 :: APIresponse where
  "resp0 = \<lparr>ar_Root = [], ar_CensusID = [], ar_CensusList = [], ar_InvalidClaims = [], ar_ValidProof = None,
     ar_Siblings = [], ar_CensusValue = [], ar_Weight = None, ar_Size = None, ar_CensusDump = [], ar_URI = []\<rparr>"

type_synonym handler = "APIresponse res \<times> Manager"

definition invalid_auth :: err where "invalid_auth = Errf ''invalid authentication''"

definition h_addCensus :: "params \<Rightarrow> manager_env \<Rightarrow> APIrequest \<Rightarrow> bytes \<Rightarrow> Manager \<Rightarrow> handler" where
  "h_addCensus P M r censusPrefix m =
     (let ty = (if r_CensusType r = Census_UNKNOWN then Census_ARBO_BLAKE2B else r_CensusType r);
          name = censusPrefix @ r_CensusID r
      in if ty \<noteq> Census_ARBO_BLAKE2B \<and> ty \<noteq> Census_ARBO_POSEIDON
         then (Fail (Errf ''census type not supported: %s''), m)
         else and_then (AddNamespace P M name ty (r_PubKeys r) m) (\<lambda>t m.
                (Ok (resp0\<lparr>ar_CensusID := name\<rparr>), set_tree name (Publish t) m)))"

definition with_root :: "manager_env \<Rightarrow> CensusTree \<Rightarrow> APIresponse \<Rightarrow> Manager \<Rightarrow> handler" where
  "with_root M tr resp m =
     with_res (CensusTree_Root (me_census M) tr (m_store m)) m (\<lambda>root. (Ok (resp\<lparr>ar_Root := root\<rparr>), m))"

fun hash_keys :: "census_env \<Rightarrow> CensusTree \<Rightarrow> bytes list \<Rightarrow> bytes list res" where
  "hash_keys E tr [] = Ok []"
| "hash_keys E tr (k # ks) =
     rbind (wrap ''error hashig key: %w'' (CensusTree_Hash E tr k)) (\<lambda>hk. rbind (hash_keys E tr ks) (\<lambda>hks. Ok (hk # hks)))"

text \<open>Appending nothing to a nil slice leaves it nil.\<close>

definition h_addClaimBulk ::
  "params \<Rightarrow> manager_env \<Rightarrow> APIrequest \<Rightarrow> bool \<Rightarrow> CensusTree \<Rightarrow> Manager \<Rightarrow> handler" where
  "h_addClaimBulk P M r validAuthPrefix tr m =
     (if \<not> validAuthPrefix then (Fail invalid_auth, m)
      else if 0 < length (r_Weights r) \<and> length (r_Weights r) \<noteq> length (r_CensusKeys r)
      then (Fail (Errf ''weights and censusKeys have different size''), m)
      else with_res (if \<not> r_Digested r then hash_keys (me_census M) tr (r_CensusKeys r) else Ok (r_CensusKeys r)) m
        (\<lambda>batchKeys.
          let ws = (if 0 < length (r_Weights r) then r_Weights r else replicate (length (r_CensusKeys r)) 1);
              batchValues = (if ws = [] then None else Some (map (CensusTree_BigIntToBytes P tr) ws))
          in and_then (on_store (CensusTree_AddBatch P (me_census M) batchKeys batchValues tr) m) (\<lambda>invalidClaims m.
               with_root M tr (resp0\<lparr>ar_InvalidClaims := invalidClaims\<rparr>) m)))"

definition digest :: "census_env \<Rightarrow> APIrequest \<Rightarrow> CensusTree \<Rightarrow> bytes res" where
  "digest E r tr =
     (if r_Digested r then Ok (bz (r_CensusKey r))
      else wrap ''error digesting data: %w'' (CensusTree_Hash E tr (bz (r_CensusKey r))))"

definition h_addClaim :: "params \<Rightarrow> manager_env \<Rightarrow> APIrequest \<Rightarrow> bool \<Rightarrow> CensusTree \<Rightarrow> Manager \<Rightarrow> handler" where
  "h_addClaim P M r validAuthPrefix tr m =
     (if \<not> validAuthPrefix then (Fail invalid_auth, m)
      else if r_CensusKey r = None then (Fail (Errf ''error decoding claim data''), m)
      else with_res (digest (me_census M) r tr) m (\<lambda>key.
        let val = CensusTree_BigIntToBytes P tr (case r_Weight r of None \<Rightarrow> 1 | Some w \<Rightarrow> w)
        in and_then (on_store (CensusTree_Add P key (Some val) tr) m) (\<lambda>_ m. with_root M tr resp0 m)))"

definition h_importDump :: "params \<Rightarrow> manager_env \<Rightarrow> APIrequest \<Rightarrow> bool \<Rightarrow> CensusTree \<Rightarrow> Manager \<Rightarrow> handler" where
  "h_importDump P M r validAuthPrefix tr m =
     (if \<not> validAuthPrefix then (Fail invalid_auth, m)
      else if 0 < length (r_CensusKeys r)
      then and_then (on_store (CensusTree_ImportDump P (me_census M) (r_CensusDump r) tr) m) (\<lambda>_ m. (Ok resp0, m))
      else (Ok resp0, m))"

definition h_importRemote :: "params \<Rightarrow> manager_env \<Rightarrow> APIrequest \<Rightarrow> bool \<Rightarrow> CensusTree \<Rightarrow> Manager \<Rightarrow> handler" where
  "h_importRemote P M r validAuthPrefix tr m =
     (if \<not> validAuthPrefix then (Fail invalid_auth, m)
      else if \<not> me_RemoteStorage M then (Fail (Errf ''import remote storage not supported''), m)
      else if \<not> prefix (me_URIprefix M) (r_URI r) \<or> length (r_URI r) \<le> length (me_URIprefix M)
      then (Fail (Errf ''URI not supported''), m)
      else with_res (hide ''cannot retrieve census'' (me_Retrieve M (drop (length (me_URIprefix M)) (r_URI r)))) m
        (\<lambda>censusRaw.
          case me_UnmarshalDump M (decompressBytes M censusRaw) of
            None \<Rightarrow> (Fail (Errf ''retrieved census do not have a correct format''), m)
          | Some dump \<Rightarrow>
              if 0 < length (cd_Data dump)
              then and_then (hide_st ''error importing census''
                     (on_store (CensusTree_ImportDump P (me_census M) (cd_Data dump) tr) m)) (\<lambda>_ m. (Ok resp0, m))
              else (Fail (Errf ''no claims found''), m)))"

definition request_root :: "manager_env \<Rightarrow> APIrequest \<Rightarrow> CensusTree \<Rightarrow> Manager \<Rightarrow> bytes res" where
  "request_root M r tr m =
     (if length (r_RootHash r) < 1 then CensusTree_Root (me_census M) tr (m_store m) else Ok (r_RootHash r))"

definition h_checkProof :: "params \<Rightarrow> manager_env \<Rightarrow> APIrequest \<Rightarrow> CensusTree \<Rightarrow> Manager \<Rightarrow> APIresponse res" where
  "h_checkProof P M r tr m =
     (if length (r_ProofData r) < 1 then Fail (Errf ''proofData not provided'')
      else rbind (request_root M r tr m) (\<lambda>root.
           rbind (digest (me_census M) r tr) (\<lambda>key.
             let val = (case r_CensusValue r of None \<Rightarrow> CensusTree_BigIntToBytes P tr 1 | Some v \<Rightarrow> v)
             in rbind (CensusTree_VerifyProof (me_census M) key val (r_ProofData r) (Some root) tr (m_store m))
                  (\<lambda>valid. Ok (resp0\<lparr>ar_ValidProof := Some valid\<rparr>)))))"

definition h_genProof :: "params \<Rightarrow> manager_env \<Rightarrow> APIrequest \<Rightarrow> CensusTree \<Rightarrow> Manager \<Rightarrow> APIresponse res" where
  "h_genProof P M r tr m =
     rbind (digest (me_census M) r tr) (\<lambda>key.
     rbind (if ct_censusType tr = Census_ARBO_POSEIDON
            then rbind (KeyToIndex (r_CensusID r) key m) (\<lambda>index. Ok (index, index))
            else Ok (key, [])) (\<lambda>(key, proofPrefix).
     rbind (CensusTree_GenProof (me_census M) key tr (m_store m)) (\<lambda>(leafV, siblings).
       let resp = resp0\<lparr>ar_Siblings := (if length proofPrefix \<noteq> 0 then proofPrefix @ siblings else siblings)\<rparr>
       in Ok (if 0 < length leafV
              then resp\<lparr>ar_CensusValue := leafV, ar_Weight := Some (arbo_BytesToBigInt P leafV)\<rparr>
              else resp))))"

definition h_dump :: "manager_env \<Rightarrow> APIrequest \<Rightarrow> bool \<Rightarrow> CensusTree \<Rightarrow> Manager \<Rightarrow> APIresponse res" where
  "h_dump M r validAuthPrefix tr m =
     (if \<not> validAuthPrefix then Fail invalid_auth
      else rbind (request_root M r tr m) (\<lambda>root.
           rbind (FromRoot (me_census M) root tr) (\<lambda>snapshot.
           rbind (CensusTree_Dump (me_census M) snapshot (m_store m)) (\<lambda>d.
             Ok (resp0\<lparr>ar_CensusDump := d\<rparr>)))))"

text \<open>The published census gets a namespace of its own, named by its root; failing to create it is only
  logged.\<close>

definition publish_local ::
  "params \<Rightarrow> manager_env \<Rightarrow> APIrequest \<Rightarrow> bytes \<Rightarrow> census_type \<Rightarrow> bytes \<Rightarrow> Manager \<Rightarrow> unit res \<times> Manager" where
  "publish_local P M r name ty dat m =
     (case AddNamespace P M name ty (r_PubKeys r) m of
        (Panic x, m) \<Rightarrow> (Panic x, m)
      | (Fail e, m) \<Rightarrow> (Ok (), m)
      | (Ok tr2, m) \<Rightarrow>
          (case on_store (CensusTree_ImportDump P (me_census M) dat tr2) m of
             (Ok _, m) \<Rightarrow> (Ok (), set_tree name (Publish tr2) m)
           | (Fail e, m) \<Rightarrow> (Fail e, snd (DelNamespace M name m))
           | (Panic x, m) \<Rightarrow> (Panic x, m)))"

definition h_publish :: "params \<Rightarrow> manager_env \<Rightarrow> APIrequest \<Rightarrow> bool \<Rightarrow> CensusTree \<Rightarrow> Manager \<Rightarrow> handler" where
  "h_publish P M r validAuthPrefix tr m =
     (if \<not> validAuthPrefix then (Fail invalid_auth, m)
      else if \<not> me_RemoteStorage M then (Fail (Errf ''not supported''), m)
      else with_res (CensusTree_Root (me_census M) tr (m_store m)) m (\<lambda>root.
           with_res (FromRoot (me_census M) root tr) m (\<lambda>snapshot.
           with_res (CensusTree_Dump (me_census M) snapshot (m_store m)) m (\<lambda>dat.
           with_res (me_MarshalDump M \<lparr>cd_Type = ct_censusType tr, cd_RootHash = root, cd_Data = dat\<rparr>) m (\<lambda>dumpBytes.
           with_res (me_Publish M (me_EncodeAll M dumpBytes)) m (\<lambda>cid.
           and_then (publish_local P M r (str (hex root)) (ct_censusType tr) dat m) (\<lambda>_ m.
             (Ok (resp0\<lparr>ar_URI := me_URIprefix M @ cid, ar_Root := root\<rparr>), m))))))))"

text \<open>The methods that need no root, and those that read a snapshot when a root is given.\<close>

definition h_rooted :: "params \<Rightarrow> manager_env \<Rightarrow> APIrequest \<Rightarrow> bool \<Rightarrow> CensusTree \<Rightarrow> Manager \<Rightarrow> handler" where
  "h_rooted P M r validAuthPrefix tr m =
     with_res (if 1 < length (r_RootHash r)
               then hide ''cannot fetch snapshot for root'' (FromRoot (me_census M) (r_RootHash r) tr) else Ok tr) m
       (\<lambda>tr.
         if r_Method r = ''genProof'' then (h_genProof P M r tr m, m)
         else if r_Method r = ''getSize'' then (Ok (resp0\<lparr>ar_Size := Some (CensusTree_Size tr (m_store m))\<rparr>), m)
         else if r_Method r = ''getCensusWeight''
         then (rbind (GetCensusWeight P tr (m_store m)) (\<lambda>w. Ok (resp0\<lparr>ar_Weight := Some w\<rparr>)), m)
         else if r_Method r = ''dumpPlain'' then (Fail (Errf ''dumpPlain is deprecated, dump should be used instead''), m)
         else if r_Method r = ''dump'' then (h_dump M r validAuthPrefix tr m, m)
         else if r_Method r = ''publish'' then h_publish P M r validAuthPrefix tr m
         else (Ok resp0, m))"

definition Manager_Handler :: "params \<Rightarrow> manager_env \<Rightarrow> APIrequest \<Rightarrow> bytes \<Rightarrow> Manager \<Rightarrow> handler" where
  "Manager_Handler P M r0 censusPrefix m =
     (let r = r0\<lparr>r_CensusID := TrimHex (r_CensusID r0)\<rparr>;
          validAuthPrefix = (length censusPrefix = 0 \<or> prefix censusPrefix (r_CensusID r))
      in if r_Method r = ''addCensus'' then h_addCensus P M r censusPrefix m
         else if r_Method r = ''getCensusList'' then (Ok (resp0\<lparr>ar_CensusList := map fst (m_Trees m)\<rparr>), m)
         else if \<not> Exists (r_CensusID r) m then (Fail (Errf ''censusId not valid or not found %s''), m)
         else case map_of (m_Trees m) (r_CensusID r) of
                None \<Rightarrow> (Fail (Errf ''censusId cannot be loaded''), m)
              | Some tr \<Rightarrow>
                  if \<not> IsPublic tr then (Fail (Errf ''census not yet published''), m)
                  else if r_Method r = ''getRoot'' then with_root M tr resp0 m
                  else if r_Method r = ''addClaimBulk'' then h_addClaimBulk P M r validAuthPrefix tr m
                  else if r_Method r = ''addClaim'' then h_addClaim P M r validAuthPrefix tr m
                  else if r_Method r = ''importDump'' then h_importDump P M r validAuthPrefix tr m
                  else if r_Method r = ''importRemote'' then h_importRemote P M r validAuthPrefix tr m
                  else if r_Method r = ''checkProof'' then (h_checkProof P M r tr m, m)
                  else h_rooted P M r validAuthPrefix tr m)"

section \<open>What the operations leave alone\<close>

lemma census_tx_sel [simp]:
  "tx_path (census_tx name) = name" "tx_ok (census_tx name)" "tx_log (census_tx name) = []"
  "n < 1048576 \<Longrightarrow> room n (census_tx name)"
  by (simp_all add: census_tx_def DBBatched_WriteTx_def NewBatch_def DefaultBatchMaxSize_def)

lemma leaves_discard [simp]: "cs_leaves (ct_discard s c) = cs_leaves c"
  by (simp add: ct_discard_def)

lemma leaves_commit_at [simp]:
  "cs_leaves (ct_commit t l s c) = (cs_leaves c)(tx_path (ct_newTx t) := l)"
  by (simp add: ct_commit_def set_leaves_def)

lemma Add_leaves:
  "CensusTree_Add P key val t c = (e, c') \<Longrightarrow> n \<noteq> tx_path (ct_newTx t) \<Longrightarrow> cs_leaves c' n = cs_leaves c n"
  unfolding CensusTree_Add_def by (auto split: prod.splits res.splits)

lemma AddBatch_leaves:
  "CensusTree_AddBatch P E keys vals t c = (e, c') \<Longrightarrow> n \<noteq> tx_path (ct_newTx t) \<Longrightarrow> cs_leaves c' n = cs_leaves c n"
  unfolding CensusTree_AddBatch_def by (auto split: prod.splits res.splits)

lemma ImportDump_leaves:
  assumes "CensusTree_ImportDump P E b t c = (e, c')" "n \<noteq> tx_path (ct_newTx t)"
  shows "cs_leaves c' n = cs_leaves c n"
proof (cases "ce_ImportDump E (ct_censusType t) b (ct_leaves t c)")
  case (Ok l)
  have s: "cs_leaves (set_leaves t l c) n = cs_leaves c n" using assms(2) by (simp add: set_leaves_def)
  show ?thesis using assms Ok s unfolding CensusTree_ImportDump_def Let_def
    by (auto split: prod.splits res.splits)
qed (use assms in \<open>auto simp: CensusTree_ImportDump_def\<close>)

lemma ensure_index_leaves: "cs_leaves (snd (ensure_index P t f c)) = cs_leaves c"
  unfolding ensure_index_def by (auto split: prod.splits res.splits)

lemma New_leaves: "New_Census P E tx ty k c = (e, c') \<Longrightarrow> cs_leaves c' = cs_leaves c"
proof (cases "get_opt isIndexAsKeysCensus (tx, cs_db c)")
  case (Ok b)
  assume "New_Census P E tx ty k c = (e, c')"
  then show ?thesis using Ok ensure_index_leaves [of P]
    unfolding New_Census_def Let_def
    by (auto split: if_splits option.splits prod.splits res.splits dest!: arg_cong [of _ _ snd])
qed (auto simp: New_Census_def split: if_splits)

lemma fillKeyToIndex_leaves:
  "Manager_fillKeyToIndex P cid t c = (e, c') \<Longrightarrow> cs_leaves c' = cs_leaves c"
  unfolding Manager_fillKeyToIndex_def Let_def by (auto split: prod.splits res.splits)

lemma New_tree:
  assumes "New_Census P E newTx ty k c = (Ok t, c')"
  shows "ct_newTx t = newTx \<and> ct_snapshot t = None \<and> ct_censusType t = ty"
proof -
  have e: "t = t'" if "ensure_index P t' f d = (Ok t, c')" for t' f d
    using that unfolding ensure_index_def by (auto split: prod.splits res.splits)
  show ?thesis
    using assms unfolding New_Census_def get_opt_look Let_def
    by (auto dest!: e split: if_splits option.splits prod.splits res.splits)
qed

text \<open>The trees of the manager are those of their names.\<close>

definition trees_ok :: "Manager \<Rightarrow> bool" where
  "trees_ok m = (\<forall>n t. map_of (m_Trees m) n = Some t \<longrightarrow> ct_newTx t = census_tx n \<and> ct_snapshot t = None)"

lemma trees_ok_update [simp]:
  "trees_ok (m\<lparr>m_Namespaces := nss\<rparr>) = trees_ok m" "trees_ok (m\<lparr>m_store := c\<rparr>) = trees_ok m"
  by (simp_all add: trees_ok_def)

text \<open>Only the leaves under the names in \<open>N\<close> change, and no namespace goes away.\<close>

definition frame :: "bytes set \<Rightarrow> Manager \<Rightarrow> Manager \<Rightarrow> bool" where
  "frame N m m' =
     ((trees_ok m \<longrightarrow> trees_ok m') \<and> (\<forall>n. n \<notin> N \<longrightarrow> cs_leaves (m_store m') n = cs_leaves (m_store m) n) \<and>
      set (m_Namespaces m) \<subseteq> set (m_Namespaces m'))"

lemma frame_refl [simp]: "frame N m m"
  by (simp add: frame_def)

lemma frame_trans: "frame N m m' \<Longrightarrow> frame N m' m'' \<Longrightarrow> frame N m m''"
  by (auto simp: frame_def)

lemma frame_mono: "frame N m m' \<Longrightarrow> N \<subseteq> N' \<Longrightarrow> frame N' m m'"
  by (auto simp: frame_def)

lemma frame_store:
  assumes "on_store f m = (r, m')" "\<And>c r c' n. f c = (r, c') \<Longrightarrow> n \<notin> N \<Longrightarrow> cs_leaves c' n = cs_leaves c n"
  shows "frame N m m'"
proof -
  obtain c' where "f (m_store m) = (r, c')" "m' = m\<lparr>m_store := c'\<rparr>"
    using assms(1) by (auto simp: on_store_def Let_def split: prod.splits)
  then show ?thesis using assms(2) by (simp add: frame_def)
qed

lemma set_tree_sel [simp]:
  "m_Namespaces (set_tree name t m) = m_Namespaces m" "m_store (set_tree name t m) = m_store m"
  "map_of (m_Trees (set_tree name t m)) = (map_of (m_Trees m))(name \<mapsto> t)"
  by (simp_all add: set_tree_def update_conv')

lemma frame_set_tree: "ct_newTx t = census_tx name \<Longrightarrow> ct_snapshot t = None \<Longrightarrow> frame N m (set_tree name t m)"
  by (simp add: frame_def trees_ok_def)

lemma Publish_sel [simp]:
  "ct_newTx (Publish t) = ct_newTx t" "ct_snapshot (Publish t) = ct_snapshot t"
  "ct_censusType (Publish t) = ct_censusType t" "IsPublic (Publish t)"
  by (simp_all add: Publish_def IsPublic_def)

lemma frame_namespaces:
  "frame N m m' \<Longrightarrow> set (m_Namespaces m) \<subseteq> set nss \<Longrightarrow> frame N m (m'\<lparr>m_Namespaces := nss\<rparr>)"
  by (simp add: frame_def)

lemma AddNamespace_outcome:
  assumes "AddNamespace P M name ty keys m = (r, m')"
  obtains (exists) "Exists name m" "r = Fail ErrNamespaceExist" "m' = m"
  | (refused) r' m1 where "\<not> Exists name m" "on_store (New_Census P (me_census M) (census_tx name) ty False) m = (r', m1)"
      "\<not> is_ok r'" "\<not> is_ok r" "m' = m1"
  | (added) t m1 where "\<not> Exists name m" "on_store (New_Census P (me_census M) (census_tx name) ty False) m = (Ok t, m1)"
      "m' = (set_tree name t m1)\<lparr>m_Namespaces := m_Namespaces m1 @
         [\<lparr>ns_Type = ty, ns_Name = name, ns_Keys = keys, ns_Version = CurrentCensusVersion\<rparr>]\<rparr>"
      "r = rbind (me_save M (m_Namespaces m')) (\<lambda>_. Ok t)"
proof -
  obtain r' m1 where n: "on_store (New_Census P (me_census M) (census_tx name) ty False) m = (r', m1)" by force
  show thesis
  proof (cases "Exists name m")
    case True
    then show thesis using exists assms by (simp add: AddNamespace_def)
  next
    case False
    show thesis
    proof (cases r')
      case (Ok t)
      then show thesis using False assms n added by (auto simp: AddNamespace_def Let_def save_def)
    qed (use False assms n refused in \<open>auto simp: AddNamespace_def\<close>)
  qed
qed

lemma New_on_store:
  assumes "on_store (New_Census P E (census_tx name) ty k) m = (r, m')"
  shows "frame N m m' \<and> m_Namespaces m' = m_Namespaces m \<and> m_Trees m' = m_Trees m \<and>
    (\<forall>t. r = Ok t \<longrightarrow> ct_newTx t = census_tx name \<and> ct_snapshot t = None \<and> ct_censusType t = ty)"
proof -
  have "frame N m m'" using assms by (rule frame_store) (simp add: New_leaves)
  moreover obtain c' where "New_Census P E (census_tx name) ty k (m_store m) = (r, c')" "m' = m\<lparr>m_store := c'\<rparr>"
    using assms by (auto simp: on_store_def Let_def split: prod.splits)
  ultimately show ?thesis using New_tree by auto
qed

lemma AddNamespace_frame:
  assumes "AddNamespace P M name ty keys m = (r, m')"
  shows "frame N m m' \<and> (\<forall>t. r = Ok t \<longrightarrow> ct_newTx t = census_tx name \<and> ct_snapshot t = None \<and> ct_censusType t = ty \<and>
    \<not> Exists name m \<and> map_of (m_Trees m') name = Some t)"
  using assms
proof (cases rule: AddNamespace_outcome)
  case (refused r' m1)
  then show ?thesis using New_on_store [OF refused(2)] by auto
next
  case (added t m1)
  note n = New_on_store [OF added(2), of N]
  have "frame N m (set_tree name t m1)" using n frame_trans [OF _ frame_set_tree] by blast
  then have f: "frame N m m'" unfolding added(3) by (rule frame_namespaces) (use n in auto)
  have "map_of (m_Trees m') name = Some t" by (simp add: added(3))
  moreover have "t' = t" if "r = Ok t'" for t' using that added(4) by (cases "me_save M (m_Namespaces m')") auto
  ultimately show ?thesis using f n added(1) by blast
qed auto

lemma Exists_iff: "Exists name m \<longleftrightarrow> name \<in> ns_Name ` set (m_Namespaces m)"
  by (auto simp: Exists_def list_ex_iff)

lemma del_namespace_new:
  "name \<notin> ns_Name ` set nss \<Longrightarrow> del_namespace name (nss @ [ns]) = (if ns_Name ns = name then nss else nss @ [ns])"
  by (induction nss) auto

lemma on_store_sel:
  assumes "on_store f m = (r, m')"
  shows "m_Namespaces m' = m_Namespaces m \<and> m_Trees m' = m_Trees m \<and> f (m_store m) = (r, m_store m')"
  using assms by (auto simp: on_store_def Let_def split: prod.splits)

lemma DelNamespace_frame:
  assumes "name \<notin> ns_Name ` set nss" "m_Namespaces m = nss @ [ns]" "ns_Name ns = name" "frame N m0 m" "m_Namespaces m0 = nss"
  shows "frame N m0 (snd (DelNamespace M name m))"
  using frame_namespaces [OF assms(4), of nss] assms del_namespace_new [OF assms(1), of ns]
  by (simp add: DelNamespace_def Let_def)

lemma publish_local_frame:
  assumes "publish_local P M r name ty dat m = (e, m')"
  shows "frame {name} m m' \<and> (Exists name m \<longrightarrow> m' = m)"
proof (cases "Exists name m")
  case True
  then show ?thesis using assms by (simp add: publish_local_def AddNamespace_def)
next
  case new: False
  obtain a m1 where a: "AddNamespace P M name ty (r_PubKeys r) m = (a, m1)" by force
  note f = AddNamespace_frame [OF a, of "{name}"]
  show ?thesis
  proof (cases a)
    case (Ok tr2)
    obtain b m2 where b: "on_store (CensusTree_ImportDump P (me_census M) dat tr2) m1 = (b, m2)" by force
    have t: "ct_newTx tr2 = census_tx name" "ct_snapshot tr2 = None" using f Ok by auto
    have "frame {name} m1 m2" using b by (rule frame_store) (use ImportDump_leaves t in auto)
    then have f2: "frame {name} m m2" using f frame_trans by blast
    have ns: "m_Namespaces m2 = m_Namespaces m @
        [\<lparr>ns_Type = ty, ns_Name = name, ns_Keys = r_PubKeys r, ns_Version = CurrentCensusVersion\<rparr>]"
      using on_store_sel [OF b] a Ok
      by (cases rule: AddNamespace_outcome [OF a]) (auto dest!: New_on_store)
    show ?thesis
    proof (cases b)
      case ok: (Ok u)
      then have "m' = set_tree name (Publish tr2) m2" using assms a b Ok by (simp add: publish_local_def)
      moreover have "frame {name} m2 (set_tree name (Publish tr2) m2)" by (rule frame_set_tree) (use t in auto)
      ultimately show ?thesis using new frame_trans [OF f2] by simp
    next
      case (Fail x)
      then have "m' = snd (DelNamespace M name m2)" using assms a b Ok by (simp add: publish_local_def)
      moreover have "frame {name} m (snd (DelNamespace M name m2))"
        by (rule DelNamespace_frame [OF _ ns _ f2]) (use new in \<open>auto simp: Exists_iff\<close>)
      ultimately show ?thesis using new by simp
    next
      case (Panic x)
      then show ?thesis using assms a b Ok new f2 by (simp add: publish_local_def)
    qed
  qed (use assms a f new in \<open>auto simp: publish_local_def\<close>)
qed

text \<open>Rules that follow the composition of the handlers.\<close>

lemma framed_with_res:
  "frame N m m1 \<Longrightarrow> (\<And>a. frame N m (snd (k a))) \<Longrightarrow> frame N m (snd (with_res r m1 k))"
  by (cases r) auto

lemma framed_and_then:
  "frame N m (snd x) \<Longrightarrow> (\<And>a m1. frame N m m1 \<Longrightarrow> frame N m (snd (k a m1))) \<Longrightarrow> frame N m (snd (and_then x k))"
  by (cases x; cases "fst x") auto

lemma framed_hide: "frame N m (snd x) \<Longrightarrow> frame N m (snd (hide_st s x))"
  by (simp add: hide_st_def)

lemma framed_wrap: "frame N m (snd x) \<Longrightarrow> frame N m (snd (wrap_st s x))"
  by (simp add: wrap_st_def)

lemma framed_store:
  assumes "frame N m m1" "\<And>c n. n \<notin> N \<Longrightarrow> cs_leaves (snd (f c)) n = cs_leaves c n"
  shows "frame N m (snd (on_store f m1))"
proof -
  obtain a m2 where a: "on_store f m1 = (a, m2)" by force
  have "frame N m1 m2" using a by (rule frame_store) (use assms(2) in \<open>metis snd_conv\<close>)
  then show ?thesis using a frame_trans [OF assms(1)] by simp
qed

lemma framed_root: "frame N m m1 \<Longrightarrow> frame N m (snd (with_root M tr resp m1))"
  by (cases "CensusTree_Root (me_census M) tr (m_store m1)") (auto simp: with_root_def)

lemmas framed = framed_with_res framed_and_then framed_hide framed_wrap framed_store framed_root frame_refl

lemma Census_op_leaves:
  "ct_newTx t = census_tx cid \<Longrightarrow> n \<notin> {cid} \<Longrightarrow> cs_leaves (snd (CensusTree_Add P key val t c)) n = cs_leaves c n"
  "ct_newTx t = census_tx cid \<Longrightarrow> n \<notin> {cid} \<Longrightarrow> cs_leaves (snd (CensusTree_AddBatch P E keys vals t c)) n = cs_leaves c n"
  "ct_newTx t = census_tx cid \<Longrightarrow> n \<notin> {cid} \<Longrightarrow> cs_leaves (snd (CensusTree_ImportDump P E b t c)) n = cs_leaves c n"
  using Add_leaves [of P key val t c _ _ n] AddBatch_leaves [of P E keys vals t c _ _ n] ImportDump_leaves [of P E b t c _ _ n]
  by (metis census_tx_sel(1) insertI1 prod.collapse)+

lemma handler_frames:
  assumes "ct_newTx tr = census_tx cid"
  shows "frame {cid} m (snd (h_addClaimBulk P M r v tr m))" "frame {cid} m (snd (h_addClaim P M r v tr m))"
    "frame {cid} m (snd (h_importDump P M r v tr m))" "frame {cid} m (snd (h_importRemote P M r v tr m))"
proof -
  note leaves = Census_op_leaves [OF assms]
  show "frame {cid} m (snd (h_addClaimBulk P M r v tr m))"
    by (auto simp: h_addClaimBulk_def Let_def intro!: framed leaves)
  show "frame {cid} m (snd (h_addClaim P M r v tr m))"
    by (auto simp: h_addClaim_def Let_def intro!: framed leaves)
  show "frame {cid} m (snd (h_importDump P M r v tr m))"
    by (auto simp: h_importDump_def intro!: framed leaves)
  show "frame {cid} m (snd (h_importRemote P M r v tr m))"
    by (auto simp: h_importRemote_def intro!: framed leaves split: option.split)
qed

lemma handler_unauthorized:
  "h_addClaimBulk P M r False tr m = (Fail invalid_auth, m)" "h_addClaim P M r False tr m = (Fail invalid_auth, m)"
  "h_importDump P M r False tr m = (Fail invalid_auth, m)" "h_importRemote P M r False tr m = (Fail invalid_auth, m)"
  "h_publish P M r False tr m = (Fail invalid_auth, m)"
  by (simp_all add: h_addClaimBulk_def h_addClaim_def h_importDump_def h_importRemote_def h_publish_def)

text \<open>A census may be created under a name that was free.\<close>

definition creates :: "bytes \<Rightarrow> Manager \<Rightarrow> Manager \<Rightarrow> bool" where
  "creates n m m' = (frame {n} m m' \<and> (Exists n m \<longrightarrow> m' = m))"

lemma creates_refl: "creates n m m"
  by (simp add: creates_def)

lemma creates_with_res: "(\<And>a. creates n m (snd (k a))) \<Longrightarrow> creates n m (snd (with_res r m k))"
  by (cases r) (auto simp: creates_refl)

lemma creates_and_then:
  "creates n m (snd x) \<Longrightarrow> (\<And>a m1. snd (k a m1) = m1) \<Longrightarrow> creates n m (snd (and_then x k))"
  by (cases x; cases "fst x") auto

lemma creates_publish_local: "creates name m (snd (publish_local P M r name ty dat m))"
  using publish_local_frame [of P M r name ty dat m] unfolding creates_def by (metis prod.collapse)

lemma h_publish_creates: "\<exists>root. creates (str (hex root)) m (snd (h_publish P M r v tr m))"
proof (cases "CensusTree_Root (me_census M) tr (m_store m)")
  case (Ok root)
  have "creates (str (hex root)) m (snd (h_publish P M r v tr m))"
    by (auto simp: h_publish_def Ok intro!: creates_refl creates_with_res creates_and_then creates_publish_local)
  then show ?thesis by blast
qed (auto simp: h_publish_def creates_refl)

lemma addCensus_frame: "frame {} m (snd (h_addCensus P M r p m))"
proof -
  let ?n = "p @ r_CensusID r" and ?ty = "if r_CensusType r = Census_UNKNOWN then Census_ARBO_BLAKE2B else r_CensusType r"
  obtain a m1 where a: "AddNamespace P M ?n ?ty (r_PubKeys r) m = (a, m1)" by force
  note f = AddNamespace_frame [OF a, of "{}"]
  have "frame {} m (set_tree ?n (Publish t) m1)" if "a = Ok t" for t
    using f that frame_trans [OF _ frame_set_tree] by simp
  then show ?thesis using f by (cases a) (simp_all add: h_addCensus_def Let_def a del: if_split split: if_split)
qed

lemma h_rooted_outcome:
  assumes "h_rooted P M r v tr m = (e, m')"
  shows "m' = m \<or> r_Method r = ''publish'' \<and> (\<exists>tr'. h_publish P M r v tr' m = (e, m'))"
proof (cases "if 1 < length (r_RootHash r)
    then hide ''cannot fetch snapshot for root'' (FromRoot (me_census M) (r_RootHash r) tr) else Ok tr")
  case (Ok tr')
  then show ?thesis using assms unfolding h_rooted_def Ok by (auto split: if_splits)
qed (use assms in \<open>auto simp: h_rooted_def split: if_splits\<close>)

text \<open>What a request leaves: everything, the leaves of the census it is authorized for, or a new census
  published.\<close>

lemma Handler_outcome:
  assumes h: "Manager_Handler P M r p m = (e, m')" and t: "trees_ok m"
  obtains (nothing) "frame {} m m'"
  | (census) "p = [] \<or> prefix p (TrimHex (r_CensusID r))" "frame {TrimHex (r_CensusID r)} m m'"
  | (published) root where "r_Method r = ''publish''" "p = [] \<or> prefix p (TrimHex (r_CensusID r))"
      "creates (str (hex root)) m m'"
proof -
  let ?r = "r\<lparr>r_CensusID := TrimHex (r_CensusID r)\<rparr>" and ?cid = "TrimHex (r_CensusID r)"
  let ?v = "p = [] \<or> prefix p ?cid"
  consider (add) "r_Method r = ''addCensus''" | (same) "m' = m"
    | (tree) tr where "map_of (m_Trees m) ?cid = Some tr" "r_Method r \<noteq> ''addCensus''"
    using h by (auto simp: Manager_Handler_def Let_def split: if_splits option.splits)
  then show thesis
  proof cases
    case add
    then have "frame {} m m'" using h addCensus_frame [of m P M ?r p] by (simp add: Manager_Handler_def)
    then show thesis by (rule nothing)
  next
    case same
    then have "frame {} m m'" by simp
    then show thesis by (rule nothing)
  next
    case (tree tr)
    then have tr: "ct_newTx tr = census_tx ?cid" using t by (auto simp: trees_ok_def)
    note fr = handler_frames [OF tr, of m P M ?r ?v] framed_root [OF frame_refl, of "{?cid}" m M tr resp0]
    have "frame {?cid} m m' \<or> r_Method r = ''publish'' \<and> (\<exists>tr'. h_publish P M ?r ?v tr' m = (e, m'))"
      using h tree fr by (auto simp: Manager_Handler_def Let_def split: if_splits dest: h_rooted_outcome)
    moreover have "m' = m" if "\<not> ?v"
    proof -
      have "m' = m \<or> m' = snd (with_root M tr resp0 m)"
        using h tree that
        by (auto simp: Manager_Handler_def Let_def handler_unauthorized split: if_splits dest: h_rooted_outcome)
      then show ?thesis by (cases "CensusTree_Root (me_census M) tr (m_store m)") (auto simp: with_root_def)
    qed
    moreover have "\<exists>root. creates (str (hex root)) m m'" if "h_publish P M ?r ?v tr' m = (e, m')" for tr'
      using h_publish_creates [of m P M ?r ?v tr'] that by simp
    ultimately consider "frame {} m m'" | "?v" "frame {?cid} m m'"
      | root where "?v" "r_Method r = ''publish''" "creates (str (hex root)) m m'"
      by (cases ?v) auto
    then show thesis
    proof cases
      case 1
      then show thesis by (rule nothing)
    next
      case 2
      then show thesis by (rule census)
    next
      case (3 root)
      from this(2,1,3) show thesis by (rule published)
    qed
  qed
qed


section \<open>Imported and published censuses\<close>

lemma and_then_Ok: "and_then x k = (Ok b, m') \<longleftrightarrow> (\<exists>a m1. x = (Ok a, m1) \<and> k a m1 = (Ok b, m'))"
  by (cases x; cases "fst x") auto

lemma with_res_Ok: "with_res r m k = (Ok b, m') \<longleftrightarrow> (\<exists>a. r = Ok a \<and> k a = (Ok b, m'))"
  by (cases r) auto

lemma wrap_st_Ok: "wrap_st s x = (Ok a, m) \<longleftrightarrow> x = (Ok a, m)"
  by (cases x; cases "fst x") (auto simp: wrap_st_def)

lemma leaves_path: "ct_newTx t = census_tx n \<Longrightarrow> ct_snapshot t = None \<Longrightarrow> ct_leaves t c = cs_leaves c n"
  by (simp add: ct_leaves_def)

lemma AddNamespace_Ok:
  assumes "AddNamespace P M name ty keys m = (Ok t, m')"
  shows "\<not> Exists name m \<and> Exists name m' \<and> map_of (m_Trees m') name = Some t \<and> ct_newTx t = census_tx name \<and>
    ct_snapshot t = None \<and> ct_censusType t = ty \<and> cs_leaves (m_store m') = cs_leaves (m_store m) \<and>
    New_Census P (me_census M) (census_tx name) ty False (m_store m) = (Ok t, m_store m')"
  using assms
proof (cases rule: AddNamespace_outcome)
  case (added t' m1)
  then have "t' = t" by (cases "me_save M (m_Namespaces m')") auto
  moreover have "Exists name m'" by (simp add: added(3) Exists_def)
  moreover have s: "New_Census P (me_census M) (census_tx name) ty False (m_store m) = (Ok t', m_store m')"
    using on_store_sel [OF added(2)] by (simp add: added(3))
  moreover have "cs_leaves (m_store m') = cs_leaves (m_store m)" by (rule New_leaves [OF s])
  ultimately show ?thesis using AddNamespace_frame [OF assms, of "{}"] by blast
qed auto

lemma ImportDump_Ok:
  assumes "CensusTree_ImportDump P E b t c = (Ok (), c')" "ct_newTx t = census_tx n" "ct_snapshot t = None"
  shows "ce_ImportDump E (ct_censusType t) b (cs_leaves c n) = Ok (cs_leaves c' n)"
proof (cases "ce_ImportDump E (ct_censusType t) b (ct_leaves t c)")
  case (Ok l)
  then have "cs_leaves c' n = l" using assms
    by (auto simp: CensusTree_ImportDump_def Let_def split: prod.splits res.splits)
  then show ?thesis using Ok leaves_path [OF assms(2,3)] by simp
qed (use assms in \<open>auto simp: CensusTree_ImportDump_def\<close>)

lemma Manager_ImportDump_Ok:
  assumes "Manager_ImportDump P M cid ty dumpRoot dat m = (Ok t, m')"
  shows "\<not> Exists cid m \<and> Exists cid m' \<and> map_of (m_Trees m') cid = Some t \<and> IsPublic t \<and>
    ce_ImportDump (me_census M) ty dat (cs_leaves (m_store m) cid) = Ok (cs_leaves (m_store m') cid) \<and>
    CensusTree_Root (me_census M) t (m_store m') = Ok dumpRoot"
proof -
  obtain tr m1 m2 root m3 where a: "AddNamespace P M cid ty [] m = (Ok tr, m1)"
    and i: "on_store (CensusTree_ImportDump P (me_census M) dat tr) m1 = (Ok (), m2)"
    and r: "CensusTree_Root (me_census M) tr (m_store m2) = Ok root" "root = dumpRoot"
    and f: "index_imported P cid ty tr m2 = (Ok (), m3)"
    and m': "t = Publish tr" "m' = set_tree cid (Publish tr) m3"
    using assms unfolding Manager_ImportDump_def
    by (auto simp: and_then_Ok with_res_Ok wrap_st_Ok wrap_Ok_iff split: if_splits)
  note A = AddNamespace_Ok [OF a] and I = on_store_sel [OF i]
  have m3: "m_Namespaces m3 = m_Namespaces m2" "cs_leaves (m_store m3) = cs_leaves (m_store m2)"
    using f on_store_sel [of "Manager_fillKeyToIndex P cid tr" m2 "Ok ()" m3]
      fillKeyToIndex_leaves [of P cid tr "m_store m2" "Ok ()" "m_store m3"]
    by (auto simp: index_imported_def wrap_st_Ok split: if_splits)
  have d: "ce_ImportDump (me_census M) ty dat (cs_leaves (m_store m1) cid) = Ok (cs_leaves (m_store m2) cid)"
    using ImportDump_Ok [of P "me_census M" dat tr "m_store m1" "m_store m2" cid] I A by simp
  have "CensusTree_Root (me_census M) t (m_store m') = Ok dumpRoot"
    using r A m' m3 by (simp add: CensusTree_Root_def leaves_path [of _ cid])
  then show ?thesis using A I d m' m3 by (simp add: Exists_def)
qed

text \<open>What fails in an import comes from outside: Arbo's import, the root, the file of the namespaces.\<close>

lemma New_ok:
  assumes "ty = Census_ARBO_BLAKE2B \<or> ty = Census_ARBO_POSEIDON" "arbo_BytesToBigInt P [] = 0"
  shows "\<exists>t c'. New_Census P E (census_tx name) ty False c = (Ok t, c')"
proof -
  let ?t = "\<lambda>i. \<lparr>ct_newTx = census_tx name, ct_snapshot = None, ct_public = 0, ct_censusType = ty,
                 ct_hashFunc = True, ct_hashLen = ce_HashLen E ty, ct_indexAsKeys = i\<rparr>"
  have e: "\<exists>t' c''. ensure_index P (?t i) f c' = (Ok t', c'')" for i f c'
    by (rule ensure_index_does [of "?t i" P f c']) (use assms(2) in \<open>auto simp: fresh_def\<close>)
  obtain s where "set_key isIndexAsKeysCensus [0] (census_tx name, cs_db c) = (Ok (), s)"
    using write_key_evolve [of "(census_tx name, cs_db c)"] by (metis census_tx_sel(2) fst_conv)
  then show ?thesis using assms(1) e [of False] e
    by (cases "look_tx (census_tx name, cs_db c) isIndexAsKeysCensus") (auto simp: New_Census_def get_opt_look Let_def)
qed

lemma ImportDump_ok:
  assumes "fresh t" "ct_snapshot t = None" "arbo_BytesToBigInt P [] = 0"
    and l: "ce_ImportDump E (ct_censusType t) b (ct_leaves t c) = Ok l"
  shows "\<exists>c'. CensusTree_ImportDump P E b t c = (Ok (), c')"
proof -
  let ?c = "set_leaves t l c"
  have ok: "tx_ok (fst (ct_begin t c))" using assms(1) by (simp add: fresh_def ct_begin_def)
  obtain s where w: "updateCensusWeight P t (CensusTree_BigIntToBytes P t (int (leaves_weight P l))) (ct_begin t c) = (Ok (), s)"
    by (rule updateCensusWeight_does [OF ok])
  obtain s1 where s1: "index_leaves l (ct_begin t c) = (Ok (), s1)" "evolve (length l) (ct_begin t c) s1"
    using index_leaves_does [OF ok] by blast
  let ?d = "word_of_int (int (length l) - uint (of_nat (index_of P (look_tx (ct_begin t c))) :: u32)) :: u32"
  obtain s2 where u: "updateCensusIndex P t ?d s1 = (Ok (of_nat (index_of P (look_tx s1))), s2)"
    by (rule updateCensusIndex_does [OF evolve_ok [OF s1(2)] assms(3)])
  have g: "GetCensusIndex P t ?c = Ok (of_nat (index_of P (look_tx (ct_begin t c))))"
    by (simp add: GetCensusIndex_look [OF assms(3)])
  have f: "fillKeyToIndex P t ?c (ct_begin t c) = (Ok (), s2)"
    using assms(2) s1(1) u by (simp only: fillKeyToIndex_def collect_leaves_all leaves_set_leaves Let_def g with_res.simps
        and_then.simps)
  show ?thesis using l f w assms(2) by (simp add: CensusTree_ImportDump_def Let_def hide_st_def wrap_st_def)
qed

text \<open>The errors of the parameters are not the manager's own \<^verbatim>\<open>ErrNamespaceExist\<close>.\<close>

definition own_errors :: "manager_env \<Rightarrow> bool" where
  "own_errors M =
     ((\<forall>nss e. me_save M nss = Fail e \<longrightarrow> \<not> errors_is e ErrNamespaceExist) \<and>
      (\<forall>ty b l e. ce_ImportDump (me_census M) ty b l = Fail e \<longrightarrow> \<not> errors_is e ErrNamespaceExist) \<and>
      (\<forall>ty l e. ce_Root (me_census M) ty l = Fail e \<longrightarrow> \<not> errors_is e ErrNamespaceExist))"

lemma AddNamespace_error:
  assumes "AddNamespace P M name ty keys m = (Fail e, m')" "own_errors M" "arbo_BytesToBigInt P [] = 0" "\<not> Exists name m"
  shows "\<not> errors_is e ErrNamespaceExist"
proof (cases "ty = Census_ARBO_BLAKE2B \<or> ty = Census_ARBO_POSEIDON")
  case True
  obtain t c where "New_Census P (me_census M) (census_tx name) ty False (m_store m) = (Ok t, c)"
    using New_ok [OF True assms(3)] by blast
  then have "\<exists>nss. me_save M nss = Fail e"
    using assms(1,4) by (auto simp: AddNamespace_def on_store_def Let_def save_def split: res.splits elim!: rbind.elims)
  then show ?thesis using assms(2) by (auto simp: own_errors_def)
next
  case False
  then show ?thesis using assms(1,4)
    by (auto simp: AddNamespace_def on_store_def New_Census_def ErrNamespaceExist_def)
qed

lemma store_indexes_does:
  "tx_ok (fst s) \<Longrightarrow> \<exists>s'. store_indexes cid ls s = (Ok (), s') \<and> tx_ok (fst s')"
proof (induction ls arbitrary: s)
  case (Cons e ls)
  obtain i k where e: "e = (i, k)" by force
  obtain s1 where "set_key (keyCensusKeyIndex cid k) i s = (Ok (), s1)" "evolve 1 s s1"
    using write_key_evolve [OF Cons.prems] by metis
  then show ?case using Cons.IH [of s1] e evolve_ok by (auto simp: wrap_st_def)
qed simp

lemma fillKeyToIndex_ok: "\<exists>c'. Manager_fillKeyToIndex P cid tr c = (Ok (), c')"
proof -
  let ?ls = "collect_leaves P (ct_leaves tr c)"
  have "tx_ok (fst (DBBatched_WriteTx, cs_db c))" by (simp add: DBBatched_WriteTx_def NewBatch_def)
  from store_indexes_does [OF this, of cid ?ls]
  obtain s where s: "store_indexes cid ?ls (DBBatched_WriteTx, cs_db c) = (Ok (), s)" "tx_ok (fst s)" by blast
  obtain s' where "set_key (keyCensusLen cid) (PutUint64LE (of_nat (length ?ls))) s = (Ok (), s')"
    by (rule write_key_evolve [OF s(2)])
  then show ?thesis by (simp add: Manager_fillKeyToIndex_def Let_def s(1))
qed

lemma index_imported_ok: "\<exists>m'. index_imported P cid ty tr m = (Ok (), m')"
proof -
  obtain c' where "Manager_fillKeyToIndex P cid tr (m_store m) = (Ok (), c')" using fillKeyToIndex_ok by blast
  then show ?thesis by (simp add: index_imported_def on_store_def wrap_st_def)
qed

lemma Manager_ImportDump_error:
  assumes f: "Manager_ImportDump P M cid ty dumpRoot dat m = (Fail e, m')" and own: "own_errors M"
    and z: "arbo_BytesToBigInt P [] = 0" and new: "\<not> Exists cid m"
  shows "\<not> errors_is e ErrNamespaceExist"
proof -
  obtain a m1 where a: "AddNamespace P M cid ty [] m = (a, m1)" by force
  show ?thesis
  proof (cases a)
    case (Ok tr)
    note A = AddNamespace_Ok [OF a [unfolded Ok]]
    have tr: "fresh tr" "ct_snapshot tr = None" using A by (auto simp: fresh_def)
    obtain b m2 where b: "on_store (CensusTree_ImportDump P (me_census M) dat tr) m1 = (b, m2)" by force
    note B = on_store_sel [OF b]
    show ?thesis
    proof (cases "ce_ImportDump (me_census M) (ct_censusType tr) dat (ct_leaves tr (m_store m1))")
      case l: (Ok l)
      then have ok: "b = Ok ()" using ImportDump_ok [OF tr z l] B by auto
      obtain m3 where i: "index_imported P cid ty tr m2 = (Ok (), m3)" using index_imported_ok by blast
      show ?thesis
      proof (cases "CensusTree_Root (me_census M) tr (m_store m2)")
        case (Ok root)
        then show ?thesis using f a \<open>a = Ok tr\<close> b ok i
          by (auto simp: Manager_ImportDump_def wrap_st_def ErrNamespaceExist_def split: if_splits)
      next
        case (Fail x)
        then have "\<not> errors_is x ErrNamespaceExist" using own by (auto simp: own_errors_def CensusTree_Root_def)
        then show ?thesis using f a \<open>a = Ok tr\<close> b ok Fail
          by (auto simp: Manager_ImportDump_def wrap_st_def ErrNamespaceExist_def)
      qed (use f a \<open>a = Ok tr\<close> b ok in \<open>auto simp: Manager_ImportDump_def wrap_st_def\<close>)
    next
      case (Fail x)
      then have "\<not> errors_is x ErrNamespaceExist" using own by (auto simp: own_errors_def)
      then show ?thesis using f a \<open>a = Ok tr\<close> b B Fail
        by (auto simp: Manager_ImportDump_def CensusTree_ImportDump_def wrap_st_def ErrNamespaceExist_def)
    next
      case (Panic x)
      then show ?thesis using f a \<open>a = Ok tr\<close> b B
        by (auto simp: Manager_ImportDump_def CensusTree_ImportDump_def wrap_st_def)
    qed
  next
    case (Fail x)
    then have "\<not> errors_is x ErrNamespaceExist" using AddNamespace_error [OF _ own z new] a by simp
    then show ?thesis using f a Fail by (auto simp: Manager_ImportDump_def wrap_st_def ErrNamespaceExist_def)
  qed (use f a in \<open>auto simp: Manager_ImportDump_def wrap_st_def\<close>)
qed

text \<open>C15. A census imported under an identifier that was free is published, and its root is the one the identifier
  spells. The errors of the file of the namespaces and of Arbo are told apart from the manager's own.\<close>

theorem imported_census_verified:
  assumes "importTree P M raw cid m = (Ok (), m')" "\<not> Exists cid m"
    and "own_errors M" "arbo_BytesToBigInt P [] = 0"
  shows "\<exists>t root. map_of (m_Trees m') cid = Some t \<and> IsPublic t \<and> Exists cid m' \<and>
           CensusTree_Root (me_census M) t (m_store m') = Ok root \<and> str (hex root) = TrimHex cid"
proof -
  obtain dump where d: "me_UnmarshalDump M raw = Some dump" "str (hex (cd_RootHash dump)) = TrimHex cid"
    using assms(1) by (auto simp: importTree_def split: option.splits if_splits)
  obtain a m1 where a: "Manager_ImportDump P M cid (cd_Type dump) (cd_RootHash dump) (cd_Data dump) m = (a, m1)" by force
  have "\<exists>t. a = Ok t \<and> m' = m1"
    using assms(1) d a Manager_ImportDump_error [OF _ assms(3,4,2)]
    by (cases a) (auto simp: importTree_def split: if_splits)
  then obtain t where "Manager_ImportDump P M cid (cd_Type dump) (cd_RootHash dump) (cd_Data dump) m = (Ok t, m')"
    using a by auto
  from Manager_ImportDump_Ok [OF this] d(2) show ?thesis by blast
qed

text \<open>C40. A dump whose root does not match is refused and its namespace removed, but its leaves stay in the database
  and its tree among those of the manager. A later import under the same identifier starts from the leaves
  of the refused dump.\<close>

theorem refused_dump_stays:
  assumes "\<not> Exists cid m" "cid \<noteq> []" "ty = Census_ARBO_BLAKE2B \<or> ty = Census_ARBO_POSEIDON"
    and "\<And>nss. me_save M nss = Ok ()" "arbo_BytesToBigInt P [] = 0"
    and "ce_ImportDump (me_census M) ty dat (cs_leaves (m_store m) cid) = Ok l"
    and "ce_Root (me_census M) ty l = Ok root" "root \<noteq> dumpRoot"
  shows "\<exists>e m'. Manager_ImportDump P M cid ty dumpRoot dat m = (Fail e, m') \<and>
    \<not> Exists cid m' \<and> cs_leaves (m_store m') cid = l \<and> map_of (m_Trees m') cid \<noteq> None \<and>
    (\<forall>good goodRoot t m''. Manager_ImportDump P M cid ty goodRoot good m' = (Ok t, m'') \<longrightarrow>
       ce_ImportDump (me_census M) ty good l = Ok (cs_leaves (m_store m'') cid))"
proof -
  obtain t c where n: "New_Census P (me_census M) (census_tx cid) ty False (m_store m) = (Ok t, c)"
    using New_ok [OF assms(3,5)] by blast
  define m1 where "m1 = (set_tree cid t (m\<lparr>m_store := c\<rparr>))\<lparr>m_Namespaces := m_Namespaces m @
         [\<lparr>ns_Type = ty, ns_Name = cid, ns_Keys = [], ns_Version = CurrentCensusVersion\<rparr>]\<rparr>"
  have a: "AddNamespace P M cid ty [] m = (Ok t, m1)"
    using assms(1,4) n by (simp add: AddNamespace_def on_store_def Let_def save_def m1_def)
  note A = AddNamespace_Ok [OF a]
  have tr: "fresh t" "ct_snapshot t = None" using A by (auto simp: fresh_def)
  have il: "ce_ImportDump (me_census M) (ct_censusType t) dat (ct_leaves t (m_store m1)) = Ok l"
    using A assms(6) leaves_path [of t cid] by simp
  obtain c2 where i: "CensusTree_ImportDump P (me_census M) dat t (m_store m1) = (Ok (), c2)"
    using ImportDump_ok [OF tr assms(5) il] by blast
  let ?m2 = "m1\<lparr>m_store := c2\<rparr>"
  have s: "on_store (CensusTree_ImportDump P (me_census M) dat t) m1 = (Ok (), ?m2)" by (simp add: on_store_def i)
  have l: "cs_leaves c2 cid = l" using ImportDump_Ok [OF i, of cid] A assms(6) by simp
  have r: "CensusTree_Root (me_census M) t c2 = Ok root"
    using A assms(7) l by (simp add: CensusTree_Root_def leaves_path [of t cid])
  define m' where "m' = snd (DelNamespace M cid ?m2)"
  have f: "\<exists>e. Manager_ImportDump P M cid ty dumpRoot dat m = (Fail e, m')"
    using a s r assms(8) by (simp add: Manager_ImportDump_def wrap_st_def m'_def)
  have "Exists cid ?m2" by (simp add: m1_def Exists_iff)
  moreover have "del_namespace cid (m_Namespaces ?m2) = m_Namespaces m"
    using assms(1) by (simp add: m1_def Exists_iff del_namespace_new)
  ultimately have "m' = ?m2\<lparr>m_Namespaces := m_Namespaces m\<rparr>"
    using assms(2) by (simp add: m'_def DelNamespace_def Let_def)
  then have "\<not> Exists cid m'" "cs_leaves (m_store m') cid = l" "map_of (m_Trees m') cid \<noteq> None"
    using assms(1) l A by (simp_all add: Exists_def)
  then show ?thesis using f Manager_ImportDump_Ok by metis
qed

text \<open>Arbo reads back what it writes: the tree of a root, and the leaves of a dump.\<close>

definition arbo_laws :: "census_env \<Rightarrow> bool" where
  "arbo_laws E = ((\<forall>ty l root. ce_Root E ty l = Ok root \<longrightarrow> ce_Snapshot E ty root = Ok l) \<and>
     (\<forall>ty l d. ce_Dump E l = Ok d \<longrightarrow> ce_ImportDump E ty d [] = Ok l))"

lemma h_publish_Ok:
  assumes "h_publish P M r v tr m = (Ok resp, m')" "arbo_laws (me_census M)"
  obtains d where "CensusTree_Root (me_census M) tr (m_store m) = Ok (ar_Root resp)"
    "ce_Dump (me_census M) (ct_leaves tr (m_store m)) = Ok d"
    "publish_local P M r (str (hex (ar_Root resp))) (ct_censusType tr) d m = (Ok (), m')"
proof -
  obtain root snap d cid where r: "CensusTree_Root (me_census M) tr (m_store m) = Ok root"
    and s: "FromRoot (me_census M) root tr = Ok snap" and d: "CensusTree_Dump (me_census M) snap (m_store m) = Ok d"
    and p: "publish_local P M r (str (hex root)) (ct_censusType tr) d m = (Ok (), m')"
    and resp: "resp = resp0\<lparr>ar_URI := me_URIprefix M @ cid, ar_Root := root\<rparr>"
    using assms(1) by (auto simp: h_publish_def and_then_Ok with_res_Ok split: if_splits)
  have "ce_Snapshot (me_census M) (ct_censusType tr) root = Ok (ct_leaves tr (m_store m))"
    using r assms(2) by (simp add: CensusTree_Root_def arbo_laws_def)
  then have "ct_leaves snap (m_store m) = ct_leaves tr (m_store m)" using s by (auto simp: FromRoot_def ct_leaves_def)
  then show thesis using that r d p resp by (simp add: CensusTree_Dump_def)
qed

lemma publish_local_Ok:
  assumes p: "publish_local P M r name ty d m = (Ok (), m')" and new: "\<not> Exists name m"
    and ty: "ty = Census_ARBO_BLAKE2B \<or> ty = Census_ARBO_POSEIDON" and save: "\<And>nss. me_save M nss = Ok ()"
    and z: "arbo_BytesToBigInt P [] = 0"
  obtains t m1 where "AddNamespace P M name ty (r_PubKeys r) m = (Ok t, m1)"
    "CensusTree_ImportDump P (me_census M) d t (m_store m1) = (Ok (), m_store m')"
    "map_of (m_Trees m') name = Some (Publish t)" "m_Namespaces m' = m_Namespaces m1"
proof -
  obtain t c where n: "New_Census P (me_census M) (census_tx name) ty False (m_store m) = (Ok t, c)"
    using New_ok [OF ty z] by blast
  then obtain m1 where a: "AddNamespace P M name ty (r_PubKeys r) m = (Ok t, m1)"
    using new save by (simp add: AddNamespace_def on_store_def Let_def save_def)
  obtain b m2 where b: "on_store (CensusTree_ImportDump P (me_census M) d t) m1 = (b, m2)" by force
  have "b = Ok () \<and> m' = set_tree name (Publish t) m2"
    using p a b by (cases b) (auto simp: publish_local_def)
  then show thesis using that a on_store_sel [OF b] by simp
qed

text \<open>C36. Publishing a census makes a census named by its root, public, with the same leaves and with the sum of
  their weights as its weight, when the name is free and nothing is stored under it.\<close>

theorem published_census_same:
  fixes m cid
  defines "l \<equiv> cs_leaves (m_store m) cid"
  assumes "Manager_Handler P M r p m = (Ok resp, m')" "r_Method r = ''publish''" "r_RootHash r = []" "TrimHex (r_CensusID r) = cid"
    and "trees_ok m" "map_of (m_Trees m) cid = Some tr"
    and "ct_censusType tr = Census_ARBO_BLAKE2B \<or> ct_censusType tr = Census_ARBO_POSEIDON"
    and "name = str (hex (ar_Root resp))" "\<not> Exists name m"
    and "cs_leaves (m_store m) name = []" "look_tx (census_tx name, cs_db (m_store m)) = Map.empty"
    and "\<And>nss. me_save M nss = Ok ()" "arbo_laws (me_census M)" "codec P (ce_HashLen (me_census M) (ct_censusType tr))"
    and "total_weight P l < 256 ^ ce_HashLen (me_census M) (ct_censusType tr)"
  shows "ce_Root (me_census M) (ct_censusType tr) l = Ok (ar_Root resp) \<and> Exists name m' \<and>
    (\<exists>t. map_of (m_Trees m') name = Some t \<and> IsPublic t \<and> ct_leaves t (m_store m') = l \<and>
         GetCensusWeight P t (m_store m') = Ok (total_weight P l))"
proof -
  let ?E = "me_census M" and ?ty = "ct_censusType tr"
  have z: "arbo_BytesToBigInt P [] = 0" using assms(15) by (simp add: codec_def)
  have tr: "ct_leaves tr (m_store m) = l" using assms(6,7) leaves_path [of tr cid] by (auto simp: trees_ok_def l_def)
  have "\<exists>r' v. h_publish P M r' v tr m = (Ok resp, m')"
    using assms(2-5,7) by (auto simp: Manager_Handler_def h_rooted_def Let_def split: if_splits)
  then obtain r' d where rt: "CensusTree_Root ?E tr (m_store m) = Ok (ar_Root resp)" and d: "ce_Dump ?E l = Ok d"
    and pl: "publish_local P M r' name ?ty d m = (Ok (), m')"
    using h_publish_Ok [OF _ assms(14)] tr assms(9) by metis
  obtain t m1 where a: "AddNamespace P M name ?ty (r_PubKeys r') m = (Ok t, m1)"
    and i: "CensusTree_ImportDump P ?E d t (m_store m1) = (Ok (), m_store m')"
    and t': "map_of (m_Trees m') name = Some (Publish t)" "m_Namespaces m' = m_Namespaces m1"
    by (rule publish_local_Ok [OF pl assms(10,8,13) z])
  note A = AddNamespace_Ok [OF a]
  have N: "fresh t \<and> ct_hashLen t = ce_HashLen ?E ?ty \<and> \<not> ct_indexAsKeys t \<and>
      look_tx (census_tx name, cs_db (m_store m1)) censusWeightKey = None"
    using New_outcome [of P ?E "census_tx name" ?ty False "m_store m" t "m_store m1"] A z assms(12) by (simp add: Let_def)
  have "cs_leaves (m_store m1) name = []" using A assms(11) by simp
  then have l': "cs_leaves (m_store m') name = l"
    using ImportDump_Ok [OF i, of name] A d assms(14) by (auto simp: arbo_laws_def)
  then have lt: "ct_leaves t (m_store m') = l" using A leaves_path by simp
  have w: "weight_of P (look_tx (ct_begin t (m_store m1))) = 0" using N A z by (simp add: ct_begin_def)
  obtain l2 s where "m_store m' = ct_commit t l2 s (m_store m1)" "evolve 1 (ct_begin t (m_store m1)) s"
    "look_tx s = (look_tx (ct_begin t (m_store m1)))(censusWeightKey \<mapsto> arbo_BigIntToBytes P (ct_hashLen t)
       (weight_of P (look_tx (ct_begin t (m_store m1))) +
        arbo_BytesToBigInt P (arbo_BigIntToBytes P (ct_hashLen t) (total_weight P l2))))"
    by (rule import_weighted [OF i]) (use N A in auto)
  moreover from this have "l2 = l" using lt A by simp
  ultimately have "GetCensusWeight P t (m_store m') = Ok (total_weight P l)"
    using census_look_commit [of t 1 "m_store m1" s l] N w assms(15,16)
    by (simp add: GetCensusWeight_look [OF z] codec_def)
  moreover have "GetCensusWeight P (Publish t) c = GetCensusWeight P t c" for c
    by (simp add: GetCensusWeight_def ct_begin_def)
  ultimately show ?thesis
    using rt tr t' A lt by (simp add: CensusTree_Root_def Exists_def ct_leaves_def)
qed

section \<open>A concrete manager\<close>

text \<open>Trees of at most one leaf, whose key and value are one byte: root and dump spell the leaf.\<close>

fun spell :: "bytes tree \<Rightarrow> bytes res" where
  "spell [] = Ok []"
| "spell [([a], [b])] = Ok [a, b]"
| "spell l = Fail (Errf ''not a small tree'')"

fun unspell :: "bytes \<Rightarrow> bytes tree res" where
  "unspell [] = Ok []"
| "unspell [a, b] = Ok [([a], [b])]"
| "unspell r = Fail (Errf ''not a small tree'')"

definition census_env1 :: census_env where
  "census_env1 = census_env0\<lparr>ce_Root := (\<lambda>ty. spell), ce_Snapshot := (\<lambda>ty. unspell), ce_Dump := spell,
     ce_ImportDump := (\<lambda>ty d l. rbind (unspell d) (\<lambda>l'. Ok (l @ l')))\<rparr>"

definition manager_env1 :: manager_env where
  "manager_env1 = \<lparr>me_census = census_env1, me_save = (\<lambda>nss. Ok ()), me_RemoteStorage = True, me_URIprefix = [],
     me_Retrieve = (\<lambda>u. Fail (Errf ''no storage'')), me_IsTimeout = (\<lambda>e. False), me_Publish = (\<lambda>b. Ok b),
     me_DecodeAll = Some, me_EncodeAll = (\<lambda>b. b),
     me_UnmarshalDump = (\<lambda>b. Some \<lparr>cd_Type = Census_ARBO_BLAKE2B, cd_RootHash = b, cd_Data = b\<rparr>),
     me_MarshalDump = (\<lambda>d. Ok (cd_Data d))\<rparr>"

definition manager1 :: Manager where
  "manager1 = \<lparr>m_store = \<lparr>cs_db = [], cs_leaves = (\<lambda>n. if n = [99] then [([7], [5])] else [])\<rparr>,
     m_Namespaces = [\<lparr>ns_Type = Census_ARBO_BLAKE2B, ns_Name = [99], ns_Keys = [], ns_Version = 1\<rparr>],
     m_Trees = [([99], Publish (tree0 False\<lparr>ct_newTx := census_tx [99]\<rparr>))], m_failedQueue = [], m_queueSize = 0\<rparr>"

definition request1 :: "string \<Rightarrow> APIrequest" where
  "request1 meth = \<lparr>r_Method = meth, r_CensusID = [99], r_CensusType = Census_UNKNOWN, r_PubKeys = [],
     r_CensusKeys = [], r_CensusKey = Some [8], r_CensusValue = None, r_Weights = [], r_Weight = Some 3,
     r_Digested = True, r_RootHash = [], r_CensusDump = [], r_URI = [], r_ProofData = []\<rparr>"

lemma unspell_spell: "spell l = Ok r \<Longrightarrow> unspell r = Ok l"
  by (induction l rule: spell.induct) auto

lemma env1_sel [simp]:
  "me_census manager_env1 = census_env1" "me_save manager_env1 nss = Ok ()" "ce_HashLen census_env1 ty = 32"
  "ce_Root census_env1 ty = spell" "ce_Dump census_env1 = spell" "ce_Snapshot census_env1 ty = unspell"
  "ce_ImportDump census_env1 ty d l = rbind (unspell d) (\<lambda>l'. Ok (l @ l'))"
  by (simp_all add: manager_env1_def census_env1_def census_env0_def)

lemma arbo_laws_env1: "arbo_laws census_env1"
  by (auto simp: arbo_laws_def dest!: unspell_spell)

lemma own_errors_env1: "own_errors manager_env1"
proof -
  have "\<not> errors_is e ErrNamespaceExist" if "spell l = Fail e" for l e
    using that by (induction l rule: spell.induct) (auto simp: ErrNamespaceExist_def)
  moreover have "\<not> errors_is e ErrNamespaceExist" if "unspell r = Fail e" for r e
    using that by (induction r rule: unspell.induct) (auto simp: ErrNamespaceExist_def)
  moreover have "unspell d = Fail e" if "rbind (unspell d) (\<lambda>l'. Ok (l @ l')) = Fail e" for d l e
    using that by (cases "unspell d") auto
  ultimately show ?thesis unfolding own_errors_def by (simp, blast)
qed

lemma manager1_sel [simp]:
  "trees_ok manager1" "Exists n manager1 \<longleftrightarrow> n = [99]"
  "cs_leaves (m_store manager1) n = (if n = [99] then [([7], [5])] else [])"
  "look_tx (census_tx n, cs_db (m_store manager1)) = Map.empty"
  "map_of (m_Trees manager1) [99] = Some (Publish (tree0 False\<lparr>ct_newTx := census_tx [99]\<rparr>))"
  by (auto simp: trees_ok_def manager1_def Exists_def look_tx_def tx_view_def)


theorem refused_dump_stays_witness:
  "\<exists>e m'. Manager_ImportDump params0 manager_env1 [50] Census_ARBO_BLAKE2B [1, 1] [7, 5] manager1 = (Fail e, m') \<and>
     \<not> Exists [50] m' \<and> cs_leaves (m_store m') [50] = [([7], [5])]"
  using refused_dump_stays [of "[50]" manager1 Census_ARBO_BLAKE2B manager_env1 params0 "[7, 5]" "[([7], [5])]" "[7, 5]" "[1, 1]"]
  by (simp, blast)

lemma Manager_ImportDump_succeeds:
  assumes "\<not> Exists cid m" "ty = Census_ARBO_BLAKE2B \<or> ty = Census_ARBO_POSEIDON"
    and "\<And>nss. me_save M nss = Ok ()" "arbo_BytesToBigInt P [] = 0"
    and "ce_ImportDump (me_census M) ty dat (cs_leaves (m_store m) cid) = Ok l" "ce_Root (me_census M) ty l = Ok dumpRoot"
  shows "\<exists>t m'. Manager_ImportDump P M cid ty dumpRoot dat m = (Ok t, m')"
proof -
  obtain t c where n: "New_Census P (me_census M) (census_tx cid) ty False (m_store m) = (Ok t, c)"
    using New_ok [OF assms(2,4)] by blast
  then obtain m1 where a: "AddNamespace P M cid ty [] m = (Ok t, m1)"
    using assms(1,3) by (simp add: AddNamespace_def on_store_def Let_def save_def)
  note A = AddNamespace_Ok [OF a]
  have tr: "fresh t" "ct_snapshot t = None" using A by (auto simp: fresh_def)
  have il: "ce_ImportDump (me_census M) (ct_censusType t) dat (ct_leaves t (m_store m1)) = Ok l"
    using A assms(5) leaves_path [of t cid] by simp
  obtain c2 where i: "CensusTree_ImportDump P (me_census M) dat t (m_store m1) = (Ok (), c2)"
    using ImportDump_ok [OF tr assms(4) il] by blast
  let ?m2 = "m1\<lparr>m_store := c2\<rparr>"
  have s: "on_store (CensusTree_ImportDump P (me_census M) dat t) m1 = (Ok (), ?m2)" by (simp add: on_store_def i)
  have "cs_leaves c2 cid = l" using ImportDump_Ok [OF i, of cid] A assms(5) by simp
  then have r: "CensusTree_Root (me_census M) t c2 = Ok dumpRoot"
    using A assms(6) by (simp add: CensusTree_Root_def leaves_path [of t cid])
  obtain m3 where "index_imported P cid ty t ?m2 = (Ok (), m3)" using index_imported_ok by blast
  then show ?thesis using a s r by (simp add: Manager_ImportDump_def wrap_st_def)
qed

theorem imported_census_verified_witness:
  "\<exists>m' t. importTree params0 manager_env1 [7, 5] (str ''0x0705'') manager1 = (Ok (), m') \<and>
     map_of (m_Trees m') (str ''0x0705'') = Some t \<and> CensusTree_Root census_env1 t (m_store m') = Ok [7, 5]"
proof -
  have h: "str (hex [7, 5]) = TrimHex (str ''0x0705'')" by code_simp
  have n: "str ''0x0705'' \<noteq> [99]" by code_simp
  obtain t m' where i: "Manager_ImportDump params0 manager_env1 (str ''0x0705'') Census_ARBO_BLAKE2B [7, 5] [7, 5] manager1 = (Ok t, m')"
    using Manager_ImportDump_succeeds [of "str ''0x0705''" manager1 Census_ARBO_BLAKE2B manager_env1 params0 "[7, 5]" "[([7], [5])]" "[7, 5]"] n
    by auto
  have "importTree params0 manager_env1 [7, 5] (str ''0x0705'') manager1 = (Ok (), m')"
    by (simp add: importTree_def manager_env1_def h) (use i in \<open>simp add: manager_env1_def\<close>)
  moreover from imported_census_verified [OF this _ own_errors_env1] n
  obtain t' root where "map_of (m_Trees m') (str ''0x0705'') = Some t'"
    "CensusTree_Root census_env1 t' (m_store m') = Ok root" "str (hex root) = TrimHex (str ''0x0705'')" by auto
  moreover have "map_of (m_Trees m') (str ''0x0705'') = Some t \<and> CensusTree_Root census_env1 t (m_store m') = Ok [7, 5]"
    using Manager_ImportDump_Ok [OF i] by simp
  ultimately show ?thesis by auto
qed

theorem published_census_same_witness:
  "\<exists>resp m' t. Manager_Handler params0 manager_env1 (request1 ''publish'') [99] manager1 = (Ok resp, m') \<and>
     map_of (m_Trees m') (str ''0705'') = Some t \<and> ct_leaves t (m_store m') = [([7], [5])] \<and>
     GetCensusWeight params0 t (m_store m') = Ok 5"
proof -
  let ?tr = "Publish (tree0 False\<lparr>ct_newTx := census_tx [99]\<rparr>)" and ?n = "str ''0705''"
  have h: "str (hex [7, 5]) = ?n" and n: "?n \<noteq> [99]" by code_simp+
  have tr: "ct_leaves ?tr (m_store manager1) = [([7], [5])]" "ct_censusType ?tr = Census_ARBO_BLAKE2B"
    by (simp_all add: ct_leaves_def)
  obtain t c where nw: "New_Census params0 census_env1 (census_tx ?n) Census_ARBO_BLAKE2B False (m_store manager1) = (Ok t, c)"
    using New_ok [of Census_ARBO_BLAKE2B params0 census_env1 ?n "m_store manager1"] by auto
  then obtain m1 where a: "AddNamespace params0 manager_env1 ?n Census_ARBO_BLAKE2B [] manager1 = (Ok t, m1)"
    using n by (simp add: AddNamespace_def on_store_def Let_def save_def)
  note A = AddNamespace_Ok [OF a]
  obtain c2 where i: "CensusTree_ImportDump params0 census_env1 [7, 5] t (m_store m1) = (Ok (), c2)"
    using ImportDump_ok [of t params0 census_env1 "[7, 5]" "m_store m1" "[([7], [5])]"] A n leaves_path [of t ?n]
    by (auto simp: fresh_def)
  let ?m' = "set_tree ?n (Publish t) (m1\<lparr>m_store := c2\<rparr>)"
  let ?resp = "resp0\<lparr>ar_URI := [7, 5], ar_Root := [7, 5]\<rparr>"
  have "publish_local params0 manager_env1 (request1 ''publish'') ?n Census_ARBO_BLAKE2B [7, 5] manager1 = (Ok (), ?m')"
    using a i by (simp add: publish_local_def request1_def on_store_def)
  then have "h_publish params0 manager_env1 (request1 ''publish'') True ?tr manager1 = (Ok ?resp, ?m')"
    using tr h
    by (simp add: h_publish_def CensusTree_Root_def FromRoot_def CensusTree_Dump_def ct_leaves_def)
      (simp add: manager_env1_def)
  moreover have "request1 x\<lparr>r_CensusID := [99]\<rparr> = request1 x" "TrimHex [99] = [99]" for x
    by (simp_all add: request1_def TrimHex_def)
  ultimately have H: "Manager_Handler params0 manager_env1 (request1 ''publish'') [99] manager1 = (Ok ?resp, ?m')"
    by (simp add: Manager_Handler_def Let_def) (simp add: request1_def h_rooted_def)
  from published_census_same [OF H _ _ _ manager1_sel(1), of "[99]" ?tr ?n] H
  show ?thesis using h n arbo_laws_env1 by (simp add: request1_def TrimHex_def)
qed

section \<open>Well-formed managers\<close>

definition manager_wf :: "Manager \<Rightarrow> bool" where
  "manager_wf m = (trees_ok m \<and> distinct (map ns_Name (m_Namespaces m)))"

lemma wf_with_res: "manager_wf m \<Longrightarrow> (\<And>a. manager_wf (snd (k a))) \<Longrightarrow> manager_wf (snd (with_res r m k))"
  by (cases r) auto

lemma wf_and_then:
  "manager_wf (snd x) \<Longrightarrow> (\<And>a m1. x = (Ok a, m1) \<Longrightarrow> manager_wf m1 \<Longrightarrow> manager_wf (snd (k a m1))) \<Longrightarrow>
     manager_wf (snd (and_then x k))"
  by (cases x; cases "fst x") auto

lemma wf_hide: "manager_wf (snd x) \<Longrightarrow> manager_wf (snd (hide_st s x))"
  by (simp add: hide_st_def)

lemma wf_wrap: "manager_wf (snd x) \<Longrightarrow> manager_wf (snd (wrap_st s x))"
  by (simp add: wrap_st_def)

lemma wf_logged: "manager_wf (snd x) \<Longrightarrow> manager_wf (snd (logged x))"
  by (cases x; cases "fst x") auto

lemma wf_store: "manager_wf m \<Longrightarrow> manager_wf (snd (on_store f m))"
  by (simp add: on_store_def Let_def manager_wf_def split: prod.split)

lemma wf_root: "manager_wf m \<Longrightarrow> manager_wf (snd (with_root M tr resp m))"
  by (cases "CensusTree_Root (me_census M) tr (m_store m)") (auto simp: with_root_def)

lemma wf_queues [simp]:
  "manager_wf (m\<lparr>m_failedQueue := q\<rparr>) = manager_wf m" "manager_wf (m\<lparr>m_queueSize := s\<rparr>) = manager_wf m"
  by (simp_all add: manager_wf_def trees_ok_def)

lemma wf_set_tree:
  "manager_wf m \<Longrightarrow> ct_newTx t = census_tx name \<Longrightarrow> ct_snapshot t = None \<Longrightarrow> manager_wf (set_tree name t m)"
  by (simp add: manager_wf_def trees_ok_def)

lemma wf_AddNamespace: "manager_wf m \<Longrightarrow> manager_wf (snd (AddNamespace P M name ty keys m))"
proof -
  assume wf: "manager_wf m"
  obtain r m' where a: "AddNamespace P M name ty keys m = (r, m')" by force
  have t: "trees_ok m'" using AddNamespace_frame [OF a, of "{}"] wf by (simp add: frame_def manager_wf_def)
  from a have "distinct (map ns_Name (m_Namespaces m'))"
  proof (cases rule: AddNamespace_outcome)
    case (refused r' m1)
    then show ?thesis using wf on_store_sel [OF refused(2)] by (simp add: manager_wf_def)
  next
    case (added t m1)
    then show ?thesis using wf on_store_sel [OF added(2)] by (auto simp: manager_wf_def Exists_iff)
  qed (use wf in \<open>simp add: manager_wf_def\<close>)
  with t a show ?thesis by (simp add: manager_wf_def)
qed

lemma del_namespace_distinct:
  "distinct (map ns_Name nss) \<Longrightarrow> distinct (map ns_Name (del_namespace name nss)) \<and> set (del_namespace name nss) \<subseteq> set nss"
  by (induction nss) auto

lemma wf_DelNamespace: "manager_wf m \<Longrightarrow> manager_wf (snd (DelNamespace M name m))"
  using del_namespace_distinct by (simp add: DelNamespace_def Let_def manager_wf_def)

lemmas wf_intros = wf_with_res wf_and_then wf_hide wf_wrap wf_logged wf_store wf_root wf_AddNamespace wf_DelNamespace

lemma AddNamespace_tree: "AddNamespace P M name ty keys m = (Ok t, m1) \<Longrightarrow> ct_newTx t = census_tx name \<and> ct_snapshot t = None"
  using AddNamespace_Ok by blast

lemma wf_ImportDump: "manager_wf m \<Longrightarrow> manager_wf (snd (Manager_ImportDump P M cid ty root dat m))"
  unfolding Manager_ImportDump_def index_imported_def
  by (auto intro!: wf_intros wf_set_tree simp: wrap_st_Ok dest!: AddNamespace_tree split: if_split)

lemma wf_importTree: "manager_wf m \<Longrightarrow> manager_wf (snd (importTree P M raw cid m))"
proof -
  assume "manager_wf m"
  then have "manager_wf (snd (Manager_ImportDump P M cid ty root dat m))" for ty root dat by (rule wf_ImportDump)
  then have i: "manager_wf m'" if "Manager_ImportDump P M cid ty root dat m = (r, m')" for ty root dat r m'
    using that by (metis snd_conv)
  show ?thesis using \<open>manager_wf m\<close>
    unfolding importTree_def by (auto split: option.split prod.split res.split dest: i)
qed

lemma wf_handleImport: "manager_wf m \<Longrightarrow> manager_wf (snd (handleImport P M cid uri m))"
  unfolding handleImport_def Let_def by (auto split: res.split intro!: wf_intros wf_importTree)

lemma wf_retry: "manager_wf m \<Longrightarrow> manager_wf (snd (retry_imports P M fq m))"
proof (induction fq arbitrary: m)
  case (Cons e fq)
  obtain cid uri where e: "e = (cid, uri)" by force
  show ?case
  proof (cases "Retrieve_uri M uri")
    case (Ok raw)
    have "manager_wf (snd (logged (importTree P M (decompressBytes M raw) cid m)))"
      by (intro wf_logged wf_importTree Cons.prems)
    then show ?thesis unfolding e retry_imports.simps Ok res.case by (rule wf_and_then) (simp add: Cons.IH)
  qed (use Cons e in simp_all)
qed simp

lemma wf_LoadTree: "manager_wf m \<Longrightarrow> manager_wf (snd (LoadTree P M name ty m))"
  unfolding LoadTree_def by (auto split: option.split intro!: wf_intros wf_set_tree dest!: New_on_store)

lemma wf_UnloadTree: "manager_wf m \<Longrightarrow> manager_wf (UnloadTree name m)"
  by (auto simp: UnloadTree_def manager_wf_def trees_ok_def delete_conv' split: if_splits)

lemma wf_publish_local: "manager_wf m \<Longrightarrow> manager_wf (snd (publish_local P M r name ty dat m))"
proof -
  assume wf: "manager_wf m"
  obtain a m1 where a: "AddNamespace P M name ty (r_PubKeys r) m = (a, m1)" by force
  have m1: "manager_wf m1" using wf_AddNamespace [OF wf, of P M name ty "r_PubKeys r"] a by simp
  show ?thesis
  proof (cases a)
    case (Ok tr)
    obtain b m2 where b: "on_store (CensusTree_ImportDump P (me_census M) dat tr) m1 = (b, m2)" by force
    then have "manager_wf m2" using wf_store [OF m1] by (metis snd_conv)
    then show ?thesis using a b Ok AddNamespace_tree [of P M name ty "r_PubKeys r" m tr m1]
      by (cases b) (auto simp: publish_local_def intro!: wf_set_tree wf_DelNamespace)
  qed (use a m1 in \<open>auto simp: publish_local_def\<close>)
qed

lemma wf_Handler: "manager_wf m \<Longrightarrow> manager_wf (snd (Manager_Handler P M r p m))"
proof -
  assume wf: "manager_wf m"
  have "manager_wf (snd (h_addCensus P M r' p m))" for r'
    using wf unfolding h_addCensus_def Let_def by (auto intro!: wf_intros wf_set_tree dest!: AddNamespace_tree)
  moreover have "manager_wf (snd (h_addClaimBulk P M r' v tr m))" "manager_wf (snd (h_addClaim P M r' v tr m))"
    "manager_wf (snd (h_importDump P M r' v tr m))" "manager_wf (snd (h_importRemote P M r' v tr m))"
    "manager_wf (snd (h_publish P M r' v tr m))" for r' v tr
    using wf by (auto simp: h_addClaimBulk_def h_addClaim_def h_importDump_def h_importRemote_def h_publish_def Let_def
        intro!: wf_intros wf_publish_local split: option.split)
  moreover from this have "manager_wf (snd (h_rooted P M r' v tr m))" for r' v tr
    using wf unfolding h_rooted_def by (intro wf_with_res) auto
  moreover have "manager_wf (snd (with_root M tr resp m))" for tr resp using wf by (rule wf_root)
  ultimately show ?thesis using wf by (auto simp: Manager_Handler_def Let_def split: option.split)
qed

text \<open>C37. Every operation of the manager keeps it well formed: each tree is the one of its name and no two
  namespaces share a name.\<close>

theorem manager_well_formed:
  assumes "manager_wf m"
  shows "manager_wf (snd (Manager_Handler P M r p m)) \<and> manager_wf (snd (handleImport P M cid uri m)) \<and>
         manager_wf (snd (handleImportFailedQueue P M m)) \<and> manager_wf (snd (LoadTree P M name ty m)) \<and>
         manager_wf (UnloadTree name m) \<and> manager_wf (snd (AddNamespace P M name ty keys m)) \<and>
         manager_wf (snd (DelNamespace M name m))"
  using wf_Handler [OF assms] wf_handleImport [OF assms] wf_retry [OF assms] wf_LoadTree [OF assms]
    wf_UnloadTree [OF assms] wf_AddNamespace [OF assms] wf_DelNamespace [OF assms]
  by (simp add: handleImportFailedQueue_def)

theorem manager_well_formed_witness:
  "manager_wf (snd (Manager_Handler params0 manager_env1 (request1 ''publish'') [99] manager1))"
proof -
  have "manager_wf manager1" by (simp add: manager_wf_def) (simp add: manager1_def)
  from manager_well_formed [OF this] show ?thesis by blast
qed

text \<open>Asking for a proof under an older root with a key that is still to be hashed panics: the snapshot of the
  tree has no hash function.\<close>

theorem proof_at_root_panics:
  assumes "r_Method r = ''genProof''" "1 < length (r_RootHash r)" "\<not> r_Digested r"
    and "Exists (TrimHex (r_CensusID r)) m" "map_of (m_Trees m) (TrimHex (r_CensusID r)) = Some tr" "IsPublic tr"
    and "ce_Snapshot (me_census M) (ct_censusType tr) (r_RootHash r) = Ok l"
  shows "\<exists>x. Manager_Handler P M r p m = (Panic x, m)"
  using assms
  by (simp add: Manager_Handler_def h_rooted_def h_genProof_def digest_def FromRoot_def CensusTree_Hash_def Let_def)

theorem proof_at_root_panics_witness:
  "\<exists>x. Manager_Handler params0 manager_env1 (request1 ''genProof''\<lparr>r_RootHash := [7, 5], r_Digested := False\<rparr>) [] manager1 =
     (Panic x, manager1)"
  by (rule proof_at_root_panics [where l = "[([7], [5])]" and tr = "Publish (tree0 False\<lparr>ct_newTx := census_tx [99]\<rparr>)"]) (simp_all add: request1_def TrimHex_def)

end
